(* ===== verification/Zem_Prelude.thy ===== *)
theory Zem_Prelude
  imports Main "HOL-Library.Word" "HOL-Library.Sublist"
begin

text \<open>
  Shared vocabulary of the development: the machine types of the C++ code (an x86-64 Linux
  build: \<^verbatim>\<open>std::size_t\<close> and \<^verbatim>\<open>unsigned long\<close> are 64 bits wide), big-endian readings of byte
  strings, and the generic facts on words, lists and prefixes the components use.

  The collections: \<open>width_simps\<close> evaluates word widths, \<open>byte_simps\<close> rewrites byte strings to
  numbers.
\<close>

unbundle bit_operations_syntax

named_theorems width_simps "evaluation of word widths"
named_theorems byte_simps "byte strings as numbers"

type_synonym byte = "8 word"
type_synonym u8 = "8 word"
type_synonym u16 = "16 word"
type_synonym u32 = "32 word"
type_synonym u64 = "64 word"
type_synonym size_t = "64 word"

text \<open>\<^verbatim>\<open>sizeof(T)\<close> of an unsigned integer type, in bytes.\<close>

abbreviation byte_width :: "'a::len itself \<Rightarrow> nat" where
  "byte_width _ \<equiv> LENGTH('a) div 8"

section \<open>Big-endian numbers\<close>

text \<open>The number a byte string denotes in network byte order, most significant byte first.\<close>

fun be_nat_from :: "nat \<Rightarrow> byte list \<Rightarrow> nat" where
  "be_nat_from a [] = a"
| "be_nat_from a (b # bs) = be_nat_from (a * 256 + unat b) bs"

abbreviation be_nat :: "byte list \<Rightarrow> nat" where
  "be_nat \<equiv> be_nat_from 0"

lemma be_nat_from_append [simp]:
  "be_nat_from a (xs @ ys) = be_nat_from (be_nat_from a xs) ys"
  by (induction xs arbitrary: a) auto

lemma unat_byte_less [simp]: "unat (b :: byte) < 256"
  using unsigned_less [of b] by simp

text \<open>The base-256 digits of \<open>x\<close>, \<open>n\<close> of them, most significant first.\<close>

definition be_digits :: "nat \<Rightarrow> nat \<Rightarrow> byte list" where
  "be_digits n x = map (\<lambda>i. of_nat (x div 256 ^ (n - 1 - i))) [0..<n]"

lemma length_be_digits [simp]: "length (be_digits n x) = n"
  by (simp add: be_digits_def)

lemma be_digits_Suc: "be_digits (Suc n) x = be_digits n (x div 256) @ [of_nat x]"
proof -
  have "x div 256 ^ (n - i) = x div 256 div 256 ^ (n - Suc i)" if "i < n" for i
  proof -
    have "(256::nat) ^ (n - i) = 256 * 256 ^ (n - Suc i)"
      using that by (metis Suc_diff_Suc power_Suc)
    then show ?thesis by (simp add: div_mult2_eq)
  qed
  then show ?thesis
    by (simp add: be_digits_def)
qed

lemma be_nat_be_digits [byte_simps]: "be_nat (be_digits n x) = x mod 256 ^ n"
proof (induction n arbitrary: x)
  case 0
  then show ?case by (simp add: be_digits_def)
next
  case (Suc n)
  have "(x div 256) mod 256 ^ n * 256 + x mod 256 = x mod 256 ^ Suc n"
    by (simp add: mod_mult2_eq mult.commute)
  then show ?case
    by (simp add: be_digits_Suc Suc unat_of_nat)
qed

lemma be_nat_from_add: "be_nat_from a bs = a * 256 ^ length bs + be_nat bs"
proof (induction bs arbitrary: a)
  case Nil
  then show ?case by simp
next
  case (Cons b bs)
  show ?case
    using Cons [of "a * 256 + unat b"] Cons [of "unat b"]
    by (simp add: algebra_simps)
qed

lemma be_nat_less: "be_nat bs < 256 ^ length bs"
proof (induction bs rule: rev_induct)
  case Nil
  then show ?case by simp
next
  case (snoc b bs)
  have "be_nat bs * 256 + unat b < Suc (be_nat bs) * 256"
    using unat_byte_less [of b] by simp
  also have "\<dots> \<le> 256 ^ length bs * 256"
    using snoc by (metis Suc_leI mult_le_mono1)
  finally show ?case by simp
qed

lemma be_nat_inject:
  assumes "length xs = length ys" and "be_nat xs = be_nat ys"
  shows "xs = ys"
  using assms
proof (induction xs arbitrary: ys rule: rev_induct)
  case Nil
  then show ?case by simp
next
  case (snoc x xs)
  then obtain y ys' where ys: "ys = ys' @ [y]"
    by (metis append_is_Nil_conv length_0_conv list.distinct(1) rev_exhaust)
  have eq: "be_nat xs * 256 + unat x = be_nat ys' * 256 + unat y"
    using snoc.prems(2) by (simp add: ys)
  then have "(be_nat xs * 256 + unat x) mod 256 = (be_nat ys' * 256 + unat y) mod 256"
    by simp
  then have "unat x = unat y"
    by (simp add: mod_mult_self3)
  moreover from this eq have "be_nat xs = be_nat ys'" by simp
  moreover have "length xs = length ys'" using snoc.prems(1) by (simp add: ys)
  ultimately show ?case using snoc.IH by (simp add: ys word_unat_eq_iff)
qed

lemma be_digits_be_nat: "length bs = n \<Longrightarrow> be_digits n (be_nat bs) = bs"
  by (rule be_nat_inject) (use be_nat_less [of bs] in \<open>simp_all add: byte_simps\<close>)

section \<open>Words\<close>

lemma push_bit_8_or: "push_bit 8 v OR (ucast (b :: byte) :: 'a::len word) = v * 256 + ucast b"
proof -
  have "push_bit 8 v + (ucast b :: 'a word) = push_bit 8 v OR ucast b"
    by (rule disjunctive_add)
      (auto simp: bit_push_bit_iff bit_ucast_iff dest: bit_imp_le_length)
  then show ?thesis
    by (simp add: push_bit_eq_mult)
qed

lemma ucast_of_nat_unat: "(ucast (w :: 'b::len word) :: 'a::len word) = of_nat (unat w)"
  by simp

text \<open>The byte that the code takes with a shift and a mask is a base-256 digit.\<close>

lemma ucast_shift_mask:
  "(ucast (drop_bit (8 * k) (v :: 'a::len word) AND 0xFF) :: byte) = of_nat (unat v div 256 ^ k)"
proof -
  have "ucast (w AND 0xFF) = (ucast w :: byte)" for w :: "'a word"
  proof -
    have m: "(0xFF :: 'a word) = mask 8"
      by (simp add: mask_eq_exp_minus_1)
    show ?thesis
      unfolding m by (rule bit_word_eqI)
        (auto simp: bit_ucast_iff bit_and_iff bit_mask_iff simp del: mask_numeral mask_Suc_0
          intro: bit_imp_le_length)
  qed
  moreover have "unat (drop_bit (8 * k) v) = unat v div 256 ^ k"
    proof -
    have "unat (drop_bit (8 * k) v) = unat v div 2 ^ (8 * k)"
      by (rule unat_drop_bit_eq [of "8 * k" v, unfolded drop_bit_eq_div [where 'a = nat]])
    then show ?thesis
      by (simp add: power_mult)
  qed
  ultimately show ?thesis
    by (simp only: ucast_of_nat_unat)
qed

lemma unat_of_nat_small: "n < 2 ^ LENGTH('a) \<Longrightarrow> unat (of_nat n :: 'a::len word) = n"
  by (simp add: unat_of_nat)

lemma unat_of_nat_size [simp]: "n < 2 ^ 64 \<Longrightarrow> unat (of_nat n :: size_t) = n"
  by (rule unat_of_nat_small) simp

lemma unat_add_no_wrap:
  "unat (a :: 'a::len word) + unat b < 2 ^ LENGTH('a) \<Longrightarrow> unat (a + b) = unat a + unat b"
  by (simp add: unat_word_ariths)

section \<open>Lists and prefixes\<close>

lemma nth_drop_hd: "i < length xs \<Longrightarrow> drop i xs = xs ! i # drop (Suc i) xs"
  by (simp add: Cons_nth_drop_Suc)

lemma prefix_append_take: "prefix (xs @ take k ys) (xs @ ys @ zs)"
  by (metis append.assoc append_take_drop_id prefix_def same_prefix_prefix)

lemma take_take_drop_drop: "take m xs @ take n (drop m xs) @ drop (m + n) xs = xs"
  by (metis add.commute append_take_drop_id drop_drop)

lemma drop_eq_Cons_lt: "drop n xs = y # ys \<Longrightarrow> n < length xs"
  by (metis drop_all linorder_not_le list.distinct(1))

lemma sum_list_map_take_le:
  "sum_list (map f (take n xs)) \<le> (sum_list (map f xs) :: nat)"
  by (metis append_take_drop_id le_add1 map_append sum_list_append)

lemma sum_list_take_drop:
  "sum_list (map f (take n xs)) + sum_list (map f (drop n xs)) = (sum_list (map f xs) :: nat)"
  by (metis append_take_drop_id map_append sum_list_append)

end
