(* ===== verification/Byte_Codec.thy ===== *)
theory Byte_Codec
  imports Zem_Prelude
begin

text \<open>
  \<^verbatim>\<open>Protocol/Common/ByteCodec.hpp\<close>: the bounds-checked \<open>Reader\<close> over a received body and the
  appending \<open>Writer\<close>. Offsets and sizes are 64-bit words, so the unsigned subtraction and addition
  of \<open>CanRead\<close> wrap as they do in the code; templates over an integer type \<open>T\<close> are polymorphic in
  the word length, with \<^verbatim>\<open>std::unsigned_integral\<close> as the predicate \<open>unsigned_integral\<close>. A read
  returns its success flag and the value together, as an option, next to the new reader.
\<close>

section \<open>Types\<close>

text \<open>\<^verbatim>\<open>std::unsigned_integral\<close> together with \<^verbatim>\<open>Detail::UnsignedBySize\<close>: the widths the code has.\<close>

definition unsigned_integral :: "'a::len itself \<Rightarrow> bool" where
  "unsigned_integral _ \<longleftrightarrow> LENGTH('a) = 8 \<or> LENGTH('a) = 16 \<or> LENGTH('a) = 32 \<or> LENGTH('a) = 64"

lemma unsigned_integral_words [simp]:
  "unsigned_integral TYPE(8)" "unsigned_integral TYPE(16)"
  "unsigned_integral TYPE(32)" "unsigned_integral TYPE(64)"
  by (simp_all add: unsigned_integral_def)

lemma unsigned_integral_width:
  assumes "unsigned_integral TYPE('a::len)"
  shows "byte_width TYPE('a) * 8 = LENGTH('a)" and "1 \<le> byte_width TYPE('a)"
    and "byte_width TYPE('a) \<le> 8" and "LENGTH('a) \<le> 64"
  using assms by (auto simp: unsigned_integral_def)

record reader =
  payload :: "byte list"
  offset :: size_t

definition mk_reader :: "byte list \<Rightarrow> reader" where
  "mk_reader bs = \<lparr>payload = bs, offset = 0\<rparr>"

definition payload_size :: "reader \<Rightarrow> size_t" where
  "payload_size r = of_nat (length (payload r))"

section \<open>Reader operations\<close>

definition reader_empty :: "reader \<Rightarrow> bool" where
  "reader_empty r \<longleftrightarrow> offset r = payload_size r"

definition reader_remaining :: "reader \<Rightarrow> size_t" where
  "reader_remaining r = payload_size r - offset r"

definition can_read :: "reader \<Rightarrow> size_t \<Rightarrow> bool" where
  "can_read r n \<longleftrightarrow> offset r \<le> payload_size r \<and> payload_size r - offset r \<ge> n"

text \<open>The accumulating loop of \<open>ReadUnsigned\<close>; \<open>n\<close> is \<^verbatim>\<open>sizeof(T)\<close>.\<close>

function read_unsigned_loop :: "byte list \<Rightarrow> size_t \<Rightarrow> nat \<Rightarrow> nat \<Rightarrow> 'a::len word \<Rightarrow> 'a word" where
  "read_unsigned_loop p off i n v =
     (if i < n
      then read_unsigned_loop p off (Suc i) n (push_bit 8 v OR ucast (p ! unat (off + of_nat i)))
      else v)"
  by pat_completeness auto
termination
  by (relation "measure (\<lambda>(p, off, i, n, v). n - i)") auto

declare read_unsigned_loop.simps [simp del]

definition read_unsigned :: "reader \<Rightarrow> 'a::len word option \<times> reader" where
  "read_unsigned r =
     (let n = byte_width TYPE('a) in
      if \<not> can_read r (of_nat n) then (None, r)
      else (Some (read_unsigned_loop (payload r) (offset r) 0 n 0),
            r\<lparr>offset := offset r + of_nat n\<rparr>))"

text \<open>\<^verbatim>\<open>ReadLenPrefixedPayload\<close> for a span, a vector, a string view and a string.\<close>

definition read_span :: "size_t \<Rightarrow> reader \<Rightarrow> byte list option \<times> reader" where
  "read_span len r =
     (if \<not> can_read r len then (None, r)
      else (Some (take (unat len) (drop (unat (offset r)) (payload r))),
            r\<lparr>offset := offset r + len\<rparr>))"

definition read_vector :: "size_t \<Rightarrow> reader \<Rightarrow> byte list option \<times> reader" where
  "read_vector len r =
     (if \<not> can_read r len then (None, r)
      else (let first = unat (offset r); last = unat (offset r + len)
            in (Some (drop first (take last (payload r))), r\<lparr>offset := offset r + len\<rparr>)))"

definition read_string_view :: "size_t \<Rightarrow> reader \<Rightarrow> byte list option \<times> reader" where
  "read_string_view len r =
     (if \<not> can_read r len then (None, r)
      else (let ptr = drop (unat (offset r)) (payload r)
            in (Some (take (unat len) ptr), r\<lparr>offset := offset r + len\<rparr>)))"

definition read_string :: "size_t \<Rightarrow> reader \<Rightarrow> byte list option \<times> reader" where
  "read_string len r =
     (if \<not> can_read r len then (None, r)
      else (let ptr = drop (unat (offset r)) (payload r);
                tmp = take (unat len) ptr
            in (Some (take (length tmp) tmp), r\<lparr>offset := offset r + len\<rparr>)))"

text \<open>
  \<^verbatim>\<open>ReadLenPrefixed<LengthType>\<close>, over the overload chosen by the type of \<open>out\<close>. When the length
  field is read but the data is short, the call fails with the length already consumed.
\<close>

definition read_len_prefixed ::
  "'l::len itself \<Rightarrow> (size_t \<Rightarrow> reader \<Rightarrow> byte list option \<times> reader) \<Rightarrow> reader
    \<Rightarrow> byte list option \<times> reader" where
  "read_len_prefixed ty payload_of r =
     (case read_unsigned r of
        (None, r') \<Rightarrow> (None, r')
      | (Some len, r') \<Rightarrow>
          if byte_width TYPE('l) > 8 \<and> (len :: 'l word) > ucast (- 1 :: size_t) then (None, r')
          else payload_of (ucast len) r')"

text \<open>
  \<^verbatim>\<open>ReadPayload\<close> for integers and enums. A signed value is an \<open>int\<close>: \<^verbatim>\<open>std::bit_cast\<close> of its
  unsigned bits is \<open>sint\<close>. A floating-point value is its bit pattern, which is all \<^verbatim>\<open>bit_cast\<close>
  moves, and an enum value is its underlying word (\<^verbatim>\<open>static_cast\<close> does not check it).
\<close>

definition to_unsigned_bits :: "int \<Rightarrow> 'a::len word" where
  "to_unsigned_bits v = word_of_int v"

definition from_unsigned_bits :: "'a::len word \<Rightarrow> int" where
  "from_unsigned_bits raw = sint raw"

definition read_signed :: "'a::len itself \<Rightarrow> reader \<Rightarrow> int option \<times> reader" where
  "read_signed ty r =
     (case read_unsigned r of
        (None, r') \<Rightarrow> (None, r')
      | (Some raw, r') \<Rightarrow> (Some (from_unsigned_bits (raw :: 'a word)), r'))"

definition read_float :: "reader \<Rightarrow> 'a::len word option \<times> reader" where
  "read_float r =
     (case read_unsigned r of (None, r') \<Rightarrow> (None, r') | (Some raw, r') \<Rightarrow> (Some raw, r'))"

definition read_enum :: "('a::len word \<Rightarrow> 'e) \<Rightarrow> reader \<Rightarrow> 'e option \<times> reader" where
  "read_enum cast r =
     (case read_unsigned r of (None, r') \<Rightarrow> (None, r') | (Some raw, r') \<Rightarrow> (Some (cast raw), r'))"

section \<open>Writer operations\<close>

text \<open>The vector behind the writer is the state; a failed write returns it as it was.\<close>

definition write_unsigned :: "'a::len word \<Rightarrow> byte list \<Rightarrow> byte list" where
  "write_unsigned v p =
     (let n = byte_width TYPE('a)
      in fold (\<lambda>i p. p @ [ucast (drop_bit ((n - 1 - i) * 8) v AND 0xFF)]) [0..<n] p)"

definition write_bytes :: "'l::len itself \<Rightarrow> byte list \<Rightarrow> byte list \<Rightarrow> bool \<times> byte list" where
  "write_bytes ty bs p =
     (if of_nat (length bs) > (ucast (- 1 :: 'l word) :: size_t) then (False, p)
      else (True, write_unsigned (of_nat (length bs) :: 'l word) p @ bs))"

definition write_string :: "'l::len itself \<Rightarrow> byte list \<Rightarrow> byte list \<Rightarrow> bool \<times> byte list" where
  "write_string ty view p =
     (if of_nat (length view) > (ucast (- 1 :: 'l word) :: size_t) then (False, p)
      else (let p1 = write_unsigned (of_nat (length view) :: 'l word) p;
                bytes = take (length view) view
            in (True, p1 @ bytes)))"

definition write_vector :: "'l::len itself \<Rightarrow> byte list \<Rightarrow> byte list \<Rightarrow> bool \<times> byte list" where
  "write_vector ty value p = write_bytes ty value p"

definition write_signed :: "'a::len itself \<Rightarrow> int \<Rightarrow> byte list \<Rightarrow> bool \<times> byte list" where
  "write_signed ty v p = (True, write_unsigned (to_unsigned_bits v :: 'a word) p)"

definition write_int :: "'a::len word \<Rightarrow> byte list \<Rightarrow> bool \<times> byte list" where
  "write_int v p = (True, write_unsigned v p)"

definition write_float :: "'a::len word \<Rightarrow> byte list \<Rightarrow> bool \<times> byte list" where
  "write_float v p = (True, write_unsigned v p)"

definition write_enum :: "('e \<Rightarrow> 'a::len word) \<Rightarrow> 'e \<Rightarrow> byte list \<Rightarrow> bool \<times> byte list" where
  "write_enum underlying e p = (True, write_unsigned (underlying e) p)"

section \<open>Bounds\<close>

text \<open>The reader's invariant: the vector fits the address space, the offset is inside it.\<close>

definition reader_ok :: "reader \<Rightarrow> bool" where
  "reader_ok r \<longleftrightarrow> length (payload r) < 2 ^ 64 \<and> unat (offset r) \<le> length (payload r)"

definition unread :: "reader \<Rightarrow> byte list" where
  "unread r = drop (unat (offset r)) (payload r)"

lemma reader_ok_mk [simp, intro]: "length bs < 2 ^ 64 \<Longrightarrow> reader_ok (mk_reader bs)"
  by (simp add: reader_ok_def mk_reader_def)

lemma unread_mk [simp]: "unread (mk_reader bs) = bs"
  by (simp add: unread_def mk_reader_def)

lemma length_unread: "length (unread r) = length (payload r) - unat (offset r)"
  by (simp add: unread_def)

lemma can_read_iff:
  assumes "reader_ok r"
  shows "can_read r n \<longleftrightarrow> unat n \<le> length (unread r)"
proof -
  have sz: "unat (payload_size r) = length (payload r)"
    using assms by (simp add: payload_size_def reader_ok_def)
  have le: "offset r \<le> payload_size r"
    using assms sz by (simp add: word_le_nat_alt reader_ok_def)
  moreover from le have "unat (payload_size r - offset r) = length (payload r) - unat (offset r)"
    by (simp add: sz unat_sub)
  ultimately show ?thesis
    by (auto simp: can_read_def word_le_nat_alt length_unread)
qed

lemma reader_empty_iff: "reader_ok r \<Longrightarrow> reader_empty r \<longleftrightarrow> unread r = []"
  by (auto simp: reader_empty_def payload_size_def reader_ok_def unread_def word_unat_eq_iff)

text \<open>Moving the offset by a readable amount keeps the invariant and drops what was read.\<close>

lemma unat_advance:
  assumes "reader_ok r" and "can_read r n"
  shows "unat (offset r + n) = unat (offset r) + unat n"
proof (rule unat_add_no_wrap)
  have "unat (offset r) + unat n \<le> length (payload r)"
    using assms by (auto simp: can_read_iff length_unread reader_ok_def)
  then show "unat (offset r) + unat n < 2 ^ LENGTH(64)"
    using assms by (simp add: reader_ok_def)
qed

lemma advance_ok:
  assumes "reader_ok r" and "can_read r n"
  shows "reader_ok (r\<lparr>offset := offset r + n\<rparr>)"
    and "unread (r\<lparr>offset := offset r + n\<rparr>) = drop (unat n) (unread r)"
  using assms unat_advance [OF assms]
  by (auto simp: can_read_iff length_unread reader_ok_def unread_def add.commute)

text \<open>Every index the loop of \<open>ReadUnsigned\<close> uses lies inside the vector.\<close>

lemma read_index:
  assumes "reader_ok r" and "can_read r (of_nat n)" and "i < n" and "n < 2 ^ 64"
  shows "unat (offset r + of_nat i) = unat (offset r) + i"
    and "unat (offset r) + i < length (payload r)"
proof -
  have n: "unat (of_nat n :: size_t) = n"
    using assms(4) by simp
  then have le: "n \<le> length (unread r)"
    using assms(1,2) by (simp add: can_read_iff)
  have "can_read r (of_nat i)"
    using assms le by (simp add: can_read_iff)
  then show "unat (offset r + of_nat i) = unat (offset r) + i"
    using assms by (simp add: unat_advance)
  show "unat (offset r) + i < length (payload r)"
    using le assms(1,3) by (simp add: length_unread reader_ok_def)
qed

section \<open>What the integer routines compute\<close>

lemma read_unsigned_loop_value:
  assumes "reader_ok r" and "can_read r (of_nat n)" and "n < 2 ^ 64" and "i \<le> n"
  shows "read_unsigned_loop (payload r) (offset r) i n (v :: 'a::len word)
    = of_nat (be_nat_from (unat v) (take (n - i) (drop i (unread r))))"
  using assms(4)
proof (induction "n - i" arbitrary: i v)
  case 0
  then show ?case by (simp add: read_unsigned_loop.simps)
next
  case (Suc k)
  then have i: "i < n" by simp
  let ?b = "payload r ! (unat (offset r) + i)"
  have idx: "unat (offset r + of_nat i) = unat (offset r) + i"
    and bound: "unat (offset r) + i < length (payload r)"
    using read_index [OF assms(1,2) i assms(3)] by auto
  have "i < length (unread r)" and "unread r ! i = ?b"
    using bound by (simp_all add: unread_def)
  then have "drop i (unread r) = ?b # drop (Suc i) (unread r)"
    using nth_drop_hd by metis
  moreover have "n - i = Suc (n - Suc i)" using i by simp
  ultimately have take: "take (n - i) (drop i (unread r)) = ?b # take (n - Suc i) (drop (Suc i) (unread r))"
    by simp
  have "read_unsigned_loop (payload r) (offset r) i n v
    = read_unsigned_loop (payload r) (offset r) (Suc i) n (v * 256 + ucast ?b)"
    using i idx by (subst read_unsigned_loop.simps) (simp add: push_bit_8_or)
  also have "\<dots> = of_nat (be_nat_from (unat (v * 256 + ucast ?b)) (take (n - Suc i) (drop (Suc i) (unread r))))"
    using Suc by simp
  also have "\<dots> = of_nat (be_nat_from (unat v * 256 + unat ?b) (take (n - Suc i) (drop (Suc i) (unread r))))"
    by (simp add: be_nat_from_add [of "unat (v * 256 + ucast ?b)"]
        be_nat_from_add [of "unat v * 256 + unat ?b"])
  finally show ?case by (simp add: take)
qed

lemma read_unsigned_spec:
  assumes "reader_ok r" and "unsigned_integral TYPE('a::len)"
  shows "(read_unsigned r :: 'a word option \<times> reader) =
    (if byte_width TYPE('a) \<le> length (unread r)
     then (Some (of_nat (be_nat (take (byte_width TYPE('a)) (unread r)))),
           r\<lparr>offset := offset r + of_nat (byte_width TYPE('a))\<rparr>)
     else (None, r))"
proof -
  have n: "byte_width TYPE('a) < 2 ^ 64"
    using unsigned_integral_width [OF assms(2)] by simp
  show ?thesis
    using read_unsigned_loop_value [OF assms(1) _ n, where i = 0 and v = 0] n
    by (auto simp: read_unsigned_def Let_def can_read_iff [OF assms(1)])
qed

text \<open>A successful integer read consumes exactly the width; a failed one consumes nothing.\<close>

lemma read_unsigned_cases:
  assumes "reader_ok r" and "unsigned_integral TYPE('a::len)"
  obtains (short) "length (unread r) < byte_width TYPE('a)"
      "(read_unsigned r :: 'a word option \<times> reader) = (None, r)"
    | (ok) r' where "byte_width TYPE('a) \<le> length (unread r)"
      "(read_unsigned r :: 'a word option \<times> reader)
        = (Some (of_nat (be_nat (take (byte_width TYPE('a)) (unread r)))), r')"
      "reader_ok r'" "unread r' = drop (byte_width TYPE('a)) (unread r)" "payload r' = payload r"
proof (cases "byte_width TYPE('a) \<le> length (unread r)")
  case False
  then show thesis
    using short read_unsigned_spec [OF assms] by simp
next
  case True
  let ?n = "of_nat (byte_width TYPE('a)) :: size_t"
  have n: "unat ?n = byte_width TYPE('a)"
    using unsigned_integral_width [OF assms(2)] by simp
  have cr: "can_read r ?n"
    using True n by (simp add: can_read_iff [OF assms(1)])
  show thesis
    by (rule ok [of "r\<lparr>offset := offset r + ?n\<rparr>"])
      (use True n cr advance_ok [OF assms(1) cr] read_unsigned_spec [OF assms] in \<open>simp_all\<close>)
qed

lemma write_unsigned_eq:
  assumes "unsigned_integral TYPE('a::len)"
  shows "write_unsigned (v :: 'a word) p = p @ be_digits (byte_width TYPE('a)) (unat v)"
proof -
  have app: "fold (\<lambda>i p. p @ [f i]) xs q = q @ map f xs" for f :: "nat \<Rightarrow> byte" and xs q
    by (induction xs arbitrary: q) auto
  have digit: "(ucast (drop_bit (k * 8) v AND 0xFF) :: byte) = of_nat (unat v div 256 ^ k)" for k
    using ucast_shift_mask [of k v] by (simp only: mult.commute)
  show ?thesis
    by (simp only: write_unsigned_def Let_def be_digits_def digit app)
qed

lemma be_digits_word:
  assumes "unsigned_integral TYPE('a::len)"
  shows "of_nat (be_nat (be_digits (byte_width TYPE('a)) (unat (v :: 'a word)))) = v"
proof -
  have "(256 :: nat) ^ byte_width TYPE('a) = 2 ^ LENGTH('a)"
    using unsigned_integral_width(1) [OF assms] power_mult [of "2 :: nat" 8 "byte_width TYPE('a)"]
    by (simp add: mult.commute)
  then have "unat v mod 256 ^ byte_width TYPE('a) = unat v"
    using unsigned_less [of v] by simp
  then show ?thesis
    by (simp add: byte_simps)
qed

section \<open>Fields: the contract between a writer and a reader\<close>

text \<open>
  A field of a body: \<open>put\<close> gives the bytes the writer appends for a value, \<open>get\<close> is the read that
  the decoder issues. The law is what a decoder needs: after the field's bytes, the value is read
  back and what follows is left unread.
\<close>

locale wire_field =
  fixes put :: "'v \<Rightarrow> byte list"
    and get :: "reader \<Rightarrow> 'v option \<times> reader"
    and valid :: "'v \<Rightarrow> bool"
  assumes get_put: "reader_ok r \<Longrightarrow> unread r = put v @ rest \<Longrightarrow> valid v
      \<Longrightarrow> \<exists>r'. get r = (Some v, r') \<and> reader_ok r' \<and> unread r' = rest"
    and get_ok: "reader_ok r \<Longrightarrow> reader_ok (snd (get r))"
    and get_consumes: "reader_ok r \<Longrightarrow> get r = (Some v, r') \<Longrightarrow> \<exists>pre. unread r = pre @ unread r'"
begin

fun put_all :: "'v list \<Rightarrow> byte list" where
  "put_all [] = []"
| "put_all (v # vs) = put v @ put_all vs"

fun get_all :: "nat \<Rightarrow> reader \<Rightarrow> 'v list option \<times> reader" where
  "get_all 0 r = (Some [], r)"
| "get_all (Suc n) r =
     (case get r of
        (None, r') \<Rightarrow> (None, r')
      | (Some v, r') \<Rightarrow>
          (case get_all n r' of (None, r'') \<Rightarrow> (None, r'') | (Some vs, r'') \<Rightarrow> (Some (v # vs), r'')))"

lemma get_all_put_all:
  assumes "reader_ok r" and "unread r = put_all vs @ rest" and "list_all valid vs"
  shows "\<exists>r'. get_all (length vs) r = (Some vs, r') \<and> reader_ok r' \<and> unread r' = rest"
  using assms
proof (induction vs arbitrary: r)
  case Nil
  then show ?case by simp
next
  case (Cons v vs)
  then obtain r1 where r1: "get r = (Some v, r1)" "reader_ok r1" "unread r1 = put_all vs @ rest"
    using get_put [of r v "put_all vs @ rest"] by auto
  with Cons obtain r2 where "get_all (length vs) r1 = (Some vs, r2)" "reader_ok r2" "unread r2 = rest"
    by auto
  with r1 show ?case by simp
qed

lemma put_inj:
  assumes "put v = put w" and "valid v" and "valid w" and "length (put v) < 2 ^ 64"
  shows "v = w"
proof -
  let ?r = "mk_reader (put v)"
  have ok: "reader_ok ?r" using assms(4) by simp
  have "\<exists>r'. get ?r = (Some v, r')"
    using get_put [OF ok, of v "[]"] assms(2) by auto
  moreover have "\<exists>r'. get ?r = (Some w, r')"
    using get_put [OF ok, of w "[]"] assms(1,3) by auto
  ultimately show ?thesis by auto
qed

end

section \<open>Length-prefixed data\<close>

text \<open>The four overloads read the same slice.\<close>

lemma read_overloads:
  assumes "reader_ok r"
  shows "read_vector n r = read_span n r" and "read_string_view n r = read_span n r"
    and "read_string n r = read_span n r"
  using unat_advance [OF assms, of n]
  by (auto simp: read_vector_def read_span_def read_string_view_def read_string_def Let_def drop_take)

definition payload_overload :: "(size_t \<Rightarrow> reader \<Rightarrow> byte list option \<times> reader) \<Rightarrow> bool" where
  "payload_overload f \<longleftrightarrow> f = read_span \<or> f = read_vector \<or> f = read_string_view \<or> f = read_string"

lemma payload_overload_simps [simp]:
  "payload_overload read_span" "payload_overload read_vector"
  "payload_overload read_string_view" "payload_overload read_string"
  by (simp_all add: payload_overload_def)

lemma overload_eq_span: "payload_overload f \<Longrightarrow> reader_ok r \<Longrightarrow> f n r = read_span n r"
  by (auto simp: payload_overload_def read_overloads)

lemma read_span_spec:
  assumes "reader_ok r"
  shows "unat n \<le> length (unread r) \<Longrightarrow> \<exists>r'. read_span n r = (Some (take (unat n) (unread r)), r')
      \<and> reader_ok r' \<and> unread r' = drop (unat n) (unread r) \<and> payload r' = payload r"
    and "length (unread r) < unat n \<Longrightarrow> read_span n r = (None, r)"
  using advance_ok [OF assms, of n] can_read_iff [OF assms, of n]
  by (auto simp: read_span_def unread_def)

text \<open>
  \<open>ReadLenPrefixed\<close> on every input: too short for the length field, too short for the announced
  data (the length is then consumed), or the announced slice.
\<close>

lemma read_len_prefixed_cases:
  fixes ty :: "'l::len itself"
  assumes "reader_ok r" and "unsigned_integral TYPE('l)" and "payload_overload f"
  defines "w \<equiv> byte_width TYPE('l)" and "n \<equiv> be_nat (take (byte_width TYPE('l)) (unread r))"
  obtains (no_length) "length (unread r) < w" "read_len_prefixed ty f r = (None, r)"
    | (no_data) r' where "w \<le> length (unread r)" "length (unread r) < w + n"
      "read_len_prefixed ty f r = (None, r')" "reader_ok r'" "unread r' = drop w (unread r)"
      "payload r' = payload r"
    | (ok) r' where "w + n \<le> length (unread r)"
      "read_len_prefixed ty f r = (Some (take n (drop w (unread r))), r')" "reader_ok r'"
      "unread r' = drop (w + n) (unread r)" "payload r' = payload r"
  using assms(1,2)
proof (cases rule: read_unsigned_cases)
  case short
  then show thesis
    using no_length by (simp add: read_len_prefixed_def w_def)
next
  case (ok r1)
  let ?len = "of_nat n :: 'l word"
  have eight: "\<not> 8 < byte_width TYPE('l)"
    using unsigned_integral_width [OF assms(2)] by simp
  have "(256 :: nat) ^ w = 2 ^ LENGTH('l)"
    using unsigned_integral_width(1) [OF assms(2)] power_mult [of "2 :: nat" 8 w]
    by (simp add: mult.commute w_def)
  then have nlt: "n < 2 ^ LENGTH('l)"
    using be_nat_less [of "take w (unread r)"] ok(1) by (simp add: n_def w_def)
  moreover have "(2 :: nat) ^ LENGTH('l) \<le> 2 ^ 64"
    using unsigned_integral_width(4) [OF assms(2)] by (rule power_increasing) simp
  ultimately have "n < 2 ^ 64" by linarith
  then have len: "unat (ucast ?len :: size_t) = n"
    using nlt by (simp add: ucast_of_nat_unat unat_of_nat_small del: unsigned_of_nat)
  have rlp: "read_len_prefixed ty f r = read_span (ucast ?len) r1"
    using ok(2,3) eight overload_eq_span [OF assms(3)] by (simp add: read_len_prefixed_def n_def)
  show thesis
  proof (cases "n \<le> length (unread r1)")
    case True
    then obtain r2 where "read_span (ucast ?len) r1 = (Some (take n (unread r1)), r2)"
      "reader_ok r2" "unread r2 = drop n (unread r1)" "payload r2 = payload r1"
      using read_span_spec(1) [OF ok(3), of "ucast ?len"] len by auto
    then show thesis
      using that(3) [of r2] True ok rlp by (simp add: w_def add.commute)
  next
    case False
    then have "read_span (ucast ?len) r1 = (None, r1)"
      using read_span_spec(2) [OF ok(3), of "ucast ?len"] len by simp
    then show thesis
      using no_data [of r1] False ok rlp by (simp add: w_def)
  qed
qed

lemma len_prefixed_slice:
  assumes "reader_ok r" and "unsigned_integral TYPE('l::len)" and "payload_overload f"
    and "read_len_prefixed TYPE('l) f r = (Some bs, r')"
  shows "length bs = be_nat (take (byte_width TYPE('l)) (unread r))"
    and "unread r = take (byte_width TYPE('l)) (unread r) @ bs @ unread r'"
    and "byte_width TYPE('l) \<le> length (unread r)"
  by (cases rule: read_len_prefixed_cases [OF assms(1-3), of "TYPE('l)"];
      use assms(4) take_take_drop_drop [of "byte_width TYPE('l)" "unread r"] in \<open>auto simp del: drop_drop\<close>)+

lemma max_length_value:
  assumes "unsigned_integral TYPE('l::len)"
  shows "unat (ucast (- 1 :: 'l word) :: size_t) = 2 ^ LENGTH('l) - 1"
proof -
  have u: "unat (- 1 :: 'l word) = 2 ^ LENGTH('l) - 1"
    by (simp only: unsigned_minus_1_eq_mask mask_eq_exp_minus_1)
  have "(2 :: nat) ^ LENGTH('l) \<le> 2 ^ 64"
    using unsigned_integral_width(4) [OF assms] by (rule power_increasing) simp
  moreover have "(0 :: nat) < 2 ^ LENGTH('l)" by simp
  ultimately have "(2 :: nat) ^ LENGTH('l) - 1 < 2 ^ 64" by linarith
  then show ?thesis
    by (simp only: ucast_of_nat_unat u unat_of_nat_size)
qed

text \<open>What \<open>WriteLenPrefixed\<close> appends, and when it refuses.\<close>

lemma write_bytes_eq:
  assumes "unsigned_integral TYPE('l::len)" and "length bs < 2 ^ 64"
  shows "write_bytes TYPE('l) bs p =
    (if length bs < 2 ^ LENGTH('l)
     then (True, p @ be_digits (byte_width TYPE('l)) (length bs) @ bs) else (False, p))"
proof -
  have "of_nat (length bs) > (ucast (- 1 :: 'l word) :: size_t) \<longleftrightarrow> \<not> length bs < 2 ^ LENGTH('l)"
    using assms(2) zero_less_power [of "2 :: nat" "LENGTH('l)"]
    by (simp only: word_less_nat_alt max_length_value [OF assms(1)] unat_of_nat_size) linarith
  then show ?thesis
    by (simp add: write_bytes_def write_unsigned_eq [OF assms(1)] unat_of_nat_small)
qed

lemma write_overloads:
  "write_string ty bs p = write_bytes ty bs p" and "write_vector ty bs p = write_bytes ty bs p"
  by (simp_all add: write_string_def write_bytes_def write_vector_def Let_def)

section \<open>The fields the protocol uses\<close>

lemma word_field:
  assumes "unsigned_integral TYPE('a::len)"
  shows "wire_field (\<lambda>v :: 'a word. write_unsigned v []) read_unsigned (\<lambda>_. True)"
proof (unfold_locales, goal_cases)
  case (1 r v rest)
  then have u: "unread r = be_digits (byte_width TYPE('a)) (unat v) @ rest"
    by (simp add: write_unsigned_eq [OF assms])
  show ?case
  proof (cases rule: read_unsigned_cases [OF 1(1) assms])
    case 1
    then show ?thesis using u by simp
  next
    case (2 r')
    have "take (byte_width TYPE('a)) (unread r) = be_digits (byte_width TYPE('a)) (unat v)"
      and "unread r' = rest"
      using u 2(4) by simp_all
    then show ?thesis
      using 2(2,3) be_digits_word [OF assms, of v] by metis
  qed
next
  case (2 r)
  then show ?case by (cases rule: read_unsigned_cases [OF 2 assms]) simp_all
next
  case (3 r v r')
  then show ?case
    by (cases rule: read_unsigned_cases [OF 3(1) assms])
      (simp, metis append_take_drop_id prod.inject)
qed

lemma text_field:
  assumes "unsigned_integral TYPE('l::len)" and "payload_overload f"
  shows "wire_field (\<lambda>s. snd (write_string TYPE('l) s [])) (read_len_prefixed TYPE('l) f)
    (\<lambda>s. length s < 2 ^ LENGTH('l))"
proof (unfold_locales, goal_cases)
  case (1 r v rest)
  have "(2 :: nat) ^ LENGTH('l) \<le> 2 ^ 64"
    using unsigned_integral_width(4) [OF assms(1)] by (rule power_increasing) simp
  then have len: "length v < 2 ^ 64" using 1(3) by linarith
  have "(256 :: nat) ^ byte_width TYPE('l) = 2 ^ LENGTH('l)"
    using unsigned_integral_width(1) [OF assms(1)] power_mult [of "2 :: nat" 8 "byte_width TYPE('l)"]
    by (simp add: mult.commute)
  then have n: "be_nat (take (byte_width TYPE('l)) (unread r)) = length v"
    using 1(2,3) len by (simp add: write_overloads write_bytes_eq assms(1) byte_simps)
  have u: "unread r = be_digits (byte_width TYPE('l)) (length v) @ v @ rest"
    using 1(2,3) len by (simp add: write_overloads write_bytes_eq assms(1))
  show ?case
    by (cases rule: read_len_prefixed_cases [OF 1(1) assms, of "TYPE('l)"])
      (use u n in \<open>simp_all\<close>)
next
  case (2 r)
  then show ?case by (cases rule: read_len_prefixed_cases [OF 2 assms, of "TYPE('l)"]) simp_all
next
  case (3 r v r')
  then show ?case
    by (cases rule: read_len_prefixed_cases [OF 3(1) assms, of "TYPE('l)"])
      (metis append_take_drop_id prod.inject option.simps(3))+
qed

lemma signed_field:
  assumes "unsigned_integral TYPE('a::len)"
  shows "wire_field (\<lambda>v. snd (write_signed TYPE('a) v [])) (read_signed TYPE('a))
    (\<lambda>v. - (2 ^ (LENGTH('a) - 1)) \<le> v \<and> v < 2 ^ (LENGTH('a) - 1))"
proof (unfold_locales, goal_cases)
  case (1 r v rest)
  have "from_unsigned_bits (to_unsigned_bits v :: 'a word) = v"
    using 1(3) by (simp add: from_unsigned_bits_def to_unsigned_bits_def signed_of_int
        signed_take_bit_int_eq_self)
  moreover have "\<exists>r'. read_unsigned r = (Some (to_unsigned_bits v :: 'a word), r')
      \<and> reader_ok r' \<and> unread r' = rest"
    using 1(1,2) by (intro wire_field.get_put [OF word_field [OF assms]])
      (simp_all add: write_signed_def)
  ultimately show ?case by (auto simp: read_signed_def)
next
  case (2 r)
  then show ?case
    using wire_field.get_ok [OF word_field [OF assms] 2]
    by (auto simp: read_signed_def split: prod.splits option.splits)
next
  case (3 r v r')
  then show ?case
    using wire_field.get_consumes [OF word_field [OF assms] 3(1)]
    by (auto simp: read_signed_def split: prod.splits option.splits)
qed

interpretation u16_field: wire_field "\<lambda>v :: u16. write_unsigned v []" read_unsigned "\<lambda>_. True"
  by (rule word_field) simp

interpretation u32_field: wire_field "\<lambda>v :: u32. write_unsigned v []" read_unsigned "\<lambda>_. True"
  by (rule word_field) simp

interpretation i32_field: wire_field "\<lambda>v. snd (write_signed TYPE(32) v [])" "read_signed TYPE(32)"
    "\<lambda>v. - (2 ^ (LENGTH(32) - 1)) \<le> v \<and> v < 2 ^ (LENGTH(32) - 1)"
  by (rule signed_field) simp

interpretation view_field: wire_field "\<lambda>s. snd (write_string TYPE(32) s [])"
    "read_len_prefixed TYPE(32) read_string_view" "\<lambda>s. length s < 2 ^ LENGTH(32)"
  by (rule text_field) simp_all

interpretation string_field: wire_field "\<lambda>s. snd (write_string TYPE(32) s [])"
    "read_len_prefixed TYPE(32) read_string" "\<lambda>s. length s < 2 ^ LENGTH(32)"
  by (rule text_field) simp_all

text \<open>Two fields in a row are a field of pairs.\<close>

locale field_pair = a: wire_field put1 get1 valid1 + b: wire_field put2 get2 valid2
  for put1 :: "'v \<Rightarrow> byte list" and get1 and valid1
    and put2 :: "'w \<Rightarrow> byte list" and get2 and valid2
begin

definition put_pair :: "'v \<times> 'w \<Rightarrow> byte list" where
  "put_pair x = put1 (fst x) @ put2 (snd x)"

definition get_pair :: "reader \<Rightarrow> ('v \<times> 'w) option \<times> reader" where
  "get_pair r =
     (case get1 r of
        (None, r1) \<Rightarrow> (None, r1)
      | (Some v, r1) \<Rightarrow> (case get2 r1 of (None, r2) \<Rightarrow> (None, r2) | (Some w, r2) \<Rightarrow> (Some (v, w), r2)))"

definition valid_pair :: "'v \<times> 'w \<Rightarrow> bool" where
  "valid_pair x \<longleftrightarrow> valid1 (fst x) \<and> valid2 (snd x)"

lemma get_pair_field: "wire_field put_pair get_pair valid_pair"
proof (unfold_locales, goal_cases)
  case (1 r x rest)
  then obtain r1 where "get1 r = (Some (fst x), r1)" "reader_ok r1" "unread r1 = put2 (snd x) @ rest"
    using a.get_put [of r "fst x" "put2 (snd x) @ rest"] by (auto simp: put_pair_def valid_pair_def)
  moreover from this 1(3) obtain r2 where "get2 r1 = (Some (snd x), r2)" "reader_ok r2" "unread r2 = rest"
    using b.get_put [of r1 "snd x" rest] by (auto simp: valid_pair_def)
  ultimately show ?case by (simp add: get_pair_def)
next
  case (2 r)
  obtain o1 r1 where g1: "get1 r = (o1, r1)" by fastforce
  obtain o2 r2 where g2: "get2 r1 = (o2, r2)" by fastforce
  have "reader_ok r1" using a.get_ok [OF 2] g1 by simp
  moreover from this have "reader_ok r2" using b.get_ok [of r1] g2 by simp
  ultimately show ?case by (simp add: get_pair_def g1 g2 split: option.split)
next
  case (3 r x r')
  then obtain r1 where "get1 r = (Some (fst x), r1)" "get2 r1 = (Some (snd x), r')" "reader_ok r1"
    using a.get_ok [OF 3(1)] by (auto simp: get_pair_def split: prod.splits option.splits)
  then show ?case
    using a.get_consumes [OF 3(1)] b.get_consumes by (metis append.assoc)
qed

end

sublocale field_pair \<subseteq> pair: wire_field put_pair get_pair valid_pair
  by (rule get_pair_field)

section \<open>Properties\<close>

text \<open>
  C33: round trip of length-prefixed data. Whatever length type and whatever overload
  (span, vector, string view, string) is used, the bytes that a successful write appends
  are read back as the same data, and the reader stops exactly where the next field starts.
\<close>

theorem len_prefixed_roundtrip:
  assumes "unsigned_integral TYPE('l::len)" and "payload_overload f"
    and "write_string TYPE('l) s out = (True, out @ bs)" and "length (bs @ rest) < 2 ^ 64"
  shows "\<exists>r'. read_len_prefixed TYPE('l) f (mk_reader (bs @ rest)) = (Some s, r')
    \<and> reader_ok r' \<and> unread r' = rest"
proof -
  have "length s < 2 ^ 64 \<and> bs = be_digits (byte_width TYPE('l)) (length s) @ s \<and> length s < 2 ^ LENGTH('l)"
  proof -
    have "s = drop (length bs - length s) bs"
      using assms(3) by (auto simp: write_string_def write_unsigned_eq [OF assms(1)] Let_def split: if_splits)
    then have "length s \<le> length bs" by (metis diff_le_self length_drop)
    then have "length s < 2 ^ 64" using assms(4) by simp
    then show ?thesis
      using assms(3) write_bytes_eq [OF assms(1), of s out]
      by (auto simp: write_overloads write_bytes_def split: if_splits)
  qed
  then show ?thesis
    using wire_field.get_put [OF text_field [OF assms(1,2)], of "mk_reader (bs @ rest)" s rest] assms(4)
    by (simp add: write_overloads write_bytes_eq [OF assms(1)])
qed

theorem len_prefixed_roundtrip_witness:
  "\<exists>r'. read_len_prefixed TYPE(32) read_string_view (mk_reader ([0, 0, 0, 2, 104, 105] @ [7])) = (Some [104, 105], r')
    \<and> reader_ok r' \<and> unread r' = [7]"
  by (rule len_prefixed_roundtrip [where out = "[]"])
    (simp_all add: write_overloads write_bytes_eq be_digits_def upt_rec)

text \<open>
  C34: the reader never leaves its vector. Starting from a reader whose offset is inside
  the vector, a length-prefixed read with any announced length (up to the full 64-bit range) keeps
  the offset inside, leaves the vector alone, and a successful read yields exactly the bytes that
  follow the length field.
\<close>

theorem len_prefixed_in_bounds:
  assumes "reader_ok r" and "unsigned_integral TYPE('l::len)" and "payload_overload f"
    and "read_len_prefixed TYPE('l) f r = (res, r')"
  shows "reader_ok r' \<and> payload r' = payload r
    \<and> (\<forall>bs. res = Some bs \<longrightarrow> length bs = be_nat (take (byte_width TYPE('l)) (unread r))
        \<and> unread r = take (byte_width TYPE('l)) (unread r) @ bs @ unread r')"
proof -
  have "reader_ok r' \<and> payload r' = payload r"
    by (cases rule: read_len_prefixed_cases [OF assms(1-3), of "TYPE('l)"]) (use assms(1,4) in auto)
  then show ?thesis
    using len_prefixed_slice [OF assms(1-3)] assms(4) by blast
qed

theorem len_prefixed_in_bounds_witness:
  "reader_ok (mk_reader [255, 255, 255, 255, 255, 255, 255, 255, 1]) \<and>
   (\<exists>r'. read_len_prefixed TYPE(64) read_span (mk_reader [255, 255, 255, 255, 255, 255, 255, 255, 1]) = (None, r')
     \<and> reader_ok r' \<and> payload r' = [255, 255, 255, 255, 255, 255, 255, 255, 1])"
proof -
  let ?r = "mk_reader [255, 255, 255, 255, 255, 255, 255, 255, 1]"
  obtain res r' where e: "read_len_prefixed TYPE(64) read_span ?r = (res, r')" by fastforce
  have p: "payload ?r = [255, 255, 255, 255, 255, 255, 255, 255, 1]" by (simp add: mk_reader_def)
  have ok: "reader_ok ?r" by simp
  have none: "res = None"
  proof (rule ccontr)
    assume "res \<noteq> None"
    then obtain bs where "res = Some bs" by auto
    then have "length bs = be_nat (take 8 (unread ?r))"
      and eq: "unread ?r = take 8 (unread ?r) @ bs @ unread r'"
      using len_prefixed_in_bounds [OF ok _ _ e] by auto
    moreover have "length (unread ?r) = 9" by simp
    then have "length bs \<le> 1"
      using arg_cong [OF eq, of length] by simp
    ultimately show False by simp
  qed
  show ?thesis
    using len_prefixed_in_bounds [OF ok _ _ e] none e p by simp
qed

text \<open>
  No index past the end. When \<open>CanRead\<close> admits \<open>n\<close> bytes, for any 64-bit \<open>n\<close>, every
  index \<open>m_offset + i\<close> with \<open>i < n\<close> is computed without wrap-around and lies inside the vector.
\<close>

theorem can_read_indices_in_bounds:
  assumes "reader_ok r" and "can_read r n" and "i < n"
  shows "unat (offset r + i) = unat (offset r) + unat i \<and> unat (offset r + i) < length (payload r)"
proof -
  have "unat i < unat n" using assms(3) by (simp add: word_less_nat_alt)
  moreover have "unat n < 2 ^ 64" using unsigned_less [of n] by simp
  ultimately show ?thesis
    using read_index [OF assms(1), of "unat n" "unat i"] assms(2) by simp
qed

theorem can_read_indices_in_bounds_witness:
  "can_read (mk_reader [1, 2, 3]) 3 \<and> unat (offset (mk_reader [1, 2, 3]) + 2) < length (payload (mk_reader [1, 2, 3]))"
proof -
  have c: "can_read (mk_reader [1, 2, 3]) 3"
    by (simp add: can_read_def mk_reader_def payload_size_def)
  show ?thesis
    using can_read_indices_in_bounds [OF _ c, of 2] c by simp
qed

text \<open>
  Integers round trip at every width and sign. A signed value that fits its type is
  written big-endian in two's complement and read back unchanged, with what follows left unread.
\<close>

theorem signed_roundtrip:
  assumes "unsigned_integral TYPE('a::len)" and "- (2 ^ (LENGTH('a) - 1)) \<le> v" and "v < 2 ^ (LENGTH('a) - 1)"
    and "length rest + 8 < 2 ^ 64"
  shows "\<exists>r'. read_signed TYPE('a) (mk_reader (snd (write_signed TYPE('a) v []) @ rest)) = (Some v, r') \<and> unread r' = rest"
proof -
  have "length (snd (write_signed TYPE('a) v [])) \<le> 8"
    using unsigned_integral_width(3) [OF assms(1)]
    by (simp add: write_signed_def write_unsigned_eq [OF assms(1)])
  then show ?thesis
    using wire_field.get_put [OF signed_field [OF assms(1)],
        of "mk_reader (snd (write_signed TYPE('a) v []) @ rest)" v rest] assms(2-4)
    by auto
qed

theorem signed_roundtrip_witness:
  "\<exists>r'. read_signed TYPE(16) (mk_reader (snd (write_signed TYPE(16) (- 2) []) @ [9])) = (Some (- 2), r') \<and> unread r' = [9]"
  by (rule signed_roundtrip) simp_all

end
