(* ===== verification/Protocol.thy ===== *)
theory Protocol
  imports Byte_Codec
begin

text \<open>
  The frame header and the tables around it: \<^verbatim>\<open>Protocol/WireTypes.hpp\<close>,
  \<^verbatim>\<open>Protocol/Service/Protocol.hpp\<close>, \<^verbatim>\<open>Protocol/Common/ApiVersion.hpp\<close> and the limits of
  \<^verbatim>\<open>Session/Common/Limits.hpp\<close>. \<^verbatim>\<open>boost::endian\<close> is not part of the repository: its buffers are
  the parameter \<open>E\<close> of every definition that stores or loads a header field, and \<open>boost_endian\<close>
  is what the code relies on (a field declared \<^verbatim>\<open>order::big\<close> is kept most significant byte first).
\<close>

section \<open>Service codes and API versions\<close>

text \<open>
  \<^verbatim>\<open>TCPServiceType\<close> has a fixed underlying type, so \<^verbatim>\<open>static_cast\<close> makes a value of it from any
  32-bit number; \<open>Unlisted\<close> are the values without an enumerator.
\<close>

datatype tcp_service = Ping | Pong | Login | Receiving | TypeCnt | Unlisted u32

fun service_code :: "tcp_service \<Rightarrow> u32" where
  "service_code Ping = 0"
| "service_code Pong = 1"
| "service_code Login = 2"
| "service_code Receiving = 3"
| "service_code TypeCnt = 4"
| "service_code (Unlisted c) = c"

definition service_of_code :: "u32 \<Rightarrow> tcp_service" where
  "service_of_code c =
     (if c = 0 then Ping else if c = 1 then Pong else if c = 2 then Login
      else if c = 3 then Receiving else if c = 4 then TypeCnt else Unlisted c)"

lemma service_code_of_code [simp]: "service_code (service_of_code c) = c"
  by (simp add: service_of_code_def)

definition listed :: "tcp_service \<Rightarrow> bool" where
  "listed s \<longleftrightarrow> s \<in> {Ping, Pong, Login, Receiving}"

lemma service_of_code_code: "listed s \<Longrightarrow> service_of_code (service_code s) = s"
  by (auto simp: listed_def service_of_code_def)

definition api_v1 :: u16 where "api_v1 = 1"
definition api_latest :: u16 where "api_latest = api_v1"
definition api_min_supported :: u16 where "api_min_supported = api_v1"

definition api_supported :: "u16 \<Rightarrow> bool" where
  "api_supported v \<longleftrightarrow> v \<ge> api_min_supported \<and> v \<le> api_latest"

fun api_supported_for :: "tcp_service \<Rightarrow> u16 \<Rightarrow> bool" where
  "api_supported_for s v =
     (if \<not> api_supported v then False
      else case s of
          Ping \<Rightarrow> v = api_v1 | Pong \<Rightarrow> v = api_v1 | Login \<Rightarrow> v = api_v1 | Receiving \<Rightarrow> v = api_v1
        | _ \<Rightarrow> False)"

lemma api_supported_iff: "api_supported v \<longleftrightarrow> v = api_v1"
  by (auto simp: api_supported_def api_latest_def api_min_supported_def)

lemma api_supported_for_iff: "api_supported_for s v \<longleftrightarrow> listed s \<and> v = api_v1"
  by (cases s) (auto simp: api_supported_iff listed_def)

declare api_supported_for.simps [simp del]

section \<open>Limits\<close>

definition max_body_size :: u32 where "max_body_size = 2 * 1024 * 1024"
definition low_water :: u32 where "low_water = 1024 * 512"
definition high_water :: u32 where "high_water = low_water * 2"
definition hard_cap :: size_t where "hard_cap = ucast (max_body_size * 4)"
definition max_batch_bytes :: size_t where "max_batch_bytes = 256 * 1024"
definition max_iov_per_write :: nat where "max_iov_per_write = 32"

lemma limit_values [simp]:
  "unat max_body_size = 2097152" "unat low_water = 524288" "unat high_water = 1048576"
  "unat hard_cap = 8388608" "unat max_batch_bytes = 262144" "max_iov_per_write = 32"
  by (simp_all add: max_body_size_def low_water_def high_water_def hard_cap_def
      max_batch_bytes_def max_iov_per_write_def)

text \<open>The 32-bit limits are promoted to \<^verbatim>\<open>std::size_t\<close> where they meet a size.\<close>

lemma limit_promotions [simp]:
  "unat (ucast max_body_size :: size_t) = 2097152" "unat (ucast low_water :: size_t) = 524288"
  "unat (ucast high_water :: size_t) = 1048576"
  by (simp_all add: max_body_size_def low_water_def high_water_def)

section \<open>The header\<close>

record endian =
  st32 :: "u32 \<Rightarrow> byte list"
  ld32 :: "byte list \<Rightarrow> u32"
  st16 :: "u16 \<Rightarrow> byte list"
  ld16 :: "byte list \<Rightarrow> u16"

text \<open>The documented behaviour of \<^verbatim>\<open>endian_arithmetic<order::big, T, 8 * sizeof(T)>\<close>.\<close>

definition boost_endian :: "endian \<Rightarrow> bool" where
  "boost_endian E \<longleftrightarrow>
     (\<forall>v. st32 E v = be_digits 4 (unat v)) \<and> (\<forall>bs. length bs = 4 \<longrightarrow> ld32 E bs = of_nat (be_nat bs)) \<and>
     (\<forall>v. st16 E v = be_digits 2 (unat v)) \<and> (\<forall>bs. length bs = 2 \<longrightarrow> ld16 E bs = of_nat (be_nat bs))"

text \<open>An instance of it, made of the repository's own \<open>Writer\<close> and \<open>Reader\<close> loops.\<close>

definition codec_endian :: endian where
  "codec_endian = \<lparr>st32 = (\<lambda>v. write_unsigned v []), ld32 = (\<lambda>bs. read_unsigned_loop bs 0 0 4 0),
     st16 = (\<lambda>v. write_unsigned v []), ld16 = (\<lambda>bs. read_unsigned_loop bs 0 0 2 0)\<rparr>"

lemma boost_endian_codec [simp, intro]: "boost_endian codec_endian"
proof -
  have ld: "read_unsigned_loop bs 0 0 n (0 :: 'a::len word) = of_nat (be_nat bs)"
    if "length bs = n" "n \<le> 8" for bs n
  proof -
    have "can_read (mk_reader bs) (of_nat n)"
      using that by (simp add: can_read_iff)
    then show ?thesis
      using read_unsigned_loop_value [of "mk_reader bs" n 0 "0 :: 'a word"] that reader_ok_mk [of bs]
      by (simp add: mk_reader_def unread_def)
  qed
  show ?thesis
    by (simp add: boost_endian_def codec_endian_def ld write_unsigned_eq)
qed

record tcp_header =
  hdr_service :: u32
  hdr_size :: u32
  hdr_version :: u16

definition header_size :: nat where "header_size = 10"

text \<open>The object representation of \<^verbatim>\<open>TCPHeaderConv\<close>, field after field without padding.\<close>

definition header_bytes :: "endian \<Rightarrow> tcp_header \<Rightarrow> byte list" where
  "header_bytes E h = st32 E (hdr_service h) @ st32 E (hdr_size h) @ st16 E (hdr_version h)"

definition header_of_bytes :: "endian \<Rightarrow> byte list \<Rightarrow> tcp_header" where
  "header_of_bytes E bs =
     \<lparr>hdr_service = ld32 E (take 4 bs), hdr_size = ld32 E (take 4 (drop 4 bs)),
      hdr_version = ld16 E (take 2 (drop 8 bs))\<rparr>"

lemma boost_endian_store:
  assumes "boost_endian E"
  shows "length (st32 E v) = 4" "length (st16 E w) = 2" "ld32 E (st32 E v) = v" "ld16 E (st16 E w) = w"
proof -
  have "of_nat (be_nat (be_digits 4 (unat v))) = v" "of_nat (be_nat (be_digits 2 (unat w))) = w"
    using be_digits_word [of v] be_digits_word [of w] by (simp_all del: unsigned_of_nat)
  with assms show "length (st32 E v) = 4" "length (st16 E w) = 2"
    "ld32 E (st32 E v) = v" "ld16 E (st16 E w) = w"
    by (simp_all add: boost_endian_def)
qed

lemma length_header_bytes: "boost_endian E \<Longrightarrow> length (header_bytes E h) = header_size"
  by (simp add: header_bytes_def header_size_def boost_endian_store)

lemma header_of_header_bytes: "boost_endian E \<Longrightarrow> header_of_bytes E (header_bytes E h) = h"
  by (simp add: header_of_bytes_def header_bytes_def boost_endian_store)

text \<open>
  Header round trip. The ten bytes of a header are unpacked to the header they were
  made from, and every ten-byte string is the image of exactly one header.
\<close>

theorem header_roundtrip:
  assumes "boost_endian E"
  shows "length (header_bytes E h) = 10 \<and> header_of_bytes E (header_bytes E h) = h
    \<and> (\<forall>bs. length bs = 10 \<longrightarrow> header_bytes E (header_of_bytes E bs) = bs)"
proof (intro conjI allI impI)
  show "length (header_bytes E h) = 10"
    using length_header_bytes [OF assms] by (simp add: header_size_def)
  show "header_of_bytes E (header_bytes E h) = h"
    by (rule header_of_header_bytes [OF assms])
next
  fix bs :: "byte list" assume len: "length bs = 10"
  have pow: "be_nat xs < 2 ^ (8 * length xs)" for xs
    using be_nat_less [of xs] by (simp add: power_mult)
  have s4: "st32 E (ld32 E xs) = xs" if "length xs = 4" for xs
    using assms that be_digits_be_nat [OF that] pow [of xs]
    by (simp add: boost_endian_def unat_of_nat_small)
  have s2: "st16 E (ld16 E xs) = xs" if "length xs = 2" for xs
    using assms that be_digits_be_nat [OF that] pow [of xs]
    by (simp add: boost_endian_def unat_of_nat_small)
  have "take 4 bs @ take 4 (drop 4 bs) @ take 2 (drop 8 bs) = bs"
    using take_take_drop_drop [of 4 bs 4] len by simp
  then show "header_bytes E (header_of_bytes E bs) = bs"
    using len by (simp add: header_bytes_def header_of_bytes_def s4 s2)
qed

theorem header_roundtrip_witness:
  "header_bytes codec_endian (header_of_bytes codec_endian [0, 0, 0, 2, 0, 0, 1, 0, 0, 1]) = [0, 0, 0, 2, 0, 0, 1, 0, 0, 1]"
  using header_roundtrip [OF boost_endian_codec] by simp

end
