(* ===== verification/Login_Codec.thy ===== *)
theory Login_Codec
  imports Protocol
begin

text \<open>
  The login messages: \<^verbatim>\<open>Core/Domain/LoginResult.hpp\<close>, the DTOs of \<^verbatim>\<open>Protocol/Login\<close>, the V1
  codec (\<^verbatim>\<open>Protocol/Login/V1/LoginCodec.cpp\<close>) and the dispatch on the API version
  (\<^verbatim>\<open>Protocol/Login/LoginCodec.cpp\<close>).
\<close>

section \<open>Data\<close>

datatype login_result = Success | InvalidCredentials | AccountLocked

fun login_result_code :: "login_result \<Rightarrow> u32" where
  "login_result_code Success = 0"
| "login_result_code InvalidCredentials = 1"
| "login_result_code AccountLocked = 2"

lemma login_result_code_inj: "login_result_code a = login_result_code b \<longleftrightarrow> a = b"
  by (cases a; cases b) auto

record login_request_v1 =
  v1_id :: "byte list"
  v1_password :: "byte list"

record login_request =
  req_id :: "byte list"
  req_password :: "byte list"

record login_response_v1 =
  result_code :: login_result

section \<open>Codec\<close>

definition decode_request_v1 :: "byte list \<Rightarrow> login_request_v1 option" where
  "decode_request_v1 body =
     (case read_len_prefixed TYPE(32) read_string_view (mk_reader body) of
        (None, r1) \<Rightarrow> None
      | (Some id_view, r1) \<Rightarrow>
          (case read_len_prefixed TYPE(32) read_string_view r1 of
             (None, r2) \<Rightarrow> None
           | (Some pw_view, r2) \<Rightarrow>
               if \<not> reader_empty r2 then None
               else Some \<lparr>v1_id = id_view, v1_password = pw_view\<rparr>))"

definition encode_response_v1 :: "login_response_v1 \<Rightarrow> byte list option" where
  "encode_response_v1 response = Some (snd (write_enum login_result_code (result_code response) []))"

definition decode_request :: "u16 \<Rightarrow> byte list \<Rightarrow> login_request option" where
  "decode_request api_version body =
     (if api_version = api_v1 then
        (case decode_request_v1 body of
           None \<Rightarrow> None
         | Some decoded \<Rightarrow> Some \<lparr>req_id = v1_id decoded, req_password = v1_password decoded\<rparr>)
      else None)"

definition encode_response :: "u16 \<Rightarrow> login_result \<Rightarrow> byte list option" where
  "encode_response api_version code =
     (if api_version = api_v1 then encode_response_v1 \<lparr>result_code = code\<rparr> else None)"

section \<open>The accepted request bodies\<close>

text \<open>The body a client writes for a pair of credentials: two length-prefixed strings.\<close>

interpretation credentials: field_pair "\<lambda>s. snd (write_string TYPE(32) s [])"
    "read_len_prefixed TYPE(32) read_string_view" "\<lambda>s. length s < 2 ^ LENGTH(32)"
    "\<lambda>s. snd (write_string TYPE(32) s [])"
    "read_len_prefixed TYPE(32) read_string_view" "\<lambda>s. length s < 2 ^ LENGTH(32)"
  by unfold_locales

definition request_body :: "login_request \<Rightarrow> byte list" where
  "request_body q = snd (write_string TYPE(32) (req_password q)
                          (snd (write_string TYPE(32) (req_id q) [])))"

definition request_fits :: "login_request \<Rightarrow> bool" where
  "request_fits q \<longleftrightarrow> length (req_id q) < 2 ^ 32 \<and> length (req_password q) < 2 ^ 32"

lemma request_body_eq:
  assumes "request_fits q"
  shows "request_body q = be_digits 4 (length (req_id q)) @ req_id q
    @ be_digits 4 (length (req_password q)) @ req_password q"
  using assms by (simp add: request_body_def request_fits_def write_overloads write_bytes_eq)

lemma request_body_pair:
  assumes "request_fits q"
  shows "request_body q = credentials.put_pair (req_id q, req_password q)"
  using assms unfolding credentials.put_pair_def
  by (simp add: request_body_eq write_overloads write_bytes_eq request_fits_def)

lemma decode_request_v1_pair:
  assumes "length body < 2 ^ 64"
  shows "decode_request_v1 body = (case credentials.get_pair (mk_reader body) of
      (Some (i, p), r) \<Rightarrow> if unread r = [] then Some \<lparr>v1_id = i, v1_password = p\<rparr> else None
    | (None, r) \<Rightarrow> None)"
proof -
  obtain o1 r1 where r1: "read_len_prefixed TYPE(32) read_string_view (mk_reader body) = (o1, r1)"
    by fastforce
  obtain o2 r2 where r2: "read_len_prefixed TYPE(32) read_string_view r1 = (o2, r2)"
    by fastforce
  have "reader_ok r1" using view_field.get_ok [of "mk_reader body"] assms r1 by simp
  then have "reader_ok r2" using view_field.get_ok [of r1] r2 by simp
  then show ?thesis
    by (simp add: decode_request_v1_def credentials.get_pair_def r1 r2 reader_empty_iff
        split: option.split)
qed

text \<open>A length-prefixed string that was read is one that the writer writes.\<close>

lemma view_read_back:
  assumes "reader_ok r" and "read_len_prefixed TYPE(32) read_string_view r = (Some s, r')"
  shows "length s < 2 ^ 32" and "unread r = be_digits 4 (length s) @ s @ unread r'"
proof -
  have b: "length s = be_nat (take 4 (unread r))"
    and u: "unread r = take 4 (unread r) @ s @ unread r'"
    using len_prefixed_slice [OF assms(1) _ _ assms(2)] by simp_all
  have four: "length (take 4 (unread r)) = 4"
    using len_prefixed_slice(3) [OF assms(1) _ _ assms(2)] by simp
  show "length s < 2 ^ 32" using be_nat_less [of "take 4 (unread r)"] four b by simp
  show "unread r = be_digits 4 (length s) @ s @ unread r'"
    using u be_digits_be_nat [OF four] b by metis
qed

lemma decode_request_inverts:
  assumes "length body < 2 ^ 64"
  shows "decode_request v body = Some q \<longleftrightarrow> v = api_v1 \<and> request_fits q \<and> body = request_body q"
proof
  assume dec: "decode_request v body = Some q"
  let ?r = "mk_reader body"
  have ok: "reader_ok ?r" using assms by simp
  from dec obtain r1 r2 where v: "v = api_v1"
    and r1: "read_len_prefixed TYPE(32) read_string_view ?r = (Some (req_id q), r1)"
    and r2: "read_len_prefixed TYPE(32) read_string_view r1 = (Some (req_password q), r2)"
    and e: "reader_empty r2"
    by (auto simp: decode_request_def decode_request_v1_def split: if_splits option.splits prod.splits)
  have ok1: "reader_ok r1" using view_field.get_ok [OF ok] r1 by simp
  have ok2: "reader_ok r2" using view_field.get_ok [OF ok1] r2 by simp
  have fits: "request_fits q"
    using view_read_back(1) [OF ok r1] view_read_back(1) [OF ok1 r2] by (simp add: request_fits_def)
  have "body = request_body q"
    using view_read_back(2) [OF ok r1] view_read_back(2) [OF ok1 r2] e ok2
    by (simp add: request_body_eq [OF fits] reader_empty_iff)
  with v fits show "v = api_v1 \<and> request_fits q \<and> body = request_body q" by simp
next
  assume q: "v = api_v1 \<and> request_fits q \<and> body = request_body q"
  have "unread (mk_reader body) = credentials.put_pair (req_id q, req_password q) @ []"
    using q by (simp add: request_body_pair)
  moreover have "credentials.valid_pair (req_id q, req_password q)"
    using q unfolding credentials.valid_pair_def by (simp add: request_fits_def)
  ultimately obtain r' where
    "credentials.get_pair (mk_reader body) = (Some (req_id q, req_password q), r')" "unread r' = []"
    using credentials.pair.get_put [OF reader_ok_mk [OF assms]] by blast
  then have "decode_request_v1 body = Some \<lparr>v1_id = req_id q, v1_password = req_password q\<rparr>"
    unfolding decode_request_v1_pair [OF assms] by simp
  then show "decode_request v body = Some q"
    using q by (simp add: decode_request_def)
qed

text \<open>
  C31: the login decoder accepts exactly the bodies a client can write, and returns what was
  written: a body decodes to a request if and only if the API version is V1 and the body is the two
  length-prefixed strings of that request with nothing before, between or after them.
\<close>

theorem decode_request_iff:
  assumes "length body < 2 ^ 64"
  shows "decode_request v body = Some q \<longleftrightarrow> v = api_v1 \<and> request_fits q \<and> body = request_body q"
  by (rule decode_request_inverts [OF assms])

theorem decode_request_iff_witness:
  "decode_request api_v1 [0, 0, 0, 1, 65, 0, 0, 0, 2, 66, 67] = Some \<lparr>req_id = [65], req_password = [66, 67]\<rparr>"
proof -
  let ?q = "\<lparr>req_id = [65], req_password = [66, 67]\<rparr>" let ?b = "[0, 0, 0, 1, 65, 0, 0, 0, 2, 66, 67]"
  have "request_fits ?q" and "?b = request_body ?q"
    by (simp_all add: request_fits_def request_body_eq be_digits_def upt_rec)
  moreover have "length ?b < 2 ^ 64" by simp
  ultimately show ?thesis
    using decode_request_iff by blast
qed

text \<open>
  The login response. Only V1 has an encoding, it is the four bytes of the result code
  in network byte order and nothing else (no length field before it), and the client can tell the
  three results apart.
\<close>

theorem encode_response_spec:
  "encode_response v code = (if v = api_v1 then Some (be_digits 4 (unat (login_result_code code))) else None)
   \<and> (encode_response api_v1 a = encode_response api_v1 b \<longleftrightarrow> a = b)"
proof -
  have "be_digits 4 (unat (login_result_code a)) = be_digits 4 (unat (login_result_code b)) \<longleftrightarrow> a = b"
    using be_digits_word [of "login_result_code a"] be_digits_word [of "login_result_code b"]
      login_result_code_inj [of a b]
    by (auto simp del: unsigned_of_nat)
  then show ?thesis
    by (simp add: encode_response_def encode_response_v1_def write_enum_def write_unsigned_eq)
qed

lemma encode_response_v1_bytes:
  "encode_response api_v1 code = Some (be_digits 4 (unat (login_result_code code)))"
  by (simp add: encode_response_def encode_response_v1_def write_enum_def write_unsigned_eq)

end
