(* ===== verification/Account_Repository.thy ===== *)
theory Account_Repository
  imports Zem_Prelude
begin

text \<open>
  The outbound database adapter: \<^verbatim>\<open>Adapters/Outbound/Db\<close> behind the port
  \<^verbatim>\<open>IAccountRepository\<close>. SOCI is not part of the repository, so what its connection pool and the
  database answer is the parameter \<open>S\<close>; the model returns, next to the result, the sequence of calls
  and executor hops the coroutine makes, which is what can go wrong here (a connection leased and
  never given back, a blocking call made on the network thread).
\<close>

section \<open>What the pool and the database can answer\<close>

datatype lease_outcome = Leased nat | LeaseTimeout | LeaseThrows

datatype indicator = I_ok | I_null | I_truncated

datatype query_outcome = GotRow indicator "byte list" | NoRow | QueryThrows

record soci =
  try_lease :: "nat \<Rightarrow> lease_outcome"
  select_password :: "nat \<Rightarrow> byte list \<Rightarrow> query_outcome"

datatype repo_call = HopToDb | HopToCaller | TryLease nat | Select nat "byte list" | GiveBack nat | LogError

definition lease_timeout_ms :: nat where "lease_timeout_ms = 2000"

section \<open>GetPassword\<close>

text \<open>
  The try block: what it leaves in \<open>password\<close>, \<open>leased\<close> and \<open>pos\<close>, and the calls it made.
  An exception of the pool or of the query is caught and logged.
\<close>

definition get_password_try ::
  "soci option \<Rightarrow> byte list \<Rightarrow> byte list option \<times> bool \<times> nat \<times> repo_call list" where
  "get_password_try pool ident =
     (case pool of
        None \<Rightarrow> (None, False, 0, [LogError])
      | Some S \<Rightarrow>
          (case try_lease S lease_timeout_ms of
             LeaseThrows \<Rightarrow> (None, False, 0, [TryLease lease_timeout_ms, LogError])
           | LeaseTimeout \<Rightarrow> (None, False, 0, [TryLease lease_timeout_ms, LogError])
           | Leased pos \<Rightarrow>
               (case select_password S pos ident of
                  QueryThrows \<Rightarrow> (None, True, pos, [TryLease lease_timeout_ms, Select pos ident, LogError])
                | NoRow \<Rightarrow> (None, True, pos, [TryLease lease_timeout_ms, Select pos ident])
                | GotRow pw_ind stored \<Rightarrow>
                    (if pw_ind = I_ok then Some stored else None, True, pos,
                     [TryLease lease_timeout_ms, Select pos ident]))))"

definition get_password :: "soci option \<Rightarrow> byte list \<Rightarrow> byte list option \<times> repo_call list" where
  "get_password pool ident =
     (let (password, leased, pos, calls) = get_password_try pool ident;
          give_back = (if leased then [GiveBack pos] else [])
      in (password, [HopToDb] @ calls @ give_back @ [HopToCaller]))"

text \<open>The password the database holds for an identifier, as the pool would answer it.\<close>

definition stored_password :: "soci option \<Rightarrow> byte list \<Rightarrow> byte list option" where
  "stored_password pool ident =
     (case pool of None \<Rightarrow> None | Some S \<Rightarrow>
        (case try_lease S lease_timeout_ms of
           Leased pos \<Rightarrow> (case select_password S pos ident of GotRow I_ok v \<Rightarrow> Some v | _ \<Rightarrow> None)
         | _ \<Rightarrow> None))"

lemma get_password_result: "fst (get_password pool ident) = stored_password pool ident"
  by (auto simp: get_password_def get_password_try_def stored_password_def
      split: option.splits lease_outcome.splits query_outcome.splits indicator.splits)

text \<open>The calls that run on the database executor: between the two hops.\<close>

fun on_db_executor :: "bool \<Rightarrow> repo_call list \<Rightarrow> bool" where
  "on_db_executor db [] = (\<not> db)"
| "on_db_executor db (HopToDb # cs) = (\<not> db \<and> on_db_executor True cs)"
| "on_db_executor db (HopToCaller # cs) = (db \<and> on_db_executor False cs)"
| "on_db_executor db (c # cs) = (db \<and> on_db_executor db cs)"

text \<open>
  The repository never leaks a connection and never blocks the network strand. Whatever
  the pool and the database do (no pool, lease timeout, exceptions, missing rows, NULL passwords),
  the number of connections given back equals the number leased, every pool and database call runs
  between the hop to the database executor and the hop back to the caller, and a password is
  returned exactly when a connection was leased and a row with a non-NULL password was found.
\<close>

theorem get_password_balanced:
  "let (password, calls) = get_password pool ident in
     on_db_executor False calls
     \<and> filter (\<lambda>c. \<exists>p. c = GiveBack p) calls
        = (case pool of None \<Rightarrow> [] | Some S \<Rightarrow>
             (case try_lease S lease_timeout_ms of Leased p \<Rightarrow> [GiveBack p] | _ \<Rightarrow> []))
     \<and> (password = Some pw \<longleftrightarrow> (\<exists>S p. pool = Some S \<and> try_lease S lease_timeout_ms = Leased p
           \<and> select_password S p ident = GotRow I_ok pw))"
  by (auto simp: get_password_def get_password_try_def
      split: option.splits lease_outcome.splits query_outcome.splits)

section \<open>The repository factory\<close>

record postgres_config =
  address :: string
  port :: string
  dbname :: string
  user :: string
  password :: string
  pool_size :: nat

definition connection_string :: "postgres_config \<Rightarrow> string" where
  "connection_string c =
     ''host='' @ address c @ '' port='' @ port c @ '' dbname='' @ dbname c
     @ '' user='' @ user c @ '' password='' @ password c"

definition effective_pool_size :: "nat \<Rightarrow> postgres_config \<Rightarrow> nat" where
  "effective_pool_size hardware_concurrency c =
     (let concurrency = (if hardware_concurrency \<noteq> 0 then hardware_concurrency else 1)
      in if pool_size c \<noteq> 0 then pool_size c else 2 * concurrency)"

text \<open>
  The opening loop: slot \<open>i\<close> is opened with the connection string; \<open>open_ok i s\<close> says whether
  \<^verbatim>\<open>sql.open\<close> succeeds there. A failure is an exception that leaves the factory.
\<close>

fun open_slots :: "(nat \<Rightarrow> string \<Rightarrow> bool) \<Rightarrow> string \<Rightarrow> nat \<Rightarrow> nat \<Rightarrow> nat + nat list" where
  "open_slots open_ok s i 0 = Inr []"
| "open_slots open_ok s i (Suc n) =
     (if open_ok i s
      then (case open_slots open_ok s (Suc i) n of Inl e \<Rightarrow> Inl e | Inr is \<Rightarrow> Inr (i # is))
      else Inl i)"

definition create_account_repository ::
  "(nat \<Rightarrow> string \<Rightarrow> bool) \<Rightarrow> nat \<Rightarrow> postgres_config \<Rightarrow> nat + nat list" where
  "create_account_repository open_ok hardware_concurrency c =
     open_slots open_ok (connection_string c) 0 (effective_pool_size hardware_concurrency c)"

lemma open_slots_spec:
  "(\<exists>k<n. \<not> open_ok (i + k) s \<and> (\<forall>j<k. open_ok (i + j) s) \<and> open_slots open_ok s i n = Inl (i + k))
   \<or> ((\<forall>k<n. open_ok (i + k) s) \<and> open_slots open_ok s i n = Inr [i..<i + n])"
proof (induction n arbitrary: i)
  case 0
  then show ?case by simp
next
  case (Suc n)
  show ?case
  proof (cases "open_ok i s")
    case False
    then show ?thesis by (intro disjI1 exI [of _ 0]) simp
  next
    case True
    from Suc [of "Suc i"] show ?thesis
    proof (elim disjE exE conjE)
      fix k assume k: "k < n" "\<not> open_ok (Suc i + k) s" "\<forall>j<k. open_ok (Suc i + j) s"
        "open_slots open_ok s (Suc i) n = Inl (Suc i + k)"
      have "open_ok (i + j) s" if "j < Suc k" for j
        using that True k(3) by (cases j) auto
      with k True show ?thesis
        by (intro disjI1 exI [of _ "Suc k"]) simp
    next
      assume a: "\<forall>k<n. open_ok (Suc i + k) s" "open_slots open_ok s (Suc i) n = Inr [Suc i..<Suc i + n]"
      have "open_ok (i + k) s" if "k < Suc n" for k
        using that True a(1) by (cases k) auto
      with a True show ?thesis
        by (intro disjI2) (simp add: upt_rec [of i])
    qed
  qed
qed

text \<open>
  The factory opens the whole pool or fails at the first bad slot. With no configured
  size the pool has twice as many connections as the machine reports threads, and at least two; on
  success every slot is open, on failure the reported slot is the first that did not open.
\<close>

theorem create_account_repository_spec:
  "(if pool_size c = 0 then 2 \<le> effective_pool_size hw c else effective_pool_size hw c = pool_size c)
   \<and> (case create_account_repository open_ok hw c of
        Inr opened \<Rightarrow> opened = [0..<effective_pool_size hw c] \<and> list_all (\<lambda>i. open_ok i (connection_string c)) opened
      | Inl i \<Rightarrow> i < effective_pool_size hw c \<and> \<not> open_ok i (connection_string c)
          \<and> list_all (\<lambda>j. open_ok j (connection_string c)) [0..<i])"
  using open_slots_spec [of "effective_pool_size hw c" open_ok 0 "connection_string c"]
  by (auto simp: create_account_repository_def effective_pool_size_def list_all_iff Let_def)

text \<open>
  The connection string does not keep its fields apart. Values are pasted unquoted, so a
  user name with a space in it yields the very string of another configuration: what libpq reads is
  not always what was configured.
\<close>

theorem connection_string_not_injective:
  "\<exists>c d. user c \<noteq> user d \<and> dbname c \<noteq> dbname d \<and> connection_string c = connection_string d"
  by (rule exI [of _ "\<lparr>address = ''h'', port = ''1'', dbname = ''a'', user = ''b user=c'', password = ''p'', pool_size = 0\<rparr>"],
      rule exI [of _ "\<lparr>address = ''h'', port = ''1'', dbname = ''a user=b'', user = ''c'', password = ''p'', pool_size = 0\<rparr>"])
    (simp add: connection_string_def)

end
