(* ===== verification/Login_Flow.thy ===== *)
theory Login_Flow
  imports Login_Codec Account_Repository
begin

text \<open>
  From a request body to a response: the use case behind the port \<^verbatim>\<open>ILoginUseCase\<close>
  (\<^verbatim>\<open>Core/Application/UseCases/LoginUseCase.cpp\<close>), the TCP handler
  (\<^verbatim>\<open>Handlers/Login/LoginHandler.cpp\<close>) and the handler of services nobody registered
  (\<^verbatim>\<open>Server/TCPServer.cpp\<close>). A handler is a coroutine given a connection; what it does is the list
  of calls it makes on the connection (\<^verbatim>\<open>IConnection::Send\<close>, \<^verbatim>\<open>IConnection::Close\<close>) and whether it
  ends with an exception.
\<close>

section \<open>Calls on a connection\<close>

datatype conn_call = CallSend tcp_service "byte list option" u16 | CallClose

datatype handler_result = Returned "conn_call list" | Threw "conn_call list"

text \<open>
  A registered handler: the answers of the account repository at the time it runs, the API
  version and the body.
\<close>

type_synonym repository = "byte list \<Rightarrow> byte list option"
type_synonym handler = "repository \<Rightarrow> u16 \<Rightarrow> byte list \<Rightarrow> handler_result"

section \<open>The use case\<close>

definition validate_credentials :: "repository \<Rightarrow> byte list \<Rightarrow> byte list \<Rightarrow> login_result" where
  "validate_credentials repo ident pw =
     (let stored_pw = repo ident
      in if stored_pw \<noteq> None \<and> the stored_pw = pw then Success else InvalidCredentials)"

text \<open>
  The port the handler is written against: \<open>validate\<close> over a repository state, with the
  promise that success means the stored password.
\<close>

locale login_port =
  fixes stored :: "'r \<Rightarrow> byte list \<Rightarrow> byte list option"
    and validate :: "'r \<Rightarrow> byte list \<Rightarrow> byte list \<Rightarrow> login_result"
  assumes success_iff: "validate r i p = Success \<longleftrightarrow> stored r i = Some p"
    and never_locked: "validate r i p \<noteq> AccountLocked"
begin

lemma failure_iff: "validate r i p = InvalidCredentials \<longleftrightarrow> stored r i \<noteq> Some p"
  using success_iff [of r i p] never_locked [of r i p] by (cases "validate r i p") auto

text \<open>An unknown account and a wrong password get the same answer.\<close>

lemma no_user_enumeration:
  "stored r i = None \<Longrightarrow> stored r j = Some q \<Longrightarrow> q \<noteq> p \<Longrightarrow> validate r i p = validate r j p"
  by (metis failure_iff option.distinct(1) option.inject)

end

interpretation use_case: login_port "\<lambda>repo. repo" validate_credentials
  by unfold_locales (auto simp: validate_credentials_def Let_def)

text \<open>The same port over the database adapter itself.\<close>

interpretation postgres_use_case: login_port stored_password
    "\<lambda>pool. validate_credentials (\<lambda>i. fst (get_password pool i))"
  by unfold_locales
    (simp_all only: get_password_result use_case.success_iff use_case.never_locked not_False_eq_True)

section \<open>The handlers\<close>

text \<open>\<open>LoginHandler::operator()\<close>, over nullable use case, connection and buffer.\<close>

definition login_handler ::
  "(byte list \<Rightarrow> byte list \<Rightarrow> login_result) option \<Rightarrow> bool \<Rightarrow> u16 \<Rightarrow> byte list option \<Rightarrow> conn_call list" where
  "login_handler usecase connection api_version data_buf =
     (case usecase of
        None \<Rightarrow> []
      | Some validate \<Rightarrow>
          (case data_buf of
             None \<Rightarrow> []
           | Some buf \<Rightarrow>
               (case decode_request api_version buf of
                  None \<Rightarrow> []
                | Some request_dto \<Rightarrow>
                    (let code = validate (req_id request_dto) (req_password request_dto)
                     in case encode_response api_version code of
                          None \<Rightarrow> []
                        | Some body \<Rightarrow> if connection then [CallSend Login (Some body) api_version] else []))))"

definition unhandled_service :: "bool \<Rightarrow> conn_call list" where
  "unhandled_service connection = (if connection then [CallClose] else [])"

text \<open>The handlers as the session stores them: the connection is the session itself.\<close>

definition login_service :: handler where
  "login_service repo v body = Returned (login_handler (Some (validate_credentials repo)) True v (Some body))"

definition unhandled :: handler where
  "unhandled repo v body = Returned (unhandled_service True)"

text \<open>The array that \<open>TCPServer::MakeSession\<close> fills: one entry per service code.\<close>

definition make_handlers :: "handler list" where
  "make_handlers =
     (replicate (unat (service_code TypeCnt)) unhandled)[unat (service_code Login) := login_service]"

lemma make_handlers_nth:
  "length make_handlers = 4" "make_handlers ! 2 = login_service"
  "i < 4 \<Longrightarrow> i \<noteq> 2 \<Longrightarrow> make_handlers ! i = unhandled"
  by (simp_all add: make_handlers_def)

lemma login_service_answers:
  assumes "length body < 2 ^ 64"
  shows "(v = api_v1 \<and> request_fits q \<and> body = request_body q \<longrightarrow>
      login_service repo v body =
        Returned [CallSend Login (Some (be_digits 4 (unat (login_result_code
          (if repo (req_id q) = Some (req_password q) then Success else InvalidCredentials))))) api_v1])
    \<and> (\<not> (v = api_v1 \<and> (\<exists>q. request_fits q \<and> body = request_body q)) \<longrightarrow>
      login_service repo v body = Returned [])"
proof (intro conjI impI)
  assume "v = api_v1 \<and> request_fits q \<and> body = request_body q"
  then have v: "v = api_v1" and dec: "decode_request v body = Some q"
    using decode_request_inverts [OF assms, of v q] by auto
  have "validate_credentials repo (req_id q) (req_password q) =
    (if repo (req_id q) = Some (req_password q) then Success else InvalidCredentials)"
    using use_case.success_iff use_case.failure_iff by simp
  then show "login_service repo v body =
      Returned [CallSend Login (Some (be_digits 4 (unat (login_result_code
        (if repo (req_id q) = Some (req_password q) then Success else InvalidCredentials))))) api_v1]"
    using dec unfolding v by (simp add: login_service_def login_handler_def encode_response_v1_bytes Let_def)
next
  assume "\<not> (v = api_v1 \<and> (\<exists>q. request_fits q \<and> body = request_body q))"
  then have "decode_request v body = None"
    using decode_request_inverts [OF assms, of v] by fastforce
  then show "login_service repo v body = Returned []"
    by (simp add: login_service_def login_handler_def)
qed



end
