(* ===== verification/Session_State.thy ===== *)
theory Session_State
  imports Login_Flow
begin

text \<open>
  The state of a \<^verbatim>\<open>TCPSession\<close> (\<^verbatim>\<open>Session/TCPSession.hpp\<close>, \<^verbatim>\<open>TCPSession.cpp\<close>) and its write side:
  \<^verbatim>\<open>SendFrame\<close>, \<^verbatim>\<open>Drain\<close>, the write completion, \<^verbatim>\<open>Shutdown\<close>. Each definition is the body of one
  function or of one lambda run on the session's strand. What Boost.Asio keeps for the session is
  part of the state: the tasks posted to the strand, the outstanding \<^verbatim>\<open>async_write\<close>, the timers
  and where the two coroutines are suspended. The last two fields are history: every frame that
  entered the write queue, and the bytes the socket has taken.
\<close>

section \<open>State\<close>

record write_data =
  wd_header :: "byte list"
  wd_body :: "byte list option"
  wd_total :: size_t

datatype strand_task = SendTask tcp_service "byte list option" u16 | CleanupTask

text \<open>
  A \<^verbatim>\<open>steady_timer\<close>: no wait outstanding, waiting until a deadline (\<open>None\<close> is
  \<^verbatim>\<open>time_point::max()\<close>), or its completion handler is queued, with \<open>True\<close> for
  \<^verbatim>\<open>operation_aborted\<close>.
\<close>

datatype timer = TimerIdle | TimerWaiting "int option" | TimerDue bool

fun cancel_timer :: "timer \<Rightarrow> timer" where
  "cancel_timer (TimerWaiting d) = TimerDue True"
| "cancel_timer t = t"

text \<open>Where the read loop and the heartbeat coroutine are suspended.\<close>

datatype read_point =
    ReadTop | ReadResume | ReadHeader | ReadBody tcp_service u16 u32
  | ReadHandler tcp_service u16 "byte list" | ReadDone

datatype heart_point = HeartTop | HeartInterval | HeartGrace | HeartDone

record session =
  is_writing :: bool
  write_queue :: "write_data list"
  pending_bytes :: size_t
  last_rx :: int
  hb_timer :: timer
  resume_read :: timer
  backpressure :: bool
  peer_api_version :: u16
  is_closed :: bool
  sock_open :: bool
  strand :: "strand_task list"
  in_flight :: "(nat \<times> size_t \<times> byte list list) option"
  read_pc :: read_point
  heart_pc :: heart_point
  clock :: int
  accepted :: "write_data list"
  wire_out :: "byte list"

definition mk_session :: "int \<Rightarrow> session" where
  "mk_session t =
     \<lparr>is_writing = False, write_queue = [], pending_bytes = 0, last_rx = 0, hb_timer = TimerIdle,
      resume_read = TimerIdle, backpressure = False, peer_api_version = api_latest,
      is_closed = False, sock_open = True, strand = [], in_flight = None, read_pc = ReadDone,
      heart_pc = HeartDone, clock = t, accepted = [], wire_out = []\<rparr>"

text \<open>\<^verbatim>\<open>StartHandling\<close>: both coroutines are spawned on the strand.\<close>

definition start_handling :: "session \<Rightarrow> session" where
  "start_handling s = s\<lparr>last_rx := clock s, read_pc := ReadTop, heart_pc := HeartTop\<rparr>"

section \<open>Closing\<close>

definition shutdown :: "session \<Rightarrow> session" where
  "shutdown s =
     (if is_closed s then s else s\<lparr>is_closed := True, strand := strand s @ [CleanupTask]\<rparr>)"

definition cleanup :: "session \<Rightarrow> session" where
  "cleanup s =
     s\<lparr>hb_timer := cancel_timer (hb_timer s), resume_read := cancel_timer (resume_read s),
       sock_open := False\<rparr>"

definition close_session :: "session \<Rightarrow> session" where
  "close_session s = shutdown s"

section \<open>Sending\<close>

definition send_frame :: "tcp_service \<Rightarrow> byte list option \<Rightarrow> u16 \<Rightarrow> session \<Rightarrow> session" where
  "send_frame ty body v s = s\<lparr>strand := strand s @ [SendTask ty body v]\<rparr>"

definition send :: "tcp_service \<Rightarrow> byte list option \<Rightarrow> u16 \<Rightarrow> session \<Rightarrow> session" where
  "send ty body v s = send_frame ty body v s"

definition send_ping :: "session \<Rightarrow> session" where
  "send_ping s = send_frame Ping None (peer_api_version s) s"

definition send_pong :: "session \<Rightarrow> session" where
  "send_pong s = send_frame Pong None (peer_api_version s) s"

definition has_body :: "write_data \<Rightarrow> bool" where
  "has_body it \<longleftrightarrow> (case wd_body it of None \<Rightarrow> False | Some b \<Rightarrow> b \<noteq> [])"

text \<open>The gathering loop of \<open>Drain\<close>: items taken, their bytes, and the filled part of \<open>bufs\<close>.\<close>

fun gather :: "write_data list \<Rightarrow> nat \<Rightarrow> size_t \<Rightarrow> byte list list \<Rightarrow> nat \<times> size_t \<times> byte list list" where
  "gather [] items bytes bufs = (items, bytes, bufs)"
| "gather (it # rest) items bytes bufs =
     (let seq_size = (if has_body it then 2 else 1) in
      if items \<noteq> 0 \<and> (length bufs + seq_size > max_iov_per_write
                      \<or> bytes + wd_total it > max_batch_bytes)
      then (items, bytes, bufs)
      else gather rest (Suc items) (bytes + wd_total it)
             (bufs @ [wd_header it] @ (if has_body it then [the (wd_body it)] else [])))"

definition drain :: "session \<Rightarrow> session" where
  "drain s =
     (if is_closed s \<or> write_queue s = [] then s\<lparr>is_writing := False\<rparr>
      else s\<lparr>in_flight := Some (gather (write_queue s) 0 0 [])\<rparr>)"

definition frame_item :: "endian \<Rightarrow> tcp_service \<Rightarrow> byte list option \<Rightarrow> u16 \<Rightarrow> write_data" where
  "frame_item E ty body v =
     (let body_size = (case body of None \<Rightarrow> 0 | Some b \<Rightarrow> of_nat (length b)) :: size_t;
          hdr = \<lparr>hdr_service = service_code ty, hdr_size = ucast body_size, hdr_version = v\<rparr>
      in if body_size \<noteq> 0
         then \<lparr>wd_header = header_bytes E hdr, wd_body = body,
               wd_total = of_nat header_size + body_size\<rparr>
         else \<lparr>wd_header = header_bytes E hdr, wd_body = None, wd_total = of_nat header_size\<rparr>)"

text \<open>
  The lambda that \<open>SendFrame\<close> posts. \<open>raced\<close> says that another thread's \<open>Shutdown\<close> falls between
  the enqueueing and \<open>Drain\<close>: \<open>m_is_closed\<close> is atomic and read again there.
\<close>

definition send_task :: "endian \<Rightarrow> bool \<Rightarrow> tcp_service \<Rightarrow> byte list option \<Rightarrow> u16 \<Rightarrow> session \<Rightarrow> session" where
  "send_task E raced ty body v s =
     (if is_closed s then s
      else
        let item = frame_item E ty body v;
            body_size = (case body of None \<Rightarrow> 0 | Some b \<Rightarrow> of_nat (length b)) :: size_t
        in if body_size > ucast max_body_size \<or> - 1 - pending_bytes s < wd_total item
           then shutdown s
           else
             let s1 = s\<lparr>pending_bytes := pending_bytes s + wd_total item\<rparr>
             in if pending_bytes s1 > hard_cap then shutdown s1
                else
                  let s2 = (if \<not> backpressure s1 \<and> pending_bytes s1 > ucast high_water
                            then s1\<lparr>backpressure := True\<rparr> else s1);
                      s3 = s2\<lparr>write_queue := write_queue s2 @ [item], accepted := accepted s2 @ [item]\<rparr>
                  in if \<not> is_writing s3
                     then let s4 = s3\<lparr>is_writing := True\<rparr>
                          in drain (if raced then shutdown s4 else s4)
                     else s3)"

text \<open>The completion handler of \<open>async_write\<close>; on an error \<open>sent\<close> bytes had been taken.\<close>

definition write_done :: "bool \<Rightarrow> nat \<Rightarrow> session \<Rightarrow> session" where
  "write_done ec sent s =
     (case in_flight s of
        None \<Rightarrow> s
      | Some (batch_items, batch_bytes, bufs) \<Rightarrow>
          if ec
          then shutdown (s\<lparr>in_flight := None, wire_out := wire_out s @ take sent (concat bufs),
                           is_writing := False\<rparr>)
          else
            let s1 = s\<lparr>in_flight := None, wire_out := wire_out s @ concat bufs,
                       write_queue := drop batch_items (write_queue s),
                       pending_bytes := pending_bytes s - batch_bytes\<rparr>;
                s2 = (if backpressure s1 \<and> pending_bytes s1 \<le> ucast low_water
                      then s1\<lparr>backpressure := False, resume_read := cancel_timer (resume_read s1)\<rparr>
                      else s1)
            in drain s2)"

section \<open>What the gathering loop takes\<close>

definition item_bytes :: "write_data \<Rightarrow> byte list" where
  "item_bytes it = wd_header it @ (if has_body it then the (wd_body it) else [])"

definition stream :: "write_data list \<Rightarrow> byte list" where
  "stream q = concat (map item_bytes q)"

abbreviation queue_bytes :: "write_data list \<Rightarrow> nat" where
  "queue_bytes q \<equiv> sum_list (map (\<lambda>it. unat (wd_total it)) q)"

lemma stream_simps [simp]:
  "stream [] = []" "stream (it # q) = item_bytes it @ stream q" "stream (p @ q) = stream p @ stream q"
  by (simp_all add: stream_def)

lemma stream_take_drop: "stream (take n q) @ stream (drop n q) = stream q"
  by (metis append_take_drop_id stream_simps(3))

lemma gather_spec:
  assumes "gather q items bytes bufs = (n, b, bs)" and "unat bytes + queue_bytes q < 2 ^ 64"
    and "length bufs \<le> 32" and "items = 0 \<longrightarrow> bufs = []"
  shows "\<exists>k \<le> length q. n = items + k \<and> unat b = unat bytes + queue_bytes (take k q)
    \<and> concat bs = concat bufs @ stream (take k q) \<and> length bs \<le> 32
    \<and> (items = 0 \<and> q \<noteq> [] \<longrightarrow> 1 \<le> k)"
  using assms
proof (induction q arbitrary: items bytes bufs)
  case Nil
  then show ?case by simp
next
  case (Cons it q)
  let ?seq = "if has_body it then 2 else 1 :: nat"
  let ?bufs = "bufs @ [wd_header it] @ (if has_body it then [the (wd_body it)] else [])"
  show ?case
  proof (cases "items \<noteq> 0 \<and> (length bufs + ?seq > max_iov_per_write \<or> bytes + wd_total it > max_batch_bytes)")
    case True
    then have "(n, b, bs) = (items, bytes, bufs)" using Cons.prems(1) by simp
    then show ?thesis using True Cons.prems(3) by (intro exI [of _ 0]) simp
  next
    case False
    have sum: "unat (bytes + wd_total it) = unat bytes + unat (wd_total it)"
      using Cons.prems(2) by (intro unat_add_no_wrap) simp
    have "length ?bufs \<le> 32"
      using False Cons.prems(3,4) by (cases "items = 0") (auto split: if_splits)
    moreover have "gather q (Suc items) (bytes + wd_total it) ?bufs = (n, b, bs)"
      using Cons.prems(1) False by (simp only: gather.simps Let_def if_False)
    ultimately obtain k where k: "k \<le> length q" "n = Suc items + k"
      "unat b = unat (bytes + wd_total it) + queue_bytes (take k q)"
      "concat bs = concat ?bufs @ stream (take k q)" "length bs \<le> 32"
      using Cons.IH [of "Suc items" "bytes + wd_total it" ?bufs] Cons.prems(2) sum by auto
    then show ?thesis
      using sum by (intro exI [of _ "Suc k"]) (simp add: item_bytes_def)
  qed
qed

text \<open>The batch keeps its byte limit unless it is a single frame, and is as long as the limits allow.\<close>

lemma gather_items_le: "items \<le> fst (gather q items bytes bufs)"
  by (induction q items bytes bufs rule: gather.induct) (auto simp: Let_def)

lemma gather_limits:
  assumes "gather q items bytes bufs = (n, b, bs)" and "1 < items \<longrightarrow> bytes \<le> max_batch_bytes"
  shows "(1 < n \<longrightarrow> b \<le> max_batch_bytes)
    \<and> (n - items < length q \<longrightarrow>
        length bs + (if has_body (q ! (n - items)) then 2 else 1) > max_iov_per_write
        \<or> b + wd_total (q ! (n - items)) > max_batch_bytes)"
  using assms
proof (induction q arbitrary: items bytes bufs)
  case Nil
  then show ?case by simp
next
  case (Cons it q)
  let ?seq = "if has_body it then 2 else 1 :: nat"
  let ?bufs = "bufs @ [wd_header it] @ (if has_body it then [the (wd_body it)] else [])"
  show ?case
  proof (cases "items \<noteq> 0 \<and> (length bufs + ?seq > max_iov_per_write \<or> bytes + wd_total it > max_batch_bytes)")
    case True
    then have "(n, b, bs) = (items, bytes, bufs)" using Cons.prems(1) by simp
    then show ?thesis using True Cons.prems(2) by auto
  next
    case False
    have g: "gather q (Suc items) (bytes + wd_total it) ?bufs = (n, b, bs)"
      using Cons.prems(1) False by (simp only: gather.simps Let_def if_False)
    have "Suc items \<le> n" using gather_items_le [of "Suc items" q "bytes + wd_total it" ?bufs] g by simp
    then have "n - items = Suc (n - Suc items)" by simp
    then show ?thesis
      using Cons.IH [OF g] False by (auto simp: not_less)
  qed
qed

end
