(* ===== verification/Session_Loops.thy ===== *)
theory Session_Loops
  imports Session_State
begin

text \<open>
  The two coroutines of a session, \<^verbatim>\<open>ReadLoop\<close> and \<^verbatim>\<open>Heartbeat\<close> of \<^verbatim>\<open>TCPSession.cpp\<close>, cut at their
  \<^verbatim>\<open>co_await\<close>s: each definition runs from one resumption to the next suspension, so a definition
  is one uninterrupted turn on the strand. Times are \<^verbatim>\<open>steady_clock\<close> nanoseconds.
\<close>

section \<open>Timeouts\<close>

definition seconds :: "int \<Rightarrow> int" where "seconds n = n * 1000000000"
definition milliseconds :: "int \<Rightarrow> int" where "milliseconds n = n * 1000000"

definition hb_interval :: int where "hb_interval = seconds 30"
definition soft_idle :: int where "soft_idle = seconds 45"
definition hard_idle :: int where "hard_idle = seconds 75"
definition grace_wait :: int where "grace_wait = seconds 10"

lemmas timeout_defs = seconds_def milliseconds_def hb_interval_def soft_idle_def hard_idle_def
  grace_wait_def

text \<open>\<^verbatim>\<open>m_hb_jitter(0, 500)\<close>: what the uniform distribution can return.\<close>

definition jitter_ok :: "int \<Rightarrow> bool" where
  "jitter_ok j \<longleftrightarrow> 0 \<le> j \<and> j \<le> 500"

section \<open>Calls a handler makes on its connection\<close>

fun perform_calls ::
  "(tcp_service \<Rightarrow> byte list option \<Rightarrow> u16 \<Rightarrow> 's \<Rightarrow> 's) \<Rightarrow> ('s \<Rightarrow> 's) \<Rightarrow> conn_call list \<Rightarrow> 's \<Rightarrow> 's" where
  "perform_calls snd_op cls_op [] s = s"
| "perform_calls snd_op cls_op (CallSend ty body v # cs) s = perform_calls snd_op cls_op cs (snd_op ty body v s)"
| "perform_calls snd_op cls_op (CallClose # cs) s = perform_calls snd_op cls_op cs (cls_op s)"

text \<open>
  The port \<^verbatim>\<open>IConnection\<close> as handlers see it: sending only queues the frame, closing is
  idempotent and does not touch what was queued.
\<close>

locale connection =
  fixes snd_op :: "tcp_service \<Rightarrow> byte list option \<Rightarrow> u16 \<Rightarrow> 's \<Rightarrow> 's"
    and cls_op :: "'s \<Rightarrow> 's"
    and closed :: "'s \<Rightarrow> bool"
    and queued :: "'s \<Rightarrow> (tcp_service \<times> byte list option \<times> u16) list"
  assumes send_queued: "queued (snd_op ty body v s) = queued s @ [(ty, body, v)]"
    and send_closed: "closed (snd_op ty body v s) = closed s"
    and close_closed: "closed (cls_op s)"
    and close_queued: "queued (cls_op s) = queued s"
    and close_idem: "closed s \<Longrightarrow> cls_op s = s"
begin

fun sends_of :: "conn_call list \<Rightarrow> (tcp_service \<times> byte list option \<times> u16) list" where
  "sends_of [] = []"
| "sends_of (CallSend ty body v # cs) = (ty, body, v) # sends_of cs"
| "sends_of (CallClose # cs) = sends_of cs"

lemma calls_queued: "queued (perform_calls snd_op cls_op cs s) = queued s @ sends_of cs"
  by (induction cs arbitrary: s rule: sends_of.induct) (auto simp: send_queued close_queued)

lemma calls_closed: "closed (perform_calls snd_op cls_op cs s) \<longleftrightarrow> closed s \<or> CallClose \<in> set cs"
  by (induction cs arbitrary: s rule: sends_of.induct) (auto simp: send_closed close_closed)

end

definition queued_sends :: "session \<Rightarrow> (tcp_service \<times> byte list option \<times> u16) list" where
  "queued_sends s = List.map_filter
     (\<lambda>t. case t of SendTask ty body v \<Rightarrow> Some (ty, body, v) | CleanupTask \<Rightarrow> None) (strand s)"

interpretation session_conn: connection send close_session is_closed queued_sends
  by unfold_locales
    (auto simp: send_def send_frame_def close_session_def shutdown_def queued_sends_def map_filter_def)

section \<open>The read loop\<close>

text \<open>The top of the loop: wait for the write side to drain, or start reading a header.\<close>

definition read_top :: "session \<Rightarrow> session" where
  "read_top s =
     (if backpressure s
      then s\<lparr>resume_read := TimerWaiting None, read_pc := ReadResume\<rparr>
      else s\<lparr>read_pc := ReadHeader\<rparr>)"

text \<open>The wait is over; its error code is ignored.\<close>

definition read_resumed :: "session \<Rightarrow> session" where
  "read_resumed s = s\<lparr>resume_read := TimerIdle, read_pc := ReadHeader\<rparr>"

definition read_stop :: "session \<Rightarrow> session" where
  "read_stop s = (shutdown s)\<lparr>read_pc := ReadDone\<rparr>"

text \<open>A complete header has arrived; \<^verbatim>\<open>continue\<close> runs into the top of the loop.\<close>

definition read_header_done :: "endian \<Rightarrow> byte list \<Rightarrow> session \<Rightarrow> session" where
  "read_header_done E bs s =
     (let h = header_of_bytes E bs;
          s1 = s\<lparr>last_rx := clock s\<rparr>;
          service_type = service_of_code (hdr_service h);
          data_size = hdr_size h;
          api_version = hdr_version h
      in if service_code service_type \<ge> service_code TypeCnt then read_stop s1
         else if \<not> api_supported_for service_type api_version then read_stop s1
         else
           let s2 = s1\<lparr>peer_api_version := api_version\<rparr>
           in if service_type = Ping \<or> service_type = Pong
              then if data_size \<noteq> 0 then read_stop s2
                   else read_top (if service_type = Ping then send_pong s2 else s2)
              else if data_size = 0 \<or> data_size > max_body_size then read_stop s2
              else s2\<lparr>read_pc := ReadBody service_type api_version data_size\<rparr>)"

definition read_body_done :: "byte list \<Rightarrow> session \<Rightarrow> session" where
  "read_body_done bs s =
     (case read_pc s of
        ReadBody service_type api_version data_size \<Rightarrow>
          s\<lparr>last_rx := clock s, read_pc := ReadHandler service_type api_version bs\<rparr>
      | _ \<Rightarrow> s)"

text \<open>The awaited handler is done: the calls it made, then the next iteration or the catch block.\<close>

definition handler_done :: "handler_result \<Rightarrow> session \<Rightarrow> session" where
  "handler_done result s =
     (case result of
        Returned calls \<Rightarrow> read_top (perform_calls send close_session calls s)
      | Threw calls \<Rightarrow> read_stop (perform_calls send close_session calls s))"

text \<open>The entry of \<open>m_handlers\<close> that the loop calls.\<close>

definition handler_at :: "handler list \<Rightarrow> tcp_service \<Rightarrow> handler" where
  "handler_at hs ty = hs ! unat (service_code ty)"

section \<open>The heartbeat\<close>

definition heart_top :: "int \<Rightarrow> session \<Rightarrow> session" where
  "heart_top jitter s =
     (if is_closed s then s\<lparr>heart_pc := HeartDone\<rparr>
      else s\<lparr>hb_timer := TimerWaiting (Some (clock s + hb_interval + milliseconds jitter)),
             heart_pc := HeartInterval\<rparr>)"

definition heart_interval_done :: "int \<Rightarrow> bool \<Rightarrow> session \<Rightarrow> session" where
  "heart_interval_done jitter aborted s0 =
     (let s = s0\<lparr>hb_timer := TimerIdle\<rparr>
      in if aborted then heart_top jitter s
         else
           let idle = clock s - last_rx s
           in if idle \<ge> hard_idle then (shutdown s)\<lparr>heart_pc := HeartDone\<rparr>
              else if idle \<ge> soft_idle
              then (send_ping s)\<lparr>hb_timer := TimerWaiting (Some (clock s + grace_wait)),
                                  heart_pc := HeartGrace\<rparr>
              else heart_top jitter s)"

definition heart_grace_done :: "int \<Rightarrow> bool \<Rightarrow> session \<Rightarrow> session" where
  "heart_grace_done jitter aborted s0 =
     (let s = s0\<lparr>hb_timer := TimerIdle\<rparr>
      in if aborted then heart_top jitter s
         else
           let idle_after_ping = clock s - last_rx s
           in if idle_after_ping \<ge> hard_idle then (shutdown s)\<lparr>heart_pc := HeartDone\<rparr>
              else heart_top jitter s)"

section \<open>The heartbeat alone: how long an idle peer survives\<close>

text \<open>
  The heartbeat of a session from which nothing more is received, run with timers that fire
  exactly at their deadlines; \<open>js\<close> are the jitters drawn. Each turn either stops or rearms the timer.
\<close>

definition heart_turn :: "int \<Rightarrow> session \<Rightarrow> session" where
  "heart_turn jitter s =
     (case (hb_timer s, heart_pc s) of
        (TimerWaiting (Some d), HeartInterval) \<Rightarrow> heart_interval_done jitter False (s\<lparr>clock := d\<rparr>)
      | (TimerWaiting (Some d), HeartGrace) \<Rightarrow> heart_grace_done jitter False (s\<lparr>clock := d\<rparr>)
      | _ \<Rightarrow> s)"

primrec heart_run :: "int list \<Rightarrow> session \<Rightarrow> session" where
  "heart_run [] s = s"
| "heart_run (j # js) s = heart_run js (heart_turn j s)"

end
