(* ===== verification/Session_System.thy ===== *)
theory Session_System
  imports Session_Loops
begin

text \<open>
  A running session: the step relation that interleaves the strand's turns with what other
  threads, the peer and the operating system do, and the invariants of the reachable states. The
  turns are the definitions of \<open>Session_State\<close> and \<open>Session_Loops\<close>; a completion may be a success
  or an error at any time, so every behaviour Boost.Asio documents is included.
\<close>

section \<open>Steps\<close>

inductive session_step :: "endian \<Rightarrow> handler list \<Rightarrow> session \<Rightarrow> session \<Rightarrow> bool"
  for E :: endian and hs :: "handler list" where
  tick: "0 \<le> d \<Longrightarrow> session_step E hs s (s\<lparr>clock := clock s + d\<rparr>)"
| post_send: "(\<And>b. body = Some b \<Longrightarrow> length b < 2 ^ 63) \<Longrightarrow> session_step E hs s (send ty body v s)"
| post_close: "session_step E hs s (close_session s)"
| run_send: "strand s = SendTask ty body v # ts
    \<Longrightarrow> session_step E hs s (send_task E raced ty body v (s\<lparr>strand := ts\<rparr>))"
| run_cleanup: "strand s = CleanupTask # ts \<Longrightarrow> session_step E hs s (cleanup (s\<lparr>strand := ts\<rparr>))"
| write_completes: "in_flight s \<noteq> None \<Longrightarrow> session_step E hs s (write_done ec sent s)"
| read_starts: "read_pc s = ReadTop \<Longrightarrow> session_step E hs s (read_top s)"
| read_resumes: "read_pc s = ReadResume \<Longrightarrow> resume_read s = TimerDue aborted
    \<Longrightarrow> session_step E hs s (read_resumed s)"
| header_arrives: "read_pc s = ReadHeader \<Longrightarrow> length bs = header_size
    \<Longrightarrow> session_step E hs s (read_header_done E bs s)"
| header_fails: "read_pc s = ReadHeader \<Longrightarrow> session_step E hs s (read_stop s)"
| body_arrives: "read_pc s = ReadBody ty v n \<Longrightarrow> length bs = unat n
    \<Longrightarrow> session_step E hs s (read_body_done bs s)"
| body_fails: "read_pc s = ReadBody ty v n \<Longrightarrow> session_step E hs s (read_stop s)"
| handler_ends: "read_pc s = ReadHandler ty v body
    \<Longrightarrow> session_step E hs s (handler_done (handler_at hs ty repo v body) s)"
| heart_starts: "heart_pc s = HeartTop \<Longrightarrow> jitter_ok j \<Longrightarrow> session_step E hs s (heart_top j s)"
| heart_fires: "hb_timer s = TimerWaiting (Some d) \<Longrightarrow> d \<le> clock s
    \<Longrightarrow> session_step E hs s (s\<lparr>hb_timer := TimerDue False\<rparr>)"
| heart_wakes: "heart_pc s = HeartInterval \<Longrightarrow> hb_timer s = TimerDue aborted \<Longrightarrow> jitter_ok j
    \<Longrightarrow> session_step E hs s (heart_interval_done j aborted s)"
| heart_graced: "heart_pc s = HeartGrace \<Longrightarrow> hb_timer s = TimerDue aborted \<Longrightarrow> jitter_ok j
    \<Longrightarrow> session_step E hs s (heart_grace_done j aborted s)"

inductive session_reachable :: "endian \<Rightarrow> handler list \<Rightarrow> session \<Rightarrow> bool"
  for E :: endian and hs :: "handler list" where
  started: "session_reachable E hs (start_handling (mk_session t))"
| stepped: "session_reachable E hs s \<Longrightarrow> session_step E hs s s' \<Longrightarrow> session_reachable E hs s'"

section \<open>The write side\<close>

text \<open>
  \<open>write_core\<close> relates the counters, the flags and the two histories; \<open>write_flight\<close> says what the
  outstanding \<^verbatim>\<open>async_write\<close> holds. \<open>Drain\<close> runs between two writes and re-establishes the second
  from the first.
\<close>

definition write_core :: "session \<Rightarrow> bool" where
  "write_core s \<longleftrightarrow>
     queue_bytes (write_queue s) \<le> unat (pending_bytes s)
   \<and> unat (pending_bytes s) \<le> 8388608 + 2097162
   \<and> (\<not> is_closed s \<longrightarrow> queue_bytes (write_queue s) = unat (pending_bytes s)
        \<and> unat (pending_bytes s) \<le> unat hard_cap
        \<and> (\<not> backpressure s \<longrightarrow> unat (pending_bytes s) \<le> unat high_water)
        \<and> wire_out s @ stream (write_queue s) = stream (accepted s))
   \<and> (backpressure s \<longrightarrow> unat low_water < unat (pending_bytes s))
   \<and> prefix (wire_out s) (stream (accepted s))"

definition write_flight :: "session \<Rightarrow> bool" where
  "write_flight s \<longleftrightarrow>
     (is_writing s \<longleftrightarrow> in_flight s \<noteq> None)
   \<and> (\<not> is_closed s \<and> \<not> is_writing s \<longrightarrow> write_queue s = [])
   \<and> (\<forall>n b bufs. in_flight s = Some (n, b, bufs) \<longrightarrow>
        1 \<le> n \<and> n \<le> length (write_queue s) \<and> unat b = queue_bytes (take n (write_queue s))
      \<and> concat bufs = stream (take n (write_queue s)) \<and> length bufs \<le> max_iov_per_write
      \<and> wire_out s @ stream (write_queue s) = stream (accepted s))"

definition write_inv :: "session \<Rightarrow> bool" where
  "write_inv s \<longleftrightarrow> write_core s \<and> write_flight s"

lemma write_inv_frame [simp]:
  "write_inv (s\<lparr>clock := t\<rparr>) = write_inv s" "write_inv (s\<lparr>strand := ts\<rparr>) = write_inv s"
  "write_inv (s\<lparr>last_rx := t\<rparr>) = write_inv s" "write_inv (s\<lparr>hb_timer := h\<rparr>) = write_inv s"
  "write_inv (s\<lparr>resume_read := r\<rparr>) = write_inv s" "write_inv (s\<lparr>read_pc := pc\<rparr>) = write_inv s"
  "write_inv (s\<lparr>heart_pc := hc\<rparr>) = write_inv s" "write_inv (s\<lparr>sock_open := so\<rparr>) = write_inv s"
  "write_inv (s\<lparr>peer_api_version := v\<rparr>) = write_inv s"
  by (simp_all add: write_inv_def write_core_def write_flight_def)

lemma write_core_is_writing [simp]: "write_core (s\<lparr>is_writing := w\<rparr>) = write_core s"
  by (simp add: write_core_def)

lemma write_flight_iff: "write_flight s \<Longrightarrow> is_writing s \<longleftrightarrow> in_flight s \<noteq> None"
  unfolding write_flight_def by blast

lemma write_inv_start: "write_inv (start_handling (mk_session t))"
  by (simp add: write_inv_def write_core_def write_flight_def start_handling_def mk_session_def)

lemma write_core_shutdown: "write_core s \<Longrightarrow> write_core (shutdown s)"
  by (simp add: write_core_def shutdown_def)

lemma write_flight_shutdown: "write_flight s \<Longrightarrow> write_flight (shutdown s)"
  by (simp add: write_flight_def shutdown_def)

lemma write_inv_shutdown [intro]: "write_inv s \<Longrightarrow> write_inv (shutdown s)"
  by (simp add: write_inv_def write_core_shutdown write_flight_shutdown)

lemma drain_write_inv:
  assumes "write_core s" and "in_flight s = None" and "is_writing s"
  shows "write_inv (drain s)"
proof (cases "is_closed s \<or> write_queue s = []")
  case True
  then show ?thesis
    using assms by (auto simp: drain_def write_inv_def write_core_def write_flight_def)
next
  case False
  obtain n b bufs where g: "gather (write_queue s) 0 0 [] = (n, b, bufs)"
    by (metis prod_cases3)
  have "queue_bytes (write_queue s) < 2 ^ 64"
    using assms(1) by (simp add: write_core_def)
  then obtain k where k: "k \<le> length (write_queue s)" "n = k" "1 \<le> k"
    "unat b = queue_bytes (take k (write_queue s))" "concat bufs = stream (take k (write_queue s))"
    "length bufs \<le> 32"
    using gather_spec [OF g] False by auto
  have "drain s = s\<lparr>in_flight := Some (n, b, bufs)\<rparr>"
    using False g by (simp add: drain_def)
  then show ?thesis
    using assms k False
    by (simp add: write_inv_def write_core_def write_flight_def)
qed

lemma send_task_write_inv:
  assumes inv: "write_inv s"
  shows "write_inv (send_task E raced ty body v s)"
proof (cases "is_closed s")
  case True
  then show ?thesis using inv by (simp add: send_task_def)
next
  case open_: False
  define item where "item = frame_item E ty body v"
  define size where "size = ((case body of None \<Rightarrow> 0 | Some b \<Rightarrow> of_nat (length b)) :: size_t)"
  define s1 where "s1 = s\<lparr>pending_bytes := pending_bytes s + wd_total item\<rparr>"
  define s2 where "s2 = (if \<not> backpressure s1 \<and> pending_bytes s1 > ucast high_water
    then s1\<lparr>backpressure := True\<rparr> else s1)"
  define s3 where "s3 = s2\<lparr>write_queue := write_queue s2 @ [item], accepted := accepted s2 @ [item]\<rparr>"
  define s4 where "s4 = s3\<lparr>is_writing := True\<rparr>"
  have unfold: "send_task E raced ty body v s =
    (if size > ucast max_body_size \<or> - 1 - pending_bytes s < wd_total item then shutdown s
     else if pending_bytes s1 > hard_cap then shutdown s1
     else if \<not> is_writing s3 then drain (if raced then shutdown s4 else s4) else s3)"
    using open_ by (simp add: send_task_def Let_def item_def size_def s1_def s2_def s3_def s4_def)
  show ?thesis
  proof (cases "size > ucast max_body_size \<or> - 1 - pending_bytes s < wd_total item")
    case True
    then show ?thesis using inv unfold by auto
  next
    case fits: False
    have size_le: "unat size \<le> 2097152"
      using fits by (simp add: not_less word_le_nat_alt)
    have "unat (of_nat header_size + size) = header_size + unat size"
      using size_le by (subst unat_add_no_wrap) (simp_all add: header_size_def)
    then have total: "unat (wd_total item) = 10 + unat size"
      by (simp add: item_def frame_item_def size_def Let_def header_size_def)
    have pend: "unat (pending_bytes s) \<le> 8388608"
      using inv open_ by (simp add: write_inv_def write_core_def)
    have pend1: "unat (pending_bytes s1) = unat (pending_bytes s) + unat (wd_total item)"
      unfolding s1_def using total size_le pend by (simp add: unat_add_no_wrap)
    have core1: "write_core (shutdown s1)"
      using inv open_ pend1 total size_le pend
      by (auto simp: write_inv_def write_core_def s1_def shutdown_def)
    show ?thesis
    proof (cases "pending_bytes s1 > hard_cap")
      case True
      moreover have "write_flight (shutdown s1)"
        using inv by (intro write_flight_shutdown) (simp add: write_inv_def write_flight_def s1_def)
      ultimately show ?thesis
        using unfold fits core1 by (simp add: write_inv_def)
    next
      case capped: False
      have core3: "write_core s3"
        using inv open_ pend1 capped
        by (auto simp: write_inv_def write_core_def s1_def s2_def s3_def not_less word_le_nat_alt
            word_less_nat_alt item_bytes_def intro: prefix_order.trans)
      show ?thesis
      proof (cases "is_writing s3")
        case True
        then have "write_flight s3"
          using inv by (auto simp: write_inv_def write_flight_def s1_def s2_def s3_def)
        then show ?thesis
          using unfold fits capped core3 True by (simp add: write_inv_def)
      next
        case False
        have same: "is_writing s3 = is_writing s" "in_flight s3 = in_flight s"
          by (simp_all add: s1_def s2_def s3_def)
        have "in_flight s = None"
          using inv False same(1) write_flight_iff [of s] unfolding write_inv_def by blast
        then have core4: "write_core s4" "is_writing s4" "in_flight s4 = None"
          using core3 same by (simp_all add: s4_def)
        then have "write_core (shutdown s4)" "is_writing (shutdown s4)" "in_flight (shutdown s4) = None"
          by (simp_all add: write_core_shutdown) (simp_all add: shutdown_def)
        then show ?thesis
          using unfold fits capped False core4 drain_write_inv by simp
      qed
    qed
  qed
qed

lemma write_done_write_inv:
  assumes inv: "write_inv s"
  shows "write_inv (write_done ec sent s)"
proof (cases "in_flight s")
  case None
  then show ?thesis using inv by (simp add: write_done_def)
next
  case (Some w)
  then obtain n b bufs where w: "in_flight s = Some (n, b, bufs)" by (cases w) auto
  have f: "n \<le> length (write_queue s)" "unat b = queue_bytes (take n (write_queue s))"
    "concat bufs = stream (take n (write_queue s))" "wire_out s @ stream (write_queue s) = stream (accepted s)"
    and core: "write_core s"
    using inv w by (auto simp: write_inv_def write_flight_def)
  have split: "stream (write_queue s) = concat bufs @ stream (drop n (write_queue s))"
    using f(3) stream_take_drop by metis
  show ?thesis
  proof (cases ec)
    case True
    have "prefix (wire_out s @ take sent (concat bufs)) (stream (accepted s))"
      using f(4) split prefix_append_take by metis
    then show ?thesis
      using core w True
      by (simp add: write_done_def write_inv_def write_core_def write_flight_def shutdown_def)
  next
    case False
    define s1 where "s1 = s\<lparr>in_flight := None, wire_out := wire_out s @ concat bufs,
      write_queue := drop n (write_queue s), pending_bytes := pending_bytes s - b\<rparr>"
    define s2 where "s2 = (if backpressure s1 \<and> pending_bytes s1 \<le> ucast low_water
      then s1\<lparr>backpressure := False, resume_read := cancel_timer (resume_read s1)\<rparr> else s1)"
    have "b \<le> pending_bytes s"
      using core f(2) sum_list_map_take_le [of "\<lambda>it. unat (wd_total it)" n "write_queue s"]
      by (simp add: write_core_def word_le_nat_alt)
    then have pend: "unat (pending_bytes s1) = unat (pending_bytes s) - unat b"
      by (simp add: s1_def unat_sub)
    have "queue_bytes (drop n (write_queue s)) = queue_bytes (write_queue s) - unat b"
      using sum_list_take_drop [of "\<lambda>it. unat (wd_total it)" n "write_queue s"] f(2) by simp
    moreover have eq: "wire_out s1 @ stream (write_queue s1) = stream (accepted s1)"
      using f(4) split by (simp add: s1_def)
    moreover have "prefix (wire_out s1) (stream (accepted s1))"
      using eq by (metis prefixI)
    moreover have "write_queue s1 = drop n (write_queue s)" "is_closed s1 = is_closed s"
      "backpressure s1 = backpressure s"
      by (simp_all add: s1_def)
    ultimately have "write_core s2"
      using core pend by (auto simp: write_core_def s2_def word_le_nat_alt)
    moreover have "in_flight s2 = None" "is_writing s2"
      using inv w by (auto simp: write_inv_def write_flight_def s1_def s2_def)
    moreover have "write_done ec sent s = drain s2"
      using w False by (simp add: write_done_def Let_def s1_def s2_def)
    ultimately show ?thesis
      using drain_write_inv by simp
  qed
qed

lemma perform_calls_induct:
  assumes "P s" and "\<And>ty b v s. P s \<Longrightarrow> CallSend ty b v \<in> set cs \<Longrightarrow> P (send ty b v s)"
    and "\<And>s. P s \<Longrightarrow> P (close_session s)"
  shows "P (perform_calls send close_session cs s)"
  using assms
proof (induction cs arbitrary: s)
  case Nil
  then show ?case by simp
next
  case (Cons c cs)
  then show ?case by (cases c) auto
qed

lemmas turn_defs = send_def send_frame_def send_ping_def send_pong_def close_session_def cleanup_def
  read_top_def read_resumed_def read_stop_def read_header_done_def read_body_done_def
  handler_done_def heart_top_def heart_interval_done_def heart_grace_done_def

lemma write_inv_sends [simp]:
  "write_inv (send ty b v s) = write_inv s" "write_inv (send_frame ty b v s) = write_inv s"
  "write_inv (send_ping s) = write_inv s" "write_inv (send_pong s) = write_inv s"
  "write_inv (cleanup s) = write_inv s" "write_inv (read_top s) = write_inv s"
  "write_inv (read_resumed s) = write_inv s" "write_inv (read_body_done bs s) = write_inv s"
  "write_inv (heart_top j s) = write_inv s"
  by (simp_all add: turn_defs split: read_point.split)

lemma write_inv_stops [intro]:
  "write_inv s \<Longrightarrow> write_inv (close_session s)" "write_inv s \<Longrightarrow> write_inv (read_stop s)"
  by (auto simp: read_stop_def close_session_def)

lemma write_inv_header: "write_inv s \<Longrightarrow> write_inv (read_header_done E bs s)"
  by (auto simp: read_header_done_def Let_def)

lemma write_inv_handler: "write_inv s \<Longrightarrow> write_inv (handler_done r s)"
proof -
  assume "write_inv s"
  then have "write_inv (perform_calls send close_session cs s)" for cs
    by (rule perform_calls_induct) auto
  then show ?thesis
    by (auto simp: handler_done_def split: handler_result.split)
qed

lemma write_inv_heart:
  "write_inv s \<Longrightarrow> write_inv (heart_interval_done j a s)" "write_inv s \<Longrightarrow> write_inv (heart_grace_done j a s)"
  by (auto simp: heart_interval_done_def heart_grace_done_def Let_def)

lemma session_step_write_inv: "session_step E hs s s' \<Longrightarrow> write_inv s \<Longrightarrow> write_inv s'"
  by (induction rule: session_step.induct)
    (auto intro: send_task_write_inv write_done_write_inv write_inv_header write_inv_handler write_inv_heart)

lemma reachable_write_inv: "session_reachable E hs s \<Longrightarrow> write_inv s"
  by (induction rule: session_reachable.induct) (auto intro: write_inv_start session_step_write_inv)

section \<open>The coroutines, the timers and the closing task\<close>

definition body_point_ok :: "tcp_service \<Rightarrow> u16 \<Rightarrow> bool" where
  "body_point_ok ty v \<longleftrightarrow> (ty = Login \<or> ty = Receiving) \<and> v = api_v1"

definition read_inv :: "session \<Rightarrow> bool" where
  "read_inv s \<longleftrightarrow>
     (read_pc s = ReadResume \<longleftrightarrow> resume_read s \<noteq> TimerIdle)
   \<and> (\<not> is_closed s \<and> (\<exists>d. resume_read s = TimerWaiting d) \<longrightarrow> backpressure s)
   \<and> (\<forall>ty v n. read_pc s = ReadBody ty v n \<longrightarrow> body_point_ok ty v \<and> 0 < unat n \<and> unat n \<le> unat max_body_size)
   \<and> (\<forall>ty v b. read_pc s = ReadHandler ty v b \<longrightarrow>
        body_point_ok ty v \<and> 0 < length b \<and> length b \<le> unat max_body_size)
   \<and> peer_api_version s = api_v1
   \<and> (\<not> is_closed s \<longrightarrow> read_pc s \<noteq> ReadDone)"

definition heart_inv :: "session \<Rightarrow> bool" where
  "heart_inv s \<longleftrightarrow>
     (heart_pc s = HeartInterval \<or> heart_pc s = HeartGrace \<longleftrightarrow> hb_timer s \<noteq> TimerIdle)
   \<and> hb_timer s \<noteq> TimerWaiting None
   \<and> (\<not> is_closed s \<longrightarrow> heart_pc s \<noteq> HeartDone)
   \<and> last_rx s \<le> clock s"

definition close_inv :: "session \<Rightarrow> bool" where
  "close_inv s \<longleftrightarrow>
     count_list (strand s) CleanupTask + (if sock_open s then 0 else 1) = (if is_closed s then 1 else 0)"

lemma close_inv_frame [simp]:
  "close_inv (s\<lparr>clock := t\<rparr>) = close_inv s" "close_inv (s\<lparr>last_rx := t\<rparr>) = close_inv s"
  "close_inv (s\<lparr>hb_timer := h\<rparr>) = close_inv s" "close_inv (s\<lparr>resume_read := r\<rparr>) = close_inv s"
  "close_inv (s\<lparr>read_pc := pc\<rparr>) = close_inv s" "close_inv (s\<lparr>heart_pc := hc\<rparr>) = close_inv s"
  "close_inv (s\<lparr>peer_api_version := v\<rparr>) = close_inv s" "close_inv (s\<lparr>backpressure := bp\<rparr>) = close_inv s"
  "close_inv (s\<lparr>is_writing := w\<rparr>) = close_inv s" "close_inv (s\<lparr>in_flight := f\<rparr>) = close_inv s"
  "close_inv (s\<lparr>pending_bytes := p\<rparr>) = close_inv s" "close_inv (s\<lparr>write_queue := q\<rparr>) = close_inv s"
  "close_inv (s\<lparr>accepted := a\<rparr>) = close_inv s" "close_inv (s\<lparr>wire_out := ob\<rparr>) = close_inv s"
  "strand s = SendTask ty b v # ts \<Longrightarrow> close_inv (s\<lparr>strand := ts\<rparr>) = close_inv s"
  by (simp_all add: close_inv_def)

lemma close_inv_shutdown [simp]: "close_inv s \<Longrightarrow> close_inv (shutdown s)"
  by (auto simp: close_inv_def shutdown_def split: if_splits)

lemma close_inv_sends [simp]:
  "close_inv (send_frame ty b v s) = close_inv s" "close_inv (send ty b v s) = close_inv s"
  "close_inv (send_ping s) = close_inv s" "close_inv (send_pong s) = close_inv s"
  "close_inv (drain s) = close_inv s" "close_inv (read_top s) = close_inv s"
  "close_inv (read_resumed s) = close_inv s" "close_inv (read_body_done bs s) = close_inv s"
  "close_inv (heart_top j s) = close_inv s"
  by (simp_all add: turn_defs drain_def split: read_point.split) (simp_all add: close_inv_def)

lemma close_inv_cleanup: "strand s = CleanupTask # ts \<Longrightarrow> close_inv s \<Longrightarrow> close_inv (cleanup (s\<lparr>strand := ts\<rparr>))"
  by (auto simp: close_inv_def cleanup_def split: if_splits)

lemma session_step_close_inv: "session_step E hs s s' \<Longrightarrow> close_inv s \<Longrightarrow> close_inv s'"
proof (induction rule: session_step.induct)
  case (run_send s ty body v ts raced)
  then show ?case by (simp add: send_task_def Let_def)
next
  case (write_completes s ec sent)
  then show ?case by (auto simp: write_done_def Let_def)
next
  case (handler_ends s ty v body repo)
  have "close_inv (perform_calls send close_session cs s)" for cs
    using handler_ends(2) by (rule perform_calls_induct) (simp_all add: close_session_def)
  then show ?case by (auto simp: handler_done_def read_stop_def split: handler_result.split)
qed (auto simp: close_session_def close_inv_cleanup read_stop_def read_header_done_def Let_def
    heart_interval_done_def heart_grace_done_def)

lemma close_inv_start: "close_inv (start_handling (mk_session t))"
  by (simp add: start_handling_def mk_session_def close_inv_def)

lemma reachable_close_inv: "session_reachable E hs s \<Longrightarrow> close_inv s"
  by (induction rule: session_reachable.induct) (auto intro: session_step_close_inv close_inv_start)

text \<open>The read loop's invariant reads five fields only.\<close>

lemma read_inv_frame [simp]:
  "read_inv (s\<lparr>clock := t\<rparr>) = read_inv s" "read_inv (s\<lparr>last_rx := t\<rparr>) = read_inv s"
  "read_inv (s\<lparr>hb_timer := h\<rparr>) = read_inv s" "read_inv (s\<lparr>strand := ts\<rparr>) = read_inv s"
  "read_inv (s\<lparr>heart_pc := hc\<rparr>) = read_inv s" "read_inv (s\<lparr>sock_open := so\<rparr>) = read_inv s"
  "read_inv (s\<lparr>is_writing := w\<rparr>) = read_inv s" "read_inv (s\<lparr>in_flight := f\<rparr>) = read_inv s"
  "read_inv (s\<lparr>pending_bytes := p\<rparr>) = read_inv s" "read_inv (s\<lparr>write_queue := q\<rparr>) = read_inv s"
  "read_inv (s\<lparr>accepted := a\<rparr>) = read_inv s" "read_inv (s\<lparr>wire_out := ob\<rparr>) = read_inv s"
  by (simp_all add: read_inv_def)

lemma read_inv_shutdown [simp]: "read_inv s \<Longrightarrow> read_inv (shutdown s)"
  by (auto simp: read_inv_def shutdown_def)

lemma read_inv_sends [simp]:
  "read_inv (send_frame ty b v s) = read_inv s" "read_inv (send ty b v s) = read_inv s"
  "read_inv (send_ping s) = read_inv s" "read_inv (send_pong s) = read_inv s"
  "read_inv (drain s) = read_inv s" "read_inv (heart_top j s) = read_inv s"
  by (simp_all add: turn_defs drain_def)

lemma read_inv_backpressure [simp]: "read_inv s \<Longrightarrow> read_inv (s\<lparr>backpressure := True\<rparr>)"
  by (simp add: read_inv_def)

lemma cancel_timer_simps [simp]:
  "cancel_timer t = TimerIdle \<longleftrightarrow> t = TimerIdle" "cancel_timer t \<noteq> TimerWaiting d"
  by (cases t; simp)+

lemma read_inv_release:
  "read_inv s \<Longrightarrow> read_inv (s\<lparr>backpressure := False, resume_read := cancel_timer (resume_read s)\<rparr>)"
  by (simp add: read_inv_def)

lemma read_inv_stop: "read_inv s \<Longrightarrow> read_pc s \<noteq> ReadResume \<Longrightarrow> read_inv (read_stop s)"
  by (simp add: read_inv_def read_stop_def shutdown_def)

lemma read_inv_top: "read_inv s \<Longrightarrow> read_pc s \<noteq> ReadResume \<Longrightarrow> read_inv (read_top s)"
  by (simp add: read_inv_def read_top_def)

lemma send_task_read_inv: "read_inv s \<Longrightarrow> read_inv (send_task E raced ty b v s)"
  by (simp add: send_task_def Let_def)

lemma write_done_read_inv:
  assumes "read_inv s"
  shows "read_inv (write_done ec sent s)"
proof -
  have "read_inv (s1\<lparr>backpressure := False, resume_read := cancel_timer (resume_read s1)\<rparr>)"
    if "s1 = s\<lparr>in_flight := f, wire_out := ob, write_queue := q, pending_bytes := p\<rparr>" for s1 f ob q p
    using assms by (intro read_inv_release) (simp add: that)
  from this [OF refl] assms show ?thesis
    by (auto simp: write_done_def Let_def split: option.split)
qed

lemma header_arrives_read_inv:
  assumes "read_inv s" and "read_pc s = ReadHeader"
  shows "read_inv (read_header_done E bs s)"
proof -
  let ?h = "header_of_bytes E bs"
  let ?ty = "service_of_code (hdr_service ?h)"
  let ?s1 = "s\<lparr>last_rx := clock s\<rparr>"
  let ?s2 = "?s1\<lparr>peer_api_version := hdr_version ?h\<rparr>"
  show ?thesis
  proof (cases "service_code ?ty \<ge> service_code TypeCnt \<or> \<not> api_supported_for ?ty (hdr_version ?h)")
    case True
    moreover have "read_inv (read_stop ?s1)"
      using assms by (intro read_inv_stop) simp_all
    ultimately show ?thesis
      by (auto simp: read_header_done_def Let_def)
  next
    case False
    then have v: "hdr_version ?h = api_v1" and l: "listed ?ty"
      by (simp_all add: api_supported_for_iff)
    have inv2: "read_inv ?s2" "read_pc ?s2 = ReadHeader"
      using assms v by (simp_all add: read_inv_def)
    then have "read_inv (send_pong ?s2)" "read_pc (send_pong ?s2) = ReadHeader"
      by simp (simp add: send_pong_def send_frame_def assms(2))
    moreover have "read_inv (?s2\<lparr>read_pc := ReadBody ?ty (hdr_version ?h) (hdr_size ?h)\<rparr>)"
      if "hdr_size ?h \<noteq> 0" "hdr_size ?h \<le> max_body_size" "?ty \<noteq> Ping" "?ty \<noteq> Pong"
      using that assms v l
      by (auto simp: read_inv_def body_point_ok_def listed_def word_le_nat_alt unat_gt_0)
    ultimately show ?thesis
      using inv2 False
      by (auto simp: read_header_done_def Let_def not_less intro!: read_inv_stop read_inv_top)
  qed
qed

lemma handler_ends_read_inv:
  assumes "read_inv s" and "read_pc s = ReadHandler ty v body"
  shows "read_inv (handler_done r s)"
proof -
  have "read_inv (perform_calls send close_session cs s)
      \<and> read_pc (perform_calls send close_session cs s) = ReadHandler ty v body" for cs
    using assms
    by (intro perform_calls_induct [of "\<lambda>s. read_inv s \<and> read_pc s = ReadHandler ty v body"])
      (auto simp: close_session_def send_def send_frame_def shutdown_def [abs_def] read_inv_def)
  then show ?thesis
    by (auto simp: handler_done_def intro!: read_inv_stop read_inv_top split: handler_result.split)
qed

lemma session_step_read_inv: "session_step E hs s s' \<Longrightarrow> read_inv s \<Longrightarrow> read_inv s'"
proof (induction rule: session_step.induct)
  case (run_cleanup s ts)
  then show ?case by (simp add: cleanup_def read_inv_def)
next
  case (read_resumes s aborted)
  then show ?case by (simp add: read_resumed_def read_inv_def)
next
  case (body_arrives s ty v n bs)
  then show ?case by (auto simp: read_body_done_def read_inv_def)
next
  case (run_send s ty body v ts raced)
  then show ?case by (intro send_task_read_inv) simp
next
  case (write_completes s ec sent)
  then show ?case by (intro write_done_read_inv)
next
  case (header_arrives s bs)
  then show ?case by (intro header_arrives_read_inv)
next
  case (handler_ends s ty v body repo)
  then show ?case by (intro handler_ends_read_inv)
qed (simp_all add: close_session_def heart_interval_done_def heart_grace_done_def Let_def
    read_inv_stop read_inv_top)

lemma read_inv_start: "read_inv (start_handling (mk_session t))"
  by (simp add: start_handling_def mk_session_def read_inv_def api_latest_def)

lemma reachable_read_inv: "session_reachable E hs s \<Longrightarrow> read_inv s"
  by (induction rule: session_reachable.induct) (auto intro: session_step_read_inv read_inv_start)

text \<open>The heartbeat's invariant.\<close>

lemma heart_inv_frame [simp]:
  "heart_inv (s\<lparr>strand := ts\<rparr>) = heart_inv s" "heart_inv (s\<lparr>backpressure := bp\<rparr>) = heart_inv s"
  "heart_inv (s\<lparr>resume_read := r\<rparr>) = heart_inv s" "heart_inv (s\<lparr>sock_open := so\<rparr>) = heart_inv s"
  "heart_inv (s\<lparr>read_pc := pc\<rparr>) = heart_inv s" "heart_inv (s\<lparr>peer_api_version := v\<rparr>) = heart_inv s"
  "heart_inv (s\<lparr>is_writing := w\<rparr>) = heart_inv s" "heart_inv (s\<lparr>in_flight := f\<rparr>) = heart_inv s"
  "heart_inv (s\<lparr>pending_bytes := p\<rparr>) = heart_inv s" "heart_inv (s\<lparr>write_queue := q\<rparr>) = heart_inv s"
  "heart_inv (s\<lparr>accepted := a\<rparr>) = heart_inv s" "heart_inv (s\<lparr>wire_out := ob\<rparr>) = heart_inv s"
  by (simp_all add: heart_inv_def)

lemma heart_inv_shutdown [simp]: "heart_inv s \<Longrightarrow> heart_inv (shutdown s)"
  by (auto simp: heart_inv_def shutdown_def)

lemma heart_inv_sends [simp]:
  "heart_inv (send_frame ty b v s) = heart_inv s" "heart_inv (send ty b v s) = heart_inv s"
  "heart_inv (send_ping s) = heart_inv s" "heart_inv (send_pong s) = heart_inv s"
  "heart_inv (drain s) = heart_inv s" "heart_inv (read_top s) = heart_inv s"
  "heart_inv (read_resumed s) = heart_inv s"
  by (simp_all add: turn_defs drain_def)

lemma heart_inv_received: "heart_inv s \<Longrightarrow> heart_inv (s\<lparr>last_rx := clock s\<rparr>)"
  by (simp add: heart_inv_def)

lemma heart_inv_top: "heart_inv s \<Longrightarrow> heart_pc s = HeartTop \<Longrightarrow> heart_inv (heart_top j s)"
  by (simp add: heart_inv_def heart_top_def)

text \<open>At a wake-up the timer is idle again and the coroutine is about to rearm it or to end.\<close>

lemma heart_inv_wakes:
  assumes "heart_inv s" and "heart_pc s = HeartInterval \<or> heart_pc s = HeartGrace"
  shows "heart_inv (heart_interval_done j a s)" and "heart_inv (heart_grace_done j a s)"
  using assms
  by (auto simp: heart_interval_done_def heart_grace_done_def heart_top_def heart_inv_def Let_def
      shutdown_def send_ping_def send_frame_def)

lemma send_task_heart_inv: "heart_inv s \<Longrightarrow> heart_inv (send_task E raced ty b v s)"
  by (simp add: send_task_def Let_def)

lemma write_done_heart_inv: "heart_inv s \<Longrightarrow> heart_inv (write_done ec sent s)"
  by (simp add: write_done_def Let_def split: option.split)

lemma session_step_heart_inv: "session_step E hs s s' \<Longrightarrow> heart_inv s \<Longrightarrow> heart_inv s'"
proof (induction rule: session_step.induct)
  case (header_arrives s bs)
  have "heart_inv (s\<lparr>last_rx := clock s\<rparr>)"
    using header_arrives(3) by (rule heart_inv_received)
  then show ?case by (simp add: read_header_done_def read_stop_def Let_def)
next
  case (body_arrives s ty v n bs)
  have "heart_inv (s\<lparr>last_rx := clock s\<rparr>)"
    using body_arrives(3) by (rule heart_inv_received)
  then show ?case by (simp add: read_body_done_def body_arrives(1))
next
  case (handler_ends s ty v body repo)
  have "heart_inv (perform_calls send close_session cs s)" for cs
    using handler_ends(2) by (rule perform_calls_induct) (simp_all add: close_session_def)
  then show ?case by (simp add: handler_done_def read_stop_def split: handler_result.split)
next
  case (run_send s ty body v ts raced)
  then show ?case by (intro send_task_heart_inv) simp
next
  case (write_completes s ec sent)
  then show ?case by (intro write_done_heart_inv)
next
  case (run_cleanup s ts)
  then show ?case by (simp add: cleanup_def heart_inv_def)
next
  case (heart_starts s j)
  then show ?case by (intro heart_inv_top)
next
  case (heart_fires s d)
  then show ?case by (simp add: heart_inv_def)
next
  case (heart_wakes s aborted j)
  then show ?case by (intro heart_inv_wakes(1)) simp_all
next
  case (heart_graced s aborted j)
  then show ?case by (intro heart_inv_wakes(2)) simp_all
next
  case (tick d s)
  then show ?case by (simp add: heart_inv_def)
qed (simp_all add: close_session_def read_stop_def)

lemma heart_inv_start: "heart_inv (start_handling (mk_session t))"
  by (simp add: start_handling_def mk_session_def heart_inv_def)

lemma reachable_heart_inv: "session_reachable E hs s \<Longrightarrow> heart_inv s"
  by (induction rule: session_reachable.induct) (auto intro: session_step_heart_inv heart_inv_start)

end
