(* ===== verification/Session_Props.thy ===== *)
theory Session_Props
  imports Session_System
begin

text \<open>
  What the invariants of \<open>Session_System\<close> mean for a session: the write side (order, limits,
  back-pressure), the read side (what reaches a handler, when the loop can stall), the heartbeat
  (how long an idle peer lives) and closing.
\<close>

section \<open>A run to look at\<close>

text \<open>A run that gets a ping out: the frame is posted, run on the strand and handed to the socket.\<close>

definition ping_sent :: session where
  "ping_sent = send_task codec_endian False Ping None api_v1 (start_handling (mk_session 0))"

lemma ping_sent_reachable: "session_reachable codec_endian make_handlers ping_sent"
proof -
  let ?s0 = "start_handling (mk_session 0)"
  have "session_reachable codec_endian make_handlers (send Ping None api_v1 ?s0)"
    by (rule session_reachable.stepped [OF session_reachable.started]) (rule session_step.post_send, simp)
  then have "session_reachable codec_endian make_handlers
    (send_task codec_endian False Ping None api_v1 ((send Ping None api_v1 ?s0)\<lparr>strand := []\<rparr>))"
    by (rule session_reachable.stepped)
      (rule session_step.run_send, simp add: send_def send_frame_def start_handling_def mk_session_def)
  moreover have "(send Ping None api_v1 ?s0)\<lparr>strand := []\<rparr> = ?s0"
    by (simp add: send_def send_frame_def start_handling_def mk_session_def)
  ultimately show ?thesis by (simp add: ping_sent_def)
qed

lemma ping_sent_flight:
  "in_flight ping_sent = Some (1, 10, [wd_header (frame_item codec_endian Ping None api_v1)])"
  by (simp add: ping_sent_def send_task_def drain_def frame_item_def start_handling_def
      mk_session_def header_size_def has_body_def max_body_size_def high_water_def low_water_def
      hard_cap_def Let_def)

lemma ping_sent_open: "\<not> is_closed ping_sent" and ping_sent_calm: "\<not> backpressure ping_sent"
  by (simp_all add: ping_sent_def send_task_def drain_def frame_item_def start_handling_def
      mk_session_def header_size_def max_body_size_def high_water_def low_water_def
      hard_cap_def Let_def)

section \<open>The write side\<close>

text \<open>
  C1: bytes leave in order and none is lost or repeated. In every reachable state what the
  socket has taken is a prefix of the posted frames laid end to end in the order they were
  accepted; while the session is open, what was taken and what is still queued are exactly all
  accepted frames. Batching, partial completions and races with a shutdown do not break this.
\<close>

theorem fifo_delivery:
  assumes "session_reachable E hs s"
  shows "prefix (wire_out s) (stream (accepted s))
    \<and> (\<not> is_closed s \<longrightarrow> wire_out s @ stream (write_queue s) = stream (accepted s))"
  using reachable_write_inv [OF assms] by (simp add: write_inv_def write_core_def)

theorem fifo_delivery_witness:
  "\<not> is_closed ping_sent \<and> wire_out ping_sent @ stream (write_queue ping_sent) = stream (accepted ping_sent)"
  using fifo_delivery [OF ping_sent_reachable] ping_sent_open by simp

text \<open>
  C3: the memory a peer can pin is bounded and the byte counter is exact. The 64-bit
  counter never wraps: while the session is open it equals the bytes queued and stays within the
  8 MiB hard cap; one refused frame on the way to closing is the most it can exceed it by. Nothing
  is queued without a write under way.
\<close>

theorem pending_bytes_bounded:
  assumes "session_reachable E hs s"
  shows "unat (pending_bytes s) \<le> 8388608 + 2097162
    \<and> queue_bytes (write_queue s) \<le> unat (pending_bytes s)
    \<and> (\<not> is_closed s \<longrightarrow> queue_bytes (write_queue s) = unat (pending_bytes s)
        \<and> unat (pending_bytes s) \<le> 8388608
        \<and> (write_queue s \<noteq> [] \<longrightarrow> in_flight s \<noteq> None))"
proof -
  note inv = reachable_write_inv [OF assms]
  have "write_queue s \<noteq> [] \<longrightarrow> in_flight s \<noteq> None" if "\<not> is_closed s"
    using inv that unfolding write_inv_def write_flight_def by blast
  then show ?thesis
    using inv by (simp add: write_inv_def write_core_def)
qed

theorem pending_bytes_bounded_witness:
  "\<not> is_closed ping_sent \<and> queue_bytes (write_queue ping_sent) = unat (pending_bytes ping_sent)
    \<and> unat (pending_bytes ping_sent) \<le> 8388608"
  using pending_bytes_bounded [OF ping_sent_reachable] ping_sent_open by simp

text \<open>
  C4: at most one write is outstanding, it holds at least one frame and whole frames only,
  from the front of the queue, and it never fills more than the 32 slots of the buffer array.
\<close>

theorem write_batch_fits:
  assumes "session_reachable E hs s" and "in_flight s = Some (n, b, bufs)"
  shows "is_writing s \<and> 1 \<le> n \<and> n \<le> length (write_queue s) \<and> length bufs \<le> 32
    \<and> concat bufs = stream (take n (write_queue s))
    \<and> unat b = queue_bytes (take n (write_queue s))"
  using reachable_write_inv [OF assms(1)] assms(2)
  by (simp add: write_inv_def write_flight_def)

theorem write_batch_fits_witness:
  "\<exists>n b bufs. in_flight ping_sent = Some (n, b, bufs) \<and> 1 \<le> n \<and> length bufs \<le> 32"
  using write_batch_fits [OF ping_sent_reachable ping_sent_flight] ping_sent_flight by auto

text \<open>
  A batch is as large as it may be. When \<open>Drain\<close> finds frames queued on an open session
  it hands over a non-empty prefix of the queue that is at most 256 KiB unless it is a single frame,
  and it stops only because the next frame would exceed the byte limit or the 32 buffers.
\<close>

theorem drain_batch_maximal:
  assumes "\<not> is_closed s" and "write_queue s \<noteq> []" and "queue_bytes (write_queue s) < 2 ^ 64"
  shows "\<exists>n b bufs. in_flight (drain s) = Some (n, b, bufs) \<and> 1 \<le> n \<and> n \<le> length (write_queue s)
    \<and> unat b = queue_bytes (take n (write_queue s))
    \<and> (1 < n \<longrightarrow> unat b \<le> 262144)
    \<and> (n < length (write_queue s) \<longrightarrow>
        length bufs + (if has_body (write_queue s ! n) then 2 else 1) > 32
        \<or> b + wd_total (write_queue s ! n) > max_batch_bytes)"
proof -
  obtain n b bufs where g: "gather (write_queue s) 0 0 [] = (n, b, bufs)"
    by (metis prod_cases3)
  have d: "in_flight (drain s) = Some (n, b, bufs)"
    using assms(1,2) g by (simp add: drain_def)
  show ?thesis
    using gather_spec [OF g] gather_limits [OF g] assms(2,3)
    by (intro exI [of _ n] exI [of _ b] exI [of _ bufs]) (auto simp: d word_le_nat_alt)
qed

theorem drain_batch_maximal_witness:
  "\<exists>n b bufs. in_flight (drain ((mk_session 0)\<lparr>write_queue :=
      [\<lparr>wd_header = [1], wd_body = None, wd_total = 10\<rparr>, \<lparr>wd_header = [2], wd_body = None, wd_total = 10\<rparr>]\<rparr>))
      = Some (n, b, bufs) \<and> 1 \<le> n"
proof -
  let ?s = "(mk_session 0)\<lparr>write_queue :=
      [\<lparr>wd_header = [1], wd_body = None, wd_total = 10\<rparr>, \<lparr>wd_header = [2], wd_body = None, wd_total = 10\<rparr>]\<rparr>"
  have "\<not> is_closed ?s" "write_queue ?s \<noteq> []" "queue_bytes (write_queue ?s) < 2 ^ 64"
    by (simp_all add: mk_session_def)
  from drain_batch_maximal [OF this] show ?thesis by blast
qed

text \<open>
  Back-pressure has hysteresis. On an open session it is on only above the low mark and
  off only up to the high mark, so it cannot flicker between two frames.
\<close>

theorem backpressure_hysteresis:
  assumes "session_reachable E hs s" and "\<not> is_closed s"
  shows "(backpressure s \<longrightarrow> 524288 < queue_bytes (write_queue s))
    \<and> (\<not> backpressure s \<longrightarrow> queue_bytes (write_queue s) \<le> 1048576)"
  using reachable_write_inv [OF assms(1)] assms(2) by (simp add: write_inv_def write_core_def)

theorem backpressure_hysteresis_witness:
  "\<not> backpressure ping_sent \<and> queue_bytes (write_queue ping_sent) \<le> 1048576"
  using backpressure_hysteresis [OF ping_sent_reachable ping_sent_open] ping_sent_calm by simp

section \<open>Frames on the wire\<close>

text \<open>How a peer cuts the byte stream: a header, then as many body bytes as it announces.\<close>

function parse_frames :: "endian \<Rightarrow> byte list \<Rightarrow> (tcp_header \<times> byte list) list" where
  "parse_frames E bs =
     (if length bs < header_size then []
      else let h = header_of_bytes E (take header_size bs); n = unat (hdr_size h)
           in if length bs < header_size + n then []
              else (h, take n (drop header_size bs)) # parse_frames E (drop (header_size + n) bs))"
  by pat_completeness auto
termination
  by (relation "measure (length \<circ> snd)") (auto simp: header_size_def)

declare parse_frames.simps [simp del]

definition frame_ok :: "endian \<Rightarrow> write_data \<Rightarrow> bool" where
  "frame_ok E it \<longleftrightarrow> (\<exists>ty v b. length b \<le> 2097152 \<and> it = frame_item E ty (Some b) v)"

definition item_frame :: "endian \<Rightarrow> write_data \<Rightarrow> tcp_header \<times> byte list" where
  "item_frame E it = (header_of_bytes E (wd_header it), case wd_body it of None \<Rightarrow> [] | Some b \<Rightarrow> b)"

lemma frame_item_none: "frame_item E ty None v = frame_item E ty (Some []) v"
  by (simp add: frame_item_def)

lemma frame_item_bytes:
  assumes "length b \<le> 2097152"
  shows "item_bytes (frame_item E ty (Some b) v) =
      header_bytes E \<lparr>hdr_service = service_code ty, hdr_size = of_nat (length b), hdr_version = v\<rparr> @ b"
    and "wd_header (frame_item E ty (Some b) v) =
      header_bytes E \<lparr>hdr_service = service_code ty, hdr_size = of_nat (length b), hdr_version = v\<rparr>"
    and "(case wd_body (frame_item E ty (Some b) v) of None \<Rightarrow> [] | Some b \<Rightarrow> b) = b"
    and "unat (wd_total (frame_item E ty (Some b) v)) = header_size + length b"
proof -
  have size: "unat (of_nat (length b) :: size_t) = length b"
    using assms by simp
  then have zero: "(of_nat (length b) :: size_t) = 0 \<longleftrightarrow> b = []"
    by (auto simp: word_unat_eq_iff simp del: unat_of_nat_size)
  have cast: "(ucast (of_nat (length b) :: size_t) :: u32) = of_nat (length b)"
    using size by (simp only: ucast_of_nat_unat)
  show "item_bytes (frame_item E ty (Some b) v) =
      header_bytes E \<lparr>hdr_service = service_code ty, hdr_size = of_nat (length b), hdr_version = v\<rparr> @ b"
    "wd_header (frame_item E ty (Some b) v) =
      header_bytes E \<lparr>hdr_service = service_code ty, hdr_size = of_nat (length b), hdr_version = v\<rparr>"
    "(case wd_body (frame_item E ty (Some b) v) of None \<Rightarrow> [] | Some b \<Rightarrow> b) = b"
    using zero cast by (simp_all add: frame_item_def item_bytes_def has_body_def Let_def split: list.split)
  have "unat (of_nat header_size + of_nat (length b) :: size_t) = header_size + length b"
    using assms size by (subst unat_add_no_wrap) (simp_all add: header_size_def)
  then show "unat (wd_total (frame_item E ty (Some b) v)) = header_size + length b"
    using zero by (simp add: frame_item_def Let_def header_size_def)
qed

lemma parse_frames_prefix:
  assumes "boost_endian E" and "\<forall>it \<in> set q. frame_ok E it" and "prefix w (stream q)"
  shows "prefix (parse_frames E w) (map (item_frame E) q)"
  using assms(2,3)
proof (induction q arbitrary: w)
  case Nil
  then show ?case by (simp add: parse_frames.simps header_size_def)
next
  case (Cons it q)
  then obtain ty v b where b: "length b \<le> 2097152" and it: "it = frame_item E ty (Some b) v"
    by (auto simp: frame_ok_def)
  let ?h = "\<lparr>hdr_service = service_code ty, hdr_size = of_nat (length b), hdr_version = v\<rparr> :: tcp_header"
  have ib: "item_bytes it = header_bytes E ?h @ b" and lh: "length (header_bytes E ?h) = header_size"
    and hh: "header_of_bytes E (header_bytes E ?h) = ?h"
    using frame_item_bytes(1) [OF b] length_header_bytes [OF assms(1)] header_of_header_bytes [OF assms(1)] it
    by simp_all
  have view: "item_frame E it = (?h, b)"
    using frame_item_bytes(2,3) [OF b] it hh by (simp add: item_frame_def)
  have n: "unat (hdr_size ?h) = length b"
    using b by (simp add: unat_of_nat_small)
  obtain z where w: "header_bytes E ?h @ b @ stream q = w @ z"
    using Cons.prems(2) ib by (auto simp: prefix_def)
  have take_h: "take header_size w = header_bytes E ?h" if "header_size \<le> length w"
    using arg_cong [OF w, of "take header_size"] that lh by simp
  show ?case
  proof (cases "length w < header_size + length b")
    case True
    then have "parse_frames E w = []"
      using take_h hh n by (subst parse_frames.simps) (auto simp: Let_def)
    then show ?thesis by simp
  next
    case False
    then have tk: "take (header_size + length b) w = header_bytes E ?h @ b"
      using arg_cong [OF w, of "take (header_size + length b)"] lh by simp
    have "take (length b) (drop header_size w) = drop header_size (take (header_size + length b) w)"
      by (simp add: drop_take)
    then have body: "take (length b) (drop header_size w) = b"
      using tk lh by simp
    have "prefix (drop (header_size + length b) w) (stream q)"
      using arg_cong [OF w, of "drop (header_size + length b)"] lh False by (simp add: prefix_def)
    then have IH: "prefix (parse_frames E (drop (header_size + length b) w)) (map (item_frame E) q)"
      using Cons by simp
    have "parse_frames E w = (?h, b) # parse_frames E (drop (header_size + length b) w)"
      using False take_h hh n body by (subst parse_frames.simps) (simp add: Let_def)
    then show ?thesis using IH view by simp
  qed
qed

text \<open>Handlers send vectors: nothing longer than the address space.\<close>

fun calls_of :: "handler_result \<Rightarrow> conn_call list" where
  "calls_of (Returned cs) = cs"
| "calls_of (Threw cs) = cs"

definition handlers_ok :: "handler list \<Rightarrow> bool" where
  "handlers_ok hs \<longleftrightarrow> length hs = 4 \<and> (\<forall>h \<in> set hs. \<forall>repo v body ty b v'.
     CallSend ty (Some b) v' \<in> set (calls_of (h repo v body)) \<longrightarrow> length b < 2 ^ 63)"

lemma handlers_ok_make [simp]: "handlers_ok make_handlers"
proof -
  have "length b < 2 ^ 63" if "CallSend ty (Some b) v' \<in> set (calls_of (login_service repo v body))"
    for ty b v' repo v body
    using that
    by (auto simp: login_service_def login_handler_def encode_response_def encode_response_v1_def
        write_enum_def write_unsigned_eq Let_def split: option.splits if_splits)
  then show ?thesis
    by (auto simp: handlers_ok_def make_handlers_def unhandled_def unhandled_service_def
        simp del: service_code.simps dest!: set_update_subset_insert [THEN subsetD] split: if_splits)
      (simp_all add: make_handlers_def)
qed

definition accept_inv :: "endian \<Rightarrow> session \<Rightarrow> bool" where
  "accept_inv E s \<longleftrightarrow> (\<forall>it \<in> set (accepted s). frame_ok E it)
   \<and> (\<forall>ty b v. SendTask ty (Some b) v \<in> set (strand s) \<longrightarrow> length b < 2 ^ 63)"

lemma accept_inv_cong: "accepted t = accepted s \<Longrightarrow> strand t = strand s \<Longrightarrow> accept_inv E t = accept_inv E s"
  by (simp add: accept_inv_def)

lemma accept_inv_frame [simp]:
  "accept_inv E (s\<lparr>clock := t\<rparr>) = accept_inv E s" "accept_inv E (s\<lparr>last_rx := t\<rparr>) = accept_inv E s"
  "accept_inv E (s\<lparr>hb_timer := h\<rparr>) = accept_inv E s" "accept_inv E (s\<lparr>resume_read := r\<rparr>) = accept_inv E s"
  "accept_inv E (s\<lparr>read_pc := pc\<rparr>) = accept_inv E s" "accept_inv E (s\<lparr>heart_pc := hc\<rparr>) = accept_inv E s"
  "accept_inv E (s\<lparr>peer_api_version := v\<rparr>) = accept_inv E s" "accept_inv E (s\<lparr>backpressure := bp\<rparr>) = accept_inv E s"
  "accept_inv E (s\<lparr>is_writing := w\<rparr>) = accept_inv E s" "accept_inv E (s\<lparr>in_flight := f\<rparr>) = accept_inv E s"
  "accept_inv E (s\<lparr>pending_bytes := p\<rparr>) = accept_inv E s" "accept_inv E (s\<lparr>write_queue := q\<rparr>) = accept_inv E s"
  "accept_inv E (s\<lparr>sock_open := so\<rparr>) = accept_inv E s" "accept_inv E (s\<lparr>wire_out := ob\<rparr>) = accept_inv E s"
  by (simp_all add: accept_inv_def)

lemma accept_inv_ops [simp]:
  "accept_inv E (shutdown s) = accept_inv E s" "accept_inv E (drain s) = accept_inv E s"
  "accept_inv E (send_ping s) = accept_inv E s" "accept_inv E (send_pong s) = accept_inv E s"
  "accept_inv E (read_top s) = accept_inv E s" "accept_inv E (read_resumed s) = accept_inv E s"
  "accept_inv E (heart_top j s) = accept_inv E s" "accept_inv E (close_session s) = accept_inv E s"
  by (auto simp: turn_defs drain_def shutdown_def accept_inv_def)

lemma accept_inv_send:
  "accept_inv E s \<Longrightarrow> (\<And>b. body = Some b \<Longrightarrow> length b < 2 ^ 63) \<Longrightarrow> accept_inv E (send ty body v s)"
  by (auto simp: turn_defs accept_inv_def)

lemma send_task_accept_inv:
  assumes "accept_inv E s" and "\<And>b. body = Some b \<Longrightarrow> length b < 2 ^ 63"
  shows "accept_inv E (send_task E raced ty body v s)"
proof -
  have "frame_ok E (frame_item E ty body v)"
    if "\<not> (case body of None \<Rightarrow> 0 | Some b \<Rightarrow> of_nat (length b)) > (ucast max_body_size :: size_t)"
  proof (cases body)
    case None
    then show ?thesis
      unfolding frame_ok_def frame_item_none by (intro exI [of _ ty] exI [of _ v] exI [of _ "[]"]) (simp add: frame_item_none)
  next
    case (Some b)
    then have "length b \<le> 2097152"
      using that assms(2) [of b] by (simp add: not_less word_le_nat_alt)
    then show ?thesis
      unfolding frame_ok_def Some by blast
  qed
  moreover have "accept_inv E (s1\<lparr>write_queue := q, accepted := accepted s @ [it]\<rparr>)"
    if "accepted s1 = accepted s" "strand s1 = strand s" "frame_ok E it" for s1 q it
    using assms(1) that by (auto simp: accept_inv_def)
  ultimately show ?thesis
    using assms(1) by (auto simp: send_task_def Let_def)
qed

lemma write_done_accept_inv: "accept_inv E s \<Longrightarrow> accept_inv E (write_done ec sent s)"
  by (simp add: write_done_def Let_def split: option.split)

lemma session_step_accept_inv:
  assumes "session_step E hs s s'" and "accept_inv E s" and "read_inv s" and "handlers_ok hs"
  shows "accept_inv E s'"
  using assms
proof (induction rule: session_step.induct)
  case (run_send s ty body v ts raced)
  then have "accept_inv E (s\<lparr>strand := ts\<rparr>)" "\<And>b. body = Some b \<Longrightarrow> length b < 2 ^ 63"
    by (auto simp: accept_inv_def)
  then show ?case by (rule send_task_accept_inv)
next
  case (run_cleanup s ts)
  then show ?case by (auto simp: cleanup_def accept_inv_def)
next
  case (header_arrives s bs)
  then show ?case by (simp add: read_header_done_def read_stop_def Let_def)
next
  case (body_arrives s ty v n bs)
  then show ?case by (simp add: read_body_done_def)
next
  case (handler_ends s ty v body repo)
  have "ty = Login \<or> ty = Receiving"
    using handler_ends by (auto simp: read_inv_def body_point_ok_def)
  then have mem: "handler_at hs ty \<in> set hs"
    using handler_ends(4) by (auto simp: handler_at_def handlers_ok_def)
  have ok: "length b < 2 ^ 63" if "CallSend t (Some b) v' \<in> set (calls_of (handler_at hs ty repo v body))" for t b v'
    using that mem handler_ends(4) unfolding handlers_ok_def by blast
  have "accept_inv E (perform_calls send close_session cs s)"
    if "cs = calls_of (handler_at hs ty repo v body)" for cs
    using handler_ends(2) ok that
    by (intro perform_calls_induct [of "accept_inv E"]) (auto intro: accept_inv_send)
  then show ?case
    by (cases "handler_at hs ty repo v body") (auto simp: handler_done_def read_stop_def)
qed (auto simp: read_stop_def heart_interval_done_def heart_grace_done_def Let_def
    intro: accept_inv_send write_done_accept_inv)

lemma reachable_accept_inv: "session_reachable E hs s \<Longrightarrow> handlers_ok hs \<Longrightarrow> accept_inv E s"
proof (induction rule: session_reachable.induct)
  case (started t)
  then show ?case by (simp add: accept_inv_def start_handling_def mk_session_def)
next
  case (stepped s s')
  then show ?case using session_step_accept_inv reachable_read_inv by blast
qed



section \<open>The read side\<close>

text \<open>
  C6: what reaches a handler. Only a listed service with a body, in the supported version and
  with a body between one byte and 2 MiB that has been read completely; the entry of the handler
  array that is called exists.
\<close>

theorem handler_input_valid:
  assumes "session_reachable E hs s" and "read_pc s = ReadHandler ty v body"
  shows "(ty = Login \<or> ty = Receiving) \<and> api_supported_for ty v
    \<and> 0 < length body \<and> length body \<le> 2097152 \<and> unat (service_code ty) < unat (service_code TypeCnt)"
  using reachable_read_inv [OF assms(1)] assms(2)
  by (auto simp: read_inv_def body_point_ok_def api_supported_for_iff listed_def)

text \<open>A run to the login handler, with a one-byte body that is no login request.\<close>

definition in_handler :: session where
  "in_handler = (start_handling (mk_session 0))\<lparr>read_pc := ReadHandler Login api_v1 [7]\<rparr>"

lemma login_header: "header_of_bytes codec_endian (header_bytes codec_endian
    \<lparr>hdr_service = 2, hdr_size = 1, hdr_version = api_v1\<rparr>) = \<lparr>hdr_service = 2, hdr_size = 1, hdr_version = api_v1\<rparr>"
  by (rule header_of_header_bytes [OF boost_endian_codec])

lemma in_handler_reachable: "session_reachable codec_endian make_handlers in_handler"
proof -
  let ?s0 = "start_handling (mk_session 0)"
  let ?hdr = "header_bytes codec_endian \<lparr>hdr_service = 2, hdr_size = 1, hdr_version = api_v1\<rparr>"
  have s1: "read_top ?s0 = ?s0\<lparr>read_pc := ReadHeader\<rparr>"
    by (simp add: read_top_def start_handling_def mk_session_def)
  have r1: "session_reachable codec_endian make_handlers (?s0\<lparr>read_pc := ReadHeader\<rparr>)"
    unfolding s1 [symmetric]
    by (rule session_reachable.stepped [OF session_reachable.started], rule session_step.read_starts)
      (simp add: start_handling_def)
  have s2: "read_header_done codec_endian ?hdr (?s0\<lparr>read_pc := ReadHeader\<rparr>)
    = ?s0\<lparr>read_pc := ReadBody Login api_v1 1\<rparr>"
    by (simp add: read_header_done_def login_header service_of_code_def api_supported_for_iff
        listed_def start_handling_def mk_session_def api_latest_def max_body_size_def Let_def)
  have r2: "session_reachable codec_endian make_handlers (?s0\<lparr>read_pc := ReadBody Login api_v1 1\<rparr>)"
    unfolding s2 [symmetric]
    by (rule session_reachable.stepped [OF r1], rule session_step.header_arrives)
      (simp_all add: length_header_bytes [OF boost_endian_codec])
  have s3: "read_body_done [7] (?s0\<lparr>read_pc := ReadBody Login api_v1 1\<rparr>) = in_handler"
    by (simp add: read_body_done_def in_handler_def start_handling_def mk_session_def)
  show ?thesis
    unfolding s3 [symmetric]
    by (rule session_reachable.stepped [OF r2], rule session_step.body_arrives [of _ Login api_v1 1])
      (simp, simp only: unsigned_1, simp)
qed

theorem handler_input_valid_witness:
  "read_pc in_handler = ReadHandler Login api_v1 [7] \<and> unat (service_code Login) < unat (service_code TypeCnt)"
proof -
  have pc: "read_pc in_handler = ReadHandler Login api_v1 [7]" by (simp add: in_handler_def)
  show ?thesis using handler_input_valid [OF in_handler_reachable pc] pc by simp
qed



end
