(* ===== verification/Session_Liveness.thy ===== *)
theory Session_Liveness
  imports Session_Props
begin

text \<open>
  What a session owes its peer and its server over time: when the read loop can wait, how a
  session is closed and what is left to run after that, how long the heartbeat tolerates silence,
  and a login from the header to the queued answer.
\<close>

section \<open>Waiting for the write side\<close>

text \<open>
  C8: on an open session the read loop never waits for ever. Whenever it is held back by
  back-pressure either a write is outstanding, whose completion will release it, or its timer has
  been cancelled and it is about to go on.
\<close>

theorem reader_not_starved:
  assumes "session_reachable E hs s" and "\<not> is_closed s" and "read_pc s = ReadResume"
  shows "in_flight s \<noteq> None \<or> (\<exists>a. resume_read s = TimerDue a)"
proof (cases "resume_read s")
  case TimerIdle
  then show ?thesis
    using reachable_read_inv [OF assms(1)] assms(3) by (simp add: read_inv_def)
next
  case (TimerWaiting d)
  then have "backpressure s"
    using reachable_read_inv [OF assms(1)] assms(2) by (simp add: read_inv_def)
  moreover have "write_core s" "write_flight s"
    using reachable_write_inv [OF assms(1)] by (simp_all add: write_inv_def)
  ultimately have "write_queue s \<noteq> []"
    using assms(2) by (auto simp: write_core_def)
  then show ?thesis
    using \<open>write_flight s\<close> assms(2) unfolding write_flight_def by blast
next
  case (TimerDue a)
  then show ?thesis by blast
qed

text \<open>
  A run into back-pressure: a body of 1.1 million bytes is queued while the login handler is
  at work, the write fails, the session is closed and cleaned up, and the handler returns.
\<close>

definition big_body :: "byte list" where
  "big_body = replicate 1100000 0"

lemma length_big_body [simp]: "length big_body = 1100000"
  by (simp only: big_body_def length_replicate)

definition big_write :: session where
  "big_write = send_task codec_endian False Login (Some big_body) api_v1 in_handler"

definition write_failed :: session where
  "write_failed = write_done True 0 big_write"

definition reader_left :: session where
  "reader_left = handler_done (handler_at make_handlers Login (\<lambda>_. None) api_v1 [7])
     (cleanup (write_failed\<lparr>strand := []\<rparr>))"

lemma big_write_fields:
  "in_flight big_write \<noteq> None" "backpressure big_write" "strand big_write = []"
  "read_pc big_write = ReadHandler Login api_v1 [7]" "resume_read big_write = TimerIdle"
  "\<not> is_closed big_write"
  by (simp_all add: big_write_def in_handler_def send_task_def frame_item_def drain_def Let_def
      start_handling_def mk_session_def header_size_def max_body_size_def high_water_def
      low_water_def hard_cap_def)

lemma write_failed_fields:
  "in_flight write_failed = None" "backpressure write_failed" "strand write_failed = [CleanupTask]"
  "read_pc write_failed = ReadHandler Login api_v1 [7]" "resume_read write_failed = TimerIdle"
  "is_closed write_failed"
  using big_write_fields by (auto simp: write_failed_def write_done_def shutdown_def)

lemma short_body_ignored: "handler_at make_handlers Login repo api_v1 [7] = Returned []"
proof -
  have "decode_request api_v1 [7] \<noteq> Some q" for q
  proof
    assume "decode_request api_v1 [7] = Some q"
    then have fits: "request_fits q" and body: "[7] = request_body q"
      using decode_request_inverts [of "[7]" api_v1 q] by simp_all
    from arg_cong [OF body, of length] show False
      by (simp add: request_body_eq [OF fits])
  qed
  then have "decode_request api_v1 [7] = None" by (cases "decode_request api_v1 [7]") auto
  then show ?thesis
    by (simp add: handler_at_def make_handlers_nth login_service_def login_handler_def)
qed

lemma reader_left_fields:
  "read_pc reader_left = ReadResume" "resume_read reader_left = TimerWaiting None"
  "in_flight reader_left = None" "is_closed reader_left" "\<not> sock_open reader_left"
  using write_failed_fields
  by (simp_all add: reader_left_def short_body_ignored handler_done_def read_top_def cleanup_def)

lemma big_write_reachable: "session_reachable codec_endian make_handlers big_write"
proof -
  let ?R = "session_reachable codec_endian make_handlers"
  have empty: "strand in_handler = []" "read_pc in_handler = ReadHandler Login api_v1 [7]"
    by (simp_all add: in_handler_def start_handling_def mk_session_def)
  have "?R (send Login (Some big_body) api_v1 in_handler)"
    by (rule session_reachable.stepped [OF in_handler_reachable], rule session_step.post_send) auto
  then have "?R (send_task codec_endian False Login (Some big_body) api_v1
      ((send Login (Some big_body) api_v1 in_handler)\<lparr>strand := []\<rparr>))"
    by (rule session_reachable.stepped)
      (rule session_step.run_send, simp add: send_def send_frame_def empty)
  moreover have "(send Login (Some big_body) api_v1 in_handler)\<lparr>strand := []\<rparr> = in_handler"
    by (simp add: send_def send_frame_def empty)
  ultimately show ?thesis by (simp add: big_write_def)
qed

lemma reader_left_reachable: "session_reachable codec_endian make_handlers reader_left"
proof -
  let ?R = "session_reachable codec_endian make_handlers"
  have "?R write_failed"
    unfolding write_failed_def
    by (rule session_reachable.stepped [OF big_write_reachable]) (rule session_step.write_completes, rule big_write_fields)
  then have "?R (cleanup (write_failed\<lparr>strand := []\<rparr>))"
    by (rule session_reachable.stepped) (rule session_step.run_cleanup, rule write_failed_fields)
  then show ?thesis
    unfolding reader_left_def
    by (rule session_reachable.stepped, intro session_step.handler_ends)
      (simp add: cleanup_def write_failed_fields)
qed

text \<open>A session that is closed and cleaned up, with its read loop waiting for the write side.\<close>

definition left_waiting :: "session \<Rightarrow> bool" where
  "left_waiting s \<longleftrightarrow> is_closed s \<and> \<not> sock_open s \<and> CleanupTask \<notin> set (strand s)
     \<and> in_flight s = None \<and> read_pc s = ReadResume \<and> resume_read s = TimerWaiting None"

lemma left_waiting_step:
  assumes "session_step E hs s s'" and "left_waiting s"
  shows "left_waiting s'"
  using assms
  by (induction rule: session_step.induct)
    (auto simp: left_waiting_def turn_defs shutdown_def send_task_def Let_def)

lemma left_waiting_steps: "(session_step E hs)\<^sup>*\<^sup>* s s' \<Longrightarrow> left_waiting s \<Longrightarrow> left_waiting s'"
  by (induction rule: rtranclp_induct) (auto intro: left_waiting_step)

text \<open>
  C13: the read loop can outlive its session. Once a session is closed and cleaned up while
  the read loop is held back by back-pressure with no write outstanding, no continuation of any kind
  ever resumes it: its timer waits until the end of time and nothing is left to cancel it, so the
  session object is never released. The state is reached when a write fails while a handler runs.
\<close>

theorem reader_left_behind:
  assumes "session_reachable E hs s" and "\<not> sock_open s" and "in_flight s = None"
    and "read_pc s = ReadResume" and "resume_read s = TimerWaiting None"
    and "(session_step E hs)\<^sup>*\<^sup>* s s'"
  shows "read_pc s' = ReadResume \<and> resume_read s' = TimerWaiting None \<and> is_closed s'"
proof -
  have "is_closed s \<and> CleanupTask \<notin> set (strand s)"
    using reachable_close_inv [OF assms(1)] assms(2)
    by (auto simp: close_inv_def count_list_0_iff split: if_splits)
  then have "left_waiting s'"
    using left_waiting_steps [OF assms(6)] assms(2-5) by (simp add: left_waiting_def)
  then show ?thesis by (simp add: left_waiting_def)
qed

theorem reader_left_behind_witness:
  "session_reachable codec_endian make_handlers reader_left
    \<and> read_pc (reader_left\<lparr>clock := clock reader_left + 10 ^ 18\<rparr>) = ReadResume"
proof -
  have "(session_step codec_endian make_handlers)\<^sup>*\<^sup>* reader_left
      (reader_left\<lparr>clock := clock reader_left + 10 ^ 18\<rparr>)"
    by (rule r_into_rtranclp, rule session_step.tick) simp
  then show ?thesis
    using reader_left_behind [OF reader_left_reachable] reader_left_fields reader_left_reachable by blast
qed

text \<open>The same run with the write still under way: the read loop waits, and the write will release it.\<close>

definition reader_held :: session where
  "reader_held = handler_done (handler_at make_handlers Login (\<lambda>_. None) api_v1 [7]) big_write"

lemma reader_held_fields:
  "\<not> is_closed reader_held" "read_pc reader_held = ReadResume" "resume_read reader_held = TimerWaiting None"
  using big_write_fields by (simp_all add: reader_held_def short_body_ignored handler_done_def read_top_def)

lemma reader_held_reachable: "session_reachable codec_endian make_handlers reader_held"
  unfolding reader_held_def
  by (rule session_reachable.stepped [OF big_write_reachable], intro session_step.handler_ends)
    (simp add: big_write_fields)

theorem reader_not_starved_witness:
  "read_pc reader_held = ReadResume \<and> in_flight reader_held \<noteq> None"
  using reader_not_starved [OF reader_held_reachable reader_held_fields(1,2)] reader_held_fields by simp

section \<open>Closing\<close>

text \<open>
  C26: a session is closed exactly once. Whatever threads race to close it, the closing task
  is posted once: before it has run it is the only one on the strand, afterwards there is none and
  the socket is closed; an open session has an open socket and both coroutines alive.
\<close>

theorem shutdown_once:
  assumes "session_reachable E hs s"
  shows "(is_closed s \<longrightarrow> count_list (strand s) CleanupTask = (if sock_open s then 1 else 0))
    \<and> (\<not> is_closed s \<longrightarrow> sock_open s \<and> CleanupTask \<notin> set (strand s)
        \<and> read_pc s \<noteq> ReadDone \<and> heart_pc s \<noteq> HeartDone)"
  using reachable_close_inv [OF assms] reachable_read_inv [OF assms] reachable_heart_inv [OF assms]
  by (auto simp: close_inv_def read_inv_def heart_inv_def count_list_0_iff split: if_splits)

theorem shutdown_once_witness:
  "is_closed reader_left \<and> count_list (strand reader_left) CleanupTask = 0"
  using shutdown_once [OF reader_left_reachable] reader_left_fields by simp

text \<open>Once the closing task has run the heartbeat's interval timer is not waiting.\<close>

definition quiet_inv :: "session \<Rightarrow> bool" where
  "quiet_inv s \<longleftrightarrow> (\<not> sock_open s \<longrightarrow> is_closed s)
     \<and> (\<not> sock_open s \<and> heart_pc s = HeartInterval \<longrightarrow> (\<exists>a. hb_timer s = TimerDue a))"

lemma quiet_inv_frame [simp]:
  "quiet_inv (s\<lparr>clock := t\<rparr>) = quiet_inv s" "quiet_inv (s\<lparr>last_rx := t\<rparr>) = quiet_inv s"
  "quiet_inv (s\<lparr>strand := ts\<rparr>) = quiet_inv s" "quiet_inv (s\<lparr>resume_read := r\<rparr>) = quiet_inv s"
  "quiet_inv (s\<lparr>read_pc := pc\<rparr>) = quiet_inv s" "quiet_inv (s\<lparr>backpressure := bp\<rparr>) = quiet_inv s"
  "quiet_inv (s\<lparr>peer_api_version := v\<rparr>) = quiet_inv s" "quiet_inv (s\<lparr>accepted := a\<rparr>) = quiet_inv s"
  "quiet_inv (s\<lparr>is_writing := w\<rparr>) = quiet_inv s" "quiet_inv (s\<lparr>in_flight := f\<rparr>) = quiet_inv s"
  "quiet_inv (s\<lparr>pending_bytes := p\<rparr>) = quiet_inv s" "quiet_inv (s\<lparr>write_queue := q\<rparr>) = quiet_inv s"
  "quiet_inv (s\<lparr>wire_out := ob\<rparr>) = quiet_inv s"
  by (simp_all add: quiet_inv_def)

lemma quiet_inv_ops [simp]:
  "quiet_inv s \<Longrightarrow> quiet_inv (shutdown s)" "quiet_inv (send_frame ty b v s) = quiet_inv s"
  "quiet_inv (send ty b v s) = quiet_inv s" "quiet_inv (drain s) = quiet_inv s"
  "quiet_inv (send_pong s) = quiet_inv s" "quiet_inv (read_top s) = quiet_inv s"
  "quiet_inv (read_resumed s) = quiet_inv s" "quiet_inv (read_body_done bs s) = quiet_inv s"
  by (auto simp: turn_defs drain_def split: read_point.split) (auto simp: quiet_inv_def shutdown_def)

lemma quiet_inv_heart:
  assumes "quiet_inv s"
  shows "quiet_inv (heart_top j s)" and "quiet_inv (heart_interval_done j a s)"
    and "quiet_inv (heart_grace_done j a s)"
  using assms
  by (auto simp: quiet_inv_def heart_top_def heart_interval_done_def heart_grace_done_def Let_def
      shutdown_def send_ping_def send_frame_def)

lemma session_step_quiet_inv:
  "session_step E hs s s' \<Longrightarrow> quiet_inv s \<Longrightarrow> heart_inv s \<Longrightarrow> close_inv s \<Longrightarrow> quiet_inv s'"
proof (induction rule: session_step.induct)
  case (run_send s ty body v ts raced)
  then show ?case by (simp add: send_task_def Let_def)
next
  case (run_cleanup s ts)
  then have "is_closed s"
    by (auto simp: close_inv_def split: if_splits)
  moreover have "hb_timer s \<noteq> TimerIdle" if "heart_pc s = HeartInterval"
    using run_cleanup(3) that by (auto simp: heart_inv_def)
  ultimately show ?case
    by (cases "hb_timer s") (auto simp: quiet_inv_def cleanup_def)
next
  case (write_completes s ec sent)
  then show ?case by (auto simp: write_done_def Let_def)
next
  case (handler_ends s ty v body repo)
  have "quiet_inv (perform_calls send close_session cs s)" for cs
    using handler_ends(2) by (rule perform_calls_induct) (simp_all add: close_session_def)
  then show ?case by (simp add: handler_done_def read_stop_def split: handler_result.split)
next
  case (heart_fires s d)
  then show ?case by (auto simp: quiet_inv_def)
qed (auto simp: close_session_def read_stop_def read_header_done_def Let_def quiet_inv_heart)

lemma reachable_quiet_inv: "session_reachable E hs s \<Longrightarrow> quiet_inv s"
proof (induction rule: session_reachable.induct)
  case (started t)
  then show ?case by (simp add: quiet_inv_def start_handling_def mk_session_def)
next
  case (stepped s s')
  then show ?case
    using session_step_quiet_inv reachable_heart_inv reachable_close_inv by blast
qed

text \<open>
  The heartbeat does not outlive its session by more than one grace period. After the
  closing task has run its interval wait is over, the turn that follows ends the coroutine or starts
  the ten-second wait of a ping decided before, and the turn after that ends it.
\<close>

theorem heartbeat_ends:
  assumes "session_reachable E hs s" and "\<not> sock_open s"
  shows "(heart_pc s = HeartInterval \<longrightarrow> (\<exists>a. hb_timer s = TimerDue a))
    \<and> heart_pc (heart_interval_done j a s) \<in> {HeartDone, HeartGrace}
    \<and> (heart_pc (heart_interval_done j a s) = HeartGrace \<longrightarrow>
        hb_timer (heart_interval_done j a s) = TimerWaiting (Some (clock s + 10000000000)))
    \<and> heart_pc (heart_top j s) = HeartDone \<and> heart_pc (heart_grace_done j a s) = HeartDone"
  using reachable_quiet_inv [OF assms(1)] assms(2)
  by (auto simp: quiet_inv_def heart_interval_done_def heart_top_def heart_grace_done_def Let_def
      timeout_defs)

theorem heartbeat_ends_witness:
  "\<not> sock_open reader_left \<and> heart_pc (heart_top 0 reader_left) = HeartDone"
  using heartbeat_ends [OF reader_left_reachable] reader_left_fields by blast

section \<open>Silence\<close>

text \<open>
  A session whose heartbeat waits until \<open>d\<close>; \<open>d - last_rx s\<close> is how long the peer will have been
  silent then. \<open>turns_left\<close> bounds the turns until the heartbeat gives up.
\<close>

definition armed :: "heart_point \<Rightarrow> int \<Rightarrow> session \<Rightarrow> bool" where
  "armed pc d s \<longleftrightarrow> \<not> is_closed s \<and> heart_pc s = pc \<and> hb_timer s = TimerWaiting (Some d)"

definition turns_left :: "heart_point \<Rightarrow> int \<Rightarrow> nat" where
  "turns_left pc x =
     (if x \<ge> seconds 75 then 1
      else if pc = HeartGrace then 2
      else if x \<ge> seconds 45 then 3 else if x \<ge> seconds 15 then 4 else 5)"

definition silence_ok :: "heart_point \<Rightarrow> int \<Rightarrow> bool" where
  "silence_ok pc x \<longleftrightarrow> 0 \<le> x \<and>
     (if pc = HeartGrace then seconds 45 \<le> x \<and> x < seconds 85 else x < milliseconds 105500)"

lemma heart_turn_ends:
  assumes "armed pc d s" and "pc = HeartInterval \<or> pc = HeartGrace" and "d - last_rx s \<ge> seconds 75"
  shows "heart_turn j s = (shutdown s)\<lparr>clock := d, hb_timer := TimerIdle, heart_pc := HeartDone\<rparr>"
  using assms
  by (auto simp: armed_def heart_turn_def heart_interval_done_def heart_grace_done_def hard_idle_def
      shutdown_def)

lemma heart_turn_continues:
  assumes "armed pc d s" and "pc = HeartInterval \<or> pc = HeartGrace" and "d - last_rx s < seconds 75"
    and "silence_ok pc (d - last_rx s)" and "jitter_ok j"
  shows "\<exists>pc' d'. armed pc' d' (heart_turn j s) \<and> (pc' = HeartInterval \<or> pc' = HeartGrace)
    \<and> last_rx (heart_turn j s) = last_rx s \<and> silence_ok pc' (d' - last_rx s)
    \<and> turns_left pc' (d' - last_rx s) < turns_left pc (d - last_rx s)"
proof (cases "pc = HeartInterval \<and> d - last_rx s \<ge> seconds 45")
  case True
  then have "armed HeartGrace (d + grace_wait) (heart_turn j s)" "last_rx (heart_turn j s) = last_rx s"
    using assms(1,3)
    by (simp_all add: armed_def heart_turn_def heart_interval_done_def hard_idle_def soft_idle_def
        send_ping_def send_frame_def)
  moreover have "silence_ok HeartGrace (d + grace_wait - last_rx s)"
    "turns_left HeartGrace (d + grace_wait - last_rx s) < turns_left pc (d - last_rx s)"
    using True assms(3) by (auto simp: silence_ok_def turns_left_def timeout_defs)
  ultimately show ?thesis by blast
next
  case False
  let ?d = "d + hb_interval + milliseconds j"
  have "armed HeartInterval ?d (heart_turn j s)" "last_rx (heart_turn j s) = last_rx s"
    using False assms(1-3)
    by (auto simp: armed_def heart_turn_def heart_interval_done_def heart_grace_done_def heart_top_def
        hard_idle_def soft_idle_def)
  moreover have "silence_ok HeartInterval (?d - last_rx s)"
    "turns_left HeartInterval (?d - last_rx s) < turns_left pc (d - last_rx s)"
    using False assms(2-5)
    by (auto simp: silence_ok_def turns_left_def timeout_defs jitter_ok_def split: if_splits)
  ultimately show ?thesis by blast
qed

lemma heart_run_done: "hb_timer s = TimerIdle \<Longrightarrow> heart_run js s = s"
  by (induction js) (simp_all add: heart_turn_def)

lemma heart_run_idle:
  assumes "armed pc d s" and "pc = HeartInterval \<or> pc = HeartGrace" and "silence_ok pc (d - last_rx s)"
    and "\<forall>j \<in> set js. jitter_ok j" and "turns_left pc (d - last_rx s) \<le> length js"
  shows "is_closed (heart_run js s) \<and> heart_pc (heart_run js s) = HeartDone
    \<and> last_rx (heart_run js s) = last_rx s
    \<and> seconds 75 \<le> clock (heart_run js s) - last_rx s
    \<and> clock (heart_run js s) - last_rx s < milliseconds 105500"
  using assms
proof (induction js arbitrary: s pc d)
  case Nil
  then show ?case by (simp add: turns_left_def split: if_splits)
next
  case (Cons j js)
  show ?case
  proof (cases "d - last_rx s \<ge> seconds 75")
    case True
    then have t: "heart_turn j s = (shutdown s)\<lparr>clock := d, hb_timer := TimerIdle, heart_pc := HeartDone\<rparr>"
      using Cons.prems(1,2) by (rule heart_turn_ends [rotated -1])
    have "heart_run (j # js) s = heart_turn j s"
      using t by (simp add: heart_run_done)
    moreover have "d - last_rx s < milliseconds 105500"
      using Cons.prems(3) by (auto simp: silence_ok_def timeout_defs split: if_splits)
    ultimately show ?thesis
      using t True by (simp add: shutdown_def)
  next
    case False
    then obtain pc' d' where "armed pc' d' (heart_turn j s)" "pc' = HeartInterval \<or> pc' = HeartGrace"
      "last_rx (heart_turn j s) = last_rx s" "silence_ok pc' (d' - last_rx s)"
      "turns_left pc' (d' - last_rx s) < turns_left pc (d - last_rx s)"
      using heart_turn_continues [OF Cons.prems(1,2) _ Cons.prems(3), of j] Cons.prems(4) by auto
    then show ?thesis
      using Cons.IH [of pc' d' "heart_turn j s"] Cons.prems(4,5) by simp
  qed
qed


definition waiting_peer :: "int \<Rightarrow> session" where
  "waiting_peer rx = (heart_top 0 (start_handling (mk_session 0)))\<lparr>last_rx := rx\<rparr>"


text \<open>
  The ping is not guaranteed. The interval and the idle limits allow a peer that was last
  heard 15.1 seconds after the session started to be dropped after 75.4 seconds of silence without a
  ping ever having been queued for it.
\<close>

theorem idle_peer_without_ping:
  "strand (heart_run [0, 500, 0] (waiting_peer 15100000000)) = [CleanupTask]
   \<and> is_closed (heart_run [0, 500, 0] (waiting_peer 15100000000))
   \<and> clock (heart_run [0, 500, 0] (waiting_peer 15100000000)) = 90500000000"
  by (simp add: waiting_peer_def heart_turn_def heart_top_def heart_interval_done_def
      start_handling_def mk_session_def timeout_defs shutdown_def)

section \<open>A login\<close>

lemma request_body_length:
  "request_fits q \<Longrightarrow> length (request_body q) = 8 + length (req_id q) + length (req_password q)"
  by (simp add: request_body_eq)

definition login_answer :: "repository \<Rightarrow> login_request \<Rightarrow> byte list" where
  "login_answer repo q = be_digits 4 (unat (login_result_code
     (if repo (req_id q) = Some (req_password q) then Success else InvalidCredentials)))"



end
