(* ===== verification/Tcp_Server.thy ===== *)
theory Tcp_Server
  imports Session_Liveness
begin

text \<open>
  The acceptor and the session registry: the template \<^verbatim>\<open>Server<Session>\<close> of \<^verbatim>\<open>Base/Server.hpp\<close> and
  its instance \<^verbatim>\<open>TCPServer\<close>. As in the source the server is generic in its sessions: the operations
  take a record of the session type's operations, the locale \<open>managed_session\<close> states what the
  server relies on, and \<^verbatim>\<open>TCPSession\<close> is shown to provide it. A session object is named by the order
  of its creation; \<open>conns\<close> holds the objects that still have a \<^verbatim>\<open>shared_ptr\<close>.
\<close>

section \<open>State\<close>

record 'c session_ops =
  make_session :: "int \<Rightarrow> 'c"
  shut_session :: "'c \<Rightarrow> 'c"
  run_session :: "'c \<Rightarrow> 'c \<Rightarrow> bool"
  over_session :: "'c \<Rightarrow> bool"

datatype server_task = StartTask | StopTask | EraseTask nat

text \<open>
  What \<^verbatim>\<open>async_accept\<close> reports: an error, or a socket, with or without a \<^verbatim>\<open>remote_endpoint\<close> (the
  throwing overload fails when the peer has already disconnected).
\<close>

datatype accept_result = AcceptError | Accepted bool

record 'c server =
  stopped :: bool
  acceptor_open :: bool
  accepting :: bool
  retries :: nat
  tasks :: "server_task list"
  sessions :: "nat set"
  conns :: "nat \<Rightarrow> 'c option"
  next_id :: nat
  work_guard :: bool
  freed :: "nat list"
  accept_faults :: nat

definition mk_server :: "'c server" where
  "mk_server = \<lparr>stopped = False, acceptor_open = True, accepting = False, retries = 0, tasks = [],
     sessions = {}, conns = Map.empty, next_id = 0, work_guard = True, freed = [], accept_faults = 0\<rparr>"

text \<open>The constructor's pool size; \<open>hw\<close> is \<^verbatim>\<open>hardware_concurrency()\<close>, zero when unknown.\<close>

definition server_threads :: "u32 \<Rightarrow> u32 \<Rightarrow> u32" where
  "server_threads requested hw = (if requested = 0 then (if hw \<noteq> 0 then hw else 1) else requested)"

section \<open>Operations\<close>

definition start_acceptor :: "'c server \<Rightarrow> 'c server" where
  "start_acceptor s = (if stopped s then s else s\<lparr>accepting := True\<rparr>)"

text \<open>\<open>OnAccept\<close>; the exception of \<^verbatim>\<open>remote_endpoint()\<close> leaves it before anything is done.\<close>

definition on_accept :: "'c session_ops \<Rightarrow> int \<Rightarrow> accept_result \<Rightarrow> 'c server \<Rightarrow> unit option \<times> 'c server" where
  "on_accept ops now res s =
     (if stopped s then (Some (), s\<lparr>acceptor_open := False\<rparr>)
      else case res of
          Accepted endpoint_known \<Rightarrow>
            if \<not> endpoint_known then (None, s)
            else
              let i = next_id s;
                  s1 = s\<lparr>next_id := Suc i, conns := (conns s)(i \<mapsto> make_session ops now),
                         sessions := insert i (sessions s)\<rparr>
              in (Some (), start_acceptor s1)
        | AcceptError \<Rightarrow> (Some (), s\<lparr>retries := Suc (retries s)\<rparr>))"

text \<open>The completion handler: an exception is logged and goes no further.\<close>

definition accept_done :: "'c session_ops \<Rightarrow> int \<Rightarrow> accept_result \<Rightarrow> 'c server \<Rightarrow> 'c server" where
  "accept_done ops now res s =
     (case on_accept ops now res (s\<lparr>accepting := False\<rparr>) of
        (Some _, s') \<Rightarrow> s'
      | (None, s') \<Rightarrow> s'\<lparr>accept_faults := Suc (accept_faults s')\<rparr>)"

definition retry_done :: "'c server \<Rightarrow> 'c server" where
  "retry_done s = start_acceptor (s\<lparr>retries := retries s - 1\<rparr>)"

definition stop :: "'c server \<Rightarrow> 'c server" where
  "stop s = (if stopped s then s else s\<lparr>stopped := True, tasks := tasks s @ [StopTask]\<rparr>)"

text \<open>The last \<^verbatim>\<open>shared_ptr\<close> to a session is gone: its deleter posts to the server's strand.\<close>

definition release_session :: "nat \<Rightarrow> 'c server \<Rightarrow> 'c server" where
  "release_session i s = s\<lparr>conns := (conns s)(i := None), tasks := tasks s @ [EraseTask i]\<rparr>"

fun run_server_task :: "'c session_ops \<Rightarrow> server_task \<Rightarrow> 'c server \<Rightarrow> 'c server" where
  "run_server_task ops StartTask s = start_acceptor s"
| "run_server_task ops StopTask s =
     s\<lparr>acceptor_open := False,
       conns := (\<lambda>i. if i \<in> sessions s then map_option (shut_session ops) (conns s i) else conns s i),
       sessions := {}, work_guard := False\<rparr>"
| "run_server_task ops (EraseTask i) s = s\<lparr>sessions := sessions s - {i}, freed := freed s @ [i]\<rparr>"

text \<open>\<open>Run\<close> posts the first \<open>StartAcceptor\<close>; its threads leave \<^verbatim>\<open>io_context::run\<close> when no work is left.\<close>

definition run_server :: "'c server \<Rightarrow> 'c server" where
  "run_server s = s\<lparr>tasks := tasks s @ [StartTask]\<rparr>"

definition run_may_return :: "'c server \<Rightarrow> bool" where
  "run_may_return s \<longleftrightarrow> \<not> work_guard s \<and> \<not> accepting s \<and> retries s = 0 \<and> tasks s = []
     \<and> conns s = Map.empty"

inductive server_step :: "'c session_ops \<Rightarrow> 'c server \<Rightarrow> 'c server \<Rightarrow> bool" for ops where
  stop_called: "server_step ops s (stop s)"
| task_runs: "tasks s = t # ts \<Longrightarrow> server_step ops s (run_server_task ops t (s\<lparr>tasks := ts\<rparr>))"
| accept_completes: "accepting s \<Longrightarrow> server_step ops s (accept_done ops now res s)"
| retry_fires: "retries s \<noteq> 0 \<Longrightarrow> server_step ops s (retry_done s)"
| session_runs: "conns s i = Some c \<Longrightarrow> run_session ops c c'
    \<Longrightarrow> server_step ops s (s\<lparr>conns := (conns s)(i \<mapsto> c')\<rparr>)"
| session_released: "conns s i = Some c \<Longrightarrow> over_session ops c
    \<Longrightarrow> server_step ops s (release_session i s)"

inductive server_reachable :: "'c session_ops \<Rightarrow> 'c server \<Rightarrow> bool" for ops where
  running: "server_reachable ops (run_server mk_server)"
| continued: "server_reachable ops s \<Longrightarrow> server_step ops s s' \<Longrightarrow> server_reachable ops s'"

section \<open>The accept chain\<close>

text \<open>The continuations that will call \<open>StartAcceptor\<close> or \<open>OnAccept\<close>.\<close>

definition chain_links :: "'c server \<Rightarrow> nat" where
  "chain_links s = (if accepting s then 1 else 0) + retries s + count_list (tasks s) StartTask"

definition chain_inv :: "'c server \<Rightarrow> bool" where
  "chain_inv s \<longleftrightarrow> chain_links s + accept_faults s \<le> 1
     \<and> (\<not> stopped s \<longrightarrow> chain_links s + accept_faults s = 1)"

lemmas server_defs = start_acceptor_def on_accept_def accept_done_def retry_done_def stop_def
  release_session_def

lemma count_list_snoc [simp]: "count_list (xs @ ys) x = count_list xs x + count_list ys x"
  by (induction xs) simp_all

lemma server_step_chain_inv: "server_step ops s s' \<Longrightarrow> chain_inv s \<Longrightarrow> chain_inv s'"
proof (induction rule: server_step.induct)
  case (task_runs s t ts)
  then show ?case
    by (cases t) (auto simp: chain_inv_def chain_links_def server_defs split: if_splits)
next
  case (accept_completes s now res)
  then show ?case
    by (cases res) (auto simp: chain_inv_def chain_links_def server_defs Let_def split: if_splits)
qed (auto simp: chain_inv_def chain_links_def server_defs split: if_splits)

lemma chain_inv_start: "chain_inv (run_server mk_server)"
  by (simp add: chain_inv_def chain_links_def run_server_def mk_server_def)

lemma reachable_chain_inv: "server_reachable ops s \<Longrightarrow> chain_inv s"
  by (induction rule: server_reachable.induct) (rule chain_inv_start, rule server_step_chain_inv)

lemma deaf_step:
  assumes "server_step ops s s'" and "chain_inv s" and "accept_faults s \<noteq> 0"
  shows "accept_faults s' \<noteq> 0 \<and> next_id s' = next_id s"
  using assms
proof (induction rule: server_step.induct)
  case (task_runs s t ts)
  then show ?case by (cases t) (auto simp: server_defs)
next
  case (accept_completes s now res)
  then show ?case by (simp add: chain_inv_def chain_links_def)
qed (auto simp: server_defs)

lemma deaf_steps:
  assumes "(server_step ops)\<^sup>*\<^sup>* s s'" and "chain_inv s" and "accept_faults s \<noteq> 0"
  shows "chain_inv s' \<and> accept_faults s' \<noteq> 0 \<and> next_id s' = next_id s"
  using assms
proof (induction rule: rtranclp_induct)
  case base
  then show ?case by simp
next
  case (step t u)
  then show ?case using server_step_chain_inv [of ops t u] deaf_step [of ops t u] by simp
qed

section \<open>The registry and the stop\<close>

fun erase_ids :: "server_task list \<Rightarrow> nat list" where
  "erase_ids [] = []"
| "erase_ids (EraseTask i # ts) = i # erase_ids ts"
| "erase_ids (t # ts) = erase_ids ts"

lemma erase_ids_append [simp]: "erase_ids (xs @ ys) = erase_ids xs @ erase_ids ys"
  by (induction xs rule: erase_ids.induct) simp_all

definition ids_inv :: "'c server \<Rightarrow> bool" where
  "ids_inv s \<longleftrightarrow> distinct (freed s @ erase_ids (tasks s))
     \<and> set (freed s @ erase_ids (tasks s)) \<inter> dom (conns s) = {}
     \<and> (\<forall>i \<in> set (freed s @ erase_ids (tasks s)) \<union> dom (conns s). i < next_id s)
     \<and> sessions s \<subseteq> dom (conns s) \<union> set (erase_ids (tasks s))"

definition stop_inv :: "('c \<Rightarrow> bool) \<Rightarrow> 'c server \<Rightarrow> bool" where
  "stop_inv closed s \<longleftrightarrow>
     count_list (tasks s) StopTask \<le> (if stopped s then 1 else 0)
   \<and> (\<not> stopped s \<longrightarrow> acceptor_open s \<and> work_guard s)
   \<and> (\<not> stopped s \<or> StopTask \<in> set (tasks s) \<longrightarrow> dom (conns s) \<subseteq> sessions s)
   \<and> (stopped s \<and> StopTask \<notin> set (tasks s) \<longrightarrow>
        \<not> acceptor_open s \<and> sessions s = {} \<and> \<not> work_guard s \<and> (\<forall>c \<in> ran (conns s). closed c))"

lemma server_step_ids_inv: "server_step ops s s' \<Longrightarrow> ids_inv s \<Longrightarrow> ids_inv s'"
proof (induction rule: server_step.induct)
  case (task_runs s t ts)
  then show ?case
    by (cases t) (auto simp: ids_inv_def server_defs dom_def split: if_splits)
next
  case (accept_completes s now res)
  then show ?case
    by (cases res) (auto simp: ids_inv_def server_defs Let_def intro: less_SucI split: if_splits)
next
  case (session_runs s i c c')
  then have "dom ((conns s)(i \<mapsto> c')) = dom (conns s)" by auto
  with session_runs show ?case by (simp add: ids_inv_def)
qed (auto simp: ids_inv_def server_defs)

lemma ids_inv_start: "ids_inv (run_server mk_server)"
  by (simp add: ids_inv_def run_server_def mk_server_def)

lemma reachable_ids_inv: "server_reachable ops s \<Longrightarrow> ids_inv s"
  by (induction rule: server_reachable.induct) (rule ids_inv_start, rule server_step_ids_inv)

text \<open>
  What the server asks of its sessions: \<^verbatim>\<open>Shutdown\<close> closes, nothing reopens, and \<open>ok\<close> holds of
  every object the server makes, runs or shuts down.
\<close>

locale managed_session =
  fixes ops :: "'c session_ops"
    and closed :: "'c \<Rightarrow> bool"
    and ok :: "'c \<Rightarrow> bool"
  assumes shut_closes: "closed (shut_session ops c)"
    and run_keeps_closed: "run_session ops c c' \<Longrightarrow> closed c \<Longrightarrow> closed c'"
    and made_ok: "ok (make_session ops now)"
    and shut_ok: "ok c \<Longrightarrow> ok (shut_session ops c)"
    and run_ok: "run_session ops c c' \<Longrightarrow> ok c \<Longrightarrow> ok c'"
begin

lemma step_stop_inv: "server_step ops s s' \<Longrightarrow> stop_inv closed s \<Longrightarrow> ids_inv s \<Longrightarrow> stop_inv closed s'"
proof (induction rule: server_step.induct)
  case (task_runs s t ts)
  show ?case
  proof (cases t)
    case StartTask
    then show ?thesis using task_runs by (auto simp: stop_inv_def server_defs split: if_splits)
  next
    case StopTask
    then have "stopped s" "StopTask \<notin> set ts" "dom (conns s) \<subseteq> sessions s"
      using task_runs by (auto simp: stop_inv_def count_list_0_iff split: if_splits)
    moreover from this(3) have "closed c"
      if "(if i \<in> sessions s then map_option (shut_session ops) (conns s i) else conns s i) = Some c" for i c
      using that shut_closes by (auto split: if_splits)
    then have "\<forall>c \<in> ran (\<lambda>i. if i \<in> sessions s then map_option (shut_session ops) (conns s i) else conns s i). closed c"
      unfolding ran_def by blast
    ultimately show ?thesis
      using StopTask task_runs(1) by (simp add: stop_inv_def cong: if_cong)
  next
    case (EraseTask i)
    then have "i \<notin> dom (conns s)" using task_runs by (auto simp: ids_inv_def)
    then show ?thesis
      using EraseTask task_runs by (auto simp: stop_inv_def split: if_splits)
  qed
next
  case (accept_completes s now res)
  then show ?case
    by (cases res) (auto simp: stop_inv_def server_defs Let_def split: if_splits)
next
  case (session_runs s i c c')
  have "dom ((conns s)(i \<mapsto> c')) = dom (conns s)" using session_runs(1) by auto
  moreover have "\<forall>d \<in> ran ((conns s)(i \<mapsto> c')). closed d" if "\<forall>d \<in> ran (conns s). closed d"
    using that session_runs(1,2) run_keeps_closed [of c c'] by (auto simp: ran_def)
  ultimately show ?case using session_runs(3) by (auto simp: stop_inv_def)
next
  case (session_released s i c)
  have "ran ((conns s)(i := None)) \<subseteq> ran (conns s)" by (auto simp: ran_def)
  then show ?case
    using session_released(3) by (auto simp: stop_inv_def server_defs)
next
  case (stop_called s)
  then show ?case by (auto simp: stop_inv_def server_defs count_list_0_iff)
next
  case (retry_fires s)
  then show ?case by (auto simp: stop_inv_def server_defs)
qed

lemma reachable_stop_inv: "server_reachable ops s \<Longrightarrow> stop_inv closed s"
proof (induction rule: server_reachable.induct)
  case running
  then show ?case by (simp add: stop_inv_def run_server_def mk_server_def)
next
  case (continued s s')
  then show ?case using step_stop_inv reachable_ids_inv by blast
qed

lemma step_conns_ok: "server_step ops s s' \<Longrightarrow> \<forall>c \<in> ran (conns s). ok c \<Longrightarrow> \<forall>c \<in> ran (conns s'). ok c"
proof (induction rule: server_step.induct)
  case (task_runs s t ts)
  then show ?case
    by (cases t) (auto simp: server_defs ran_def shut_ok split: if_splits)
next
  case (accept_completes s now res)
  then show ?case
    by (cases res) (auto simp: server_defs Let_def ran_def made_ok split: if_splits)
next
  case (session_runs s i c c')
  then show ?case using run_ok [of c c'] by (auto simp: ran_def)
qed (auto simp: server_defs ran_def split: if_splits)

lemma reachable_conns_ok: "server_reachable ops s \<Longrightarrow> c \<in> ran (conns s) \<Longrightarrow> ok c"
proof (induction arbitrary: c rule: server_reachable.induct)
  case running
  then show ?case by (simp add: run_server_def mk_server_def)
next
  case (continued s s')
  then show ?case using step_conns_ok by blast
qed

end

section \<open>The sessions of the program\<close>

text \<open>\<^verbatim>\<open>TCPSession\<close> as the server's session: made and started, shut down, run, and over.\<close>

definition session_over :: "session \<Rightarrow> bool" where
  "session_over c \<longleftrightarrow> read_pc c = ReadDone \<and> heart_pc c = HeartDone \<and> strand c = [] \<and> in_flight c = None"

definition tcp_sessions :: "endian \<Rightarrow> handler list \<Rightarrow> session session_ops" where
  "tcp_sessions E hs = \<lparr>make_session = (\<lambda>t. start_handling (mk_session t)), shut_session = shutdown,
     run_session = session_step E hs, over_session = session_over\<rparr>"

lemma tcp_sessions_sel [simp]:
  "make_session (tcp_sessions E hs) t = start_handling (mk_session t)"
  "shut_session (tcp_sessions E hs) = shutdown" "run_session (tcp_sessions E hs) = session_step E hs"
  "over_session (tcp_sessions E hs) = session_over"
  by (simp_all add: tcp_sessions_def)

lemma closed_ops [simp]:
  "is_closed (drain s) = is_closed s" "is_closed (read_top s) = is_closed s"
  "is_closed (heart_top j s) = is_closed s" "is_closed (shutdown s)"
  by (simp_all add: drain_def read_top_def heart_top_def shutdown_def)

lemma session_step_closed: "session_step E hs s s' \<Longrightarrow> is_closed s \<Longrightarrow> is_closed s'"
proof (induction rule: session_step.induct)
  case (handler_ends s ty v body repo)
  have "is_closed (perform_calls send close_session cs s)" for cs
    using handler_ends(2) by (simp add: session_conn.calls_closed)
  then show ?case by (simp add: handler_done_def read_stop_def split: handler_result.split)
next
  case (run_send s ty body v ts raced)
  then show ?case by (simp add: send_task_def)
next
  case (write_completes s ec sent)
  then show ?case by (auto simp: write_done_def Let_def split: option.split)
qed (auto simp: send_def send_frame_def close_session_def cleanup_def read_resumed_def read_stop_def
    read_header_done_def read_body_done_def heart_interval_done_def heart_grace_done_def Let_def
    send_pong_def send_ping_def split: read_point.split)

lemma shutdown_reachable: "session_reachable E hs s \<Longrightarrow> session_reachable E hs (shutdown s)"
  using session_reachable.stepped [OF _ session_step.post_close] by (simp add: close_session_def)

interpretation tcp_server: managed_session "tcp_sessions E hs" is_closed "session_reachable E hs"
  for E hs
  by unfold_locales
    (auto intro: session_step_closed shutdown_reachable session_reachable.started session_reachable.stepped)

section \<open>Properties of the running server\<close>

text \<open>
  C24: while the server is not stopped and no accept handler has failed, exactly one accept is
  outstanding or about to be: a failed accept is retried after its one-second timer, an accepted
  socket is followed by the next accept, and no two accepts ever run on the one acceptor.
\<close>

theorem accept_chain:
  assumes "server_reachable ops s"
  shows "(if accepting s then 1 else 0) + retries s + count_list (tasks s) StartTask \<le> 1
    \<and> (\<not> stopped s \<and> accept_faults s = 0 \<longrightarrow>
        (if accepting s then 1 else 0) + retries s + count_list (tasks s) StartTask = 1)"
  using reachable_chain_inv [OF assms] by (auto simp: chain_inv_def chain_links_def split: if_splits)

text \<open>A server that has posted its first accept, run it, and seen a peer that was gone already.\<close>

definition tcp_ops :: "session session_ops" where
  "tcp_ops = tcp_sessions codec_endian make_handlers"

definition listening :: "session server" where
  "listening = mk_server\<lparr>accepting := True\<rparr>"

lemma listening_reachable: "server_reachable tcp_ops listening"
proof -
  have "server_step tcp_ops (run_server mk_server)
      (run_server_task tcp_ops StartTask ((run_server mk_server)\<lparr>tasks := []\<rparr>))"
    by (rule server_step.task_runs) (simp add: run_server_def mk_server_def)
  moreover have "run_server_task tcp_ops StartTask ((run_server mk_server)\<lparr>tasks := []\<rparr>) = listening"
    by (simp add: listening_def run_server_def mk_server_def start_acceptor_def)
  ultimately show ?thesis
    using server_reachable.continued [OF server_reachable.running] by metis
qed

theorem accept_chain_witness:
  "\<not> stopped listening \<and> (if accepting listening then 1 else 0) + retries listening
    + count_list (tasks listening) StartTask = 1"
  using accept_chain [OF listening_reachable] by (simp add: listening_def mk_server_def)

text \<open>
  C25: one peer can deafen the server. When a peer has disconnected before its accept is
  handled, \<^verbatim>\<open>remote_endpoint()\<close> throws, the completion handler logs the exception and neither accepts
  again nor arms a retry; from then on nothing ever does, and no session is ever made again, although
  the server has not been stopped.
\<close>

theorem deaf_after_accept_exception:
  assumes "server_reachable ops s" and "accepting s" and "\<not> stopped s"
    and "(server_step ops)\<^sup>*\<^sup>* (accept_done ops now (Accepted False) s) s'"
  shows "next_id s' = next_id s \<and> \<not> accepting s' \<and> retries s' = 0 \<and> StartTask \<notin> set (tasks s')"
proof -
  let ?t = "accept_done ops now (Accepted False) s"
  have t: "accept_faults ?t \<noteq> 0" "next_id ?t = next_id s"
    using assms(3) by (simp_all add: server_defs)
  have "chain_inv ?t"
    using server_step_chain_inv [OF server_step.accept_completes] reachable_chain_inv assms(1,2) by blast
  then have "chain_inv s' \<and> accept_faults s' \<noteq> 0 \<and> next_id s' = next_id s"
    using deaf_steps [OF assms(4)] t by simp
  moreover from this have "chain_links s' = 0"
    by (simp add: chain_inv_def)
  ultimately show ?thesis
    by (simp add: chain_links_def count_list_0_iff split: if_splits)
qed

theorem deaf_after_accept_exception_witness:
  "\<not> stopped listening \<and> \<not> accepting (accept_done tcp_ops 0 (Accepted False) listening)
    \<and> retries (accept_done tcp_ops 0 (Accepted False) listening) = 0"
proof -
  have "accepting listening" "\<not> stopped listening"
    by (simp_all add: listening_def mk_server_def)
  then show ?thesis
    using deaf_after_accept_exception [OF listening_reachable _ _ rtranclp.rtrancl_refl] by blast
qed

text \<open>
  C10: stopping is complete. Once the stop task has run the acceptor is closed, the registry is
  empty, the work guard is released and every session object that still exists is closed; stopping a
  second time changes nothing, and a socket that is still accepted afterwards becomes no session.
\<close>

theorem stop_closes_everything:
  assumes "server_reachable (tcp_sessions E hs) s" and "stopped s" and "StopTask \<notin> set (tasks s)"
  shows "\<not> acceptor_open s \<and> sessions s = {} \<and> \<not> work_guard s
    \<and> (\<forall>c \<in> ran (conns s). is_closed c) \<and> stop s = s
    \<and> conns (accept_done (tcp_sessions E hs) now res s) = conns s
    \<and> \<not> accepting (accept_done (tcp_sessions E hs) now res s) \<and> retry_done s = s\<lparr>retries := retries s - 1\<rparr>"
  using tcp_server.reachable_stop_inv [OF assms(1)] assms(2,3)
  by (auto simp: stop_inv_def server_defs)

definition stopped_server :: "session server" where
  "stopped_server = run_server_task tcp_ops StopTask ((stop listening)\<lparr>tasks := []\<rparr>)"

lemma stopped_server_reachable: "server_reachable tcp_ops stopped_server"
  unfolding stopped_server_def
  by (rule server_reachable.continued
      [OF server_reachable.continued [OF listening_reachable server_step.stop_called]],
      rule server_step.task_runs)
    (simp add: stop_def listening_def mk_server_def)

theorem stop_closes_everything_witness:
  "\<not> acceptor_open stopped_server \<and> \<not> work_guard stopped_server \<and> stop stopped_server = stopped_server"
proof -
  have "stopped stopped_server" "StopTask \<notin> set (tasks stopped_server)"
    by (simp_all add: stopped_server_def stop_def listening_def mk_server_def)
  then show ?thesis
    using stop_closes_everything [of codec_endian make_handlers stopped_server 0 AcceptError]
      stopped_server_reachable
    by (simp add: tcp_ops_def)
qed

text \<open>
  The life of session objects. Every object the server knows is a session that went
  through the steps of its own model; ids of objects that live, that wait for deletion and that were
  deleted are disjoint and each is deleted at most once; the registry never holds anything else.
\<close>

theorem session_objects:
  assumes "server_reachable (tcp_sessions E hs) s"
  shows "(\<forall>c \<in> ran (conns s). session_reachable E hs c)
    \<and> distinct (freed s @ erase_ids (tasks s))
    \<and> set (freed s @ erase_ids (tasks s)) \<inter> dom (conns s) = {}
    \<and> sessions s \<subseteq> dom (conns s) \<union> set (erase_ids (tasks s))
    \<and> (\<not> stopped s \<longrightarrow> dom (conns s) \<subseteq> sessions s)"
  using reachable_ids_inv [OF assms] tcp_server.reachable_conns_ok [OF assms]
    tcp_server.reachable_stop_inv [OF assms]
  by (auto simp: ids_inv_def stop_inv_def)

theorem session_objects_witness:
  "distinct (freed stopped_server @ erase_ids (tasks stopped_server))
    \<and> sessions stopped_server \<subseteq> dom (conns stopped_server) \<union> set (erase_ids (tasks stopped_server))"
  using session_objects [of codec_endian make_handlers stopped_server] stopped_server_reachable
  by (simp add: tcp_ops_def)

section \<open>A session that keeps the server running\<close>

lemma session_run_from_start:
  "session_reachable E hs s \<Longrightarrow> \<exists>t. (session_step E hs)\<^sup>*\<^sup>* (start_handling (mk_session t)) s"
proof (induction rule: session_reachable.induct)
  case (started t)
  then show ?case by blast
next
  case (stepped s s')
  then show ?case by (meson rtranclp.rtrancl_into_rtrancl)
qed

lemma lift_session_steps:
  assumes "(session_step E hs)\<^sup>*\<^sup>* c c'" and "server_reachable (tcp_sessions E hs) (s\<lparr>conns := (conns s)(i \<mapsto> c)\<rparr>)"
  shows "server_reachable (tcp_sessions E hs) (s\<lparr>conns := (conns s)(i \<mapsto> c')\<rparr>)"
  using assms
proof (induction rule: rtranclp_induct)
  case base
  then show ?case by simp
next
  case (step d e)
  have "server_step (tcp_sessions E hs) (s\<lparr>conns := (conns s)(i \<mapsto> d)\<rparr>)
      ((s\<lparr>conns := (conns s)(i \<mapsto> d)\<rparr>)\<lparr>conns := (conns (s\<lparr>conns := (conns s)(i \<mapsto> d)\<rparr>))(i \<mapsto> e)\<rparr>)"
    using step(2) by (intro server_step.session_runs [of _ i d]) simp_all
  then show ?case
    using step(3) step(4) server_reachable.continued by fastforce
qed

lemma waiting_session_step:
  assumes "server_step (tcp_sessions E hs) t u" and "ids_inv t"
    and "conns t i = Some d" and "left_waiting d"
  shows "\<exists>c'. conns u i = Some c' \<and> left_waiting c'"
  using assms(1)
proof (cases rule: server_step.cases)
  case (task_runs tk ts)
  then show ?thesis
    using assms(3,4) by (cases tk) (auto simp: server_defs shutdown_def left_waiting_def)
next
  case (accept_completes now res)
  have "i \<noteq> next_id t" using assms(2,3) by (auto simp: ids_inv_def)
  then show ?thesis
    using accept_completes assms(3,4) by (cases res) (auto simp: server_defs Let_def)
next
  case (session_runs j e e')
  then show ?thesis
    using assms(3,4) left_waiting_step [of E hs d e'] by (cases "j = i") auto
next
  case (session_released j e)
  then show ?thesis
    using assms(3,4) by (auto simp: server_defs session_over_def left_waiting_def)
qed (use assms(3,4) in \<open>auto simp: server_defs\<close>)

lemma waiting_session_stays:
  assumes "(server_step (tcp_sessions E hs))\<^sup>*\<^sup>* s s'" and "ids_inv s"
    and "conns s i = Some c" and "left_waiting c"
  shows "ids_inv s' \<and> (\<exists>c'. conns s' i = Some c' \<and> left_waiting c')"
  using assms(1)
proof (induction rule: rtranclp_induct)
  case base
  then show ?case using assms(2-4) by blast
next
  case (step t u)
  then show ?case
    using waiting_session_step server_step_ids_inv by blast
qed

lemma reader_left_left_waiting: "left_waiting reader_left"
  using reachable_close_inv [OF reader_left_reachable] reader_left_fields
  by (auto simp: left_waiting_def close_inv_def count_list_0_iff)

text \<open>
  C14: a session that was left waiting keeps the whole server from ending. If one session has
  been closed and cleaned up while its read loop waits for the write side, then whatever happens
  next, a stop included, the session object stays and \<^verbatim>\<open>io_context::run\<close> never runs out of work, so
  \<open>Run\<close> cannot return and the process does not end on SIGTERM.
\<close>

theorem server_kept_running:
  assumes "server_reachable (tcp_sessions E hs) s" and "conns s i = Some c"
    and "\<not> sock_open c" and "in_flight c = None" and "read_pc c = ReadResume"
    and "resume_read c = TimerWaiting None"
    and "(server_step (tcp_sessions E hs))\<^sup>*\<^sup>* s s'"
  shows "\<not> run_may_return s' \<and> (\<exists>c'. conns s' i = Some c' \<and> is_closed c' \<and> read_pc c' = ReadResume)"
proof -
  have "c \<in> ran (conns s)" using assms(2) by (auto simp: ran_def)
  then have "close_inv c"
    using tcp_server.reachable_conns_ok [OF assms(1)] reachable_close_inv by blast
  then have "left_waiting c"
    using assms(3-6) by (auto simp: left_waiting_def close_inv_def count_list_0_iff split: if_splits)
  then obtain c' where "conns s' i = Some c'" "left_waiting c'"
    using waiting_session_stays [OF assms(7) reachable_ids_inv [OF assms(1)] assms(2)] by blast
  then show ?thesis by (auto simp: run_may_return_def left_waiting_def)
qed

lemma server_with_reader_left:
  "\<exists>s. server_reachable tcp_ops s \<and> conns s 0 = Some reader_left"
proof -
  obtain t where t: "(session_step codec_endian make_handlers)\<^sup>*\<^sup>* (start_handling (mk_session t)) reader_left"
    using session_run_from_start [OF reader_left_reachable] by blast
  let ?s = "accept_done tcp_ops t (Accepted True) listening"
  have "server_reachable tcp_ops ?s"
    by (rule server_reachable.continued [OF listening_reachable], rule server_step.accept_completes)
      (simp add: listening_def)
  moreover have "?s = ?s\<lparr>conns := (conns ?s)(0 \<mapsto> start_handling (mk_session t))\<rparr>"
    by (simp add: listening_def mk_server_def server_defs tcp_ops_def Let_def)
  ultimately have "server_reachable tcp_ops (?s\<lparr>conns := (conns ?s)(0 \<mapsto> reader_left)\<rparr>)"
    using lift_session_steps [OF t, of ?s 0] unfolding tcp_ops_def by metis
  then show ?thesis by (intro exI conjI) (assumption, simp)
qed

theorem server_kept_running_witness:
  "\<exists>s. server_reachable tcp_ops s \<and> conns s 0 = Some reader_left \<and> \<not> run_may_return (stop s)"
proof -
  obtain s where s: "server_reachable tcp_ops s" "conns s 0 = Some reader_left"
    using server_with_reader_left by blast
  have "(server_step (tcp_sessions codec_endian make_handlers))\<^sup>*\<^sup>* s (stop s)"
    by (rule r_into_rtranclp, rule server_step.stop_called)
  then show ?thesis
    using server_kept_running [of codec_endian make_handlers s 0 reader_left] s reader_left_fields
    by (auto simp: tcp_ops_def)
qed

end
