(* ===== verification/Decimal_Text.thy ===== *)
theory Decimal_Text
  imports Zem_Prelude
begin

text \<open>
  Decimal numbers as text: what \<^verbatim>\<open>strtoul\<close> reads and what number formatting prints. Strings are
  lists of characters without the terminating NUL; \<open>of_char\<close> is the character code.
\<close>

section \<open>Printing\<close>

definition digit_char :: "nat \<Rightarrow> char" where
  "digit_char d = char_of (48 + d)"

definition is_digit :: "char \<Rightarrow> bool" where
  "is_digit c \<longleftrightarrow> 48 \<le> (of_char c :: nat) \<and> (of_char c :: nat) \<le> 57"

definition digit_value :: "char \<Rightarrow> nat" where
  "digit_value c = of_char c - 48"

fun dec :: "nat \<Rightarrow> string" where
  "dec n = (if n < 10 then [digit_char n] else dec (n div 10) @ [digit_char (n mod 10)])"

declare dec.simps [simp del]

definition dec_value :: "string \<Rightarrow> nat" where
  "dec_value ds = foldl (\<lambda>a c. 10 * a + digit_value c) 0 ds"

lemma digit_char_props [simp]:
  "d < 10 \<Longrightarrow> is_digit (digit_char d)" "d < 10 \<Longrightarrow> digit_value (digit_char d) = d"
  by (simp_all add: is_digit_def digit_value_def digit_char_def)

lemma digit_value_less: "is_digit c \<Longrightarrow> digit_value c < 10"
  by (auto simp add: is_digit_def digit_value_def)

lemma digit_char_value: "is_digit c \<Longrightarrow> digit_char (digit_value c) = c"
  by (simp add: is_digit_def digit_value_def digit_char_def)

lemma dec_nonempty [simp]: "dec n \<noteq> []"
  by (subst dec.simps) simp

lemma dec_digits: "list_all is_digit (dec n)"
proof (induction n rule: dec.induct)
  case (1 n)
  then show ?case by (subst dec.simps) simp
qed

lemma dec_value_snoc [simp]: "dec_value (ds @ [c]) = 10 * dec_value ds + digit_value c"
  by (simp add: dec_value_def)

lemma dec_value_Nil [simp]: "dec_value [] = 0"
  by (simp add: dec_value_def)

lemma dec_value_single [simp]: "dec_value [c] = digit_value c"
  by (simp add: dec_value_def)

lemma dec_value_dec [simp]: "dec_value (dec n) = n"
proof (induction n rule: dec.induct)
  case (1 n)
  then show ?case by (subst dec.simps) simp
qed

lemma dec_inject [simp]: "dec m = dec n \<longleftrightarrow> m = n"
  by (metis dec_value_dec)

lemma dec_length_one: "n < 10 \<Longrightarrow> length (dec n) = 1"
  by (simp add: dec.simps)

lemma dec_two: "10 \<le> n \<Longrightarrow> n < 100 \<Longrightarrow> dec n = [digit_char (n div 10), digit_char (n mod 10)]"
  by (simp add: dec.simps [of n] dec.simps [of "n div 10"])

lemma dec_length: "length (dec n) \<le> k \<longleftrightarrow> n < 10 ^ k" if "1 \<le> k"
  using that
proof (induction n arbitrary: k rule: dec.induct)
  case (1 n)
  show ?case
  proof (cases "n < 10")
    case True
    have "(10 :: nat) ^ 1 \<le> 10 ^ k" using 1(2) by (intro power_increasing) simp_all
    then show ?thesis using True 1(2) by (simp add: dec.simps)
  next
    case False
    show ?thesis
    proof (cases "k = 1")
      case True
      then show ?thesis using False by (simp add: dec.simps [of n] Suc_le_eq)
    next
      case k: False
      then obtain j where j: "k = Suc j" "1 \<le> j" using 1(2) by (cases k) auto
      have "n div 10 < 10 ^ j \<longleftrightarrow> n < 10 ^ k"
        unfolding j by (simp add: div_less_iff_less_mult mult.commute)
      then show ?thesis
        using 1(1) [OF False j(2)] False j by (simp add: dec.simps [of n])
    qed
  qed
qed

section \<open>Reading\<close>

definition is_space :: "char \<Rightarrow> bool" where
  "is_space c \<longleftrightarrow> c = CHR '' '' \<or> 9 \<le> (of_char c :: nat) \<and> (of_char c :: nat) \<le> 13"

text \<open>
  \<^verbatim>\<open>std::strtoul(value, &end, 10)\<close> on a platform with 64-bit \<^verbatim>\<open>unsigned long\<close>: \<open>None\<close> when nothing is
  converted (\<^verbatim>\<open>end == value\<close>), otherwise the number and what is left at \<^verbatim>\<open>end\<close>. A minus sign negates
  modulo \<open>2 ^ 64\<close>, a magnitude beyond the type saturates.
\<close>

definition split_sign :: "string \<Rightarrow> bool \<times> string" where
  "split_sign s = (case s of
      [] \<Rightarrow> (False, [])
    | c # t \<Rightarrow> if c = CHR ''-'' then (True, t) else if c = CHR ''+'' then (False, t) else (False, s))"

definition strtoul :: "string \<Rightarrow> (u64 \<times> string) option" where
  "strtoul value =
     (let (neg, s) = split_sign (dropWhile is_space value);
          ds = takeWhile is_digit s;
          n = dec_value ds
      in if ds = [] then None
         else Some (if n \<ge> 2 ^ 64 then - 1 else if neg then - of_nat n else of_nat n,
                    dropWhile is_digit s))"

lemma not_space_sign [simp]: "\<not> is_space (CHR ''-'')" "\<not> is_space (CHR ''+'')"
  by (simp_all add: is_space_def)

lemma digit_not_space: "is_digit c \<Longrightarrow> \<not> is_space c \<and> c \<noteq> CHR ''-'' \<and> c \<noteq> CHR ''+''"
  by (auto simp: is_digit_def is_space_def)

lemma takeWhile_all: "list_all P xs \<Longrightarrow> takeWhile P (xs @ ys) = xs @ takeWhile P ys"
  and dropWhile_all: "list_all P xs \<Longrightarrow> dropWhile P (xs @ ys) = dropWhile P ys"
  by (induction xs) auto

definition sign_text :: "string \<Rightarrow> bool" where
  "sign_text sg \<longleftrightarrow> sg = [] \<or> sg = ''+'' \<or> sg = ''-''"

lemma strtoul_number:
  assumes "list_all is_space ws" and "sign_text sg" and "ds \<noteq> []" and "list_all is_digit ds"
  shows "strtoul (ws @ sg @ ds) = Some
    (if dec_value ds \<ge> 2 ^ 64 then - 1 else if sg = ''-'' then - of_nat (dec_value ds)
     else of_nat (dec_value ds), [])"
proof -
  obtain d ds' where ds: "ds = d # ds'" "is_digit d"
    using assms(3,4) by (cases ds) auto
  have ns: "dropWhile is_space (sg @ ds) = sg @ ds"
    using assms(2) ds digit_not_space by (auto simp: sign_text_def)
  have "split_sign (sg @ ds) = (sg = ''-'', ds)"
    using assms(2) ds digit_not_space [of d] by (auto simp: sign_text_def split_sign_def)
  moreover have tw: "takeWhile is_digit ds = ds" and dw: "dropWhile is_digit ds = []"
    using assms(4) by (auto simp: list_all_iff)
  ultimately show ?thesis
    using assms(3) by (simp add: strtoul_def dropWhile_all [OF assms(1)] ns tw dw Let_def)
qed

lemma strtoul_complete:
  assumes "strtoul v = Some (n, [])"
  shows "\<exists>ws sg ds. v = ws @ sg @ ds \<and> list_all is_space ws \<and> sign_text sg \<and> ds \<noteq> [] \<and> list_all is_digit ds"
proof -
  define s where "s = dropWhile is_space v"
  define t where "t = snd (split_sign s)"
  have "\<exists>sg. s = sg @ t \<and> sign_text sg"
    by (auto simp: t_def split_sign_def sign_text_def split: list.split)
  then obtain sg where sg: "s = sg @ t" "sign_text sg" by blast
  have "dropWhile is_digit t = []" "takeWhile is_digit t \<noteq> []"
    using assms by (auto simp: strtoul_def s_def [symmetric] t_def Let_def split: prod.splits if_splits)
  then have t: "list_all is_digit t" "t \<noteq> []"
    by (auto simp: list_all_iff dropWhile_eq_Nil_conv)
  have "v = takeWhile is_space v @ sg @ t"
    unfolding sg(1) [symmetric] s_def by (rule takeWhile_dropWhile_id [symmetric])
  moreover have "list_all is_space (takeWhile is_space v)"
    by (auto simp: list_all_iff dest: set_takeWhileD)
  ultimately show ?thesis using sg(2) t by blast
qed

end
