(* ===== verification/App_Context.thy ===== *)
theory App_Context
  imports Tcp_Server Decimal_Text
begin

text \<open>
  The composition root: \<^verbatim>\<open>App/Bootstrap/AppContext.cpp\<close> and \<^verbatim>\<open>Main.cpp\<close>. The environment is a map
  from names to values; what the operating system decides (the number of hardware threads, whether a
  database slot opens, whether the port can be bound, how the server's run ends) is a parameter.
  The effects of the context's life are recorded as events in the order the code causes them.
\<close>

section \<open>The environment\<close>

definition get_env :: "(string \<Rightarrow> string option) \<Rightarrow> string \<Rightarrow> string option" where
  "get_env env name = (case env name of None \<Rightarrow> None | Some v \<Rightarrow> if v = '''' then None else Some v)"

definition get_env_or_default :: "(string \<Rightarrow> string option) \<Rightarrow> string \<Rightarrow> string \<Rightarrow> string" where
  "get_env_or_default env name default_value =
     (case get_env env name of Some v \<Rightarrow> v | None \<Rightarrow> default_value)"

definition get_env_or_default_size :: "(string \<Rightarrow> string option) \<Rightarrow> string \<Rightarrow> size_t \<Rightarrow> size_t" where
  "get_env_or_default_size env name default_value =
     (case get_env env name of
        Some v \<Rightarrow> (case strtoul v of
            Some (parsed, rest) \<Rightarrow> if rest = '''' then parsed else default_value
          | None \<Rightarrow> default_value)
      | None \<Rightarrow> default_value)"

definition get_env_or_default_port :: "(string \<Rightarrow> string option) \<Rightarrow> string \<Rightarrow> u16 \<Rightarrow> u16" where
  "get_env_or_default_port env name default_value =
     (case get_env env name of
        Some v \<Rightarrow> (case strtoul v of
            Some (parsed, rest) \<Rightarrow>
              if rest = '''' \<and> parsed \<le> 65535 then ucast parsed else default_value
          | None \<Rightarrow> default_value)
      | None \<Rightarrow> default_value)"

section \<open>The configuration\<close>

record db_settings =
  db_address :: string
  db_port :: string
  db_name :: string
  db_user :: string
  db_password :: string

record config =
  cfg_db :: db_settings
  cfg_port :: u16
  cfg_db_pool_size :: size_t
  cfg_db_thread_count :: size_t

definition default_config :: "(string \<Rightarrow> string option) \<Rightarrow> config" where
  "default_config env =
     \<lparr>cfg_db =
        \<lparr>db_address = get_env_or_default env ''ZEM_DB_ADDRESS'' ''127.0.0.1'',
         db_port = get_env_or_default env ''ZEM_DB_PORT'' ''5432'',
         db_name = get_env_or_default env ''ZEM_DB_NAME'' ''wms_db'',
         db_user = get_env_or_default env ''ZEM_DB_USER'' ''wms_manager'',
         db_password = get_env_or_default env ''ZEM_DB_PASSWORD'' ''kyungjoon_1997''\<rparr>,
      cfg_port = get_env_or_default_port env ''ZEM_PORT'' 47213,
      cfg_db_pool_size = get_env_or_default_size env ''ZEM_DB_POOL_SIZE'' 0,
      cfg_db_thread_count = get_env_or_default_size env ''ZEM_DB_THREAD_COUNT'' 0\<rparr>"

section \<open>The context\<close>

text \<open>\<^verbatim>\<open>max_file_size\<close> and \<^verbatim>\<open>max_file_num\<close> of the log file.\<close>

definition log_file_size :: size_t where "log_file_size = 1024 * 1024 * 5"
definition log_file_num :: size_t where "log_file_num = 5"
definition log_pattern :: string where "log_pattern = ''[%H:%M:%S %z] [%t] [%^-%L-%$] %v''"

datatype app_event =
    LoggerUp size_t size_t string | LoggerDown
  | DbPoolUp u32 | DbPoolDown
  | RepoUp nat | ServerUp u16 | ServerRun | ServerDown

datatype app_error = SociError nat | SystemError | StdError

record app =
  app_config :: config
  db_thread_pool :: "u32 option"
  account_repo :: "nat list option"
  has_usecase :: bool
  server_port :: "u16 option"
  logger_initialized :: bool
  db_pool_stopped :: bool
  events :: "app_event list"

definition mk_app :: "config \<Rightarrow> app" where
  "mk_app c = \<lparr>app_config = c, db_thread_pool = None, account_repo = None, has_usecase = False,
     server_port = None, logger_initialized = False, db_pool_stopped = False, events = []\<rparr>"

text \<open>\<open>log_ok\<close>: the log file can be created; otherwise the sink's constructor throws.\<close>

definition init_logger :: "bool \<Rightarrow> app \<Rightarrow> (app_error \<times> app) + app" where
  "init_logger log_ok a =
     (if logger_initialized a then Inr a
      else if \<not> log_ok then Inl (StdError, a)
      else Inr (a\<lparr>events := events a @ [LoggerUp log_file_size log_file_num log_pattern],
                  logger_initialized := True\<rparr>))"

definition db_thread_count :: "nat \<Rightarrow> config \<Rightarrow> size_t" where
  "db_thread_count hw c =
     (let concurrency = (if hw \<noteq> 0 then of_nat hw else 1) :: size_t
      in if cfg_db_thread_count c \<noteq> 0 then cfg_db_thread_count c else max 2 concurrency)"

definition repo_config :: "config \<Rightarrow> postgres_config" where
  "repo_config c =
     \<lparr>address = db_address (cfg_db c), port = db_port (cfg_db c), dbname = db_name (cfg_db c),
      user = db_user (cfg_db c), password = db_password (cfg_db c),
      pool_size = unat (cfg_db_pool_size c)\<rparr>"

definition init_db :: "(nat \<Rightarrow> string \<Rightarrow> bool) \<Rightarrow> nat \<Rightarrow> app \<Rightarrow> (app_error \<times> app) + app" where
  "init_db open_ok hw a =
     (let n = ucast (db_thread_count hw (app_config a)) :: u32;
          a1 = a\<lparr>db_thread_pool := Some n, events := events a @ [DbPoolUp n]\<rparr>
      in case create_account_repository open_ok hw (repo_config (app_config a)) of
           Inl i \<Rightarrow> Inl (SociError i, a1)
         | Inr slots \<Rightarrow> Inr (a1\<lparr>account_repo := Some slots, events := events a1 @ [RepoUp (length slots)]\<rparr>))"

definition build_use_cases :: "app \<Rightarrow> app" where
  "build_use_cases a = a\<lparr>has_usecase := True\<rparr>"

definition build_server :: "(u16 \<Rightarrow> bool) \<Rightarrow> app \<Rightarrow> (app_error \<times> app) + app" where
  "build_server bind_ok a =
     (let p = cfg_port (app_config a)
      in if bind_ok p then Inr (a\<lparr>server_port := Some p, events := events a @ [ServerUp p]\<rparr>)
         else Inl (SystemError, a))"

text \<open>The constructor: an exception leaves it with the members built so far.\<close>

definition construct ::
  "bool \<Rightarrow> (nat \<Rightarrow> string \<Rightarrow> bool) \<Rightarrow> (u16 \<Rightarrow> bool) \<Rightarrow> nat \<Rightarrow> config \<Rightarrow> (app_error \<times> app) + app" where
  "construct log_ok open_ok bind_ok hw c =
     (case init_logger log_ok (mk_app c) of
        Inl e \<Rightarrow> Inl e
      | Inr a \<Rightarrow>
          (case init_db open_ok hw a of
             Inl e \<Rightarrow> Inl e
           | Inr a1 \<Rightarrow> build_server bind_ok (build_use_cases a1)))"

definition stop_db_thread_pool :: "app \<Rightarrow> app" where
  "stop_db_thread_pool a =
     (if db_pool_stopped a \<or> db_thread_pool a = None then a
      else a\<lparr>events := events a @ [DbPoolDown], db_pool_stopped := True\<rparr>)"

definition shutdown_logger :: "app \<Rightarrow> app" where
  "shutdown_logger a =
     (if \<not> logger_initialized a then a
      else a\<lparr>events := events a @ [LoggerDown], logger_initialized := False\<rparr>)"

definition reset_server :: "app \<Rightarrow> app" where
  "reset_server a =
     (if server_port a = None then a else a\<lparr>server_port := None, events := events a @ [ServerDown]\<rparr>)"

definition destroy :: "app \<Rightarrow> app" where
  "destroy a = shutdown_logger (reset_server (stop_db_thread_pool a))"

definition run_app :: "app \<Rightarrow> app" where
  "run_app a = (if server_port a = None then a else a\<lparr>events := events a @ [ServerRun]\<rparr>)"

text \<open>\<^verbatim>\<open>main\<close>: what was caught and logged, if anything, and what happened.\<close>

definition main_program ::
  "(string \<Rightarrow> string option) \<Rightarrow> bool \<Rightarrow> (nat \<Rightarrow> string \<Rightarrow> bool) \<Rightarrow> (u16 \<Rightarrow> bool) \<Rightarrow> nat \<Rightarrow> app_error option
     \<Rightarrow> app_error option \<times> app" where
  "main_program env log_ok open_ok bind_ok hw run_fails =
     (case construct log_ok open_ok bind_ok hw (default_config env) of
        Inl (e, a) \<Rightarrow> (Some e, a)
      | Inr a \<Rightarrow> (run_fails, destroy (run_app a)))"

section \<open>Reading the settings\<close>

text \<open>What \<^verbatim>\<open>strtoul\<close> takes as a whole: blanks, a sign, and at least one digit up to the end.\<close>

definition number_text :: "string \<Rightarrow> bool" where
  "number_text v \<longleftrightarrow> (\<exists>ws sg ds. v = ws @ sg @ ds \<and> list_all is_space ws \<and> sign_text sg
     \<and> ds \<noteq> [] \<and> list_all is_digit ds)"

lemma strtoul_not_number:
  assumes "\<not> number_text v"
  shows "(case strtoul v of Some (n, rest) \<Rightarrow> if rest = '''' then f n else d | None \<Rightarrow> d) = d"
  using strtoul_complete [of v] assms
  by (auto simp: number_text_def split: option.splits prod.splits)

text \<open>
  The size settings. A value that is blanks, a sign and digits is that number, saturated
  at the largest 64-bit value and, with a minus sign, negated modulo \<open>2 ^ 64\<close>; an unset, empty or
  otherwise written value, trailing blanks included, is the default.
\<close>

theorem size_setting_spec:
  "(env name = Some (ws @ sg @ ds) \<and> list_all is_space ws \<and> sign_text sg \<and> ds \<noteq> [] \<and> list_all is_digit ds \<longrightarrow>
      get_env_or_default_size env name d =
        (if dec_value ds \<ge> 2 ^ 64 then - 1 else if sg = ''-'' then - of_nat (dec_value ds)
         else of_nat (dec_value ds)))
   \<and> (env name = None \<or> (\<exists>v. env name = Some v \<and> \<not> number_text v) \<longrightarrow>
      get_env_or_default_size env name d = d)"
proof (intro conjI impI)
  assume a: "env name = Some (ws @ sg @ ds) \<and> list_all is_space ws \<and> sign_text sg \<and> ds \<noteq> [] \<and> list_all is_digit ds"
  then have "get_env env name = Some (ws @ sg @ ds)"
    by (simp add: get_env_def)
  with a show "get_env_or_default_size env name d =
      (if dec_value ds \<ge> 2 ^ 64 then - 1 else if sg = ''-'' then - of_nat (dec_value ds)
       else of_nat (dec_value ds))"
    using strtoul_number [of ws sg ds] unfolding get_env_or_default_size_def by simp
next
  assume "env name = None \<or> (\<exists>v. env name = Some v \<and> \<not> number_text v)"
  then show "get_env_or_default_size env name d = d"
    using strtoul_not_number [where f = "\<lambda>n. n" and d = d]
    by (auto simp: get_env_or_default_size_def get_env_def)
qed

theorem size_setting_spec_witness:
  "get_env_or_default_size (\<lambda>_. Some ''-42'') ''ZEM_DB_POOL_SIZE'' 0 = - 42"
proof -
  let ?env = "\<lambda>_. Some ''-42'' :: string option"
  have h: "?env ''ZEM_DB_POOL_SIZE'' = Some ('''' @ ''-'' @ ''42'') \<and> list_all is_space ''''
      \<and> sign_text ''-'' \<and> ''42'' \<noteq> '''' \<and> list_all is_digit ''42''"
    by (simp add: sign_text_def is_digit_def)
  show ?thesis
    using conjunct1 [OF size_setting_spec [of ?env "''ZEM_DB_POOL_SIZE''" "''''" "''-''" "''42''" 0], THEN mp, OF h]
    by (simp add: dec_value_def digit_value_def)
qed

text \<open>
  Every port number can be configured, and some values configure another one. The decimal
  text of a port is read back as that port; a number beyond 65535 is the default; but a negative
  number just above \<open>- 2 ^ 64\<close> wraps to a valid port instead of being refused.
\<close>

theorem port_setting_spec:
  "get_env_or_default_port (\<lambda>_. Some (dec n)) name d = (if n < 65536 then of_nat n else d)
   \<and> get_env_or_default_port (\<lambda>_. Some ''-18446744073709551615'') name d = 1"
proof -
  have read: "get_env_or_default_port (\<lambda>_. Some (sg @ ds)) name d =
      (let v = (if dec_value ds \<ge> 2 ^ 64 then - 1 else if sg = ''-'' then - of_nat (dec_value ds)
                else of_nat (dec_value ds)) :: u64
       in if v \<le> 65535 then ucast v else d)"
    if "sign_text sg" "ds \<noteq> []" "list_all is_digit ds" for sg ds
    using strtoul_number [of "[]" sg ds] that
    by (simp add: get_env_or_default_port_def get_env_def Let_def)
  have "get_env_or_default_port (\<lambda>_. Some ([] @ dec n)) name d = (if n < 65536 then of_nat n else d)"
  proof (cases "n < 2 ^ 64")
    case True
    then have "(of_nat n :: u64) \<le> 65535 \<longleftrightarrow> n < 65536"
      by (simp add: word_le_nat_alt) auto
    moreover have "(ucast (of_nat n :: u64) :: u16) = of_nat n"
      using True by (simp only: ucast_of_nat_unat unat_of_nat_size)
    ultimately show ?thesis
      using True by (subst read) (simp_all add: sign_text_def dec_digits Let_def)
  next
    case False
    have "\<not> (- 1 :: u64) \<le> 65535"
      by (simp add: word_le_nat_alt unsigned_minus_1_eq_mask mask_eq_exp_minus_1)
    then show ?thesis
      using False by (subst read) (simp_all add: sign_text_def dec_digits Let_def)
  qed
  moreover have "get_env_or_default_port (\<lambda>_. Some (''-'' @ ''18446744073709551615'')) name d = 1"
  proof -
    have v: "dec_value ''18446744073709551615'' = 18446744073709551615"
      by (simp add: dec_value_def digit_value_def)
    have w: "(- of_nat 18446744073709551615 :: u64) = 1"
      by (simp add: word_unat_eq_iff)
    have "(1 :: u64) \<le> 65535"
      by (simp add: word_le_nat_alt)
    then show ?thesis
      by (subst read) (simp_all only: v w Let_def, simp_all add: sign_text_def is_digit_def)
  qed
  ultimately show ?thesis by simp
qed

section \<open>The life of the context\<close>

lemma create_cases:
  "(\<exists>i. create_account_repository open_ok hw c = Inl i \<and> \<not> open_ok i (connection_string c))
   \<or> create_account_repository open_ok hw c = Inr [0..<effective_pool_size hw c]"
  using open_slots_spec [of "effective_pool_size hw c" open_ok 0 "connection_string c"]
  by (auto simp: create_account_repository_def)

definition started_events :: "nat \<Rightarrow> config \<Rightarrow> app_event list" where
  "started_events hw c =
     [LoggerUp log_file_size log_file_num log_pattern, DbPoolUp (ucast (db_thread_count hw c))]"

lemma main_paths:
  fixes env log_ok open_ok bind_ok hw run_fails
  defines "c \<equiv> default_config env"
  defines "result \<equiv> main_program env log_ok open_ok bind_ok hw run_fails"
  shows "(\<not> log_ok \<and> fst result = Some StdError \<and> events (snd result) = [])
    \<or> (\<exists>i. log_ok \<and> \<not> open_ok i (connection_string (repo_config c)) \<and> fst result = Some (SociError i)
        \<and> events (snd result) = started_events hw c)
    \<or> (log_ok \<and> \<not> bind_ok (cfg_port c) \<and> fst result = Some SystemError
        \<and> events (snd result) = started_events hw c @ [RepoUp (effective_pool_size hw (repo_config c))])
    \<or> (log_ok \<and> bind_ok (cfg_port c) \<and> fst result = run_fails
        \<and> events (snd result) = started_events hw c @ [RepoUp (effective_pool_size hw (repo_config c)),
            ServerUp (cfg_port c), ServerRun, DbPoolDown, ServerDown, LoggerDown])"
proof (cases "log_ok \<and> (\<exists>i. create_account_repository open_ok hw (repo_config c) = Inl i)")
  case True
  then obtain i where "create_account_repository open_ok hw (repo_config c) = Inl i" "log_ok"
    "\<not> open_ok i (connection_string (repo_config c))"
    using create_cases [of open_ok hw "repo_config c"] by auto
  then show ?thesis
    by - (rule disjI2, rule disjI1, rule exI [of _ i], simp add: result_def main_program_def construct_def init_db_def init_logger_def mk_app_def
        started_events_def c_def Let_def)
next
  case False
  then have "log_ok \<Longrightarrow> create_account_repository open_ok hw (repo_config c) = Inr [0..<effective_pool_size hw (repo_config c)]"
    using create_cases [of open_ok hw "repo_config c"] by auto
  then show ?thesis
    by (cases "log_ok"; cases "bind_ok (cfg_port c)")
      (simp_all add: result_def main_program_def construct_def init_db_def init_logger_def mk_app_def
        started_events_def c_def build_use_cases_def build_server_def run_app_def destroy_def
        stop_db_thread_pool_def reset_server_def shutdown_logger_def Let_def)
qed


text \<open>
  How many threads wait for the database. Unset or zero it is the number of hardware
  threads but at least two; a configured count is reduced to 32 bits when the pool is made, so that
  a multiple of \<open>2 ^ 32\<close> starts a pool without a thread.
\<close>

theorem db_threads_spec:
  fixes hw :: nat and c :: config
  defines "n \<equiv> (ucast (db_thread_count hw c) :: u32)"
  shows "(cfg_db_thread_count c = 0 \<and> hw < 2 ^ 32 \<longrightarrow> unat n = max 2 hw)
    \<and> (cfg_db_thread_count c \<noteq> 0 \<longrightarrow> unat n = unat (cfg_db_thread_count c) mod 2 ^ 32)"
proof (intro conjI impI)
  assume a: "cfg_db_thread_count c = 0 \<and> hw < 2 ^ 32"
  then have "unat (of_nat hw :: size_t) = hw" by simp
  then have "unat (db_thread_count hw c) = max 2 hw"
    using a by (auto simp: db_thread_count_def Let_def max_def word_le_nat_alt)
  then show "unat n = max 2 hw"
    using a by (simp add: n_def unat_of_nat_small ucast_of_nat_unat [of "db_thread_count hw c"])
next
  assume "cfg_db_thread_count c \<noteq> 0"
  then show "unat n = unat (cfg_db_thread_count c) mod 2 ^ 32"
    by (simp add: n_def db_thread_count_def unsigned_ucast_eq take_bit_eq_mod)
qed

theorem db_threads_spec_witness:
  "unat (ucast (db_thread_count 8 ((default_config (\<lambda>_. None))\<lparr>cfg_db_thread_count := 4294967296\<rparr>)) :: u32) = 0"
  using conjunct2 [OF db_threads_spec [of "(default_config (\<lambda>_. None))\<lparr>cfg_db_thread_count := 4294967296\<rparr>" 8]] by simp

end
