(* ===== verification/Log_Queue.thy ===== *)
theory Log_Queue
  imports Zem_Prelude
begin

text \<open>
  The bounded queues of the vendored logging library: \<^verbatim>\<open>details/circular_q.h\<close>, a ring over a vector
  that drops its oldest element when it overruns, and \<^verbatim>\<open>details/mpmc_blocking_q.h\<close>, the blocking
  queue built on it. The ring is shown to implement the interface \<open>bounded_fifo\<close>, a list that never
  grows beyond its capacity; the users of the ring rely on that interface.
\<close>

section \<open>The ring\<close>

text \<open>
  Indices are natural numbers below \<open>cq_max\<close>, so their arithmetic does not wrap; the constructor's
  \<^verbatim>\<open>max_items + 1\<close> and the overrun counter are 64-bit words. \<open>dflt\<close> is a default-made element.
\<close>

record 'a circular_q =
  cq_max :: nat
  cq_head :: nat
  cq_tail :: nat
  cq_overrun :: size_t
  cq_v :: "'a list"

definition cq_disabled :: "'a circular_q" where
  "cq_disabled = \<lparr>cq_max = 0, cq_head = 0, cq_tail = 0, cq_overrun = 0, cq_v = []\<rparr>"

definition mk_circular_q :: "'a \<Rightarrow> size_t \<Rightarrow> 'a circular_q" where
  "mk_circular_q dflt max_items =
     (let n = unat (max_items + 1)
      in \<lparr>cq_max = n, cq_head = 0, cq_tail = 0, cq_overrun = 0, cq_v = replicate n dflt\<rparr>)"

definition cq_push_back :: "'a \<Rightarrow> 'a circular_q \<Rightarrow> 'a circular_q" where
  "cq_push_back item q =
     (if cq_max q > 0
      then let q1 = q\<lparr>cq_v := (cq_v q)[cq_tail q := item], cq_tail := (cq_tail q + 1) mod cq_max q\<rparr>
           in if cq_tail q1 = cq_head q1
              then q1\<lparr>cq_head := (cq_head q1 + 1) mod cq_max q1, cq_overrun := cq_overrun q1 + 1\<rparr>
              else q1
      else q)"

definition cq_front :: "'a circular_q \<Rightarrow> 'a" where
  "cq_front q = cq_v q ! cq_head q"

definition cq_size :: "'a circular_q \<Rightarrow> nat" where
  "cq_size q = (if cq_tail q \<ge> cq_head q then cq_tail q - cq_head q
                else cq_max q - (cq_head q - cq_tail q))"

definition cq_at :: "'a circular_q \<Rightarrow> nat \<Rightarrow> 'a" where
  "cq_at q i = cq_v q ! ((cq_head q + i) mod cq_max q)"

definition cq_pop_front :: "'a circular_q \<Rightarrow> 'a circular_q" where
  "cq_pop_front q = q\<lparr>cq_head := (cq_head q + 1) mod cq_max q\<rparr>"

definition cq_empty :: "'a circular_q \<Rightarrow> bool" where
  "cq_empty q \<longleftrightarrow> cq_tail q = cq_head q"

definition cq_full :: "'a circular_q \<Rightarrow> bool" where
  "cq_full q \<longleftrightarrow> (if cq_max q > 0 then (cq_tail q + 1) mod cq_max q = cq_head q else False)"

definition cq_reset_overrun :: "'a circular_q \<Rightarrow> 'a circular_q" where
  "cq_reset_overrun q = q\<lparr>cq_overrun := 0\<rparr>"

text \<open>\<^verbatim>\<open>copy_moveable\<close>: the new queue, and the disabled state the other is left in.\<close>

definition cq_move :: "'a circular_q \<Rightarrow> 'a circular_q \<times> 'a circular_q" where
  "cq_move other =
     (\<lparr>cq_max = cq_max other, cq_head = cq_head other, cq_tail = cq_tail other,
       cq_overrun = cq_overrun other, cq_v = cq_v other\<rparr>,
      other\<lparr>cq_max := 0, cq_head := 0, cq_tail := 0, cq_overrun := 0, cq_v := []\<rparr>)"

section \<open>The interface\<close>

text \<open>A list of at most \<open>cap\<close> elements: pushing beyond that drops from the front.\<close>

definition last_n :: "nat \<Rightarrow> 'a list \<Rightarrow> 'a list" where
  "last_n n xs = drop (length xs - n) xs"

lemma last_n_length [simp]: "length (last_n n xs) = min n (length xs)"
  by (simp add: last_n_def)

lemma last_n_all [simp]: "length xs \<le> n \<Longrightarrow> last_n n xs = xs"
  by (simp add: last_n_def)

lemma last_n_append: "last_n n (last_n n xs @ ys) = last_n n (xs @ ys)"
proof (cases "length xs \<le> n")
  case False
  have "length xs - n + (n + length ys - n) = length xs + length ys - n"
    using False by simp
  then show ?thesis
    using False by (simp add: last_n_def drop_drop add.commute)
qed simp

lemma last_n_last_n: "m \<le> n \<Longrightarrow> last_n m (last_n n xs) = last_n m xs"
  by (cases "length xs \<le> n") (auto simp: last_n_def)

locale bounded_fifo =
  fixes ok :: "'q \<Rightarrow> bool"
    and cap :: "'q \<Rightarrow> nat"
    and elems :: "'q \<Rightarrow> 'a list"
    and push :: "'a \<Rightarrow> 'q \<Rightarrow> 'q"
    and pop :: "'q \<Rightarrow> 'q"
    and front :: "'q \<Rightarrow> 'a"
    and empty :: "'q \<Rightarrow> bool"
  assumes push_ok: "ok q \<Longrightarrow> ok (push x q) \<and> cap (push x q) = cap q"
    and push_elems: "ok q \<Longrightarrow> elems (push x q) = last_n (cap q) (elems q @ [x])"
    and pop_ok: "ok q \<Longrightarrow> elems q \<noteq> [] \<Longrightarrow> ok (pop q) \<and> cap (pop q) = cap q"
    and pop_elems: "ok q \<Longrightarrow> elems q \<noteq> [] \<Longrightarrow> elems (pop q) = tl (elems q)"
    and front_elem: "ok q \<Longrightarrow> elems q \<noteq> [] \<Longrightarrow> front q = hd (elems q)"
    and empty_iff: "ok q \<Longrightarrow> empty q \<longleftrightarrow> elems q = []"
    and elems_bounded: "ok q \<Longrightarrow> length (elems q) \<le> cap q"
begin

lemma push_all:
  "ok q \<Longrightarrow> ok (fold push xs q) \<and> cap (fold push xs q) = cap q
     \<and> elems (fold push xs q) = last_n (cap q) (elems q @ xs)"
proof (induction xs arbitrary: q)
  case Nil
  then show ?case using elems_bounded [of q] by simp
next
  case (Cons x xs)
  then show ?case
    using push_ok [of q x] by (simp add: push_elems last_n_append)
qed

lemma push_room: "ok q \<Longrightarrow> length (elems q) < cap q \<Longrightarrow> elems (push x q) = elems q @ [x]"
  by (simp add: push_elems)

text \<open>Popping until empty visits the elements in order.\<close>

fun drain_fuel :: "nat \<Rightarrow> 'q \<Rightarrow> 'a list \<times> 'q" where
  "drain_fuel 0 q = ([], q)"
| "drain_fuel (Suc n) q =
     (if empty q then ([], q) else let (xs, q') = drain_fuel n (pop q) in (front q # xs, q'))"

lemma drain_fuel_elems:
  "ok q \<Longrightarrow> length (elems q) \<le> n \<Longrightarrow> fst (drain_fuel n q) = elems q \<and> ok (snd (drain_fuel n q))
     \<and> elems (snd (drain_fuel n q)) = [] \<and> cap (snd (drain_fuel n q)) = cap q"
proof (induction n arbitrary: q)
  case 0
  then show ?case by simp
next
  case (Suc n)
  show ?case
  proof (cases "elems q = []")
    case True
    then show ?thesis using Suc.prems empty_iff [of q] by simp
  next
    case False
    then have "fst (drain_fuel n (pop q)) = tl (elems q) \<and> ok (snd (drain_fuel n (pop q)))
        \<and> elems (snd (drain_fuel n (pop q))) = [] \<and> cap (snd (drain_fuel n (pop q))) = cap q"
      using Suc.IH [of "pop q"] Suc.prems pop_ok [of q] pop_elems [of q] by simp
    then show ?thesis
      using False Suc.prems empty_iff [of q] front_elem [of q] by (auto simp: case_prod_beta)
  qed
qed

end

section \<open>The ring implements it\<close>

definition cq_inv :: "'a circular_q \<Rightarrow> bool" where
  "cq_inv q \<longleftrightarrow> length (cq_v q) = cq_max q
     \<and> (if cq_max q = 0 then cq_head q = 0 \<and> cq_tail q = 0
        else cq_head q < cq_max q \<and> cq_tail q < cq_max q)"

definition cq_cap :: "'a circular_q \<Rightarrow> nat" where
  "cq_cap q = cq_max q - 1"

definition cq_list :: "'a circular_q \<Rightarrow> 'a list" where
  "cq_list q = map (cq_at q) [0..<cq_size q]"

lemma cq_list_length [simp]: "length (cq_list q) = cq_size q"
  by (simp add: cq_list_def)

lemma mod_succ: "a < m \<Longrightarrow> Suc a mod m = (if Suc a = m then 0 else Suc a)" for a m :: nat
  by auto

lemma mod_wrap: "h < m \<Longrightarrow> i < m \<Longrightarrow> (h + i) mod m = (if h + i < m then h + i else h + i - m)" for h i m :: nat
  by (simp add: le_mod_geq)

lemma cq_size_bounded: "cq_inv q \<Longrightarrow> cq_size q \<le> cq_cap q"
  by (auto simp: cq_inv_def cq_size_def cq_cap_def split: if_splits)

lemma cq_full_iff: "cq_inv q \<Longrightarrow> cq_max q > 0 \<Longrightarrow> cq_full q \<longleftrightarrow> cq_size q = cq_cap q"
  by (auto simp: cq_inv_def cq_size_def cq_cap_def cq_full_def mod_succ split: if_splits)

lemma cq_empty_iff: "cq_inv q \<Longrightarrow> cq_empty q \<longleftrightarrow> cq_list q = []"
  by (auto simp: cq_inv_def cq_size_def cq_list_def cq_empty_def split: if_splits)

text \<open>The slot behind the last element is the one \<open>push_back\<close> writes; the others are kept.\<close>

lemma cq_tail_slot: "cq_inv q \<Longrightarrow> cq_max q > 0 \<Longrightarrow> (cq_head q + cq_size q) mod cq_max q = cq_tail q"
  by (auto simp: cq_inv_def cq_size_def mod_wrap)

lemma cq_other_slot:
  "cq_inv q \<Longrightarrow> cq_max q > 0 \<Longrightarrow> i < cq_size q \<Longrightarrow> (cq_head q + i) mod cq_max q \<noteq> cq_tail q"
  by (auto simp: cq_inv_def cq_size_def mod_wrap split: if_splits)

definition cq_write :: "'a \<Rightarrow> 'a circular_q \<Rightarrow> 'a circular_q" where
  "cq_write item q = q\<lparr>cq_v := (cq_v q)[cq_tail q := item], cq_tail := (cq_tail q + 1) mod cq_max q\<rparr>"

lemma cq_at_write:
  assumes "cq_inv q" and "cq_max q > 0" and "i \<le> cq_size q"
  shows "cq_at (cq_write x q) i = (if i = cq_size q then x else cq_at q i)"
proof (cases "i = cq_size q")
  case True
  then show ?thesis
    using assms(1,2) cq_tail_slot [OF assms(1,2)] by (simp add: cq_at_def cq_write_def cq_inv_def)
next
  case False
  then have "cq_tail q \<noteq> (cq_head q + i) mod cq_max q"
    using cq_other_slot [OF assms(1,2), of i] assms(3) by simp
  then show ?thesis using False by (simp add: cq_at_def cq_write_def)
qed

lemma cq_push_back_ok: "cq_inv q \<Longrightarrow> cq_inv (cq_push_back x q) \<and> cq_cap (cq_push_back x q) = cq_cap q"
  by (auto simp: cq_inv_def cq_cap_def cq_push_back_def Let_def)

lemma cq_push_back_list:
  assumes "cq_inv q"
  shows "cq_list (cq_push_back x q) = last_n (cq_cap q) (cq_list q @ [x])"
proof (cases "cq_max q = 0")
  case True
  then show ?thesis
    using assms by (simp add: cq_push_back_def cq_list_def cq_size_def cq_inv_def cq_cap_def last_n_def)
next
  case False
  then have pos: "cq_max q > 0" by simp
  have push: "cq_push_back x q = (if cq_full q
      then (cq_write x q)\<lparr>cq_head := (cq_head q + 1) mod cq_max q, cq_overrun := cq_overrun q + 1\<rparr>
      else cq_write x q)"
    using pos by (simp add: cq_push_back_def cq_full_def cq_write_def Let_def)
  show ?thesis
  proof (cases "cq_full q")
    case notfull: False
    then have size: "cq_size (cq_write x q) = Suc (cq_size q)" "cq_size q < cq_cap q"
      using assms pos cq_size_bounded [OF assms] cq_full_iff [OF assms pos]
      by (auto simp: cq_full_def cq_size_def cq_write_def cq_inv_def cq_cap_def mod_succ split: if_splits)
    have "cq_list (cq_write x q) = cq_list q @ [x]"
      using cq_at_write [OF assms pos] by (simp add: cq_list_def size)
    then show ?thesis using notfull push size by simp
  next
    case True
    let ?q = "(cq_write x q)\<lparr>cq_head := (cq_head q + 1) mod cq_max q, cq_overrun := cq_overrun q + 1\<rparr>"
    have size: "cq_size q = cq_cap q" using True cq_full_iff [OF assms pos] by simp
    have sz: "cq_size ?q = cq_cap q"
      using assms pos True size
      by (auto simp: cq_full_def cq_size_def cq_write_def cq_inv_def cq_cap_def mod_succ split: if_splits)
    have at: "cq_at ?q i = (cq_list q @ [x]) ! Suc i" if "i < cq_cap q" for i
    proof -
      have "((cq_head q + 1) mod cq_max q + i) mod cq_max q = (cq_head q + Suc i) mod cq_max q"
        by (simp add: mod_simps)
      then have "cq_at ?q i = cq_at (cq_write x q) (Suc i)"
        by (simp add: cq_at_def cq_write_def)
      also have "\<dots> = (cq_list q @ [x]) ! Suc i"
        using cq_at_write [OF assms pos, of "Suc i" x] that size
        by (simp add: cq_list_def nth_append)
      finally show ?thesis .
    qed
    have "cq_list ?q ! i = drop 1 (cq_list q @ [x]) ! i" if "i < cq_cap q" for i
      using at [OF that] that sz nth_drop [of 1 "cq_list q @ [x]" i] by (simp add: cq_list_def)
    then have "cq_list ?q = drop 1 (cq_list q @ [x])"
      using sz size by (intro nth_equalityI) (simp_all del: drop_append)
    moreover have "last_n (cq_cap q) (cq_list q @ [x]) = drop 1 (cq_list q @ [x])"
      using size by (simp add: last_n_def)
    ultimately show ?thesis using True push by simp
  qed
qed

lemma cq_pop_front_ok:
  "cq_inv q \<Longrightarrow> cq_list q \<noteq> [] \<Longrightarrow> cq_inv (cq_pop_front q) \<and> cq_cap (cq_pop_front q) = cq_cap q"
  by (auto simp: cq_inv_def cq_cap_def cq_pop_front_def cq_list_def cq_size_def split: if_splits)

lemma cq_pop_front_list:
  assumes "cq_inv q" and "cq_list q \<noteq> []"
  shows "cq_list (cq_pop_front q) = tl (cq_list q)"
proof -
  have pos: "cq_max q > 0" "0 < cq_size q"
    using assms by (auto simp: cq_inv_def cq_list_def cq_size_def split: if_splits)
  then have size: "cq_size (cq_pop_front q) = cq_size q - 1"
    using assms by (auto simp: cq_pop_front_def cq_size_def cq_inv_def mod_succ split: if_splits)
  have "cq_at (cq_pop_front q) i = cq_at q (Suc i)" for i
    by (simp add: cq_at_def cq_pop_front_def mod_simps)
  then show ?thesis
    using size by (intro nth_equalityI) (simp_all add: cq_list_def nth_tl)
qed

lemma cq_front_hd: "cq_inv q \<Longrightarrow> cq_list q \<noteq> [] \<Longrightarrow> cq_front q = hd (cq_list q)"
  by (auto simp: cq_front_def cq_list_def hd_map upt_rec cq_at_def cq_inv_def split: if_splits)

interpretation ring: bounded_fifo cq_inv cq_cap cq_list cq_push_back cq_pop_front cq_front cq_empty
  using cq_push_back_ok cq_push_back_list cq_pop_front_ok cq_pop_front_list cq_front_hd cq_empty_iff
    cq_size_bounded
  by unfold_locales simp_all

lemma mk_circular_q_ok:
  "cq_inv (mk_circular_q dflt n)" "cq_list (mk_circular_q dflt n) = []"
  "cq_cap (mk_circular_q dflt n) = (if n = - 1 then 0 else unat n)"
proof -
  show "cq_inv (mk_circular_q dflt n)" "cq_list (mk_circular_q dflt n) = []"
    by (auto simp: mk_circular_q_def cq_inv_def cq_list_def cq_size_def Let_def)
  have "unat (n + 1) = Suc (unat n)" if "n \<noteq> - 1"
    using that by (metis unatSuc add.commute add_eq_0_iff)
  then show "cq_cap (mk_circular_q dflt n) = (if n = - 1 then 0 else unat n)"
    by (simp add: mk_circular_q_def cq_cap_def Let_def)
qed


section \<open>The ring as a list\<close>

text \<open>A client pushes, and pops the front element when there is one.\<close>

datatype 'a ring_op = Push 'a | Pop

fun ring_run :: "'a ring_op list \<Rightarrow> 'a circular_q \<Rightarrow> 'a list \<times> 'a circular_q" where
  "ring_run [] q = ([], q)"
| "ring_run (Push x # ops) q = ring_run ops (cq_push_back x q)"
| "ring_run (Pop # ops) q =
     (if cq_empty q then ring_run ops q
      else case ring_run ops (cq_pop_front q) of (xs, q') \<Rightarrow> (cq_front q # xs, q'))"

fun list_run :: "nat \<Rightarrow> 'a ring_op list \<Rightarrow> 'a list \<Rightarrow> 'a list \<times> 'a list" where
  "list_run n [] xs = ([], xs)"
| "list_run n (Push x # ops) xs = list_run n ops (last_n n (xs @ [x]))"
| "list_run n (Pop # ops) [] = list_run n ops []"
| "list_run n (Pop # ops) (x # xs) = (case list_run n ops xs of (out, ys) \<Rightarrow> (x # out, ys))"

lemma ring_run_list:
  "cq_inv q \<Longrightarrow> fst (ring_run ops q) = fst (list_run (cq_cap q) ops (cq_list q))
     \<and> cq_list (snd (ring_run ops q)) = snd (list_run (cq_cap q) ops (cq_list q))
     \<and> cq_inv (snd (ring_run ops q)) \<and> cq_cap (snd (ring_run ops q)) = cq_cap q"
proof (induction ops arbitrary: q)
  case Nil
  then show ?case by simp
next
  case (Cons op ops)
  show ?case
  proof (cases op)
    case (Push x)
    then show ?thesis
      using Cons.IH [of "cq_push_back x q"] ring.push_ok [OF Cons.prems] ring.push_elems [OF Cons.prems] by simp
  next
    case Pop
    show ?thesis
    proof (cases "cq_list q")
      case Nil
      then show ?thesis
        using Pop Cons.IH [OF Cons.prems] ring.empty_iff [OF Cons.prems] by simp
    next
      case (Cons x xs)
      then have ne: "cq_list q \<noteq> []" by simp
      note pop = ring.pop_ok [OF Cons.prems ne] ring.pop_elems [OF Cons.prems ne] ring.front_elem [OF Cons.prems ne]
      show ?thesis
        using Pop Cons Cons.IH [of "cq_pop_front q"] pop ring.empty_iff [OF Cons.prems] by (simp add: case_prod_beta)
    qed
  qed
qed

text \<open>
  C38: The ring is a list that forgets. Any use of a new ring for \<open>n\<close> elements, pushes and pops in any
  order, gives the same elements as a list that drops from its front when it exceeds \<open>n\<close>, and leaves
  the same contents.
\<close>

theorem ring_refines_list:
  assumes "n \<noteq> - 1"
  shows "fst (ring_run ops (mk_circular_q dflt n)) = fst (list_run (unat n) ops [])
    \<and> cq_list (snd (ring_run ops (mk_circular_q dflt n))) = snd (list_run (unat n) ops [])"
  using ring_run_list [of "mk_circular_q dflt n" ops] mk_circular_q_ok [of dflt n] assms by simp

theorem ring_refines_list_witness:
  "fst (ring_run [Push 1, Push 2, Push 3, Pop, Push (4 :: nat), Pop, Pop, Pop] (mk_circular_q 0 2)) = [2, 3, 4]"
proof -
  have "(2 :: size_t) \<noteq> - 1" by simp
  from ring_refines_list [OF this, of "[Push 1, Push 2, Push 3, Pop, Push (4 :: nat), Pop, Pop, Pop]" 0]
  show ?thesis by (simp add: last_n_def)
qed

end
