(* ===== verification/Log_Blocking_Queue.thy ===== *)
theory Log_Blocking_Queue
  imports Log_Queue
begin

text \<open>
  \<^verbatim>\<open>details/mpmc_blocking_q.h\<close>: the queue between the threads that log and the threads that write.
  Each critical section under \<^verbatim>\<open>queue_mutex_\<close> is one definition. A condition variable is kept as three
  counters (threads asleep in \<^verbatim>\<open>wait\<close>, threads woken that have not yet got the mutex back, and
  \<^verbatim>\<open>notify_one\<close> calls that are still to come from threads that have left the critical section), so
  that a lost wake-up would be visible. \<open>mq_in\<close> and \<open>mq_out\<close> are history.
\<close>

section \<open>State and operations\<close>

record 'a mpmc =
  mq :: "'a circular_q"
  mq_discard :: size_t
  push_waiters :: nat
  push_woken :: nat
  push_notify :: nat
  pop_waiters :: nat
  pop_woken :: nat
  pop_notify :: nat
  mq_in :: "'a list"
  mq_out :: "'a list"

definition mk_mpmc :: "'a \<Rightarrow> size_t \<Rightarrow> 'a mpmc" where
  "mk_mpmc dflt max_items =
     \<lparr>mq = mk_circular_q dflt max_items, mq_discard = 0, push_waiters = 0, push_woken = 0,
      push_notify = 0, pop_waiters = 0, pop_woken = 0, pop_notify = 0, mq_in = [], mq_out = []\<rparr>"

definition mq_push :: "'a \<Rightarrow> 'a mpmc \<Rightarrow> 'a mpmc" where
  "mq_push item m = m\<lparr>mq := cq_push_back item (mq m), push_notify := Suc (push_notify m),
     mq_in := mq_in m @ [item]\<rparr>"

text \<open>\<open>None\<close>: the caller has to wait.\<close>

definition mq_enqueue :: "'a \<Rightarrow> 'a mpmc \<Rightarrow> 'a mpmc option" where
  "mq_enqueue item m = (if cq_full (mq m) then None else Some (mq_push item m))"

definition mq_enqueue_nowait :: "'a \<Rightarrow> 'a mpmc \<Rightarrow> 'a mpmc" where
  "mq_enqueue_nowait item m = mq_push item m"

definition mq_enqueue_if_have_room :: "'a \<Rightarrow> 'a mpmc \<Rightarrow> 'a mpmc" where
  "mq_enqueue_if_have_room item m =
     (if \<not> cq_full (mq m) then mq_push item m else m\<lparr>mq_discard := mq_discard m + 1\<rparr>)"

definition mq_dequeue :: "'a mpmc \<Rightarrow> ('a \<times> 'a mpmc) option" where
  "mq_dequeue m =
     (if cq_empty (mq m) then None
      else let popped = cq_front (mq m)
           in Some (popped, m\<lparr>mq := cq_pop_front (mq m), pop_notify := Suc (pop_notify m),
                              mq_out := mq_out m @ [popped]\<rparr>))"

text \<open>\<open>dequeue_for\<close> when its wait is over, by a wake-up or by the timeout: the predicate decides.\<close>

definition mq_dequeue_for :: "'a mpmc \<Rightarrow> 'a option \<times> 'a mpmc" where
  "mq_dequeue_for m = (case mq_dequeue m of None \<Rightarrow> (None, m) | Some (x, m') \<Rightarrow> (Some x, m'))"

definition mq_overrun_counter :: "'a mpmc \<Rightarrow> size_t" where
  "mq_overrun_counter m = cq_overrun (mq m)"

definition mq_reset_overrun :: "'a mpmc \<Rightarrow> 'a mpmc" where
  "mq_reset_overrun m = m\<lparr>mq := cq_reset_overrun (mq m)\<rparr>"

definition mq_reset_discard :: "'a mpmc \<Rightarrow> 'a mpmc" where
  "mq_reset_discard m = m\<lparr>mq_discard := 0\<rparr>"

definition mq_size :: "'a mpmc \<Rightarrow> nat" where
  "mq_size m = cq_size (mq m)"

section \<open>Threads\<close>

text \<open>
  A thread that finds its predicate false goes to sleep; a notification wakes one sleeping thread,
  if any; a woken thread tests its predicate again. Sleeping threads may also wake without reason.
\<close>

inductive mpmc_step :: "'a mpmc \<Rightarrow> 'a mpmc \<Rightarrow> bool" where
  enqueues: "mq_enqueue x m = Some m' \<Longrightarrow> mpmc_step m m'"
| enqueue_sleeps: "mq_enqueue x m = None \<Longrightarrow> mpmc_step m (m\<lparr>pop_waiters := Suc (pop_waiters m)\<rparr>)"
| enqueue_resumes: "pop_woken m = Suc k \<Longrightarrow> mq_enqueue x (m\<lparr>pop_woken := k\<rparr>) = Some m' \<Longrightarrow> mpmc_step m m'"
| enqueue_again: "pop_woken m = Suc k \<Longrightarrow> mq_enqueue x m = None
    \<Longrightarrow> mpmc_step m (m\<lparr>pop_woken := k, pop_waiters := Suc (pop_waiters m)\<rparr>)"
| enqueues_nowait: "mpmc_step m (mq_enqueue_nowait x m)"
| enqueues_if_room: "mpmc_step m (mq_enqueue_if_have_room x m)"
| dequeues: "mq_dequeue m = Some (x, m') \<Longrightarrow> mpmc_step m m'"
| dequeue_sleeps: "mq_dequeue m = None \<Longrightarrow> mpmc_step m (m\<lparr>push_waiters := Suc (push_waiters m)\<rparr>)"
| dequeue_resumes: "push_woken m = Suc k \<Longrightarrow> mq_dequeue (m\<lparr>push_woken := k\<rparr>) = Some (x, m') \<Longrightarrow> mpmc_step m m'"
| dequeue_again: "push_woken m = Suc k \<Longrightarrow> mq_dequeue m = None
    \<Longrightarrow> mpmc_step m (m\<lparr>push_woken := k, push_waiters := Suc (push_waiters m)\<rparr>)"
| dequeue_times_out: "push_waiters m = Suc k \<Longrightarrow> mpmc_step m (snd (mq_dequeue_for (m\<lparr>push_waiters := k\<rparr>)))"
| woken_times_out: "push_woken m = Suc k \<Longrightarrow> mpmc_step m (snd (mq_dequeue_for (m\<lparr>push_woken := k\<rparr>)))"
| push_notifies: "push_notify m = Suc k \<Longrightarrow> mpmc_step m
    (case push_waiters m of 0 \<Rightarrow> m\<lparr>push_notify := k\<rparr>
     | Suc w \<Rightarrow> m\<lparr>push_notify := k, push_waiters := w, push_woken := Suc (push_woken m)\<rparr>)"
| pop_notifies: "pop_notify m = Suc k \<Longrightarrow> mpmc_step m
    (case pop_waiters m of 0 \<Rightarrow> m\<lparr>pop_notify := k\<rparr>
     | Suc w \<Rightarrow> m\<lparr>pop_notify := k, pop_waiters := w, pop_woken := Suc (pop_woken m)\<rparr>)"
| push_spurious: "push_waiters m = Suc w
    \<Longrightarrow> mpmc_step m (m\<lparr>push_waiters := w, push_woken := Suc (push_woken m)\<rparr>)"
| pop_spurious: "pop_waiters m = Suc w
    \<Longrightarrow> mpmc_step m (m\<lparr>pop_waiters := w, pop_woken := Suc (pop_woken m)\<rparr>)"
| overrun_reset: "mpmc_step m (mq_reset_overrun m)"
| discard_reset: "mpmc_step m (mq_reset_discard m)"

inductive mpmc_reachable :: "'a \<Rightarrow> size_t \<Rightarrow> 'a mpmc \<Rightarrow> bool" for dflt max_items where
  made: "mpmc_reachable dflt max_items (mk_mpmc dflt max_items)"
| moved: "mpmc_reachable dflt max_items m \<Longrightarrow> mpmc_step m m' \<Longrightarrow> mpmc_reachable dflt max_items m'"

section \<open>No wake-up is lost\<close>

definition cq_free :: "'a circular_q \<Rightarrow> nat" where
  "cq_free q = cq_cap q - cq_size q"

definition wake_inv :: "'a mpmc \<Rightarrow> bool" where
  "wake_inv m \<longleftrightarrow> cq_inv (mq m)
     \<and> (push_waiters m > 0 \<longrightarrow> cq_size (mq m) \<le> push_woken m + push_notify m)
     \<and> (pop_waiters m > 0 \<longrightarrow> cq_free (mq m) \<le> pop_woken m + pop_notify m)
     \<and> (cq_max (mq m) = 0 \<longrightarrow> pop_waiters m = 0)"

lemma cq_push_back_size:
  assumes "cq_inv q"
  shows "cq_size (cq_push_back x q) = min (cq_cap q) (Suc (cq_size q))"
  using arg_cong [OF cq_push_back_list [OF assms, of x], of length] by simp

lemma cq_push_back_max: "cq_max (cq_push_back x q) = cq_max q"
  by (simp add: cq_push_back_def Let_def)

lemma cq_pop_front_size:
  "cq_inv q \<Longrightarrow> \<not> cq_empty q \<Longrightarrow> Suc (cq_size (cq_pop_front q)) = cq_size q"
  using arg_cong [OF cq_pop_front_list, of q length] by (simp add: cq_empty_iff) (metis Suc_pred cq_list_length length_greater_0_conv)

lemma cq_pop_front_max: "cq_max (cq_pop_front q) = cq_max q"
  by (simp add: cq_pop_front_def)

lemma cq_reset_inv [simp]:
  "cq_inv (cq_reset_overrun q) = cq_inv q" "cq_size (cq_reset_overrun q) = cq_size q"
  "cq_max (cq_reset_overrun q) = cq_max q" "cq_cap (cq_reset_overrun q) = cq_cap q"
  "cq_list (cq_reset_overrun q) = cq_list q"
  by (simp_all add: cq_reset_overrun_def cq_inv_def cq_size_def cq_cap_def cq_list_def cq_at_def)

lemma mq_push_wake_inv:
  assumes "wake_inv m"
  shows "wake_inv (mq_push x m)"
proof -
  have "cq_inv (mq m)" using assms by (simp add: wake_inv_def)
  then show ?thesis
    using assms cq_push_back_ok [of "mq m" x] cq_push_back_size [of "mq m" x]
    by (auto simp: wake_inv_def mq_push_def cq_free_def cq_push_back_max)
qed

lemma mq_enqueue_wake_inv: "wake_inv m \<Longrightarrow> mq_enqueue x m = Some m' \<Longrightarrow> wake_inv m'"
  using mq_push_wake_inv by (auto simp: mq_enqueue_def split: if_splits)

text \<open>A thread that leaves the sleeping or the woken threads takes at most one unit with it.\<close>

lemma mq_dequeue_wake_inv:
  assumes "mq_dequeue m = Some (x, m')" and "cq_inv (mq m)"
    and "push_waiters m > 0 \<longrightarrow> cq_size (mq m) \<le> Suc (push_woken m + push_notify m)"
    and "pop_waiters m > 0 \<longrightarrow> cq_free (mq m) \<le> pop_woken m + pop_notify m"
    and "cq_max (mq m) = 0 \<longrightarrow> pop_waiters m = 0"
  shows "wake_inv m'"
proof -
  have m': "m' = m\<lparr>mq := cq_pop_front (mq m), pop_notify := Suc (pop_notify m),
      mq_out := mq_out m @ [cq_front (mq m)]\<rparr>" and ne: "\<not> cq_empty (mq m)"
    using assms(1) by (auto simp: mq_dequeue_def Let_def split: if_splits)
  have ok: "cq_inv (cq_pop_front (mq m))" "cq_cap (cq_pop_front (mq m)) = cq_cap (mq m)"
    using cq_pop_front_ok [OF assms(2)] ne cq_empty_iff [OF assms(2)] by auto
  have sz: "Suc (cq_size (cq_pop_front (mq m))) = cq_size (mq m)"
    using cq_pop_front_size [OF assms(2) ne] .
  then show ?thesis
    using assms(3-5) ok by (auto simp: wake_inv_def m' cq_free_def cq_pop_front_max)
qed

lemma empty_size: "cq_inv q \<Longrightarrow> cq_empty q \<Longrightarrow> cq_size q = 0"
  by (metis cq_empty_iff cq_list_length list.size(3))

lemma full_free: "cq_inv q \<Longrightarrow> cq_full q \<Longrightarrow> cq_free q = 0 \<and> cq_max q > 0"
  using cq_full_iff [of q] by (cases "cq_max q = 0") (auto simp: cq_free_def cq_full_def)

lemma mq_dequeue_None: "mq_dequeue m = None \<longleftrightarrow> cq_empty (mq m)"
  by (simp add: mq_dequeue_def Let_def)

lemma mq_enqueue_None: "mq_enqueue x m = None \<longleftrightarrow> cq_full (mq m)"
  by (simp add: mq_enqueue_def)

lemma mq_dequeue_for_wake_inv:
  assumes "cq_inv (mq m)"
    and "push_waiters m > 0 \<longrightarrow> cq_size (mq m) \<le> Suc (push_woken m + push_notify m)"
    and "pop_waiters m > 0 \<longrightarrow> cq_free (mq m) \<le> pop_woken m + pop_notify m"
    and "cq_max (mq m) = 0 \<longrightarrow> pop_waiters m = 0"
  shows "wake_inv (snd (mq_dequeue_for m))"
proof (cases "mq_dequeue m")
  case None
  then have "mq_dequeue_for m = (None, m)" by (simp add: mq_dequeue_for_def)
  moreover have "cq_size (mq m) = 0"
    using None empty_size [OF assms(1)] by (simp add: mq_dequeue_None)
  ultimately show ?thesis
    using assms by (simp add: wake_inv_def)
next
  case (Some r)
  then obtain x m' where "mq_dequeue m = Some (x, m')" by (cases r) auto
  then show ?thesis
    using mq_dequeue_wake_inv [OF _ assms] by (simp add: mq_dequeue_for_def)
qed

lemma mpmc_step_wake_inv:
  assumes "mpmc_step m m'" and "wake_inv m"
  shows "wake_inv m'"
  using assms
proof (induction rule: mpmc_step.induct)
  case (enqueues x m m')
  then show ?case by (simp add: mq_enqueue_wake_inv)
next
  case (enqueue_sleeps x m)
  then show ?case using full_free [of "mq m"] by (simp add: wake_inv_def mq_enqueue_None)
next
  case (enqueue_resumes m k x m')
  then have "cq_inv (mq m)" "\<not> cq_full (mq m)"
    by (auto simp: wake_inv_def mq_enqueue_def split: if_splits)
  then have "m' = mq_push x (m\<lparr>pop_woken := k\<rparr>)" "cq_max (mq m) > 0 \<longrightarrow> cq_size (mq m) < cq_cap (mq m)"
    using enqueue_resumes cq_full_iff [of "mq m"] cq_size_bounded [of "mq m"]
    by (auto simp: mq_enqueue_def split: if_splits)
  then show ?case
    using enqueue_resumes \<open>cq_inv (mq m)\<close> cq_push_back_ok [of "mq m" x] cq_push_back_size [of "mq m" x]
    by (auto simp: wake_inv_def mq_push_def cq_free_def cq_push_back_max)
next
  case (enqueue_again m k x)
  then show ?case using full_free [of "mq m"] by (simp add: wake_inv_def mq_enqueue_None)
next
  case (enqueues_nowait m x)
  then show ?case by (simp add: mq_enqueue_nowait_def mq_push_wake_inv)
next
  case (enqueues_if_room m x)
  then show ?case by (simp add: mq_enqueue_if_have_room_def mq_push_wake_inv) (simp add: wake_inv_def)
next
  case (dequeues m x m')
  then show ?case by (intro mq_dequeue_wake_inv [OF dequeues(1)]) (auto simp: wake_inv_def)
next
  case (dequeue_sleeps m)
  then show ?case using empty_size [of "mq m"] by (simp add: wake_inv_def mq_dequeue_None)
next
  case (dequeue_resumes m k x m')
  then show ?case by (intro mq_dequeue_wake_inv [OF dequeue_resumes(2)]) (auto simp: wake_inv_def)
next
  case (dequeue_again m k)
  then show ?case using empty_size [of "mq m"] by (simp add: wake_inv_def mq_dequeue_None)
next
  case (dequeue_times_out m k)
  then show ?case by (intro mq_dequeue_for_wake_inv) (auto simp: wake_inv_def)
next
  case (woken_times_out m k)
  then show ?case by (intro mq_dequeue_for_wake_inv) (auto simp: wake_inv_def)
next
  case (push_notifies m k)
  then show ?case by (auto simp: wake_inv_def split: nat.split)
next
  case (pop_notifies m k)
  then show ?case by (auto simp: wake_inv_def split: nat.split)
next
  case (push_spurious m w)
  then show ?case by (auto simp: wake_inv_def)
next
  case (pop_spurious m w)
  then show ?case by (auto simp: wake_inv_def)
next
  case (overrun_reset m)
  then show ?case by (simp add: wake_inv_def mq_reset_overrun_def cq_free_def)
next
  case (discard_reset m)
  then show ?case by (simp add: wake_inv_def mq_reset_discard_def)
qed

lemma reachable_wake_inv: "mpmc_reachable dflt n m \<Longrightarrow> wake_inv m"
  by (induction rule: mpmc_reachable.induct)
    (simp add: wake_inv_def mk_mpmc_def mk_circular_q_ok, rule mpmc_step_wake_inv)

text \<open>
  C36: No wake-up is lost. However producers and consumers interleave, overruns, timeouts,
  discards and spurious wake-ups included: while an element is queued, a consumer that sleeps is not
  alone, some consumer has been woken or is about to be notified; and while there is room the same
  holds of producers.
\<close>

theorem queue_no_lost_wakeup:
  assumes "mpmc_reachable dflt n m"
  shows "(push_waiters m > 0 \<and> \<not> cq_empty (mq m) \<longrightarrow> push_woken m + push_notify m > 0)
    \<and> (pop_waiters m > 0 \<and> \<not> cq_full (mq m) \<longrightarrow> pop_woken m + pop_notify m > 0)"
proof -
  have inv: "wake_inv m" by (rule reachable_wake_inv [OF assms])
  then have ok: "cq_inv (mq m)" by (simp add: wake_inv_def)
  have "cq_size (mq m) > 0" if "\<not> cq_empty (mq m)"
    using that cq_empty_iff [OF ok] by (metis cq_list_length length_greater_0_conv)
  moreover have "cq_free (mq m) > 0" if "\<not> cq_full (mq m)" "cq_max (mq m) > 0"
    using that cq_full_iff [OF ok] cq_size_bounded [OF ok] by (simp add: cq_free_def)
  ultimately show ?thesis
    using inv by (auto simp: wake_inv_def)
qed

text \<open>A consumer goes to sleep on the empty queue, then a producer enqueues.\<close>

definition sleeping_consumer :: "nat mpmc" where
  "sleeping_consumer = mq_enqueue_nowait 7 ((mk_mpmc 0 2)\<lparr>push_waiters := 1\<rparr>)"

lemma sleeping_consumer_reachable: "mpmc_reachable 0 2 sleeping_consumer"
proof -
  have "mpmc_step (mk_mpmc (0 :: nat) 2) ((mk_mpmc 0 2)\<lparr>push_waiters := Suc (push_waiters (mk_mpmc (0 :: nat) 2))\<rparr>)"
    by (rule mpmc_step.dequeue_sleeps) (simp add: mq_dequeue_def mk_mpmc_def mk_circular_q_def cq_empty_def Let_def)
  then have "mpmc_reachable 0 2 ((mk_mpmc (0 :: nat) 2)\<lparr>push_waiters := 1\<rparr>)"
    using mpmc_reachable.moved [OF mpmc_reachable.made] by (simp add: mk_mpmc_def)
  then show ?thesis
    unfolding sleeping_consumer_def by (rule mpmc_reachable.moved) (rule mpmc_step.enqueues_nowait)
qed

lemma sleeping_consumer_state: "push_waiters sleeping_consumer = 1" "cq_list (mq sleeping_consumer) = [7]"
  using cq_push_back_list [OF mk_circular_q_ok(1), of 7 0 2]
  by (simp_all add: sleeping_consumer_def mq_enqueue_nowait_def mq_push_def mk_mpmc_def mk_circular_q_ok)

theorem queue_no_lost_wakeup_witness:
  "push_waiters sleeping_consumer = 1 \<and> push_woken sleeping_consumer + push_notify sleeping_consumer > 0"
proof -
  have "cq_inv (mq sleeping_consumer)"
    using reachable_wake_inv [OF sleeping_consumer_reachable] by (simp add: wake_inv_def)
  then have "\<not> cq_empty (mq sleeping_consumer)"
    by (simp add: cq_empty_iff sleeping_consumer_state)
  then show ?thesis
    using queue_no_lost_wakeup [OF sleeping_consumer_reachable] sleeping_consumer_state by simp
qed

section \<open>What comes out\<close>

definition queue_inv :: "'a mpmc \<Rightarrow> bool" where
  "queue_inv m \<longleftrightarrow> cq_inv (mq m) \<and> subseq (mq_out m @ cq_list (mq m)) (mq_in m)"

lemma last_n_subseq: "subseq (last_n n xs) xs"
  unfolding last_n_def by (rule suffix_imp_subseq [OF suffix_drop])

lemma mq_push_queue_inv: "queue_inv m \<Longrightarrow> queue_inv (mq_push x m)"
proof -
  assume inv: "queue_inv m"
  then have ok: "cq_inv (mq m)" by (simp add: queue_inv_def)
  have "subseq (mq_out m @ last_n (cq_cap (mq m)) (cq_list (mq m) @ [x])) (mq_out m @ cq_list (mq m) @ [x])"
    by (intro list_emb_append_mono last_n_subseq subseq_order.order_refl)
  also have "subseq (mq_out m @ cq_list (mq m) @ [x]) (mq_in m @ [x])"
    using inv by (simp add: queue_inv_def flip: append_assoc)
  finally show ?thesis
    using ok cq_push_back_ok [OF ok, of x]
    by (simp add: queue_inv_def mq_push_def cq_push_back_list)
qed

lemma queue_inv_frame [simp]:
  "queue_inv (m\<lparr>push_waiters := a\<rparr>) = queue_inv m" "queue_inv (m\<lparr>push_woken := a\<rparr>) = queue_inv m"
  "queue_inv (m\<lparr>push_notify := a\<rparr>) = queue_inv m" "queue_inv (m\<lparr>pop_waiters := a\<rparr>) = queue_inv m"
  "queue_inv (m\<lparr>pop_woken := a\<rparr>) = queue_inv m" "queue_inv (m\<lparr>pop_notify := a\<rparr>) = queue_inv m"
  "queue_inv (m\<lparr>mq_discard := d\<rparr>) = queue_inv m"
  by (simp_all add: queue_inv_def)

lemma mq_dequeue_queue_inv:
  assumes "mq_dequeue m = Some (x, m')" and "queue_inv m"
  shows "queue_inv m' \<and> mq_out m' @ cq_list (mq m') = mq_out m @ cq_list (mq m) \<and> mq_in m' = mq_in m"
proof -
  have ok: "cq_inv (mq m)" using assms(2) by (simp add: queue_inv_def)
  have m': "m' = m\<lparr>mq := cq_pop_front (mq m), pop_notify := Suc (pop_notify m),
      mq_out := mq_out m @ [cq_front (mq m)]\<rparr>" and ne: "cq_list (mq m) \<noteq> []"
    using assms(1) cq_empty_iff [OF ok] by (auto simp: mq_dequeue_def Let_def split: if_splits)
  have "cq_front (mq m) # cq_list (cq_pop_front (mq m)) = cq_list (mq m)"
    using ne cq_front_hd [OF ok ne] cq_pop_front_list [OF ok ne] by simp
  then show ?thesis
    using assms(2) cq_pop_front_ok [OF ok ne] by (simp add: m' queue_inv_def)
qed

lemma mq_dequeue_for_queue_inv: "queue_inv m \<Longrightarrow> queue_inv (snd (mq_dequeue_for m))"
  by (auto simp: mq_dequeue_for_def dest: mq_dequeue_queue_inv split: option.split)

lemma mpmc_step_queue_inv: "mpmc_step m m' \<Longrightarrow> queue_inv m \<Longrightarrow> queue_inv m'"
proof (induction rule: mpmc_step.induct)
  case (dequeue_resumes m k x m')
  then show ?case using mq_dequeue_queue_inv [OF dequeue_resumes(2)] by simp
next
  case (dequeues m x m')
  then show ?case using mq_dequeue_queue_inv [OF dequeues(1)] by simp
next
  case (overrun_reset m)
  then show ?case by (simp add: queue_inv_def mq_reset_overrun_def)
qed (auto simp: mq_enqueue_def mq_enqueue_nowait_def mq_enqueue_if_have_room_def mq_reset_discard_def
    mq_push_queue_inv mq_dequeue_for_queue_inv split: if_splits nat.split)



end
