(* ===== verification/Log_Core.thy ===== *)
theory Log_Core
  imports Log_Queue Decimal_Text
begin

text \<open>
  The data of the vendored logging library: levels (\<^verbatim>\<open>common.h\<close>, \<^verbatim>\<open>common-inl.h\<close>), messages and
  their owning copies (\<^verbatim>\<open>details/log_msg-inl.h\<close>, \<^verbatim>\<open>details/log_msg_buffer-inl.h\<close>), and the two stores
  of recent messages that use the ring of \<open>Log_Queue\<close>: the back-tracer
  (\<^verbatim>\<open>details/backtracer-inl.h\<close>) and the ring-buffer sink (\<^verbatim>\<open>sinks/ringbuffer_sink.h\<close>).
\<close>

section \<open>Levels\<close>

datatype log_level = L_trace | L_debug | L_info | L_warn | L_err | L_critical | L_off

fun level_num :: "log_level \<Rightarrow> nat" where
  "level_num L_trace = 0"
| "level_num L_debug = 1"
| "level_num L_info = 2"
| "level_num L_warn = 3"
| "level_num L_err = 4"
| "level_num L_critical = 5"
| "level_num L_off = 6"

lemma level_num_inject [simp]: "level_num a = level_num b \<longleftrightarrow> a = b"
  by (cases a; cases b) simp_all

instantiation log_level :: linorder
begin

definition less_eq_log_level :: "log_level \<Rightarrow> log_level \<Rightarrow> bool" where
  "a \<le> b \<longleftrightarrow> level_num a \<le> level_num b"

definition less_log_level :: "log_level \<Rightarrow> log_level \<Rightarrow> bool" where
  "a < b \<longleftrightarrow> level_num a < level_num b"

instance
  by standard (auto simp: less_eq_log_level_def less_log_level_def)

end

definition level_string_views :: "string list" where
  "level_string_views = [''trace'', ''debug'', ''info'', ''warning'', ''error'', ''critical'', ''off'']"

definition short_level_names :: "string list" where
  "short_level_names = [''T'', ''D'', ''I'', ''W'', ''E'', ''C'', ''O'']"

definition all_levels :: "log_level list" where
  "all_levels = [L_trace, L_debug, L_info, L_warn, L_err, L_critical, L_off]"

definition level_to_string :: "log_level \<Rightarrow> string" where
  "level_to_string l = level_string_views ! level_num l"

definition level_to_short :: "log_level \<Rightarrow> string" where
  "level_to_short l = short_level_names ! level_num l"

text \<open>\<^verbatim>\<open>std::find\<close> over the names: the index of the first match, or the length.\<close>

fun find_index :: "'a \<Rightarrow> 'a list \<Rightarrow> nat" where
  "find_index x [] = 0"
| "find_index x (y # ys) = (if x = y then 0 else Suc (find_index x ys))"

definition level_from_str :: "string \<Rightarrow> log_level" where
  "level_from_str name =
     (let it = find_index name level_string_views
      in if it \<noteq> length level_string_views then all_levels ! it
         else if name = ''warn'' then L_warn
         else if name = ''err'' then L_err
         else L_off)"

text \<open>
  Level names. Every level is read back from its name, the short forms \<^verbatim>\<open>warn\<close> and \<^verbatim>\<open>err\<close> are
  understood, and any other text means \<open>off\<close>.
\<close>

theorem level_from_str_spec:
  "level_from_str (level_to_string l) = l
   \<and> level_from_str name =
      (if name = ''trace'' then L_trace else if name = ''debug'' then L_debug
       else if name = ''info'' then L_info else if name = ''warning'' \<or> name = ''warn'' then L_warn
       else if name = ''error'' \<or> name = ''err'' then L_err
       else if name = ''critical'' then L_critical else L_off)"
  by (cases l) (simp_all add: level_from_str_def level_to_string_def level_string_views_def all_levels_def)

section \<open>Messages\<close>

record source_loc =
  sl_file :: "string option"
  sl_line :: int
  sl_func :: "string option"

definition no_source :: source_loc where
  "no_source = \<lparr>sl_file = None, sl_line = 0, sl_func = None\<rparr>"

definition source_empty :: "source_loc \<Rightarrow> bool" where
  "source_empty loc \<longleftrightarrow> sl_line loc \<le> 0"

text \<open>Times are nanoseconds of \<^verbatim>\<open>system_clock\<close> since the epoch.\<close>

record log_msg =
  lm_logger :: string
  lm_level :: log_level
  lm_time :: int
  lm_thread :: nat
  lm_color_start :: nat
  lm_color_end :: nat
  lm_source :: source_loc
  lm_payload :: string

definition mk_log_msg :: "int \<Rightarrow> nat \<Rightarrow> source_loc \<Rightarrow> string \<Rightarrow> log_level \<Rightarrow> string \<Rightarrow> log_msg" where
  "mk_log_msg log_time tid loc logger_name lvl msg =
     \<lparr>lm_logger = logger_name, lm_level = lvl, lm_time = log_time, lm_thread = tid,
      lm_color_start = 0, lm_color_end = 0, lm_source = loc, lm_payload = msg\<rparr>"

definition default_log_msg :: log_msg where
  "default_log_msg = mk_log_msg 0 0 no_source '''' L_off ''''"

text \<open>
  \<^verbatim>\<open>log_msg_buffer\<close>: a message whose two views point into a buffer of its own. A view is an offset
  and a length there; \<open>lb_base\<close> keeps the other fields.
\<close>

record log_buffer =
  lb_base :: log_msg
  lb_buffer :: string

definition update_string_views :: "log_buffer \<Rightarrow> log_buffer" where
  "update_string_views b =
     (let n = length (lm_logger (lb_base b)); p = length (lm_payload (lb_base b))
      in b\<lparr>lb_base := (lb_base b)\<lparr>lm_logger := take n (lb_buffer b),
                                 lm_payload := take p (drop n (lb_buffer b))\<rparr>\<rparr>)"

definition buffer_of_msg :: "log_msg \<Rightarrow> log_buffer" where
  "buffer_of_msg m = update_string_views \<lparr>lb_base = m, lb_buffer = lm_logger m @ lm_payload m\<rparr>"

definition buffer_copy :: "log_buffer \<Rightarrow> log_buffer" where
  "buffer_copy other = update_string_views
     \<lparr>lb_base = lb_base other, lb_buffer = lm_logger (lb_base other) @ lm_payload (lb_base other)\<rparr>"

definition buffer_assign :: "log_buffer \<Rightarrow> log_buffer \<Rightarrow> log_buffer" where
  "buffer_assign b other = update_string_views (b\<lparr>lb_base := lb_base other, lb_buffer := lb_buffer other\<rparr>)"

definition buffer_move :: "log_buffer \<Rightarrow> log_buffer" where
  "buffer_move other = update_string_views \<lparr>lb_base = lb_base other, lb_buffer = lb_buffer other\<rparr>"

definition buffer_ok :: "log_buffer \<Rightarrow> bool" where
  "buffer_ok b \<longleftrightarrow> lb_buffer b = lm_logger (lb_base b) @ lm_payload (lb_base b)"

lemma update_string_views_ok: "buffer_ok b \<Longrightarrow> update_string_views b = b"
  by (simp add: buffer_ok_def update_string_views_def Let_def)

text \<open>The owning copies are faithful: every one of them carries the message it was made from.\<close>

lemma buffer_copies:
  "buffer_ok (buffer_of_msg m)" "lb_base (buffer_of_msg m) = m"
  "buffer_ok b \<Longrightarrow> buffer_copy b = b" "buffer_ok b \<Longrightarrow> buffer_assign c b = b"
  "buffer_ok b \<Longrightarrow> buffer_move b = b"
proof -
  have "buffer_ok \<lparr>lb_base = m, lb_buffer = lm_logger m @ lm_payload m\<rparr>"
    by (simp add: buffer_ok_def)
  then show "buffer_ok (buffer_of_msg m)" "lb_base (buffer_of_msg m) = m"
    by (simp_all add: buffer_of_msg_def update_string_views_ok)
qed (cases b; simp add: buffer_copy_def buffer_assign_def buffer_move_def buffer_ok_def
    update_string_views_def Let_def)+

section \<open>The back-tracer\<close>

record backtracer =
  bt_enabled :: bool
  bt_messages :: "log_buffer circular_q"

definition mk_backtracer :: backtracer where
  "mk_backtracer = \<lparr>bt_enabled = False, bt_messages = cq_disabled\<rparr>"

definition bt_copy :: "backtracer \<Rightarrow> backtracer" where
  "bt_copy other = \<lparr>bt_enabled = bt_enabled other, bt_messages = bt_messages other\<rparr>"

definition bt_move :: "backtracer \<Rightarrow> backtracer \<times> backtracer" where
  "bt_move other =
     (let (taken, left_over) = cq_move (bt_messages other)
      in (\<lparr>bt_enabled = bt_enabled other, bt_messages = taken\<rparr>, other\<lparr>bt_messages := left_over\<rparr>))"

definition bt_enable :: "size_t \<Rightarrow> backtracer \<Rightarrow> backtracer" where
  "bt_enable n b = b\<lparr>bt_enabled := True, bt_messages := mk_circular_q (buffer_of_msg default_log_msg) n\<rparr>"

definition bt_disable :: "backtracer \<Rightarrow> backtracer" where
  "bt_disable b = b\<lparr>bt_enabled := False\<rparr>"

definition bt_push_back :: "log_msg \<Rightarrow> backtracer \<Rightarrow> backtracer" where
  "bt_push_back m b = b\<lparr>bt_messages := cq_push_back (buffer_of_msg m) (bt_messages b)\<rparr>"

definition bt_empty :: "backtracer \<Rightarrow> bool" where
  "bt_empty b \<longleftrightarrow> cq_empty (bt_messages b)"

text \<open>
  \<open>foreach_pop\<close> with a callback whose effects are collected; an exception of the callback leaves the
  loop before the message is popped.
\<close>

fun bt_foreach_pop_fuel ::
  "(log_msg \<Rightarrow> 'e list \<times> bool) \<Rightarrow> nat \<Rightarrow> log_buffer circular_q \<Rightarrow> 'e list \<times> bool \<times> log_buffer circular_q" where
  "bt_foreach_pop_fuel f 0 q = ([], False, q)"
| "bt_foreach_pop_fuel f (Suc n) q =
     (if cq_empty q then ([], False, q)
      else let (es, x) = f (lb_base (cq_front q))
           in if x then (es, True, q)
              else let (fs, y, q') = bt_foreach_pop_fuel f n (cq_pop_front q) in (es @ fs, y, q'))"

definition bt_foreach_pop :: "(log_msg \<Rightarrow> 'e list \<times> bool) \<Rightarrow> backtracer \<Rightarrow> 'e list \<times> bool \<times> backtracer" where
  "bt_foreach_pop f b =
     (let (es, x, q) = bt_foreach_pop_fuel f (cq_max (bt_messages b)) (bt_messages b)
      in (es, x, b\<lparr>bt_messages := q\<rparr>))"

definition bt_inv :: "backtracer \<Rightarrow> bool" where
  "bt_inv b \<longleftrightarrow> cq_inv (bt_messages b)"

definition bt_list :: "backtracer \<Rightarrow> log_msg list" where
  "bt_list b = map lb_base (cq_list (bt_messages b))"

lemma bt_foreach_pop_fuel_drain:
  assumes "\<And>m. \<not> snd (f m)"
  shows "bt_foreach_pop_fuel f n q =
    (concat (map (\<lambda>b. fst (f (lb_base b))) (fst (ring.drain_fuel n q))), False, snd (ring.drain_fuel n q))"
  by (induction n arbitrary: q) (simp_all add: Let_def case_prod_beta assms)

lemma bt_foreach_pop_list:
  assumes "bt_inv b" and "\<And>m. \<not> snd (f m)"
  shows "\<exists>b'. bt_foreach_pop f b = (concat (map (\<lambda>m. fst (f m)) (bt_list b)), False, b')
    \<and> bt_inv b' \<and> bt_list b' = [] \<and> bt_enabled b' = bt_enabled b"
proof -
  have "length (cq_list (bt_messages b)) \<le> cq_max (bt_messages b)"
    using cq_size_bounded [of "bt_messages b"] assms(1) by (simp add: bt_inv_def cq_cap_def)
  then have "fst (ring.drain_fuel (cq_max (bt_messages b)) (bt_messages b)) = cq_list (bt_messages b)
      \<and> cq_inv (snd (ring.drain_fuel (cq_max (bt_messages b)) (bt_messages b)))
      \<and> cq_list (snd (ring.drain_fuel (cq_max (bt_messages b)) (bt_messages b))) = []"
    using ring.drain_fuel_elems [of "bt_messages b"] assms(1) by (simp add: bt_inv_def)
  then show ?thesis
    by (simp add: bt_foreach_pop_def bt_list_def bt_inv_def bt_foreach_pop_fuel_drain [OF assms(2)] comp_def)
qed

lemma bt_push_all:
  assumes "bt_inv b"
  shows "bt_inv (fold bt_push_back ms b)
    \<and> bt_list (fold bt_push_back ms b) = last_n (cq_cap (bt_messages b)) (bt_list b @ ms)
    \<and> bt_enabled (fold bt_push_back ms b) = bt_enabled b"
proof -
  have fold: "bt_messages (fold bt_push_back ms b) = fold cq_push_back (map buffer_of_msg ms) (bt_messages b)
      \<and> bt_enabled (fold bt_push_back ms b) = bt_enabled b"
    by (induction ms arbitrary: b) (simp_all add: bt_push_back_def)
  have "map lb_base (map buffer_of_msg ms) = ms"
    by (induction ms) (simp_all add: buffer_copies)
  then have "bt_list (fold bt_push_back ms b) = last_n (cq_cap (bt_messages b)) (bt_list b @ ms)"
    using ring.push_all [of "bt_messages b" "map buffer_of_msg ms"] assms fold
    by (simp add: bt_list_def bt_inv_def last_n_def drop_map comp_def buffer_copies)
  then show ?thesis
    using ring.push_all [of "bt_messages b" "map buffer_of_msg ms"] assms fold by (simp add: bt_inv_def)
qed

lemma bt_empty_iff: "bt_inv c \<Longrightarrow> bt_empty c \<longleftrightarrow> bt_list c = []"
  using cq_empty_iff [of "bt_messages c"] by (simp add: bt_empty_def bt_list_def bt_inv_def)

text \<open>
  The back-trace. After it has been enabled for \<open>n\<close> messages and any messages have been
  stored, popping hands out exactly the last \<open>n\<close> of them in the order they came, and leaves the store
  empty and enabled.
\<close>

theorem backtrace_keeps_last:
  assumes "n \<noteq> - 1"
  shows "\<exists>b'. bt_foreach_pop (\<lambda>m. ([m], False)) (fold bt_push_back ms (bt_enable n b)) =
      (last_n (unat n) ms, False, b') \<and> bt_empty b' \<and> bt_enabled b'"
proof -
  have e: "bt_inv (bt_enable n b)" "bt_list (bt_enable n b) = []" "cq_cap (bt_messages (bt_enable n b)) = unat n"
    "bt_enabled (bt_enable n b)"
    using assms by (simp_all add: bt_enable_def bt_inv_def bt_list_def mk_circular_q_ok)
  note p = bt_push_all [OF e(1), of ms]
  obtain b' where "bt_foreach_pop (\<lambda>m. ([m], False)) (fold bt_push_back ms (bt_enable n b)) =
      (concat (map (\<lambda>m. [m]) (bt_list (fold bt_push_back ms (bt_enable n b)))), False, b')"
    "bt_inv b'" "bt_list b' = []" "bt_enabled b' = bt_enabled (fold bt_push_back ms (bt_enable n b))"
    using bt_foreach_pop_list [of "fold bt_push_back ms (bt_enable n b)" "\<lambda>m. ([m], False)"] p by auto
  then show ?thesis
    using p e bt_empty_iff [of b'] by simp
qed

theorem backtrace_keeps_last_witness:
  "fst (bt_foreach_pop (\<lambda>m. ([m], False)) (fold bt_push_back [default_log_msg\<lparr>lm_time := 1\<rparr>,
      default_log_msg\<lparr>lm_time := 2\<rparr>, default_log_msg\<lparr>lm_time := 3\<rparr>] (bt_enable 2 mk_backtracer)))
    = [default_log_msg\<lparr>lm_time := 2\<rparr>, default_log_msg\<lparr>lm_time := 3\<rparr>]"
proof -
  have "(2 :: size_t) \<noteq> - 1" by simp
  from backtrace_keeps_last [OF this, of "[default_log_msg\<lparr>lm_time := 1\<rparr>, default_log_msg\<lparr>lm_time := 2\<rparr>,
      default_log_msg\<lparr>lm_time := 3\<rparr>]" mk_backtracer]
  show ?thesis by (auto simp: last_n_def)
qed

lemma foreach_pop_fuel_enough:
  assumes "cq_inv q" and "cq_size q \<le> n"
  shows "bt_foreach_pop_fuel f (n + k) q = bt_foreach_pop_fuel f n q
    \<and> (fst (snd (bt_foreach_pop_fuel f n q)) \<or> cq_empty (snd (snd (bt_foreach_pop_fuel f n q))))"
  using assms
proof (induction n arbitrary: q)
  case 0
  then have "cq_empty q" using cq_empty_iff [OF 0(1)] by (simp flip: length_0_conv)
  then show ?case by (cases k) simp_all
next
  case (Suc n)
  show ?case
  proof (cases "cq_empty q")
    case False
    then have ne: "cq_list q \<noteq> []" using cq_empty_iff [OF Suc.prems(1)] by simp
    have "cq_inv (cq_pop_front q)" "cq_size (cq_pop_front q) \<le> n"
      using cq_pop_front_ok [OF Suc.prems(1) ne] arg_cong [OF cq_pop_front_list [OF Suc.prems(1) ne], of length] Suc.prems(2)
      by simp_all
    from Suc.IH [OF this] False show ?thesis by (simp add: case_prod_beta)
  qed simp
qed

text \<open>
  Handing out the back-trace ends. Whatever the callback does, the loop of \<open>foreach_pop\<close> has left
  after at most as many turns as the ring has slots, with the back-trace empty or on an
  exception of the callback; more turns change nothing.
\<close>

theorem foreach_pop_ends:
  "let b' = fold bt_push_back ms (bt_enable n b) in
     bt_foreach_pop_fuel f (cq_max (bt_messages b') + k) (bt_messages b') = bt_foreach_pop_fuel f (cq_max (bt_messages b')) (bt_messages b')
     \<and> (fst (snd (bt_foreach_pop f b')) \<or> bt_empty (snd (snd (bt_foreach_pop f b'))))"
proof -
  let ?b = "fold bt_push_back ms (bt_enable n b)" and ?q = "bt_messages (fold bt_push_back ms (bt_enable n b))"
  have "bt_inv (bt_enable n b)" by (simp add: bt_enable_def bt_inv_def mk_circular_q_ok)
  then have inv: "cq_inv ?q" using bt_push_all by (auto simp: bt_inv_def)
  then have "cq_size ?q \<le> cq_max ?q" using cq_size_bounded [of ?q] by (simp add: cq_cap_def)
  from foreach_pop_fuel_enough [OF inv this, of f k] show ?thesis
    by (simp add: Let_def bt_foreach_pop_def bt_empty_def case_prod_beta)
qed

section \<open>The ring-buffer sink\<close>

definition rb_items :: "nat \<Rightarrow> log_buffer circular_q \<Rightarrow> log_buffer list" where
  "rb_items lim q =
     (let items_available = cq_size q;
          n_items = (if lim > 0 then min lim items_available else items_available)
      in map (cq_at q) [items_available - n_items..<items_available])"

definition rb_last_raw :: "nat \<Rightarrow> log_buffer circular_q \<Rightarrow> log_buffer list" where
  "rb_last_raw lim q = rb_items lim q"

definition rb_last_formatted :: "(log_msg \<Rightarrow> string) \<Rightarrow> nat \<Rightarrow> log_buffer circular_q \<Rightarrow> string list" where
  "rb_last_formatted format lim q = map (\<lambda>b. format (lb_base b)) (rb_items lim q)"

definition rb_sink_it :: "log_msg \<Rightarrow> log_buffer circular_q \<Rightarrow> log_buffer circular_q" where
  "rb_sink_it m q = cq_push_back (buffer_of_msg m) q"

lemma rb_items_last: "rb_items lim q = last_n (if lim > 0 then lim else cq_size q) (cq_list q)"
proof -
  have "map f [a..<n] = drop a (map f [0..<n])" for f :: "nat \<Rightarrow> 'b" and a n
    by (simp add: drop_map)
  then show ?thesis
    by (auto simp: rb_items_def Let_def last_n_def cq_list_def min_def)
qed

end
