(* ===== verification/Log_Logger.thy ===== *)
theory Log_Logger
  imports Log_Core
begin

text \<open>
  The logger (\<^verbatim>\<open>logger.h\<close>, \<^verbatim>\<open>logger-inl.h\<close>) and its asynchronous variant
  (\<^verbatim>\<open>async_logger-inl.h\<close>). Sinks are reached through their interface only: a logger knows the level
  of each and calls \<^verbatim>\<open>log\<close> and \<^verbatim>\<open>flush\<close>, which may throw; \<open>throws\<close> says how each call ends. The
  calls a logger makes, on sinks, on its error handler and on the thread pool, are its effects, in
  order; the flag next to them says that an exception leaves the function.
\<close>

section \<open>Effects and exceptions\<close>

datatype log_effect =
    EffLog nat log_msg | EffFlush nat | EffError string | EffPostLog log_msg | EffPostFlush

datatype outcome = Fine | StdException string | OtherException

fun is_sink_call :: "log_effect \<Rightarrow> bool" where
  "is_sink_call (EffLog i m) = True"
| "is_sink_call (EffFlush i) = True"
| "is_sink_call e = False"

definition int_text :: "int \<Rightarrow> string" where
  "int_text n = (if n < 0 then ''-'' @ dec (nat (- n)) else dec (nat n))"

definition exception_text :: "source_loc \<Rightarrow> string \<Rightarrow> string" where
  "exception_text loc what =
     (case sl_file loc of
        Some f \<Rightarrow> what @ '' ['' @ f @ ''('' @ int_text (sl_line loc) @ '')]''
      | None \<Rightarrow> what)"

text \<open>\<^verbatim>\<open>SPDLOG_LOGGER_CATCH\<close>: what is reported, and whether the exception goes on.\<close>

definition logger_catch :: "source_loc \<Rightarrow> outcome \<Rightarrow> log_effect list \<times> bool" where
  "logger_catch loc res =
     (case res of
        Fine \<Rightarrow> ([], False)
      | StdException what \<Rightarrow> ([EffError (exception_text loc what)], False)
      | OtherException \<Rightarrow> ([EffError ''Rethrowing unknown exception in logger''], True))"

section \<open>The logger\<close>

record logger =
  lg_name :: string
  lg_sinks :: "log_level list"
  lg_formats :: "string list"
  lg_level :: log_level
  lg_flush_level :: log_level
  lg_handler :: "nat option"
  lg_tracer :: backtracer

definition mk_logger :: "string \<Rightarrow> log_level list \<Rightarrow> logger" where
  "mk_logger name sinks =
     \<lparr>lg_name = name, lg_sinks = sinks, lg_formats = replicate (length sinks) ''%+'', lg_level = L_info,
      lg_flush_level = L_off, lg_handler = None, lg_tracer = mk_backtracer\<rparr>"

definition logger_copy :: "logger \<Rightarrow> logger" where
  "logger_copy other = other\<lparr>lg_tracer := bt_copy (lg_tracer other)\<rparr>"

definition logger_clone :: "string \<Rightarrow> logger \<Rightarrow> logger" where
  "logger_clone name lg = (logger_copy lg)\<lparr>lg_name := name\<rparr>"

definition logger_swap :: "logger \<Rightarrow> logger \<Rightarrow> logger \<times> logger" where
  "logger_swap this other =
     (\<lparr>lg_name = lg_name other, lg_sinks = lg_sinks other, lg_formats = lg_formats other,
       lg_level = lg_level other, lg_flush_level = lg_flush_level other,
       lg_handler = lg_handler other, lg_tracer = lg_tracer other\<rparr>,
      \<lparr>lg_name = lg_name this, lg_sinks = lg_sinks this, lg_formats = lg_formats this,
       lg_level = lg_level this, lg_flush_level = lg_flush_level this,
       lg_handler = lg_handler this, lg_tracer = lg_tracer this\<rparr>)"

definition logger_set_level :: "log_level \<Rightarrow> logger \<Rightarrow> logger" where
  "logger_set_level l lg = lg\<lparr>lg_level := l\<rparr>"

definition logger_flush_on :: "log_level \<Rightarrow> logger \<Rightarrow> logger" where
  "logger_flush_on l lg = lg\<lparr>lg_flush_level := l\<rparr>"

definition logger_set_error_handler :: "nat option \<Rightarrow> logger \<Rightarrow> logger" where
  "logger_set_error_handler h lg = lg\<lparr>lg_handler := h\<rparr>"

definition logger_enable_backtrace :: "size_t \<Rightarrow> logger \<Rightarrow> logger" where
  "logger_enable_backtrace n lg = lg\<lparr>lg_tracer := bt_enable n (lg_tracer lg)\<rparr>"

definition logger_disable_backtrace :: "logger \<Rightarrow> logger" where
  "logger_disable_backtrace lg = lg\<lparr>lg_tracer := bt_disable (lg_tracer lg)\<rparr>"

text \<open>
  \<open>set_formatter\<close>: every sink but the last gets a clone, the last one the formatter itself. A
  formatter is known by its pattern.
\<close>

fun give_formatter :: "string \<Rightarrow> string list \<Rightarrow> string list" where
  "give_formatter f [] = []"
| "give_formatter f [p] = [f]"
| "give_formatter f (p # q # ps) = f # give_formatter f (q # ps)"

definition logger_set_formatter :: "string \<Rightarrow> logger \<Rightarrow> logger" where
  "logger_set_formatter f lg = lg\<lparr>lg_formats := give_formatter f (lg_formats lg)\<rparr>"

definition logger_should_log :: "log_level \<Rightarrow> logger \<Rightarrow> bool" where
  "logger_should_log msg_level lg \<longleftrightarrow> msg_level \<ge> lg_level lg"

definition logger_should_flush :: "log_msg \<Rightarrow> logger \<Rightarrow> bool" where
  "logger_should_flush m lg \<longleftrightarrow> lm_level m \<ge> lg_flush_level lg \<and> lm_level m \<noteq> L_off"

text \<open>The loops over the sinks of \<open>sink_it_\<close> and \<open>flush_\<close>, from sink \<open>i\<close> on.\<close>

fun log_sinks :: "(log_effect \<Rightarrow> outcome) \<Rightarrow> log_msg \<Rightarrow> nat \<Rightarrow> log_level list \<Rightarrow> log_effect list \<times> bool" where
  "log_sinks throws m i [] = ([], False)"
| "log_sinks throws m i (l # ls) =
     (if lm_level m \<ge> l
      then let (report, escapes) = logger_catch (lm_source m) (throws (EffLog i m))
           in if escapes then (EffLog i m # report, True)
              else let (es, x) = log_sinks throws m (Suc i) ls in (EffLog i m # report @ es, x)
      else log_sinks throws m (Suc i) ls)"

fun flush_sinks :: "(log_effect \<Rightarrow> outcome) \<Rightarrow> nat \<Rightarrow> log_level list \<Rightarrow> log_effect list \<times> bool" where
  "flush_sinks throws i [] = ([], False)"
| "flush_sinks throws i (l # ls) =
     (let (report, escapes) = logger_catch no_source (throws (EffFlush i))
      in if escapes then (EffFlush i # report, True)
         else let (es, x) = flush_sinks throws (Suc i) ls in (EffFlush i # report @ es, x))"

definition logger_flush :: "(log_effect \<Rightarrow> outcome) \<Rightarrow> logger \<Rightarrow> log_effect list \<times> bool" where
  "logger_flush throws lg = flush_sinks throws 0 (lg_sinks lg)"

definition logger_sink_it :: "(log_effect \<Rightarrow> outcome) \<Rightarrow> logger \<Rightarrow> log_msg \<Rightarrow> log_effect list \<times> bool" where
  "logger_sink_it throws lg m =
     (let (es, x) = log_sinks throws m 0 (lg_sinks lg)
      in if x then (es, True)
         else if logger_should_flush m lg
         then let (fs, y) = logger_flush throws lg in (es @ fs, y)
         else (es, False))"

text \<open>
  \<open>sink_it_\<close> is virtual; \<open>log_it_\<close>, \<open>log\<close> and the back-trace run with the one of the logger's class.
\<close>

type_synonym sink_it = "logger \<Rightarrow> log_msg \<Rightarrow> log_effect list \<times> bool"

definition logger_log_it :: "sink_it \<Rightarrow> logger \<Rightarrow> log_msg \<Rightarrow> bool \<Rightarrow> bool \<Rightarrow> log_effect list \<times> bool \<times> logger" where
  "logger_log_it sink lg m log_enabled traceback_enabled =
     (let (es, x) = (if log_enabled then sink lg m else ([], False))
      in if x then (es, True, lg)
         else (es, False, if traceback_enabled then lg\<lparr>lg_tracer := bt_push_back m (lg_tracer lg)\<rparr> else lg))"

definition logger_log ::
  "sink_it \<Rightarrow> int \<Rightarrow> nat \<Rightarrow> source_loc \<Rightarrow> log_level \<Rightarrow> string \<Rightarrow> logger \<Rightarrow> log_effect list \<times> bool \<times> logger" where
  "logger_log sink now tid loc lvl msg lg =
     (let log_enabled = logger_should_log lvl lg; traceback_enabled = bt_enabled (lg_tracer lg)
      in if \<not> log_enabled \<and> \<not> traceback_enabled then ([], False, lg)
         else logger_log_it sink lg (mk_log_msg now tid loc (lg_name lg) lvl msg) log_enabled traceback_enabled)"

text \<open>
  \<open>log_\<close>: the text is formatted first, by the formatting library, which may throw; the whole body
  is inside one try block.
\<close>

definition logger_log_fmt ::
  "sink_it \<Rightarrow> int \<Rightarrow> nat \<Rightarrow> source_loc \<Rightarrow> log_level \<Rightarrow> outcome \<times> string \<Rightarrow> logger \<Rightarrow> log_effect list \<times> bool \<times> logger" where
  "logger_log_fmt sink now tid loc lvl formatted lg =
     (let log_enabled = logger_should_log lvl lg; traceback_enabled = bt_enabled (lg_tracer lg)
      in if \<not> log_enabled \<and> \<not> traceback_enabled then ([], False, lg)
         else case fst formatted of
             Fine \<Rightarrow>
               (let (es, x, lg') = logger_log_it sink lg (mk_log_msg now tid loc (lg_name lg) lvl (snd formatted))
                                     log_enabled traceback_enabled;
                    (report, y) = (if x then logger_catch loc OtherException else ([], False))
                in (es @ report, y, lg'))
           | res \<Rightarrow> (let (report, y) = logger_catch loc res in (report, y, lg)))"

definition backtrace_start :: "int \<Rightarrow> nat \<Rightarrow> logger \<Rightarrow> log_msg" where
  "backtrace_start now tid lg =
     mk_log_msg now tid no_source (lg_name lg) L_info ''****************** Backtrace Start ******************''"

definition backtrace_end :: "int \<Rightarrow> nat \<Rightarrow> logger \<Rightarrow> log_msg" where
  "backtrace_end now tid lg =
     mk_log_msg now tid no_source (lg_name lg) L_info ''****************** Backtrace End ********************''"

definition logger_dump_backtrace :: "sink_it \<Rightarrow> int \<Rightarrow> nat \<Rightarrow> logger \<Rightarrow> log_effect list \<times> bool \<times> logger" where
  "logger_dump_backtrace sink now tid lg =
     (if bt_enabled (lg_tracer lg) \<and> \<not> bt_empty (lg_tracer lg)
      then let (es, x) = sink lg (backtrace_start now tid lg)
           in if x then (es, True, lg)
              else let (fs, y, tracer) = bt_foreach_pop (sink lg) (lg_tracer lg);
                       lg' = lg\<lparr>lg_tracer := tracer\<rparr>
                   in if y then (es @ fs, True, lg')
                      else let (gs, z) = sink lg' (backtrace_end now tid lg) in (es @ fs @ gs, z, lg')
      else ([], False, lg))"

section \<open>The default error handler\<close>

text \<open>
  State shared by all loggers: when the last report was made and how many errors there were. A
  report is a line on \<^verbatim>\<open>stderr\<close>; \<open>date\<close> is the local time as \<^verbatim>\<open>strftime\<close> prints it.
\<close>

record err_state =
  err_last :: int
  err_counter :: size_t

definition pad4 :: "string \<Rightarrow> string" where
  "pad4 ds = replicate (4 - length ds) (CHR ''0'') @ ds"

definition err_handler :: "int \<Rightarrow> (int \<Rightarrow> string) \<Rightarrow> string \<Rightarrow> string \<Rightarrow> err_state \<Rightarrow> string option \<times> err_state" where
  "err_handler now date name msg st =
     (let st1 = st\<lparr>err_counter := err_counter st + 1\<rparr>
      in if now - err_last st1 < 1000000000 then (None, st1)
         else (Some (''[*** LOG ERROR #'' @ pad4 (dec (unat (err_counter st1))) @ '' ***] ['' @ date now
                       @ ''] ['' @ name @ ''] '' @ msg @ [CHR 0x0A]),
               st1\<lparr>err_last := now\<rparr>))"

section \<open>The asynchronous logger\<close>

text \<open>\<open>sink_it_\<close> and \<open>flush_\<close> post to the thread pool, if it still exists.\<close>

definition async_sink_it :: "bool \<Rightarrow> sink_it" where
  "async_sink_it pool_alive lg m =
     (if pool_alive then ([EffPostLog m], False)
      else logger_catch (lm_source m) (StdException ''async log: thread pool doesn't exist anymore''))"

definition async_flush :: "bool \<Rightarrow> logger \<Rightarrow> log_effect list \<times> bool" where
  "async_flush pool_alive lg =
     (if pool_alive then ([EffPostFlush], False)
      else logger_catch no_source (StdException ''async flush: thread pool doesn't exist anymore''))"

definition backend_flush :: "(log_effect \<Rightarrow> outcome) \<Rightarrow> logger \<Rightarrow> log_effect list \<times> bool" where
  "backend_flush throws lg = flush_sinks throws 0 (lg_sinks lg)"

definition backend_sink_it :: "(log_effect \<Rightarrow> outcome) \<Rightarrow> logger \<Rightarrow> log_msg \<Rightarrow> log_effect list \<times> bool" where
  "backend_sink_it throws lg m =
     (let (es, x) = log_sinks throws m 0 (lg_sinks lg)
      in if x then (es, True)
         else if logger_should_flush m lg
         then let (fs, y) = backend_flush throws lg in (es @ fs, y)
         else (es, False))"

section \<open>What a message causes\<close>

text \<open>The calls a message is due, and the report that follows a call that throws.\<close>

definition due_logs :: "log_msg \<Rightarrow> nat \<Rightarrow> log_level list \<Rightarrow> log_effect list" where
  "due_logs m k ls = map (\<lambda>i. EffLog (k + i) m) (filter (\<lambda>i. ls ! i \<le> lm_level m) [0..<length ls])"

definition due_flushes :: "logger \<Rightarrow> log_effect list" where
  "due_flushes lg = map EffFlush [0..<length (lg_sinks lg)]"

definition due_calls :: "logger \<Rightarrow> log_msg \<Rightarrow> log_effect list" where
  "due_calls lg m = due_logs m 0 (lg_sinks lg) @ (if logger_should_flush m lg then due_flushes lg else [])"

fun call_source :: "log_effect \<Rightarrow> source_loc" where
  "call_source (EffLog i m) = lm_source m"
| "call_source _ = no_source"

definition with_report :: "(log_effect \<Rightarrow> outcome) \<Rightarrow> log_effect \<Rightarrow> log_effect list" where
  "with_report throws e = e # fst (logger_catch (call_source e) (throws e))"

definition carried_out :: "(log_effect \<Rightarrow> outcome) \<Rightarrow> log_effect list \<Rightarrow> log_effect list" where
  "carried_out throws es = concat (map (with_report throws) es)"

lemma carried_out_simps [simp]:
  "carried_out throws [] = []" "carried_out throws (e # es) = with_report throws e @ carried_out throws es"
  "carried_out throws (es @ fs) = carried_out throws es @ carried_out throws fs"
  by (simp_all add: carried_out_def)

lemma due_logs_simps [simp]:
  "due_logs m k [] = []"
  "due_logs m k (l # ls) = (if l \<le> lm_level m then [EffLog k m] else []) @ due_logs m (Suc k) ls"
proof -
  show "due_logs m k [] = []" by (simp add: due_logs_def)
  have "filter (\<lambda>i. (l # ls) ! i \<le> lm_level m) (map Suc [0..<length ls])
      = map Suc (filter (\<lambda>i. ls ! i \<le> lm_level m) [0..<length ls])"
    by (simp add: filter_map comp_def)
  then show "due_logs m k (l # ls) = (if l \<le> lm_level m then [EffLog k m] else []) @ due_logs m (Suc k) ls"
    by (simp add: due_logs_def upt_conv_Cons map_Suc_upt [symmetric] comp_def del: upt_Suc)
qed

definition no_unknown :: "(log_effect \<Rightarrow> outcome) \<Rightarrow> bool" where
  "no_unknown throws \<longleftrightarrow> (\<forall>e. throws e \<noteq> OtherException)"

lemma catch_stays: "no_unknown throws \<Longrightarrow> snd (logger_catch loc (throws e)) = False"
  by (auto simp: no_unknown_def logger_catch_def split: outcome.split)

lemma log_sinks_due:
  "no_unknown throws \<Longrightarrow> log_sinks throws m k ls = (carried_out throws (due_logs m k ls), False)"
proof (induction ls arbitrary: k)
  case (Cons l ls)
  then show ?case
    using catch_stays [OF Cons.prems, of "lm_source m" "EffLog k m"]
    by (simp add: case_prod_beta with_report_def)
qed simp

lemma flush_sinks_due:
  "no_unknown throws \<Longrightarrow>
    flush_sinks throws k ls = (carried_out throws (map EffFlush [k..<k + length ls]), False)"
proof (induction ls arbitrary: k)
  case (Cons l ls)
  then show ?case
    using catch_stays [OF Cons.prems, of no_source "EffFlush k"]
    by (simp add: case_prod_beta with_report_def upt_conv_Cons del: upt_Suc)
qed simp

lemma logger_sink_it_due:
  "no_unknown throws \<Longrightarrow> logger_sink_it throws lg m = (carried_out throws (due_calls lg m), False)"
  by (simp add: logger_sink_it_def log_sinks_due logger_flush_def flush_sinks_due due_calls_def due_flushes_def)

text \<open>
  What one call of \<^verbatim>\<open>log\<close> does, whatever sinks throw. If the level passes the logger's, the
  message goes to exactly the sinks whose own level it passes, in their order, and after it, if it
  reaches the flush level and is not \<open>off\<close>, every sink is flushed; a sink that throws a standard
  exception is reported right after its call and keeps no other sink from its own. The message is
  stored for the back-trace exactly when that is enabled, whether or not it was logged.
\<close>

theorem logger_log_spec:
  assumes "no_unknown throws"
  shows "logger_log (logger_sink_it throws) now tid loc lvl msg lg =
    (let m = mk_log_msg now tid loc (lg_name lg) lvl msg
     in (if lvl \<ge> lg_level lg then carried_out throws (due_calls lg m) else [], False,
         if bt_enabled (lg_tracer lg) then lg\<lparr>lg_tracer := bt_push_back m (lg_tracer lg)\<rparr> else lg))"
  by (simp add: logger_log_def logger_log_it_def logger_should_log_def logger_sink_it_due [OF assms] Let_def)

theorem logger_log_spec_witness:
  "logger_log (logger_sink_it (\<lambda>e. if e = EffFlush 0 then StdException ''disk full'' else Fine)) 5 1 no_source L_err ''x''
      ((mk_logger ''a'' [L_trace, L_off])\<lparr>lg_flush_level := L_err\<rparr>)
    = ([EffLog 0 (mk_log_msg 5 1 no_source ''a'' L_err ''x''), EffFlush 0, EffError ''disk full'', EffFlush 1], False,
       (mk_logger ''a'' [L_trace, L_off])\<lparr>lg_flush_level := L_err\<rparr>)"
proof -
  let ?t = "\<lambda>e. if e = EffFlush 0 then StdException ''disk full'' else Fine"
  have "no_unknown ?t" by (simp add: no_unknown_def)
  from logger_log_spec [OF this, of 5 1 no_source L_err "''x''" "(mk_logger ''a'' [L_trace, L_off])\<lparr>lg_flush_level := L_err\<rparr>"]
  show ?thesis
    by (simp add: mk_logger_def due_calls_def due_flushes_def with_report_def logger_catch_def
        exception_text_def no_source_def mk_log_msg_def logger_should_flush_def mk_backtracer_def
        less_eq_log_level_def upt_rec)
qed

text \<open>
  Dumping the back-trace. Between its two marker lines every stored message is given to the
  sinks as if it were logged now, in order and regardless of the logger's level, and the store is
  empty afterwards; nothing happens when it is disabled or empty.
\<close>

theorem dump_backtrace_spec:
  assumes "no_unknown throws" and "bt_inv (lg_tracer lg)"
  shows "\<exists>tracer. logger_dump_backtrace (logger_sink_it throws) now tid lg =
      (if bt_enabled (lg_tracer lg) \<and> bt_list (lg_tracer lg) \<noteq> []
       then (carried_out throws (concat (map (due_calls lg)
               (backtrace_start now tid lg # bt_list (lg_tracer lg) @ [backtrace_end now tid lg]))),
             False, lg\<lparr>lg_tracer := tracer\<rparr>)
       else ([], False, lg))
    \<and> bt_list tracer = [] \<and> bt_enabled tracer = bt_enabled (lg_tracer lg)"
proof -
  have quiet: "\<And>m. \<not> snd (logger_sink_it throws lg m)"
    by (simp add: logger_sink_it_due [OF assms(1)])
  obtain tracer where t: "bt_foreach_pop (logger_sink_it throws lg) (lg_tracer lg) =
      (concat (map (\<lambda>m. fst (logger_sink_it throws lg m)) (bt_list (lg_tracer lg))), False, tracer)"
    "bt_list tracer = []" "bt_enabled tracer = bt_enabled (lg_tracer lg)"
    using bt_foreach_pop_list [of "lg_tracer lg" "logger_sink_it throws lg", OF assms(2) quiet] by blast
  have same: "due_calls (lg\<lparr>lg_tracer := tracer\<rparr>) m = due_calls lg m" for m
    by (simp add: due_calls_def due_flushes_def logger_should_flush_def)
  have "carried_out throws (concat (map (due_calls lg) ms)) = concat (map (\<lambda>m. carried_out throws (due_calls lg m)) ms)" for ms
    by (induction ms) simp_all
  then show ?thesis
    using t bt_empty_iff [OF assms(2)] same
    by (intro exI [of _ tracer])
      (simp add: logger_dump_backtrace_def logger_sink_it_due [OF assms(1)] backtrace_end_def backtrace_start_def)
qed

theorem dump_backtrace_spec_witness:
  "fst (logger_dump_backtrace (logger_sink_it (\<lambda>_. Fine)) 0 0
      (logger_enable_backtrace 3 (mk_logger ''a'' [L_trace]))) = []"
proof -
  have "no_unknown (\<lambda>_. Fine)" by (simp add: no_unknown_def)
  moreover have "bt_inv (lg_tracer (logger_enable_backtrace 3 (mk_logger ''a'' [L_trace])))"
    "bt_list (lg_tracer (logger_enable_backtrace 3 (mk_logger ''a'' [L_trace]))) = []"
    by (simp_all add: logger_enable_backtrace_def bt_enable_def bt_inv_def bt_list_def mk_circular_q_ok)
  ultimately show ?thesis
    using dump_backtrace_spec by fastforce
qed

section \<open>Error reports are rate-limited\<close>

fun report_times :: "(int \<Rightarrow> string) \<Rightarrow> string \<Rightarrow> (int \<times> string) list \<Rightarrow> err_state \<Rightarrow> int list" where
  "report_times date name [] st = []"
| "report_times date name ((now, msg) # es) st =
     (case err_handler now date name msg st of
        (None, st') \<Rightarrow> report_times date name es st'
      | (Some line, st') \<Rightarrow> now # report_times date name es st')"

lemma report_times_gap:
  "(\<forall>t \<in> set (report_times date name es st). err_last st + 1000000000 \<le> t)
   \<and> sorted_wrt (\<lambda>a b. a + 1000000000 \<le> b) (report_times date name es st)"
proof (induction es arbitrary: st)
  case Nil
  then show ?case by simp
next
  case (Cons e es)
  obtain now msg where e: "e = (now, msg)" by (cases e)
  define st1 where "st1 = st\<lparr>err_counter := err_counter st + 1\<rparr>"
  show ?case
  proof (cases "now - err_last st < 1000000000")
    case True
    then show ?thesis
      using Cons [of st1] by (simp add: e err_handler_def Let_def st1_def)
  next
    case False
    then have gap: "err_last st + 1000000000 \<le> now" by simp
    have "\<forall>t \<in> set (report_times date name es (st1\<lparr>err_last := now\<rparr>)). now + 1000000000 \<le> t"
      using Cons [of "st1\<lparr>err_last := now\<rparr>"] by simp
    then show ?thesis
      using Cons [of "st1\<lparr>err_last := now\<rparr>"] gap False
      by (auto simp: e err_handler_def Let_def st1_def)
  qed
qed

end
