(* ===== verification/Log_Pool.thy ===== *)
theory Log_Pool
  imports Log_Blocking_Queue Log_Logger "HOL-Library.Multiset"
begin

text \<open>
  The thread pool behind asynchronous loggers (\<^verbatim>\<open>details/thread_pool.h\<close>,
  \<^verbatim>\<open>details/thread_pool-inl.h\<close>): messages go through the blocking queue to worker threads, and the
  destructor sends every worker a terminate message and joins it. A message names its logger by a
  number; what the worker does with it is \<open>backend_sink_it\<close> or \<open>backend_flush\<close> of that logger.
\<close>

section \<open>State and operations\<close>

datatype async_msg = AsyncLog nat log_msg | AsyncFlush nat | AsyncTerminate

datatype overflow_policy = Block | OverrunOldest | DiscardNew

datatype worker = WorkerIdle | WorkerBusy async_msg | WorkerStopped

record pool =
  tp_queue :: "async_msg mpmc"
  tp_workers :: "worker list"
  tp_dying :: bool
  tp_done :: "async_msg list"

definition default_async_q_size :: size_t where
  "default_async_q_size = 8192"

definition mk_thread_pool :: "size_t \<Rightarrow> nat \<Rightarrow> string + pool" where
  "mk_thread_pool q_max_items threads_n =
     (if threads_n = 0 \<or> threads_n > 1000
      then Inl ''spdlog::thread_pool(): invalid threads_n param (valid range is 1-1000)''
      else Inr \<lparr>tp_queue = mk_mpmc AsyncTerminate q_max_items,
                tp_workers = replicate threads_n WorkerIdle, tp_dying = False, tp_done = []\<rparr>)"

text \<open>\<open>None\<close>: the posting thread blocks.\<close>

definition post_async_msg :: "overflow_policy \<Rightarrow> async_msg \<Rightarrow> pool \<Rightarrow> pool option" where
  "post_async_msg policy new_msg p =
     (case policy of
        Block \<Rightarrow> map_option (\<lambda>q. p\<lparr>tp_queue := q\<rparr>) (mq_enqueue new_msg (tp_queue p))
      | OverrunOldest \<Rightarrow> Some (p\<lparr>tp_queue := mq_enqueue_nowait new_msg (tp_queue p)\<rparr>)
      | DiscardNew \<Rightarrow> Some (p\<lparr>tp_queue := mq_enqueue_if_have_room new_msg (tp_queue p)\<rparr>))"

definition post_log :: "overflow_policy \<Rightarrow> nat \<Rightarrow> log_msg \<Rightarrow> pool \<Rightarrow> pool option" where
  "post_log policy worker_ptr m p = post_async_msg policy (AsyncLog worker_ptr (lb_base (buffer_of_msg m))) p"

definition post_flush :: "overflow_policy \<Rightarrow> nat \<Rightarrow> pool \<Rightarrow> pool option" where
  "post_flush policy worker_ptr p = post_async_msg policy (AsyncFlush worker_ptr) p"

text \<open>\<open>process_next_msg_\<close> of worker \<open>i\<close>: the dequeue, and what follows outside the queue's lock.\<close>

definition worker_take :: "nat \<Rightarrow> pool \<Rightarrow> pool option" where
  "worker_take i p =
     (case mq_dequeue (tp_queue p) of
        None \<Rightarrow> None
      | Some (m, q) \<Rightarrow> Some (p\<lparr>tp_queue := q, tp_workers := (tp_workers p)[i := WorkerBusy m]\<rparr>))"

definition worker_finish :: "nat \<Rightarrow> pool \<Rightarrow> pool" where
  "worker_finish i p =
     (case tp_workers p ! i of
        WorkerBusy AsyncTerminate \<Rightarrow> p\<lparr>tp_workers := (tp_workers p)[i := WorkerStopped]\<rparr>
      | WorkerBusy m \<Rightarrow> p\<lparr>tp_workers := (tp_workers p)[i := WorkerIdle], tp_done := tp_done p @ [m]\<rparr>
      | _ \<Rightarrow> p)"

definition processed_effects :: "(nat \<Rightarrow> logger) \<Rightarrow> (log_effect \<Rightarrow> outcome) \<Rightarrow> async_msg \<Rightarrow> log_effect list" where
  "processed_effects loggers throws m =
     (case m of
        AsyncLog w msg \<Rightarrow> fst (backend_sink_it throws (loggers w) msg)
      | AsyncFlush w \<Rightarrow> fst (backend_flush throws (loggers w))
      | AsyncTerminate \<Rightarrow> [])"

definition pool_joined :: "pool \<Rightarrow> bool" where
  "pool_joined p \<longleftrightarrow> tp_dying p \<and> list_all (\<lambda>w. w = WorkerStopped) (tp_workers p)"

text \<open>
  The threads: clients post while the pool is owned; then its destructor posts one terminate message
  per worker, blocking; workers take and finish at any time.
\<close>

inductive pool_step :: "overflow_policy set \<Rightarrow> pool \<Rightarrow> pool \<Rightarrow> bool" for policies where
  posts: "policy \<in> policies \<Longrightarrow> \<not> tp_dying p \<Longrightarrow> m \<noteq> AsyncTerminate \<Longrightarrow> post_async_msg policy m p = Some p'
    \<Longrightarrow> pool_step policies p p'"
| dies: "pool_step policies p (p\<lparr>tp_dying := True\<rparr>)"
| terminates: "tp_dying p \<Longrightarrow> count_list (mq_in (tp_queue p)) AsyncTerminate < length (tp_workers p)
    \<Longrightarrow> post_async_msg Block AsyncTerminate p = Some p' \<Longrightarrow> pool_step policies p p'"
| takes: "i < length (tp_workers p) \<Longrightarrow> tp_workers p ! i = WorkerIdle \<Longrightarrow> worker_take i p = Some p'
    \<Longrightarrow> pool_step policies p p'"
| finishes: "i < length (tp_workers p) \<Longrightarrow> tp_workers p ! i = WorkerBusy m \<Longrightarrow> pool_step policies p (worker_finish i p)"

inductive pool_reachable :: "overflow_policy set \<Rightarrow> size_t \<Rightarrow> nat \<Rightarrow> pool \<Rightarrow> bool" for policies q n where
  pool_made: "mk_thread_pool q n = Inr p \<Longrightarrow> pool_reachable policies q n p"
| pool_moved: "pool_reachable policies q n p \<Longrightarrow> pool_step policies p p' \<Longrightarrow> pool_reachable policies q n p'"

section \<open>Nothing is lost on the way\<close>

definition exact_inv :: "'a mpmc \<Rightarrow> bool" where
  "exact_inv m \<longleftrightarrow> cq_inv (mq m) \<and> mq_out m @ cq_list (mq m) = mq_in m"

lemma mq_push_exact: "exact_inv m \<Longrightarrow> \<not> cq_full (mq m) \<Longrightarrow> cq_max (mq m) > 0 \<Longrightarrow> exact_inv (mq_push x m)"
proof -
  assume a: "exact_inv m" "\<not> cq_full (mq m)" "cq_max (mq m) > 0"
  then have ok: "cq_inv (mq m)" by (simp add: exact_inv_def)
  then have "cq_size (mq m) < cq_cap (mq m)"
    using a cq_full_iff [OF ok] cq_size_bounded [OF ok] by simp
  then have "cq_list (cq_push_back x (mq m)) = cq_list (mq m) @ [x]"
    by (intro ring.push_room [OF ok]) simp
  then show ?thesis
    using a ok cq_push_back_ok [OF ok, of x] by (simp add: exact_inv_def mq_push_def flip: append_assoc)
qed

lemma mq_dequeue_exact:
  assumes "exact_inv m" and "mq_dequeue m = Some (x, m')"
  shows "exact_inv m'" and "mq_in m' = mq_in m" and "mq_out m' = mq_out m @ [x]" and "cq_max (mq m') = cq_max (mq m)"
proof -
  have ok: "cq_inv (mq m)" using assms(1) by (simp add: exact_inv_def)
  have m': "m' = m\<lparr>mq := cq_pop_front (mq m), pop_notify := Suc (pop_notify m), mq_out := mq_out m @ [x]\<rparr>"
    and x: "x = cq_front (mq m)" and ne: "cq_list (mq m) \<noteq> []"
    using assms(2) cq_empty_iff [OF ok] by (auto simp: mq_dequeue_def Let_def split: if_splits)
  have "x # cq_list (cq_pop_front (mq m)) = cq_list (mq m)"
    using ne x cq_front_hd [OF ok ne] cq_pop_front_list [OF ok ne] by simp
  then show "exact_inv m'"
    using assms(1) cq_pop_front_ok [OF ok ne] by (simp add: exact_inv_def m')
  show "mq_in m' = mq_in m" "mq_out m' = mq_out m @ [x]" "cq_max (mq m') = cq_max (mq m)"
    by (simp_all add: m' cq_pop_front_max)
qed

fun worker_msgs :: "worker \<Rightarrow> async_msg list" where
  "worker_msgs WorkerIdle = []"
| "worker_msgs (WorkerBusy m) = [m]"
| "worker_msgs WorkerStopped = [AsyncTerminate]"

abbreviation in_hands :: "worker list \<Rightarrow> async_msg multiset" where
  "in_hands ws \<equiv> mset (concat (map worker_msgs ws))"

lemma in_hands_update:
  "i < length ws \<Longrightarrow> in_hands (ws[i := w]) + mset (worker_msgs (ws ! i)) = in_hands ws + mset (worker_msgs w)"
proof (induction ws arbitrary: i)
  case (Cons v ws)
  then show ?case by (cases i) (auto simp: add.assoc add.commute add.left_commute)
qed simp

definition log_part :: "async_msg list \<Rightarrow> async_msg list" where
  "log_part ms = filter (\<lambda>m. m \<noteq> AsyncTerminate) ms"

lemma log_part_simps [simp]:
  "log_part [] = []" "log_part (xs @ ys) = log_part xs @ log_part ys"
  "log_part (m # ms) = (if m = AsyncTerminate then log_part ms else m # log_part ms)"
  by (simp_all add: log_part_def)

text \<open>
  What is dequeued is done or in a worker's hands, a stopped worker holding its terminate message;
  terminate messages follow all others; a single worker keeps the order.
\<close>

definition pool_inv :: "pool \<Rightarrow> bool" where
  "pool_inv p \<longleftrightarrow> exact_inv (tp_queue p) \<and> cq_max (mq (tp_queue p)) > 0
     \<and> mset (mq_out (tp_queue p)) = mset (tp_done p) + in_hands (tp_workers p)
     \<and> AsyncTerminate \<notin> set (tp_done p)
     \<and> (\<exists>logs t. mq_in (tp_queue p) = logs @ replicate t AsyncTerminate \<and> AsyncTerminate \<notin> set logs
          \<and> t \<le> length (tp_workers p) \<and> (\<not> tp_dying p \<longrightarrow> t = 0))
     \<and> (\<forall>w. tp_workers p = [w] \<longrightarrow> log_part (mq_out (tp_queue p)) = tp_done p @ log_part (worker_msgs w))"

lemma post_exact:
  assumes "post_async_msg policy m p = Some p'" and "policy \<noteq> OverrunOldest"
    and "exact_inv (tp_queue p)" and "cq_max (mq (tp_queue p)) > 0"
  shows "exact_inv (tp_queue p') \<and> cq_max (mq (tp_queue p')) > 0 \<and> mq_out (tp_queue p') = mq_out (tp_queue p)
    \<and> (mq_in (tp_queue p') = mq_in (tp_queue p) @ [m]
       \<or> policy = DiscardNew \<and> mq_in (tp_queue p') = mq_in (tp_queue p))
    \<and> tp_workers p' = tp_workers p \<and> tp_done p' = tp_done p \<and> tp_dying p' = tp_dying p"
proof (cases "cq_full (mq (tp_queue p))")
  case True
  then have "policy = DiscardNew" "p' = p\<lparr>tp_queue := (tp_queue p)\<lparr>mq_discard := mq_discard (tp_queue p) + 1\<rparr>\<rparr>"
    using assms(1,2)
    by (auto simp: post_async_msg_def mq_enqueue_def mq_enqueue_if_have_room_def split: overflow_policy.splits)
  then show ?thesis using assms(3,4) by (simp add: exact_inv_def)
next
  case False
  then have "p' = p\<lparr>tp_queue := mq_push m (tp_queue p)\<rparr>"
    using assms(1,2)
    by (auto simp: post_async_msg_def mq_enqueue_def mq_enqueue_if_have_room_def split: overflow_policy.splits)
  then show ?thesis
    using mq_push_exact [OF assms(3) False assms(4), of m] assms(4)
    by (simp add: mq_push_def cq_push_back_max)
qed

lemma terminate_tail:
  assumes "ms = logs @ replicate t AsyncTerminate" and "AsyncTerminate \<notin> set logs"
  shows "count_list ms AsyncTerminate = t"
proof -
  have "count_list (replicate t AsyncTerminate) AsyncTerminate = t" by (induction t) simp_all
  moreover have "count_list logs AsyncTerminate = 0" using assms(2) by (simp add: count_list_0_iff)
  moreover have "count_list (xs @ ys) x = count_list xs x + count_list ys x" for xs ys and x :: async_msg
    by (induction xs) simp_all
  ultimately show ?thesis using assms(1) by simp
qed

text \<open>A step that only puts something into the queue.\<close>

lemma pool_inv_put:
  assumes "pool_inv p" and "exact_inv (tp_queue p')" and "cq_max (mq (tp_queue p')) > 0"
    and "mq_out (tp_queue p') = mq_out (tp_queue p)" and "tp_workers p' = tp_workers p"
    and "tp_done p' = tp_done p" and "tp_dying p' = tp_dying p"
    and "mq_in (tp_queue p') = logs @ replicate t AsyncTerminate" and "AsyncTerminate \<notin> set logs"
    and "t \<le> length (tp_workers p)" and "\<not> tp_dying p \<longrightarrow> t = 0"
  shows "pool_inv p'"
proof -
  have "\<exists>logs t. mq_in (tp_queue p') = logs @ replicate t AsyncTerminate \<and> AsyncTerminate \<notin> set logs
      \<and> t \<le> length (tp_workers p') \<and> (\<not> tp_dying p' \<longrightarrow> t = 0)"
    using assms(5,7-11) by (intro exI [of _ logs] exI [of _ t]) simp
  then show ?thesis
    using assms(1-6) by (simp add: pool_inv_def)
qed

lemma pool_step_inv:
  assumes "pool_step policies p p'" and "pool_inv p" and "OverrunOldest \<notin> policies"
  shows "pool_inv p' \<and> length (tp_workers p') = length (tp_workers p)"
  using assms
proof (induction rule: pool_step.induct)
  case (posts policy p m p')
  then have "policy \<noteq> OverrunOldest" by auto
  have inv: "exact_inv (tp_queue p)" "cq_max (mq (tp_queue p)) > 0"
    using posts(5) by (simp_all add: pool_inv_def)
  note e = post_exact [OF posts(4) \<open>policy \<noteq> OverrunOldest\<close> inv]
  obtain logs where logs: "mq_in (tp_queue p) = logs @ replicate 0 AsyncTerminate" "AsyncTerminate \<notin> set logs"
    using posts(2,5) by (auto simp: pool_inv_def)
  then obtain logs' where "mq_in (tp_queue p') = logs' @ replicate 0 AsyncTerminate" "AsyncTerminate \<notin> set logs'"
    using e posts(3) by (cases "mq_in (tp_queue p') = mq_in (tp_queue p)") auto
  then show ?case
    using e by (intro conjI pool_inv_put [OF posts(5)]) auto
next
  case (dies p)
  then show ?case by (auto simp: pool_inv_def)
next
  case (terminates p p')
  have inv: "exact_inv (tp_queue p)" "cq_max (mq (tp_queue p)) > 0"
    using terminates(4) by (simp_all add: pool_inv_def)
  note e = post_exact [OF terminates(3) overflow_policy.distinct(1) inv]
  obtain logs t where t: "mq_in (tp_queue p) = logs @ replicate t AsyncTerminate" "AsyncTerminate \<notin> set logs"
    using terminates(4) unfolding pool_inv_def by blast
  then have less: "t < length (tp_workers p)"
    using terminates(2) terminate_tail [OF t] by simp
  have "mq_in (tp_queue p') = logs @ replicate (Suc t) AsyncTerminate"
    using e t by (auto simp: replicate_append_same)
  then have "pool_inv p'"
    using e t less terminates(1)
    by (intro pool_inv_put [OF terminates(4), where logs = logs and t = "Suc t"]) (simp_all del: replicate_Suc)
  then show ?case using e by simp
next
  case (takes i p p')
  obtain m q where q: "mq_dequeue (tp_queue p) = Some (m, q)"
    and p': "p' = p\<lparr>tp_queue := q, tp_workers := (tp_workers p)[i := WorkerBusy m]\<rparr>"
    using takes(3) by (auto simp: worker_take_def split: option.splits)
  have ex: "exact_inv (tp_queue p)" using takes(4) by (simp add: pool_inv_def)
  note d = mq_dequeue_exact [OF ex q]
  have "in_hands ((tp_workers p)[i := WorkerBusy m]) = in_hands (tp_workers p) + {#m#}"
    using in_hands_update [OF takes(1), of "WorkerBusy m"] takes(2) by simp
  moreover have "log_part (mq_out q) = tp_done p @ log_part (worker_msgs w)"
    if "(tp_workers p)[i := WorkerBusy m] = [w]" for w
  proof -
    have "length (tp_workers p) = 1" using arg_cong [OF that, of length] by simp
    then have "tp_workers p = [WorkerIdle]" "w = WorkerBusy m"
      using takes(1,2) that by (cases "tp_workers p"; auto)+
    then show ?thesis using takes(4) d(3) by (simp add: pool_inv_def)
  qed
  ultimately show ?case
    using takes(4) d by (auto simp: pool_inv_def p')
next
  case (finishes i p m)
  have u: "in_hands ((tp_workers p)[i := w]) + {#m#} = in_hands (tp_workers p) + mset (worker_msgs w)" for w
    using in_hands_update [OF finishes(1), of w] finishes(2) by simp
  have single: "tp_workers p = [WorkerBusy m]" if "(tp_workers p)[i := v] = [w]" for v w
  proof -
    have "length (tp_workers p) = 1" using arg_cong [OF that, of length] by simp
    then show ?thesis using finishes(1,2) by (cases "tp_workers p"; auto)
  qed
  show ?case
  proof (cases "m = AsyncTerminate")
    case True
    then have f: "worker_finish i p = p\<lparr>tp_workers := (tp_workers p)[i := WorkerStopped]\<rparr>"
      using finishes(2) by (simp add: worker_finish_def)
    have "in_hands ((tp_workers p)[i := WorkerStopped]) = in_hands (tp_workers p)"
      using u [of WorkerStopped] True by simp
    moreover have "log_part (mq_out (tp_queue p)) = tp_done p @ log_part (worker_msgs w)"
      if "(tp_workers p)[i := WorkerStopped] = [w]" for w
      using single [OF that] that finishes(1,3) True by (auto simp: pool_inv_def)
    ultimately show ?thesis
      using finishes(3) by (auto simp: pool_inv_def f)
  next
    case False
    then have f: "worker_finish i p = p\<lparr>tp_workers := (tp_workers p)[i := WorkerIdle], tp_done := tp_done p @ [m]\<rparr>"
      using finishes(2) by (cases m) (simp_all add: worker_finish_def)
    have h: "in_hands (tp_workers p) = in_hands ((tp_workers p)[i := WorkerIdle]) + {#m#}"
      using u [of WorkerIdle] by simp
    have "mset (tp_done p) + in_hands (tp_workers p) =
        mset (tp_done p @ [m]) + in_hands ((tp_workers p)[i := WorkerIdle])"
      unfolding h by simp
    moreover have "log_part (mq_out (tp_queue p)) = (tp_done p @ [m]) @ log_part (worker_msgs w)"
      if "(tp_workers p)[i := WorkerIdle] = [w]" for w
      using single [OF that] that finishes(1,3) False by (auto simp: pool_inv_def)
    ultimately show ?thesis
      using finishes(3) False by (auto simp: pool_inv_def f)
  qed
qed

lemma pool_inv_made:
  assumes "mk_thread_pool q n = Inr p" and "q \<noteq> - 1"
  shows "pool_inv p \<and> length (tp_workers p) = n \<and> n > 0"
proof -
  have "unat (q + 1) > 0"
    using assms(2) by (metis add_eq_0_iff unat_gt_0 add.commute)
  then have "cq_max (mk_circular_q AsyncTerminate q) > 0"
    by (simp add: mk_circular_q_def Let_def)
  moreover have "mset (concat (map worker_msgs (replicate k WorkerIdle))) = {#}" for k
    by (induction k) simp_all
  moreover have "worker_msgs w = []" if "replicate n WorkerIdle = [w]" for w
    using that by (cases n) auto
  ultimately show ?thesis
    using assms(1)
    by (auto simp: mk_thread_pool_def pool_inv_def exact_inv_def mk_mpmc_def mk_circular_q_ok split: if_splits)
qed

lemma reachable_pool_inv:
  assumes "pool_reachable policies q n p" and "OverrunOldest \<notin> policies" and "q \<noteq> - 1"
  shows "pool_inv p \<and> length (tp_workers p) = n \<and> n > 0"
  using assms
proof (induction rule: pool_reachable.induct)
  case (pool_made p)
  then show ?case using pool_inv_made by blast
next
  case (pool_moved p p')
  then show ?case using pool_step_inv by metis
qed

lemma no_terminates:
  "AsyncTerminate \<notin> set ms \<Longrightarrow> filter_mset (\<lambda>m. m \<noteq> AsyncTerminate) (mset ms) = mset ms"
  by (induction ms) auto

lemma all_stopped_hands:
  "list_all (\<lambda>w. w = WorkerStopped) ws \<Longrightarrow> in_hands ws = replicate_mset (length ws) AsyncTerminate"
  by (induction ws) simp_all



text \<open>One worker, one message: posted, terminated, taken, done, stopped.\<close>

fun pool_script :: "nat \<Rightarrow> pool" where
  "pool_script 0 = (case mk_thread_pool 2 1 of Inr p \<Rightarrow> p)"
| "pool_script (Suc k) =
     (let p = pool_script k in
      if k = 0 then the (post_async_msg Block (AsyncFlush 7) p)
      else if k = 1 then p\<lparr>tp_dying := True\<rparr>
      else if k = 2 then the (post_async_msg Block AsyncTerminate p)
      else if k = 3 \<or> k = 5 then the (worker_take 0 p)
      else worker_finish 0 p)"

lemma pool_script_reachable: "pool_reachable {Block} 2 1 (pool_script 7)"
proof -
  let ?r = "\<lambda>k. pool_reachable {Block} 2 1 (pool_script k)"
  have "mk_thread_pool 2 1 = Inr (pool_script 0)"
    by (simp add: mk_thread_pool_def)
  then have 0: "?r 0" by (rule pool_made)
  have "post_async_msg Block (AsyncFlush 7) (pool_script 0) \<noteq> None" "\<not> tp_dying (pool_script 0)"
    by code_simp+
  then have "pool_step {Block} (pool_script 0) (pool_script 1)"
    by (intro posts [where policy = Block and m = "AsyncFlush 7"]) (auto simp: Let_def)
  then have 1: "?r 1" using 0 by (rule pool_moved [rotated])
  have 2: "?r 2"
    using pool_moved [OF 1 dies] by (simp add: numeral_2_eq_2 Let_def)
  have "post_async_msg Block AsyncTerminate (pool_script 2) \<noteq> None" "tp_dying (pool_script 2)"
    "count_list (mq_in (tp_queue (pool_script 2))) AsyncTerminate < length (tp_workers (pool_script 2))"
    by code_simp+
  then have "pool_step {Block} (pool_script 2) (pool_script 3)"
    by (intro terminates) (auto simp: Let_def eval_nat_numeral)
  then have 3: "?r 3" using 2 by (rule pool_moved [rotated])
  have take: "pool_step {Block} (pool_script k) (the (worker_take 0 (pool_script k)))"
    if "worker_take 0 (pool_script k) \<noteq> None" "0 < length (tp_workers (pool_script k))"
      "tp_workers (pool_script k) ! 0 = WorkerIdle" for k
    using that by (intro takes [of 0]) auto
  have "worker_take 0 (pool_script 3) \<noteq> None" "0 < length (tp_workers (pool_script 3))"
    "tp_workers (pool_script 3) ! 0 = WorkerIdle"
    by code_simp+
  from take [OF this] have 4: "?r 4" using 3
    by (auto simp: Let_def eval_nat_numeral intro: pool_moved)
  have "0 < length (tp_workers (pool_script 4))" "tp_workers (pool_script 4) ! 0 = WorkerBusy (AsyncFlush 7)"
    by code_simp+
  from finishes [OF this] have 5: "?r 5" using 4
    by (auto simp: Let_def eval_nat_numeral intro: pool_moved)
  have "worker_take 0 (pool_script 5) \<noteq> None" "0 < length (tp_workers (pool_script 5))"
    "tp_workers (pool_script 5) ! 0 = WorkerIdle"
    by code_simp+
  from take [OF this] have 6: "?r 6" using 5
    by (auto simp: Let_def eval_nat_numeral intro: pool_moved)
  have "0 < length (tp_workers (pool_script 6))" "tp_workers (pool_script 6) ! 0 = WorkerBusy AsyncTerminate"
    by code_simp+
  from finishes [OF this] show ?thesis using 6
    by (auto simp: Let_def eval_nat_numeral intro: pool_moved)
qed


end
