(* ===== verification/Log_Registry.thy ===== *)
theory Log_Registry
  imports Log_Pool "HOL-Library.AList"
begin

text \<open>
  The registry of loggers (\<^verbatim>\<open>details/registry.h\<close>, \<^verbatim>\<open>details/registry-inl.h\<close>), the default API over
  it (\<^verbatim>\<open>spdlog-inl.h\<close>), the asynchronous factory (\<^verbatim>\<open>async.h\<close>), the periodic flusher
  (\<^verbatim>\<open>details/periodic_worker.h\<close>) and the level settings read from a text
  (\<^verbatim>\<open>cfg/helpers-inl.h\<close>). Loggers are shared objects: \<open>rg_objects\<close> is their store and a
  \<^verbatim>\<open>shared_ptr\<close> is an index into it. The hash maps are association lists with distinct keys, in the
  order in which a loop visits them.
\<close>

section \<open>State\<close>

record log_object =
  lo_logger :: logger
  lo_async :: "(overflow_policy \<times> nat) option"

record registry =
  rg_objects :: "log_object list"
  rg_loggers :: "(string \<times> nat) list"
  rg_log_levels :: "(string \<times> log_level) list"
  rg_formatter :: string
  rg_global_level :: log_level
  rg_flush_level :: log_level
  rg_err_handler :: "nat option"
  rg_pools :: "pool list"
  rg_tp :: "nat option"
  rg_flusher :: "int option"
  rg_default :: "nat option"
  rg_automatic :: bool
  rg_backtrace_n :: size_t

definition mk_registry :: registry where
  "mk_registry =
     \<lparr>rg_objects = [\<lparr>lo_logger = mk_logger [] [L_trace], lo_async = None\<rparr>], rg_loggers = [([], 0)],
      rg_log_levels = [], rg_formatter = ''%+'', rg_global_level = L_info, rg_flush_level = L_off,
      rg_err_handler = None, rg_pools = [], rg_tp = None, rg_flusher = None, rg_default = Some 0,
      rg_automatic = True, rg_backtrace_n = 0\<rparr>"

abbreviation the_logger :: "registry \<Rightarrow> nat \<Rightarrow> logger" where
  "the_logger r i \<equiv> lo_logger (rg_objects r ! i)"

abbreviation name_of :: "registry \<Rightarrow> nat \<Rightarrow> string" where
  "name_of r i \<equiv> lg_name (the_logger r i)"

definition with_logger :: "nat \<Rightarrow> (logger \<Rightarrow> logger) \<Rightarrow> registry \<Rightarrow> registry" where
  "with_logger i f r =
     r\<lparr>rg_objects := (rg_objects r)[i := (rg_objects r ! i)\<lparr>lo_logger := f (the_logger r i)\<rparr>]\<rparr>"

section \<open>Operations\<close>

definition throw_if_exists :: "string \<Rightarrow> registry \<Rightarrow> string option" where
  "throw_if_exists logger_name r =
     (if map_of (rg_loggers r) logger_name \<noteq> None
      then Some (''logger with name '' @ [CHR 0x27] @ logger_name @ [CHR 0x27] @ '' already exists'') else None)"

definition register_logger :: "nat \<Rightarrow> registry \<Rightarrow> string option \<times> registry" where
  "register_logger new r =
     (case throw_if_exists (name_of r new) r of
        Some e \<Rightarrow> (Some e, r)
      | None \<Rightarrow> (None, r\<lparr>rg_loggers := AList.update (name_of r new) new (rg_loggers r)\<rparr>))"

definition register_or_replace :: "nat \<Rightarrow> registry \<Rightarrow> registry" where
  "register_or_replace new r = r\<lparr>rg_loggers := AList.update (name_of r new) new (rg_loggers r)\<rparr>"

definition configured_level :: "string \<Rightarrow> registry \<Rightarrow> log_level" where
  "configured_level name r = (case map_of (rg_log_levels r) name of Some l \<Rightarrow> l | None \<Rightarrow> rg_global_level r)"

definition initialize_logger :: "nat \<Rightarrow> registry \<Rightarrow> string option \<times> registry" where
  "initialize_logger new r =
     (let r1 = with_logger new (logger_set_formatter (rg_formatter r)) r;
          r2 = (case rg_err_handler r1 of None \<Rightarrow> r1 | Some h \<Rightarrow> with_logger new (logger_set_error_handler (Some h)) r1);
          r3 = with_logger new (logger_set_level (configured_level (name_of r2 new) r2)) r2;
          r4 = with_logger new (logger_flush_on (rg_flush_level r3)) r3;
          r5 = (if rg_backtrace_n r4 > 0 then with_logger new (logger_enable_backtrace (rg_backtrace_n r4)) r4 else r4)
      in if rg_automatic r5 then register_logger new r5 else (None, r5))"

definition registry_get :: "string \<Rightarrow> registry \<Rightarrow> nat option" where
  "registry_get logger_name r = map_of (rg_loggers r) logger_name"

definition set_default_logger :: "nat option \<Rightarrow> registry \<Rightarrow> registry" where
  "set_default_logger new r =
     (let r1 = (case new of None \<Rightarrow> r | Some i \<Rightarrow> r\<lparr>rg_loggers := AList.update (name_of r i) i (rg_loggers r)\<rparr>)
      in r1\<lparr>rg_default := new\<rparr>)"

definition set_tp :: "nat option \<Rightarrow> registry \<Rightarrow> registry" where
  "set_tp tp r = r\<lparr>rg_tp := tp\<rparr>"

text \<open>The registry holds the only owner of a pool; asynchronous loggers point to it weakly.\<close>

definition pool_alive :: "nat \<Rightarrow> registry \<Rightarrow> bool" where
  "pool_alive tp r \<longleftrightarrow> rg_tp r = Some tp"

definition make_pool :: "size_t \<Rightarrow> nat \<Rightarrow> registry \<Rightarrow> string + registry" where
  "make_pool q_size thread_count r =
     (case mk_thread_pool q_size thread_count of
        Inl e \<Rightarrow> Inl e
      | Inr tp \<Rightarrow> Inr (set_tp (Some (length (rg_pools r))) (r\<lparr>rg_pools := rg_pools r @ [tp]\<rparr>)))"

text \<open>The loop over \<^verbatim>\<open>loggers_\<close>; \<open>apply_all\<close> runs its argument on every registered logger.\<close>

definition apply_all :: "(logger \<Rightarrow> logger) \<Rightarrow> registry \<Rightarrow> registry" where
  "apply_all f r = fold (\<lambda>(k, i). with_logger i f) (rg_loggers r) r"

definition set_formatter :: "string \<Rightarrow> registry \<Rightarrow> registry" where
  "set_formatter pattern r = apply_all (logger_set_formatter pattern) (r\<lparr>rg_formatter := pattern\<rparr>)"

definition enable_backtrace :: "size_t \<Rightarrow> registry \<Rightarrow> registry" where
  "enable_backtrace n r = apply_all (logger_enable_backtrace n) (r\<lparr>rg_backtrace_n := n\<rparr>)"

definition disable_backtrace :: "registry \<Rightarrow> registry" where
  "disable_backtrace r = apply_all logger_disable_backtrace (r\<lparr>rg_backtrace_n := 0\<rparr>)"

definition set_level :: "log_level \<Rightarrow> registry \<Rightarrow> registry" where
  "set_level l r = (apply_all (logger_set_level l) r)\<lparr>rg_global_level := l\<rparr>"

definition flush_on :: "log_level \<Rightarrow> registry \<Rightarrow> registry" where
  "flush_on l r = (apply_all (logger_flush_on l) r)\<lparr>rg_flush_level := l\<rparr>"

definition set_error_handler :: "nat option \<Rightarrow> registry \<Rightarrow> registry" where
  "set_error_handler h r = (apply_all (logger_set_error_handler h) r)\<lparr>rg_err_handler := h\<rparr>"

text \<open>\<open>flush_all\<close>: an exception that is not a standard one ends the loop.\<close>

fun flush_each :: "(nat \<Rightarrow> log_effect list \<times> bool) \<Rightarrow> (string \<times> nat) list \<Rightarrow> (nat \<times> log_effect) list \<times> bool" where
  "flush_each fl [] = ([], False)"
| "flush_each fl ((k, i) # ls) =
     (let (es, x) = fl i in
      if x then (map (Pair i) es, True)
      else let (rest, y) = flush_each fl ls in (map (Pair i) es @ rest, y))"

definition flush_of :: "(log_effect \<Rightarrow> outcome) \<Rightarrow> registry \<Rightarrow> nat \<Rightarrow> log_effect list \<times> bool" where
  "flush_of throws r i =
     (case lo_async (rg_objects r ! i) of
        None \<Rightarrow> logger_flush throws (the_logger r i)
      | Some (policy, tp) \<Rightarrow> async_flush (pool_alive tp r) (the_logger r i))"

definition flush_all :: "(log_effect \<Rightarrow> outcome) \<Rightarrow> registry \<Rightarrow> (nat \<times> log_effect) list \<times> bool" where
  "flush_all throws r = flush_each (flush_of throws r) (rg_loggers r)"

definition registry_drop :: "string \<Rightarrow> registry \<Rightarrow> registry" where
  "registry_drop logger_name r =
     (let is_default_logger = (case rg_default r of None \<Rightarrow> False | Some i \<Rightarrow> name_of r i = logger_name);
          r1 = r\<lparr>rg_loggers := AList.delete logger_name (rg_loggers r)\<rparr>
      in if is_default_logger then r1\<lparr>rg_default := None\<rparr> else r1)"

definition drop_all :: "registry \<Rightarrow> registry" where
  "drop_all r = r\<lparr>rg_loggers := [], rg_default := None\<rparr>"

text \<open>\<open>flush_every\<close>: a worker with a period that is not positive starts no thread.\<close>

definition periodic_active :: "int \<Rightarrow> bool" where
  "periodic_active interval \<longleftrightarrow> interval > 0"

definition flush_every :: "int \<Rightarrow> registry \<Rightarrow> registry" where
  "flush_every interval r = r\<lparr>rg_flusher := Some interval\<rparr>"

text \<open>How the flusher's thread runs: \<open>stopped k\<close> says whether its wait number \<open>k\<close> sees the destructor.\<close>

partial_function (option) periodic_loop :: "(nat \<Rightarrow> bool) \<Rightarrow> nat \<Rightarrow> nat option" where
  "periodic_loop stopped k = (if stopped k then Some k else periodic_loop stopped (Suc k))"

definition registry_shutdown :: "registry \<Rightarrow> registry" where
  "registry_shutdown r = set_tp None (drop_all (r\<lparr>rg_flusher := None\<rparr>))"

definition set_automatic_registration :: "bool \<Rightarrow> registry \<Rightarrow> registry" where
  "set_automatic_registration b r = r\<lparr>rg_automatic := b\<rparr>"

fun set_each_level :: "(string \<times> log_level) list \<Rightarrow> log_level option \<Rightarrow> (string \<times> nat) list \<Rightarrow> registry \<Rightarrow> registry" where
  "set_each_level levels global [] r = r"
| "set_each_level levels global ((k, i) # ls) r =
     set_each_level levels global ls
       (case map_of levels k of
          Some l \<Rightarrow> with_logger i (logger_set_level l) r
        | None \<Rightarrow> (case global of Some g \<Rightarrow> with_logger i (logger_set_level g) r | None \<Rightarrow> r))"

definition set_levels :: "(string \<times> log_level) list \<Rightarrow> log_level option \<Rightarrow> registry \<Rightarrow> registry" where
  "set_levels levels global r =
     (let r1 = r\<lparr>rg_log_levels := levels,
                 rg_global_level := (case global of Some g \<Rightarrow> g | None \<Rightarrow> rg_global_level r)\<rparr>
      in set_each_level levels global (rg_loggers r1) r1)"

definition apply_logger_env_levels :: "nat \<Rightarrow> registry \<Rightarrow> registry" where
  "apply_logger_env_levels new r = with_logger new (logger_set_level (configured_level (name_of r new) r)) r"

text \<open>A logger made outside the registry, and the one of the asynchronous factory.\<close>

definition make_logger :: "logger \<Rightarrow> (overflow_policy \<times> nat) option \<Rightarrow> registry \<Rightarrow> nat \<times> registry" where
  "make_logger lg async r =
     (length (rg_objects r), r\<lparr>rg_objects := rg_objects r @ [\<lparr>lo_logger = lg, lo_async = async\<rparr>]\<rparr>)"

text \<open>\<open>sink_error\<close>: what the constructor of the sink throws, if it throws.\<close>

definition create_async ::
  "overflow_policy \<Rightarrow> string option \<Rightarrow> string \<Rightarrow> registry \<Rightarrow> (string + nat) \<times> registry" where
  "create_async policy sink_error logger_name r =
     (case (case rg_tp r of Some tp \<Rightarrow> Inr r | None \<Rightarrow> make_pool default_async_q_size 1 r) of
        Inl e \<Rightarrow> (Inl e, r)
      | Inr r1 \<Rightarrow>
          (case sink_error of
             Some e \<Rightarrow> (Inl e, r1)
           | None \<Rightarrow>
               (let (new, r2) = make_logger (mk_logger logger_name [L_trace]) (Some (policy, the (rg_tp r1))) r1
                in case initialize_logger new r2 of
                     (Some e, r3) \<Rightarrow> (Inl e, r3)
                   | (None, r3) \<Rightarrow> (Inr new, r3))))"

definition init_thread_pool :: "size_t \<Rightarrow> nat \<Rightarrow> registry \<Rightarrow> string option \<times> registry" where
  "init_thread_pool q_size thread_count r =
     (case make_pool q_size thread_count r of Inl e \<Rightarrow> (Some e, r) | Inr r1 \<Rightarrow> (None, r1))"

section \<open>The default API\<close>

text \<open>\<open>None\<close>: the call goes through a null pointer.\<close>

definition default_logger_raw :: "registry \<Rightarrow> nat option" where
  "default_logger_raw r = rg_default r"

definition logger_sink :: "(log_effect \<Rightarrow> outcome) \<Rightarrow> registry \<Rightarrow> nat \<Rightarrow> sink_it" where
  "logger_sink throws r i =
     (case lo_async (rg_objects r ! i) of
        None \<Rightarrow> logger_sink_it throws
      | Some (policy, tp) \<Rightarrow> async_sink_it (pool_alive tp r))"

definition default_log ::
  "(log_effect \<Rightarrow> outcome) \<Rightarrow> int \<Rightarrow> nat \<Rightarrow> log_level \<Rightarrow> outcome \<times> string \<Rightarrow> registry
     \<Rightarrow> (log_effect list \<times> bool \<times> registry) option" where
  "default_log throws now tid lvl text r =
     (case default_logger_raw r of
        None \<Rightarrow> None
      | Some i \<Rightarrow>
          (let (es, x, lg) = logger_log_fmt (logger_sink throws r i) now tid no_source lvl text (the_logger r i)
           in Some (es, x, with_logger i (\<lambda>_. lg) r)))"

definition default_should_log :: "log_level \<Rightarrow> registry \<Rightarrow> bool option" where
  "default_should_log l r = map_option (\<lambda>i. logger_should_log l (the_logger r i)) (default_logger_raw r)"

definition default_get_level :: "registry \<Rightarrow> log_level option" where
  "default_get_level r = map_option (\<lambda>i. lg_level (the_logger r i)) (default_logger_raw r)"

definition default_dump_backtrace ::
  "(log_effect \<Rightarrow> outcome) \<Rightarrow> int \<Rightarrow> nat \<Rightarrow> registry \<Rightarrow> (log_effect list \<times> bool \<times> registry) option" where
  "default_dump_backtrace throws now tid r =
     (case default_logger_raw r of
        None \<Rightarrow> None
      | Some i \<Rightarrow>
          (let (es, x, lg) = logger_dump_backtrace (logger_sink throws r i) now tid (the_logger r i)
           in Some (es, x, with_logger i (\<lambda>_. lg) r)))"


section \<open>Levels from a text\<close>

definition to_lower_char :: "char \<Rightarrow> char" where
  "to_lower_char ch = (if 65 \<le> (of_char ch :: nat) \<and> (of_char ch :: nat) \<le> 90 then char_of (of_char ch + (32 :: nat)) else ch)"

definition to_lower :: "string \<Rightarrow> string" where
  "to_lower s = map to_lower_char s"

definition blank :: "char \<Rightarrow> bool" where
  "blank c \<longleftrightarrow> c \<in> set [CHR '' '', CHR 0x0A, CHR 0x0D, CHR 0x09]"

definition trim_end :: "string \<Rightarrow> string" where
  "trim_end s = rev (dropWhile blank (rev s))"

definition trim :: "string \<Rightarrow> string" where
  "trim s = dropWhile blank (trim_end s)"

definition extract_kv :: "char \<Rightarrow> string \<Rightarrow> string \<times> string" where
  "extract_kv sep s =
     (if sep \<in> set s
      then (trim (takeWhile (\<lambda>c. c \<noteq> sep) s), trim (tl (dropWhile (\<lambda>c. c \<noteq> sep) s)))
      else (trim [], trim s))"

text \<open>\<^verbatim>\<open>std::getline\<close> until the stream is at its end.\<close>

function tokens :: "char \<Rightarrow> string \<Rightarrow> string list" where
  "tokens sep [] = []"
| "tokens sep (c # cs) =
     takeWhile (\<lambda>x. x \<noteq> sep) (c # cs) # tokens sep (tl (dropWhile (\<lambda>x. x \<noteq> sep) (c # cs)))"
  by pat_completeness auto
termination
proof (relation "measure (\<lambda>(sep, s). length s)", simp)
  fix sep c and cs :: string
  have "length (dropWhile (\<lambda>x. x \<noteq> sep) (c # cs)) \<le> length (c # cs)" by (rule length_dropWhile_le)
  then show "((sep, tl (dropWhile (\<lambda>x. x \<noteq> sep) (c # cs))), (sep, c # cs)) \<in> measure (\<lambda>(sep, s). length s)"
    by (simp del: dropWhile.simps)
qed

definition extract_key_vals :: "string \<Rightarrow> (string \<times> string) list" where
  "extract_key_vals s =
     fold (\<lambda>token rv. if token = [] then rv
                      else let (k, v) = extract_kv (CHR ''='') token in AList.update k v rv)
          (tokens (CHR '','') s) []"

fun read_levels :: "(string \<times> string) list \<Rightarrow> (string \<times> log_level) list \<Rightarrow> log_level option
    \<Rightarrow> (string \<times> log_level) list \<times> log_level option" where
  "read_levels [] levels global = (levels, global)"
| "read_levels ((logger_name, text) # rest) levels global =
     (let level_name = to_lower text; level = level_from_str level_name in
      if level = L_off \<and> level_name \<noteq> ''off'' then read_levels rest levels global
      else if logger_name = [] then read_levels rest levels (Some level)
      else read_levels rest (AList.update logger_name level levels) global)"

definition load_levels :: "string \<Rightarrow> registry \<Rightarrow> registry" where
  "load_levels input r =
     (if input = [] \<or> length input > 512 then r
      else let (levels, global) = read_levels (extract_key_vals input) [] None in set_levels levels global r)"

definition load_env_levels :: "(string \<Rightarrow> string option) \<Rightarrow> string \<Rightarrow> registry \<Rightarrow> registry" where
  "load_env_levels env var r =
     (let env_val = (case env var of None \<Rightarrow> [] | Some v \<Rightarrow> v)
      in if env_val \<noteq> [] then load_levels env_val r else r)"

definition load_argv_levels :: "string list \<Rightarrow> registry \<Rightarrow> registry" where
  "load_argv_levels argv r =
     fold (\<lambda>arg r. if take 13 arg = ''SPDLOG_LEVEL='' then load_levels (drop 13 arg) r else r) (tl argv) r"

section \<open>Frames\<close>

lemma with_logger_frame:
  "with_logger i f r = r\<lparr>rg_objects := rg_objects (with_logger i f r)\<rparr>"
  "length (rg_objects (with_logger i f r)) = length (rg_objects r)"
  by (simp_all add: with_logger_def)

lemma with_logger_at:
  "i < length (rg_objects r) \<Longrightarrow>
    rg_objects (with_logger i f r) ! j =
      (if j = i then (rg_objects r ! i)\<lparr>lo_logger := f (the_logger r i)\<rparr> else rg_objects r ! j)"
  by (simp add: with_logger_def)

lemma with_logger_same [simp]: "with_logger i (\<lambda>l. l) r = r"
proof -
  have "(rg_objects r ! i)\<lparr>lo_logger := the_logger r i\<rparr> = rg_objects r ! i" by simp
  then show ?thesis by (simp add: with_logger_def)
qed

definition each_logger :: "(string \<Rightarrow> logger \<Rightarrow> logger) \<Rightarrow> (string \<times> nat) list \<Rightarrow> registry \<Rightarrow> registry" where
  "each_logger g ls r = fold (\<lambda>(k, i). with_logger i (g k)) ls r"

lemma each_logger_simps [simp]:
  "each_logger g [] r = r"
  "each_logger g ((k, i) # ls) r = each_logger g ls (with_logger i (g k) r)"
  by (simp_all add: each_logger_def)

lemma apply_all_each: "apply_all f r = each_logger (\<lambda>_. f) (rg_loggers r) r"
  by (simp add: apply_all_def each_logger_def)

lemma set_each_level_each:
  "set_each_level levels global ls r =
     each_logger (\<lambda>k. case map_of levels k of Some l \<Rightarrow> logger_set_level l
       | None \<Rightarrow> (case global of Some g \<Rightarrow> logger_set_level g | None \<Rightarrow> (\<lambda>l. l))) ls r"
  by (induction levels global ls r rule: set_each_level.induct) (auto split: option.split)

lemma each_logger_frame:
  "each_logger g ls r = r\<lparr>rg_objects := rg_objects (each_logger g ls r)\<rparr>
   \<and> length (rg_objects (each_logger g ls r)) = length (rg_objects r)"
proof (induction ls arbitrary: r)
  case (Cons a ls)
  obtain k i where "a = (k, i)" by fastforce
  then show ?case
    using Cons [of "with_logger i (g k) r"] with_logger_frame [of i "g k" r]
    by simp (metis registry.surjective registry.update_convs(1))
qed simp

lemma each_logger_at:
  assumes "distinct (map snd ls)" and "\<forall>(k, i) \<in> set ls. i < length (rg_objects r)"
  shows "rg_objects (each_logger g ls r) ! j =
    (case map_of (map prod.swap ls) j of
       Some k \<Rightarrow> (rg_objects r ! j)\<lparr>lo_logger := g k (the_logger r j)\<rparr> | None \<Rightarrow> rg_objects r ! j)"
  using assms
proof (induction ls arbitrary: r)
  case (Cons a ls)
  obtain k i where a: "a = (k, i)" by fastforce
  have "rg_objects (each_logger g ls (with_logger i (g k) r)) ! j =
    (case map_of (map prod.swap ls) j of
       Some k' \<Rightarrow> (rg_objects (with_logger i (g k) r) ! j)\<lparr>lo_logger := g k' (the_logger (with_logger i (g k) r) j)\<rparr>
     | None \<Rightarrow> rg_objects (with_logger i (g k) r) ! j)"
    using Cons.prems a with_logger_frame(2) by (intro Cons.IH) auto
  moreover have "map_of (map prod.swap ls) i = None"
    using Cons.prems(1) a by (force simp: map_of_eq_None_iff)
  ultimately show ?case
    using Cons.prems(2) a by (auto simp: with_logger_at split: option.split)
qed simp


section \<open>The invariant of the registry\<close>

text \<open>
  Every entry leads to a logger of that name, no name occurs twice, and the default logger, if there
  is one, exists and its name is registered.
\<close>

definition entries_ok :: "registry \<Rightarrow> (string \<times> nat) list \<Rightarrow> bool" where
  "entries_ok r ls \<longleftrightarrow> distinct (map fst ls) \<and> (\<forall>(k, i) \<in> set ls. i < length (rg_objects r) \<and> name_of r i = k)"

definition registry_ok :: "registry \<Rightarrow> bool" where
  "registry_ok r \<longleftrightarrow> entries_ok r (rg_loggers r)
     \<and> (\<forall>i. rg_default r = Some i \<longrightarrow> i < length (rg_objects r) \<and> name_of r i \<in> fst ` set (rg_loggers r))"

definition registered :: "registry \<Rightarrow> nat \<Rightarrow> bool" where
  "registered r i \<longleftrightarrow> map_of (rg_loggers r) (name_of r i) = Some i"

lemma entries_ok_distinct: "entries_ok r ls \<Longrightarrow> distinct (map snd ls)"
  by (induction ls) (force simp: entries_ok_def)+

lemma entries_ok_swap:
  assumes "entries_ok r ls"
  shows "map_of (map prod.swap ls) i =
    (if map_of ls (name_of r i) = Some i then Some (name_of r i) else None)"
proof -
  have d: "distinct (map fst (map prod.swap ls))"
    using entries_ok_distinct [OF assms] by (simp add: comp_def prod.swap_def)
  have "map_of (map prod.swap ls) i = Some k \<longleftrightarrow> (k, i) \<in> set ls" for k
    using map_of_eq_Some_iff [OF d] by force
  moreover have "(k, i) \<in> set ls \<longleftrightarrow> k = name_of r i \<and> map_of ls (name_of r i) = Some i" for k
    using assms by (auto simp: entries_ok_def map_of_eq_Some_iff)
  ultimately show ?thesis
    by (metis option.exhaust option.inject)
qed

lemma each_logger_object:
  assumes "registry_ok r"
  shows "rg_objects (each_logger g (rg_loggers r) r) ! i =
    (if registered r i then (rg_objects r ! i)\<lparr>lo_logger := g (name_of r i) (the_logger r i)\<rparr> else rg_objects r ! i)"
proof -
  have ok: "entries_ok r (rg_loggers r)" using assms by (simp add: registry_ok_def)
  then have "\<forall>(k, i) \<in> set (rg_loggers r). i < length (rg_objects r)" by (auto simp: entries_ok_def)
  from each_logger_at [OF entries_ok_distinct [OF ok] this] show ?thesis
    by (simp add: entries_ok_swap [OF ok] registered_def)
qed

text \<open>Names are constant: what changes neither names nor entries keeps the invariant.\<close>

definition names_kept :: "registry \<Rightarrow> registry \<Rightarrow> bool" where
  "names_kept r r' \<longleftrightarrow> length (rg_objects r) \<le> length (rg_objects r')
     \<and> (\<forall>i < length (rg_objects r). name_of r' i = name_of r i)"

lemma names_kept_refl [simp]: "names_kept r r"
  by (simp add: names_kept_def)

lemma names_kept_trans: "names_kept r r' \<Longrightarrow> names_kept r' r'' \<Longrightarrow> names_kept r r''"
  by (simp add: names_kept_def)

lemma registry_ok_kept:
  assumes "registry_ok r" and "names_kept r r'" and "rg_loggers r' = rg_loggers r"
    and "rg_default r' = rg_default r"
  shows "registry_ok r'"
  using assms by (fastforce simp: registry_ok_def entries_ok_def names_kept_def)

definition keeps_name :: "(logger \<Rightarrow> logger) \<Rightarrow> bool" where
  "keeps_name f \<longleftrightarrow> (\<forall>l. lg_name (f l) = lg_name l)"

lemma keeps_name_ops [simp]:
  "keeps_name (\<lambda>l. l)" "keeps_name (logger_set_level l)" "keeps_name (logger_flush_on l)"
  "keeps_name (logger_set_formatter p)" "keeps_name (logger_set_error_handler h)"
  "keeps_name (logger_enable_backtrace n)" "keeps_name logger_disable_backtrace"
  by (simp_all add: keeps_name_def logger_set_level_def logger_flush_on_def logger_set_formatter_def
      logger_set_error_handler_def logger_enable_backtrace_def logger_disable_backtrace_def)

lemma with_logger_names: "keeps_name f \<Longrightarrow> names_kept r (with_logger i f r)"
  by (cases "length (rg_objects r) \<le> i")
    (auto simp: names_kept_def with_logger_def keeps_name_def nth_list_update not_le)

lemma each_logger_names: "(\<And>k. keeps_name (g k)) \<Longrightarrow> names_kept r (each_logger g ls r)"
proof (induction ls arbitrary: r)
  case (Cons a ls)
  obtain k i where "a = (k, i)" by fastforce
  then show ?case
    using names_kept_trans [OF with_logger_names [OF Cons.prems] Cons.IH [OF Cons.prems]] by simp
qed simp

lemma with_logger_fields [simp]:
  "rg_loggers (with_logger i f r) = rg_loggers r" "rg_default (with_logger i f r) = rg_default r"
  "rg_log_levels (with_logger i f r) = rg_log_levels r" "rg_global_level (with_logger i f r) = rg_global_level r"
  "rg_flush_level (with_logger i f r) = rg_flush_level r" "rg_formatter (with_logger i f r) = rg_formatter r"
  "rg_err_handler (with_logger i f r) = rg_err_handler r" "rg_automatic (with_logger i f r) = rg_automatic r"
  "rg_backtrace_n (with_logger i f r) = rg_backtrace_n r" "rg_tp (with_logger i f r) = rg_tp r"
  "rg_pools (with_logger i f r) = rg_pools r" "rg_flusher (with_logger i f r) = rg_flusher r"
  "length (rg_objects (with_logger i f r)) = length (rg_objects r)"
  by (simp_all add: with_logger_def)

lemma each_logger_fields [simp]:
  "rg_loggers (each_logger g ls r) = rg_loggers r" "rg_default (each_logger g ls r) = rg_default r"
  "rg_log_levels (each_logger g ls r) = rg_log_levels r" "rg_global_level (each_logger g ls r) = rg_global_level r"
  "rg_flush_level (each_logger g ls r) = rg_flush_level r" "rg_formatter (each_logger g ls r) = rg_formatter r"
  "rg_err_handler (each_logger g ls r) = rg_err_handler r" "rg_automatic (each_logger g ls r) = rg_automatic r"
  "rg_backtrace_n (each_logger g ls r) = rg_backtrace_n r" "rg_tp (each_logger g ls r) = rg_tp r"
  "rg_pools (each_logger g ls r) = rg_pools r" "rg_flusher (each_logger g ls r) = rg_flusher r"
  "length (rg_objects (each_logger g ls r)) = length (rg_objects r)"
  by (induction ls arbitrary: r) auto

lemma entries_ok_lookup:
  "entries_ok r ls \<longleftrightarrow> distinct (map fst ls)
     \<and> (\<forall>k i. map_of ls k = Some i \<longrightarrow> i < length (rg_objects r) \<and> name_of r i = k)"
  unfolding entries_ok_def by (auto simp: map_of_eq_Some_iff)

lemma entries_update:
  "entries_ok r ls \<Longrightarrow> i < length (rg_objects r) \<Longrightarrow> entries_ok r (AList.update (name_of r i) i ls)"
  unfolding entries_ok_lookup by (simp add: distinct_update update_conv' split: if_splits)

lemma entries_delete: "entries_ok r ls \<Longrightarrow> entries_ok r (AList.delete k ls)"
  unfolding entries_ok_lookup by (simp add: distinct_delete delete_conv')


lemma registry_ok_update:
  assumes "registry_ok r" and "i < length (rg_objects r)"
  shows "registry_ok (r\<lparr>rg_loggers := AList.update (name_of r i) i (rg_loggers r)\<rparr>)"
  using assms entries_update [of r "rg_loggers r" i]
  by (auto simp: registry_ok_def dom_update entries_ok_def)

lemma register_logger_ok:
  "registry_ok r \<Longrightarrow> i < length (rg_objects r) \<Longrightarrow> registry_ok (snd (register_logger i r))"
  by (simp add: register_logger_def registry_ok_update split: option.split)

text \<open>What \<open>initialize_logger\<close> makes of a logger.\<close>

definition initialized :: "registry \<Rightarrow> logger \<Rightarrow> logger" where
  "initialized r lg =
     lg\<lparr>lg_formats := give_formatter (rg_formatter r) (lg_formats lg),
        lg_handler := (if rg_err_handler r = None then lg_handler lg else rg_err_handler r),
        lg_level := configured_level (lg_name lg) r, lg_flush_level := rg_flush_level r,
        lg_tracer := (if rg_backtrace_n r > 0 then bt_enable (rg_backtrace_n r) (lg_tracer lg) else lg_tracer lg)\<rparr>"

lemma with_logger_twice: "with_logger i f (with_logger i g r) = with_logger i (\<lambda>l. f (g l)) r"
  by (cases "length (rg_objects r) \<le> i") (simp_all add: with_logger_def list_update_beyond)

lemma initialized_name [simp]: "lg_name (initialized r lg) = lg_name lg"
  by (simp add: initialized_def)

lemma keeps_initialized [simp]: "keeps_name (initialized r)"
  by (simp add: keeps_name_def)

lemmas logger_ops = logger_flush_on_def logger_set_level_def logger_set_formatter_def
  logger_set_error_handler_def logger_enable_backtrace_def logger_disable_backtrace_def

lemma with_logger_cong:
  "f (the_logger r i) = g (the_logger r i) \<Longrightarrow> with_logger i f r = with_logger i g r"
  by (simp add: with_logger_def)

lemma configured_level_with [simp]: "configured_level name (with_logger i f r) = configured_level name r"
  by (simp add: configured_level_def split: option.split)

lemma initialize_logger_eq:
  assumes "i < length (rg_objects r)"
  shows "initialize_logger i r =
    (if rg_automatic r then register_logger i (with_logger i (initialized r) r) else (None, with_logger i (initialized r) r))"
proof -
  have n: "name_of (with_logger i f r) i = name_of r i" if "keeps_name f" for f
    using that assms by (simp add: with_logger_at keeps_name_def)
  have k: "keeps_name (\<lambda>l. logger_set_error_handler h (logger_set_formatter p l))" for h p
    by (simp add: keeps_name_def logger_ops)
  define F where "F l =
    (let l1 = logger_set_formatter (rg_formatter r) l;
         l2 = (case rg_err_handler r of None \<Rightarrow> l1 | Some h \<Rightarrow> logger_set_error_handler (Some h) l1);
         l4 = logger_flush_on (rg_flush_level r) (logger_set_level (configured_level (name_of r i) r) l2)
     in if rg_backtrace_n r > 0 then logger_enable_backtrace (rg_backtrace_n r) l4 else l4)" for l
  have "initialize_logger i r =
      (if rg_automatic r then register_logger i (with_logger i F r) else (None, with_logger i F r))"
    by (cases "rg_err_handler r"; cases "rg_backtrace_n r > 0")
      (simp_all add: initialize_logger_def F_def [abs_def] Let_def with_logger_twice n k)
  moreover have "F (the_logger r i) = initialized r (the_logger r i)"
    by (cases "rg_err_handler r"; cases "rg_backtrace_n r > 0")
      (simp_all add: F_def initialized_def logger_ops Let_def)
  then have "with_logger i F r = with_logger i (initialized r) r"
    by (rule with_logger_cong)
  ultimately show ?thesis by simp
qed

lemma apply_all_ok: "registry_ok r \<Longrightarrow> keeps_name f \<Longrightarrow> registry_ok (apply_all f r)"
  unfolding apply_all_each by (rule registry_ok_kept) (simp_all add: each_logger_names)

text \<open>Fields the invariant does not read.\<close>

lemma registry_ok_fields [simp]:
  "registry_ok (r\<lparr>rg_formatter := p\<rparr>) = registry_ok r" "registry_ok (r\<lparr>rg_backtrace_n := n\<rparr>) = registry_ok r"
  "registry_ok (r\<lparr>rg_global_level := l\<rparr>) = registry_ok r" "registry_ok (r\<lparr>rg_flush_level := l\<rparr>) = registry_ok r"
  "registry_ok (r\<lparr>rg_err_handler := h\<rparr>) = registry_ok r" "registry_ok (r\<lparr>rg_tp := tp\<rparr>) = registry_ok r"
  "registry_ok (r\<lparr>rg_pools := ps\<rparr>) = registry_ok r" "registry_ok (r\<lparr>rg_flusher := fl\<rparr>) = registry_ok r"
  "registry_ok (r\<lparr>rg_automatic := b\<rparr>) = registry_ok r" "registry_ok (r\<lparr>rg_log_levels := ls\<rparr>) = registry_ok r"
  by (simp_all add: registry_ok_def entries_ok_def)

lemma with_logger_ok: "registry_ok r \<Longrightarrow> keeps_name f \<Longrightarrow> registry_ok (with_logger i f r)"
  by (rule registry_ok_kept) (simp_all add: with_logger_names)

lemma initialize_logger_ok: "registry_ok r \<Longrightarrow> i < length (rg_objects r) \<Longrightarrow> registry_ok (snd (initialize_logger i r))"
  by (simp add: initialize_logger_eq register_logger_ok with_logger_ok)

lemma each_logger_ok: "registry_ok r \<Longrightarrow> (\<And>k. keeps_name (g k)) \<Longrightarrow> registry_ok (each_logger g ls r)"
  by (rule registry_ok_kept) (simp_all add: each_logger_names)

lemma set_levels_ok: "registry_ok r \<Longrightarrow> registry_ok (set_levels levels global r)"
  by (auto simp: set_levels_def set_each_level_each Let_def intro!: each_logger_ok split: option.split)

lemma make_logger_ok: "registry_ok r \<Longrightarrow> registry_ok (snd (make_logger lg async r))"
  by (rule registry_ok_kept) (auto simp: make_logger_def names_kept_def nth_append)

lemma make_pool_ok: "registry_ok r \<Longrightarrow> make_pool q n r = Inr r' \<Longrightarrow> registry_ok r'"
  by (auto simp: make_pool_def set_tp_def split: sum.splits)

lemma create_async_ok: "registry_ok r \<Longrightarrow> registry_ok (snd (create_async policy sink_error name r))"
proof -
  assume ok: "registry_ok r"
  have "registry_ok r1" if "(case rg_tp r of Some tp \<Rightarrow> Inr r | None \<Rightarrow> make_pool default_async_q_size 1 r) = Inr r1" for r1
    using that ok make_pool_ok by (auto split: option.splits)
  moreover have "i < length (rg_objects r2)" if "make_logger lg async r1 = (i, r2)" for lg async i r1 r2
    using that by (auto simp: make_logger_def)
  ultimately show ?thesis
    using ok make_logger_ok initialize_logger_ok
    by (auto simp: create_async_def Let_def split: sum.split option.split prod.split) (metis snd_conv)+
qed

lemma entries_ok_objects: "rg_objects r' = rg_objects r \<Longrightarrow> entries_ok r' ls \<longleftrightarrow> entries_ok r ls"
  by (simp add: entries_ok_def)

lemma set_default_logger_ok:
  assumes "registry_ok r" and "\<And>i. new = Some i \<Longrightarrow> i < length (rg_objects r)"
  shows "registry_ok (set_default_logger new r)"
proof (cases new)
  case None
  then show ?thesis using assms(1) by (simp add: set_default_logger_def registry_ok_def entries_ok_def)
next
  case (Some i)
  let ?ls = "AList.update (name_of r i) i (rg_loggers r)"
  have "entries_ok r ?ls"
    using assms Some by (intro entries_update) (simp_all add: registry_ok_def)
  then show ?thesis
    using Some assms(2) entries_ok_objects [of "r\<lparr>rg_loggers := ?ls, rg_default := Some i\<rparr>" r]
    by (simp add: set_default_logger_def registry_ok_def dom_update)
qed

lemma registry_drop_ok:
  assumes "registry_ok r"
  shows "registry_ok (registry_drop name r)"
proof -
  let ?ls = "AList.delete name (rg_loggers r)"
  have "entries_ok r ?ls"
    using assms by (intro entries_delete) (simp add: registry_ok_def)
  then have "entries_ok (registry_drop name r) ?ls"
    using entries_ok_objects [of "registry_drop name r" r] by (simp add: registry_drop_def Let_def)
  moreover have "fst ` set ?ls = fst ` set (rg_loggers r) - {name}"
    by (metis delete_keys set_map set_removeAll)
  ultimately show ?thesis
    using assms by (auto simp: registry_ok_def registry_drop_def Let_def split: option.splits)
qed


section \<open>The registry as a state machine\<close>

inductive registry_step :: "registry \<Rightarrow> registry \<Rightarrow> bool" where
  makes: "registry_step r (snd (make_logger lg async r))"
| registers: "i < length (rg_objects r) \<Longrightarrow> registry_step r (snd (register_logger i r))"
| replaces: "i < length (rg_objects r) \<Longrightarrow> registry_step r (register_or_replace i r)"
| initializes: "i < length (rg_objects r) \<Longrightarrow> registry_step r (snd (initialize_logger i r))"
| default_set: "i < length (rg_objects r) \<Longrightarrow> registry_step r (set_default_logger (Some i) r)"
| default_reset: "registry_step r (set_default_logger None r)"
| formatter_set: "registry_step r (set_formatter p r)"
| backtrace_on: "registry_step r (enable_backtrace n r)"
| backtrace_off: "registry_step r (disable_backtrace r)"
| level_set: "registry_step r (set_level l r)"
| flush_level_set: "registry_step r (flush_on l r)"
| handler_set: "registry_step r (set_error_handler h r)"
| applies: "keeps_name f \<Longrightarrow> registry_step r (apply_all f r)"
| drops: "registry_step r (registry_drop name r)"
| drops_all: "registry_step r (drop_all r)"
| shuts_down: "registry_step r (registry_shutdown r)"
| automatic: "registry_step r (set_automatic_registration b r)"
| levels_set: "registry_step r (set_levels levels global r)"
| loads_levels: "registry_step r (load_levels input r)"
| env_levels: "i < length (rg_objects r) \<Longrightarrow> registry_step r (apply_logger_env_levels i r)"
| creates: "registry_step r (snd (create_async policy sink_error name r))"
| pool_made: "registry_step r (snd (init_thread_pool q n r))"
| flusher_set: "registry_step r (flush_every interval r)"
| logs: "default_log throws now tid lvl text r = Some (es, x, r') \<Longrightarrow> registry_step r r'"

inductive registry_reachable :: "registry \<Rightarrow> bool" where
  registry_made: "registry_reachable mk_registry"
| registry_moved: "registry_reachable r \<Longrightarrow> registry_step r r' \<Longrightarrow> registry_reachable r'"

lemma mk_registry_ok: "registry_ok mk_registry"
  by (simp add: registry_ok_def entries_ok_def mk_registry_def mk_logger_def)

lemma logger_log_fmt_name:
  "logger_log_fmt sink now tid loc lvl text lg = (es, x, lg') \<Longrightarrow> lg_name lg' = lg_name lg"
  by (auto simp: logger_log_fmt_def logger_log_it_def Let_def split: if_splits outcome.splits prod.splits)

lemma default_log_ok:
  assumes "registry_ok r" and "default_log throws now tid lvl text r = Some (es, x, r')"
  shows "registry_ok r'"
proof -
  obtain i lg where i: "rg_default r = Some i" and r': "r' = with_logger i (\<lambda>_. lg) r"
    and lg: "logger_log_fmt (logger_sink throws r i) now tid no_source lvl text (the_logger r i) = (es, x, lg)"
    using assms(2) by (auto simp: default_log_def default_logger_raw_def split: option.splits prod.splits)
  note n = logger_log_fmt_name [OF lg]
  have "names_kept r r'"
    using assms(1) i n by (auto simp: r' names_kept_def with_logger_at registry_ok_def)
  then show ?thesis
    using assms(1) by (intro registry_ok_kept [of r r']) (simp_all add: r')
qed

lemma registry_step_ok: "registry_step r r' \<Longrightarrow> registry_ok r \<Longrightarrow> registry_ok r'"
proof (induction rule: registry_step.induct)
  case (replaces i r)
  then show ?case by (simp add: register_or_replace_def registry_ok_update)
next
  case (pool_made r q n)
  then show ?case by (auto simp: init_thread_pool_def make_pool_ok split: sum.split)
next
  case (loads_levels r input)
  then show ?case by (simp add: load_levels_def set_levels_ok split: prod.split)
next
  case (drops_all r)
  then show ?case by (simp add: drop_all_def registry_ok_def entries_ok_def)
next
  case (shuts_down r)
  then show ?case by (simp add: registry_shutdown_def set_tp_def drop_all_def registry_ok_def entries_ok_def)
next
  case (default_reset r)
  then show ?case by (intro set_default_logger_ok) simp_all
next
  case (default_set i r)
  then show ?case by (intro set_default_logger_ok) simp_all
next
  case (logs throws now tid lvl body r es x r')
  then show ?case using default_log_ok by blast
qed (simp_all add: make_logger_ok register_logger_ok initialize_logger_ok set_default_logger_ok set_formatter_def
    enable_backtrace_def disable_backtrace_def set_level_def flush_on_def set_error_handler_def apply_all_ok
    registry_drop_ok set_automatic_registration_def set_levels_ok apply_logger_env_levels_def with_logger_ok
    create_async_ok flush_every_def)

lemma registry_reachable_ok: "registry_reachable r \<Longrightarrow> registry_ok r"
  by (induction rule: registry_reachable.induct) (simp_all add: mk_registry_ok registry_step_ok)

text \<open>
  Whatever the program does with the registry, looking a name up gives a logger of exactly that
  name, no logger is registered under two names, and the default logger, when there is one, exists and
  its name can be looked up.
\<close>

theorem registry_lookup_consistent:
  assumes "registry_reachable r"
  shows "(\<forall>name i. registry_get name r = Some i \<longrightarrow> i < length (rg_objects r) \<and> name_of r i = name)
    \<and> (\<forall>i. default_logger_raw r = Some i \<longrightarrow> i < length (rg_objects r) \<and> registry_get (name_of r i) r \<noteq> None)"
proof -
  have ok: "registry_ok r" using registry_reachable_ok [OF assms] .
  then have "\<forall>name i. registry_get name r = Some i \<longrightarrow> i < length (rg_objects r) \<and> name_of r i = name"
    by (simp add: registry_ok_def entries_ok_lookup registry_get_def)
  moreover have "registry_get (name_of r i) r \<noteq> None" if "default_logger_raw r = Some i" for i
    using ok that by (simp add: registry_ok_def default_logger_raw_def registry_get_def map_of_eq_None_iff)
  ultimately show ?thesis using ok by (simp add: registry_ok_def default_logger_raw_def)
qed

definition two_loggers :: registry where
  "two_loggers = snd (register_logger 1 (snd (make_logger (mk_logger ''a'' [L_trace]) None mk_registry)))"

lemma two_loggers_reachable: "registry_reachable two_loggers"
  unfolding two_loggers_def
  by (rule registry_moved [OF registry_moved [OF registry_made makes] registers])
    (simp add: make_logger_def mk_registry_def)

lemma two_loggers_state:
  "rg_loggers two_loggers = [([], 0), (''a'', 1)]" "length (rg_objects two_loggers) = 2"
  "the_logger two_loggers 1 = mk_logger ''a'' [L_trace]" "rg_automatic two_loggers" "rg_log_levels two_loggers = []"
  "rg_default two_loggers = Some 0" "the_logger two_loggers (Suc 0) = mk_logger ''a'' [L_trace]"
  by (simp_all add: two_loggers_def register_logger_def throw_if_exists_def make_logger_def mk_registry_def mk_logger_def)

theorem registry_lookup_consistent_witness:
  "registry_get ''a'' two_loggers = Some 1 \<and> name_of two_loggers 1 = ''a''"
proof -
  have "\<forall>name i. registry_get name two_loggers = Some i \<longrightarrow> i < length (rg_objects two_loggers) \<and> name_of two_loggers i = name"
    using registry_lookup_consistent [OF two_loggers_reachable] by blast
  moreover have "registry_get ''a'' two_loggers = Some 1"
    by (simp add: registry_get_def two_loggers_state)
  ultimately show ?thesis by blast
qed

section \<open>Levels\<close>

lemma set_levels_object:
  assumes "registry_ok r"
  shows "the_logger (set_levels levels global r) i =
    (if registered r i
     then logger_set_level (case map_of levels (name_of r i) of Some l \<Rightarrow> l
            | None \<Rightarrow> (case global of Some g \<Rightarrow> g | None \<Rightarrow> lg_level (the_logger r i))) (the_logger r i)
     else the_logger r i)"
proof -
  let ?r1 = "r\<lparr>rg_log_levels := levels, rg_global_level := (case global of Some g \<Rightarrow> g | None \<Rightarrow> rg_global_level r)\<rparr>"
  have "registry_ok ?r1" using assms by simp
  from each_logger_object [OF this, of _ i]
  have "rg_objects (each_logger g (rg_loggers r) ?r1) ! i =
      (if registered r i then (rg_objects r ! i)\<lparr>lo_logger := g (name_of r i) (the_logger r i)\<rparr> else rg_objects r ! i)" for g
    by (simp add: registered_def)
  then show ?thesis
    by (simp add: set_levels_def set_each_level_each Let_def logger_set_level_def split: option.split)
qed


text \<open>A settings text: bindings \<^verbatim>\<open>name=level\<close>, the global level bound to the empty name.\<close>

definition binding_text :: "string \<times> log_level \<Rightarrow> string" where
  "binding_text b = fst b @ CHR ''='' # level_to_string (snd b)"

fun settings_text :: "(string \<times> log_level) list \<Rightarrow> string" where
  "settings_text [] = []"
| "settings_text [b] = binding_text b"
| "settings_text (b # c # bs) = binding_text b @ CHR '','' # settings_text (c # bs)"

definition clean_name :: "string \<Rightarrow> bool" where
  "clean_name name \<longleftrightarrow> CHR '','' \<notin> set name \<and> CHR ''='' \<notin> set name \<and> trim name = name"

lemma level_texts:
  "to_lower (level_to_string l) = level_to_string l" "trim (level_to_string l) = level_to_string l"
  "level_from_str (level_to_string l) = l" "CHR '','' \<notin> set (level_to_string l)"
  "l = L_off \<Longrightarrow> level_to_string l = ''off''"
  by (cases l; simp add: level_to_string_def level_string_views_def to_lower_def to_lower_char_def
      trim_def trim_end_def blank_def level_from_str_def all_levels_def)+

lemma binding_no_comma: "clean_name (fst b) \<Longrightarrow> CHR '','' \<notin> set (binding_text b)"
  using level_texts(4) by (simp add: binding_text_def clean_name_def)

lemma takeWhile_before: "x \<notin> set xs \<Longrightarrow> takeWhile (\<lambda>y. y \<noteq> x) (xs @ x # ys) = xs"
  by (induction xs) auto

lemma dropWhile_before: "x \<notin> set xs \<Longrightarrow> dropWhile (\<lambda>y. y \<noteq> x) (xs @ x # ys) = x # ys"
  by (induction xs) auto

lemma takeWhile_absent: "x \<notin> set xs \<Longrightarrow> takeWhile (\<lambda>y. y \<noteq> x) xs = xs"
  by (induction xs) auto

lemma dropWhile_absent: "x \<notin> set xs \<Longrightarrow> dropWhile (\<lambda>y. y \<noteq> x) xs = []"
  by (induction xs) auto

lemma tokens_unfold:
  "s \<noteq> [] \<Longrightarrow> tokens sep s = takeWhile (\<lambda>x. x \<noteq> sep) s # tokens sep (tl (dropWhile (\<lambda>x. x \<noteq> sep) s))"
  by (cases s) simp_all

lemma settings_tokens: "list_all (clean_name \<circ> fst) bs \<Longrightarrow> tokens (CHR '','') (settings_text bs) = map binding_text bs"
proof (induction bs rule: settings_text.induct)
  case (2 b)
  then have "CHR '','' \<notin> set (binding_text b)" by (simp add: binding_no_comma)
  moreover have "binding_text b \<noteq> []" by (simp add: binding_text_def)
  ultimately show ?case by (simp add: tokens_unfold takeWhile_absent dropWhile_absent)
next
  case (3 b c bs)
  then have "CHR '','' \<notin> set (binding_text b)" by (simp add: binding_no_comma)
  then have "tokens (CHR '','') (binding_text b @ CHR '','' # settings_text (c # bs)) =
      binding_text b # tokens (CHR '','') (settings_text (c # bs))"
    by (subst tokens_unfold) (simp_all add: takeWhile_before dropWhile_before)
  then show ?case using 3 by simp
qed simp

lemma extract_binding: "clean_name (fst b) \<Longrightarrow> extract_kv (CHR ''='') (binding_text b) = (fst b, level_to_string (snd b))"
  by (simp add: extract_kv_def binding_text_def takeWhile_before dropWhile_before clean_name_def level_texts)

lemma update_fresh: "k \<notin> fst ` set al \<Longrightarrow> AList.update k v al = al @ [(k, v)]"
  by (induction al) auto

lemma extract_settings:
  assumes "list_all (clean_name \<circ> fst) bs" and "distinct (map fst bs)"
  shows "extract_key_vals (settings_text bs) = map (\<lambda>b. (fst b, level_to_string (snd b))) bs"
proof -
  have "fold (\<lambda>token rv. if token = [] then rv else let (k, v) = extract_kv (CHR ''='') token in AList.update k v rv)
      (map binding_text bs) acc = acc @ map (\<lambda>b. (fst b, level_to_string (snd b))) bs"
    if "fst ` set acc \<inter> fst ` set bs = {}" for acc
    using assms that
  proof (induction bs arbitrary: acc)
    case (Cons b bs)
    moreover have "binding_text b \<noteq> []" by (simp add: binding_text_def)
    ultimately show ?case by (auto simp: extract_binding update_fresh)
  qed simp
  from this [of "[]"] show ?thesis by (simp add: extract_key_vals_def settings_tokens [OF assms(1)])
qed

lemma read_settings:
  assumes "distinct (map fst bs)" and "fst ` set acc \<inter> fst ` set bs = {}"
  shows "read_levels (map (\<lambda>b. (fst b, level_to_string (snd b))) bs) acc global =
    (acc @ filter (\<lambda>b. fst b \<noteq> []) bs, case map_of bs [] of Some g \<Rightarrow> Some g | None \<Rightarrow> global)"
  using assms
proof (induction bs arbitrary: acc global)
  case (Cons b bs)
  obtain n l where b: "b = (n, l)" by fastforce
  have skip: "\<not> (l = L_off \<and> level_to_string l \<noteq> ''off'')" using level_texts(5) by blast
  show ?case
  proof (cases "n = []")
    case True
    then have "map_of bs [] = None" using Cons.prems(1) b by (simp add: map_of_eq_None_iff)
    then have "read_levels (map (\<lambda>b. (fst b, level_to_string (snd b))) (b # bs)) acc global =
        read_levels (map (\<lambda>b. (fst b, level_to_string (snd b))) bs) acc (Some l)"
      using True b level_texts(1,3) [of L_off] level_texts(5) [of L_off] by (cases "l = L_off") (simp_all add: level_texts Let_def)
    then show ?thesis using Cons b True \<open>map_of bs [] = None\<close> by simp
  next
    case False
    then show ?thesis using Cons b skip by (auto simp: level_texts Let_def update_fresh)
  qed
qed simp

lemma map_of_filter_named: "map_of (filter (\<lambda>b. fst b \<noteq> []) bs) name = (if name = [] then None else map_of bs name)"
  by (induction bs) auto

text \<open>
  A settings text means what it says. For any list of bindings with distinct clean names that is
  not empty and not longer than 512 characters, after it has been loaded every registered logger whose
  name is bound has the bound level, every other one the level bound to the empty name if there is one
  and otherwise the level it had; and a logger that is initialised later starts with the level the
  same rule gives. No other part of a logger changes.
\<close>

theorem load_levels_spec:
  assumes "registry_reachable r" and "list_all (clean_name \<circ> fst) bs" and "distinct (map fst bs)"
    and "bs \<noteq> []" and "length (settings_text bs) \<le> 512"
  shows "the_logger (load_levels (settings_text bs) r) i =
      (if registry_get (name_of r i) r = Some i
       then (the_logger r i)\<lparr>lg_level := (case map_of bs (name_of r i) of Some l \<Rightarrow> l
              | None \<Rightarrow> (case map_of bs [] of Some g \<Rightarrow> g | None \<Rightarrow> lg_level (the_logger r i)))\<rparr>
       else the_logger r i)
    \<and> configured_level name (load_levels (settings_text bs) r) =
      (case (if name = [] then None else map_of bs name) of Some l \<Rightarrow> l
       | None \<Rightarrow> (case map_of bs [] of Some g \<Rightarrow> g | None \<Rightarrow> rg_global_level r))"
proof -
  have ne: "settings_text bs \<noteq> []" using assms(4) by (cases bs rule: settings_text.cases) (simp_all add: binding_text_def)
  have load: "load_levels (settings_text bs) r = set_levels (filter (\<lambda>b. fst b \<noteq> []) bs) (map_of bs []) r"
    using assms(2-5) ne read_settings [of bs "[]" None]
    by (simp add: load_levels_def extract_settings split: option.splits)
  have ok: "registry_ok r" using registry_reachable_ok [OF assms(1)] .
  have "the_logger (load_levels (settings_text bs) r) i =
      (if registry_get (name_of r i) r = Some i
       then (the_logger r i)\<lparr>lg_level := (case map_of bs (name_of r i) of Some l \<Rightarrow> l
              | None \<Rightarrow> (case map_of bs [] of Some g \<Rightarrow> g | None \<Rightarrow> lg_level (the_logger r i)))\<rparr>
       else the_logger r i)"
    unfolding load set_levels_object [OF ok]
    by (auto simp: registered_def registry_get_def map_of_filter_named logger_set_level_def split: option.split)
  moreover have "configured_level name (load_levels (settings_text bs) r) =
      (case (if name = [] then None else map_of bs name) of Some l \<Rightarrow> l
       | None \<Rightarrow> (case map_of bs [] of Some g \<Rightarrow> g | None \<Rightarrow> rg_global_level r))"
    unfolding load
    by (simp add: map_of_filter_named configured_level_def set_levels_def Let_def set_each_level_each
        split: option.split)
  ultimately show ?thesis by blast
qed

theorem load_levels_spec_witness:
  "lg_level (the_logger (load_levels (settings_text [(''a'', L_debug), ([], L_warn)]) two_loggers) 1) = L_debug
   \<and> configured_level ''b'' (load_levels (settings_text [(''a'', L_debug), ([], L_warn)]) two_loggers) = L_warn"
proof -
  let ?bs = "[(''a'', L_debug), ([], L_warn)]"
  have "list_all (clean_name \<circ> fst) ?bs" "distinct (map fst ?bs)" "?bs \<noteq> []" "length (settings_text ?bs) \<le> 512"
    by code_simp+
  note spec = load_levels_spec [OF two_loggers_reachable this]
  show ?thesis
    using spec [of 1 "''b''"] by (simp add: registry_get_def two_loggers_state mk_logger_def)
qed

text \<open>
  What initialising a new logger does. The logger takes over the registry's formatter, its error
  handler if there is one, the level configured for its name or else the global one, the flush level
  and the back-trace setting; no other logger changes. With automatic registration it is then found
  under its name, unless the name is taken: then the call fails, and the registered loggers stay.
\<close>

theorem initialize_logger_spec:
  assumes "registry_reachable r" and "i < length (rg_objects r)"
  shows "the_logger (snd (initialize_logger i r)) i = initialized r (the_logger r i)
    \<and> (\<forall>j. j \<noteq> i \<longrightarrow> the_logger (snd (initialize_logger i r)) j = the_logger r j)
    \<and> fst (initialize_logger i r) = (if rg_automatic r then throw_if_exists (name_of r i) r else None)
    \<and> (\<forall>name. registry_get name (snd (initialize_logger i r)) =
        (if rg_automatic r \<and> name = name_of r i \<and> registry_get name r = None then Some i else registry_get name r))"
proof -
  let ?r1 = "with_logger i (initialized r) r"
  have n: "name_of ?r1 i = name_of r i"
    using assms(2) by (simp add: with_logger_at)
  have objects: "rg_objects (snd (initialize_logger i r)) = rg_objects ?r1"
    by (simp add: initialize_logger_eq [OF assms(2)] register_logger_def split: option.split)
  show ?thesis
    unfolding objects
    by (simp add: with_logger_at assms(2) initialize_logger_eq register_logger_def throw_if_exists_def n
        registry_get_def update_conv')
qed

theorem initialize_logger_spec_witness:
  "fst (initialize_logger 1 two_loggers) = throw_if_exists ''a'' two_loggers \<and> throw_if_exists ''a'' two_loggers \<noteq> None"
proof -
  have "(1 :: nat) < length (rg_objects two_loggers)" by (simp add: two_loggers_state)
  from initialize_logger_spec [OF two_loggers_reachable this]
  show ?thesis by (simp add: two_loggers_state mk_logger_def throw_if_exists_def)
qed

end
