(* ===== verification/Log_Fmt.thy ===== *)
theory Log_Fmt
  imports Log_Logger
begin

text \<open>
  The helpers of the pattern formatter: numbers and padding (\<^verbatim>\<open>details/fmt_helper.h\<close>, the padders of
  \<^verbatim>\<open>pattern_formatter-inl.h\<close>) and broken-down times (\<^verbatim>\<open>details/os-inl.h\<close>). A buffer is the text
  appended to it so far.
\<close>

section \<open>Numbers\<close>

definition append_string_view :: "string \<Rightarrow> string \<Rightarrow> string" where
  "append_string_view view dest = dest @ view"

definition append_int :: "int \<Rightarrow> string \<Rightarrow> string" where
  "append_int n dest = dest @ int_text n"

definition push_char :: "char \<Rightarrow> string \<Rightarrow> string" where
  "push_char c dest = dest @ [c]"

function count_digits_loop :: "u64 \<Rightarrow> nat \<Rightarrow> nat" where
  "count_digits_loop n count =
     (if n < 10 then count
      else if n < 100 then count + 1
      else if n < 1000 then count + 2
      else if n < 10000 then count + 3
      else count_digits_loop (n div 10000) (count + 4))"
  by pat_completeness auto
termination
proof (relation "measure (unat \<circ> fst)", simp)
  fix n :: u64 and count :: nat
  assume "\<not> n < 10000"
  then have "unat (10000 :: u64) \<le> unat n" by (simp add: word_le_nat_alt not_less)
  then show "((n div 10000, count + 4), (n, count)) \<in> measure (unat \<circ> fst)"
    by (simp add: unat_div)
qed

definition count_digits_fallback :: "u64 \<Rightarrow> nat" where
  "count_digits_fallback n = count_digits_loop n 1"

text \<open>\<open>count_digits\<close>: the argument is converted to an unsigned number first.\<close>

definition count_digits :: "int \<Rightarrow> nat" where
  "count_digits n = count_digits_fallback (word_of_int n)"

definition digit :: "int \<Rightarrow> char" where
  "digit d = char_of (nat (48 + d))"

text \<open>
  Outside 0 to 99 the formatting library writes the number with at least two characters, which it
  has already.
\<close>

definition pad2 :: "int \<Rightarrow> string \<Rightarrow> string" where
  "pad2 n dest =
     (if n \<ge> 0 \<and> n < 100 then push_char (digit (n mod 10)) (push_char (digit (n div 10)) dest)
      else dest @ int_text n)"

definition pad_uint :: "u64 \<Rightarrow> nat \<Rightarrow> string \<Rightarrow> string" where
  "pad_uint n width dest =
     append_int (uint n) (dest @ replicate (width - count_digits_fallback n) (CHR ''0''))"

definition pad3 :: "u32 \<Rightarrow> string \<Rightarrow> string" where
  "pad3 n dest =
     (if n < 1000
      then (let d1 = push_char (digit (uint (n div 100))) dest;
                n1 = n mod 100;
                d2 = push_char (digit (uint (n1 div 10))) d1
            in push_char (digit (uint (n1 mod 10))) d2)
      else append_int (uint n) dest)"

definition pad6 :: "u64 \<Rightarrow> string \<Rightarrow> string" where
  "pad6 n dest = pad_uint n 6 dest"

definition pad9 :: "u64 \<Rightarrow> string \<Rightarrow> string" where
  "pad9 n dest = pad_uint n 9 dest"

text \<open>\<^verbatim>\<open>duration_cast\<close> to a coarser unit rounds towards zero; times are nanoseconds.\<close>

definition duration_cast :: "int \<Rightarrow> int \<Rightarrow> int" where
  "duration_cast unit t = (if t \<ge> 0 then t div unit else - ((- t) div unit))"

abbreviation one_second :: int where "one_second \<equiv> 1000000000"

definition time_fraction :: "int \<Rightarrow> int \<Rightarrow> int" where
  "time_fraction unit tp =
     (let secs = duration_cast one_second tp
      in duration_cast unit tp - duration_cast unit (secs * one_second))"

section \<open>Padding\<close>

datatype pad_side = PadLeft | PadRight | PadCenter

record padding_info =
  pd_width :: nat
  pd_side :: pad_side
  pd_truncate :: bool
  pd_enabled :: bool

definition no_padding :: padding_info where
  "no_padding = \<lparr>pd_width = 0, pd_side = PadLeft, pd_truncate = False, pd_enabled = False\<rparr>"

definition mk_padding :: "nat \<Rightarrow> pad_side \<Rightarrow> bool \<Rightarrow> padding_info" where
  "mk_padding width side trunc =
     \<lparr>pd_width = width, pd_side = side, pd_truncate = trunc, pd_enabled = True\<rparr>"

text \<open>The member \<^verbatim>\<open>spaces_\<close> holds 64 spaces; \<open>pad_it\<close> copies the first \<open>count\<close> of them.\<close>

definition spaces :: string where
  "spaces = replicate 64 (CHR '' '')"

definition pad_it :: "int \<Rightarrow> string \<Rightarrow> string" where
  "pad_it count dest = append_string_view (take (nat count) spaces) dest"

definition padder_begin :: "nat \<Rightarrow> padding_info \<Rightarrow> string \<Rightarrow> int \<times> string" where
  "padder_begin wrapped_size padinfo dest =
     (let remaining_pad = int (pd_width padinfo) - int wrapped_size in
      if remaining_pad \<le> 0 then (remaining_pad, dest)
      else case pd_side padinfo of
          PadLeft \<Rightarrow> (0, pad_it remaining_pad dest)
        | PadCenter \<Rightarrow>
            (let half_pad = remaining_pad div 2; reminder = remaining_pad mod 2
             in (half_pad + reminder, pad_it half_pad dest))
        | PadRight \<Rightarrow> (remaining_pad, dest))"

definition padder_end :: "padding_info \<Rightarrow> int \<Rightarrow> string \<Rightarrow> string" where
  "padder_end padinfo remaining_pad dest =
     (if remaining_pad \<ge> 0 then pad_it remaining_pad dest
      else if pd_truncate padinfo
      then (let new_size = max 0 (int (length dest) + remaining_pad) in take (nat new_size) dest)
      else dest)"

text \<open>
  A formatter of class \<open>ScopedPadder\<close>: \<^verbatim>\<open>scoped_padder\<close> if its padding is enabled, otherwise
  \<^verbatim>\<open>null_scoped_padder\<close>, which does nothing.
\<close>

definition padded :: "padding_info \<Rightarrow> nat \<Rightarrow> (string \<Rightarrow> string) \<Rightarrow> string \<Rightarrow> string" where
  "padded padinfo wrapped_size write dest =
     (if pd_enabled padinfo
      then (let (remaining_pad, dest1) = padder_begin wrapped_size padinfo dest
            in padder_end padinfo remaining_pad (write dest1))
      else write dest)"

section \<open>Broken-down times\<close>

record tm =
  tm_sec :: int
  tm_min :: int
  tm_hour :: int
  tm_mday :: int
  tm_mon :: int
  tm_year :: int
  tm_wday :: int
  tm_yday :: int
  tm_gmtoff :: int

definition zero_tm :: tm where
  "zero_tm = \<lparr>tm_sec = 0, tm_min = 0, tm_hour = 0, tm_mday = 0, tm_mon = 0, tm_year = 0, tm_wday = 0,
              tm_yday = 0, tm_gmtoff = 0\<rparr>"

definition utc_minutes_offset :: "tm \<Rightarrow> int" where
  "utc_minutes_offset t = duration_cast 60 (tm_gmtoff t)"

text \<open>
  Where \<^verbatim>\<open>tm_gmtoff\<close> is missing the offset is computed from the local and the UTC time; \<open>shift2\<close> is
  \<^verbatim>\<open>>> 2\<close>, and \<^verbatim>\<open>/\<close> rounds towards zero.
\<close>

definition shift2 :: "int \<Rightarrow> int" where
  "shift2 n = n div 4"

definition calculate_gmt_offset :: "tm \<Rightarrow> tm \<Rightarrow> int" where
  "calculate_gmt_offset localtm gmtm =
     (let local_year = tm_year localtm + (1900 - 1);
          gmt_year = tm_year gmtm + (1900 - 1);
          days = (tm_yday localtm - tm_yday gmtm)
            + (shift2 local_year - shift2 gmt_year)
            - (duration_cast 100 local_year - duration_cast 100 gmt_year)
            + (shift2 (duration_cast 100 local_year) - shift2 (duration_cast 100 gmt_year))
            + (local_year - gmt_year) * 365;
          hours = (24 * days) + (tm_hour localtm - tm_hour gmtm);
          mins = (60 * hours) + (tm_min localtm - tm_min gmtm);
          secs = (60 * mins) + (tm_sec localtm - tm_sec gmtm)
      in secs)"


section \<open>Numbers and their width\<close>

declare count_digits_loop.simps [simp del]

lemma digits_step: "n \<ge> 10 \<Longrightarrow> length (dec n) = Suc (length (dec (n div 10)))"
  by (simp add: dec.simps [of n])

lemma count_digits_loop_length: "count_digits_loop n count = length (dec (unat n)) + count - 1"
proof (induction n count rule: count_digits_loop.induct)
  case (1 n count)
  let ?k = "unat n"
  have less: "n < 10 \<longleftrightarrow> ?k < 10" "n < 100 \<longleftrightarrow> ?k < 100" "n < 1000 \<longleftrightarrow> ?k < 1000" "n < 10000 \<longleftrightarrow> ?k < 10000"
    by (simp_all add: word_less_nat_alt)
  consider "?k < 10" | "10 \<le> ?k" "?k < 100" | "100 \<le> ?k" "?k < 1000" | "1000 \<le> ?k" "?k < 10000" | "10000 \<le> ?k"
    by linarith
  then show ?case
  proof cases
    case 5
    have "unat (n div 10000) = ?k div 10000" by (simp add: unat_div)
    moreover have "length (dec ?k) = length (dec (?k div 10000)) + 4"
      using 5 by (simp add: digits_step div_mult2_eq [symmetric])
    moreover have "length (dec (?k div 10000)) \<ge> 1"
      by (simp add: Suc_le_eq)
    ultimately show ?thesis
      using 5 less 1 by (simp add: count_digits_loop.simps [of n count])
  qed (simp_all add: less count_digits_loop.simps [of n count] digits_step dec_length_one div_mult2_eq [symmetric])
qed

text \<open>C1: counting digits four at a time, on 64-bit numbers, gives the length of the decimal text.\<close>

theorem count_digits_correct: "count_digits_fallback n = length (dec (unat n))"
  by (simp add: count_digits_fallback_def count_digits_loop_length)


text \<open>The decimal text with zeros in front up to a width.\<close>

definition zpad :: "nat \<Rightarrow> nat \<Rightarrow> string" where
  "zpad width n = replicate (width - length (dec n)) (CHR ''0'') @ dec n"

lemma int_text_nat: "int_text (int n) = dec n"
  by (simp add: int_text_def)

lemma int_text_uint: "int_text (uint n) = dec (unat n)"
  by (simp add: int_text_def)

lemma digit_int: "digit (int d) = digit_char d"
  by (simp add: digit_def digit_char_def nat_add_distrib)

lemma zero_digit: "CHR ''0'' = digit_char 0"
  by code_simp

lemma dec_one: "n < 10 \<Longrightarrow> dec n = [digit_char n]"
  by (simp add: dec.simps)

lemma pad2_zpad: "n < 100 \<Longrightarrow> pad2 (int n) dest = dest @ zpad 2 n"
proof (cases "n < 10")
  case True
  then show ?thesis
    by (simp add: pad2_def push_char_def zpad_def dec_length_one zero_digit digit_int
        dec.simps [of n] digit_int [of 0, simplified])
next
  case False
  assume "n < 100"
  have "int n mod 10 = int (n mod 10)" "int n div 10 = int (n div 10)" by (simp_all add: zmod_int zdiv_int)
  then show ?thesis
    using False \<open>n < 100\<close> by (simp add: pad2_def push_char_def zpad_def dec_two digit_int)
qed

lemma pad_uint_zpad: "pad_uint n width dest = dest @ zpad width (unat n)"
  by (simp add: pad_uint_def append_int_def zpad_def int_text_uint count_digits_fallback_def count_digits_loop_length)

lemma dec_three: "100 \<le> n \<Longrightarrow> n < 1000 \<Longrightarrow> dec n = [digit_char (n div 100), digit_char (n div 10 mod 10), digit_char (n mod 10)]"
  by (simp add: dec.simps [of n] dec_two div_mult2_eq [symmetric])

lemma zpad_three: "k < 1000 \<Longrightarrow> zpad 3 k = [digit_char (k div 100), digit_char (k mod 100 div 10), digit_char (k mod 100 mod 10)]"
proof -
  assume less: "k < 1000"
  consider "k < 10" | "10 \<le> k" "k < 100" | "100 \<le> k" by linarith
  then show ?thesis
  proof cases
    case 1
    then show ?thesis by (simp add: zpad_def dec_one zero_digit numeral_2_eq_2)
  next
    case 2
    then show ?thesis by (simp add: zpad_def dec_two zero_digit)
  next
    case 3
    have "k mod 100 div 10 = k div 10 mod 10"
      using mod_mult2_eq [of k 10 10] by simp
    moreover have "k mod 100 mod 10 = k mod 10"
      by (simp add: mod_mod_cancel)
    ultimately show ?thesis using 3 less by (simp add: zpad_def dec_three)
  qed
qed

lemma pad3_zpad: "pad3 n dest = dest @ zpad 3 (unat n)"
proof (cases "n < 1000")
  case True
  let ?k = "unat n"
  have k: "?k < 1000" using True by (simp add: word_less_nat_alt)
  have parts: "uint (n div 100) = int (?k div 100)" "uint (n mod 100 div 10) = int (?k mod 100 div 10)"
    "uint (n mod 100 mod 10) = int (?k mod 100 mod 10)"
    by (simp_all add: uint_nat unat_div unat_mod)
  have "pad3 n dest = dest @ [digit_char (?k div 100), digit_char (?k mod 100 div 10), digit_char (?k mod 100 mod 10)]"
    using True by (simp add: pad3_def Let_def push_char_def parts digit_int)
  also have "\<dots> = dest @ zpad 3 ?k" using zpad_three [OF k] by simp
  finally show ?thesis .
next
  case False
  then have "1000 \<le> unat n" by (simp add: word_le_nat_alt not_less)
  moreover then have "length (dec (unat n)) \<ge> 3"
    using dec_length [of 2 "unat n"] by (simp add: not_le [symmetric]) 
  ultimately show ?thesis
    using False by (simp add: pad3_def append_int_def int_text_uint zpad_def)
qed

section \<open>Padded fields\<close>

text \<open>What padding makes of a text, by the documentation of the pattern syntax.\<close>

definition field :: "padding_info \<Rightarrow> string \<Rightarrow> string" where
  "field p t =
     (let w = pd_width p; k = w - length t; blanks = (\<lambda>n. replicate n (CHR '' ''))
      in if \<not> pd_enabled p then t
         else if w \<le> length t then if pd_truncate p then take w t else t
         else case pd_side p of
             PadLeft \<Rightarrow> blanks k @ t
           | PadRight \<Rightarrow> t @ blanks k
           | PadCenter \<Rightarrow> blanks (k div 2) @ t @ blanks (k - k div 2))"

lemma pad_it_blanks: "k \<le> 64 \<Longrightarrow> pad_it (int k) dest = dest @ replicate k (CHR '' '')"
  by (simp add: pad_it_def append_string_view_def spaces_def)

lemma padded_exact:
  assumes "pd_width p \<le> 64" and "\<And>d. write d = d @ t" and "pd_enabled p \<Longrightarrow> n = length t"
  shows "padded p n write dest = dest @ field p t"
proof (cases "pd_enabled p")
  case False
  then show ?thesis using assms(2) by (simp add: padded_def field_def)
next
  case on: True
  note size = assms(3) [OF on]
  show ?thesis
  proof (cases "pd_width p \<le> n")
    case True
    then have b: "padder_begin n p dest = (int (pd_width p) - int n, dest)"
      by (simp add: padder_begin_def)
    show ?thesis
    proof (cases "pd_width p = n")
      case True
      then show ?thesis
        using b on assms(1,2) size by (simp add: padded_def padder_end_def field_def Let_def pad_it_blanks [of 0, simplified])
    next
      case False
      then have "int (pd_width p) - int n < 0" "nat (int (length (dest @ t)) + (int (pd_width p) - int n)) = length dest + pd_width p"
        using True size by simp_all
      then show ?thesis
        using b on True assms(2) size by (simp add: padded_def padder_end_def field_def Let_def)
    qed
  next
    case False
    define k where "k = pd_width p - n"
    have k: "int (pd_width p) - int n = int k" "k > 0" "k \<le> 64"
      using False assms(1) by (simp_all add: k_def)
    have half: "int k div 2 = int (k div 2)" by (simp add: zdiv_int)
    have rest: "int (k div 2) + int k mod 2 = int (k - k div 2)" by presburger
    have right: "pad_it (int (k div 2) + int k mod 2) d = d @ replicate (k - k div 2) (CHR '' '')" for d
      unfolding rest by (rule pad_it_blanks) (use k(3) in simp)
    show ?thesis
      using on False k(2,3) assms(2) half right pad_it_blanks [of 0, simplified]
      by (cases "pd_side p")
        (simp_all add: padded_def padder_begin_def padder_end_def field_def Let_def k(1) pad_it_blanks
          flip: size k_def)
  qed
qed


text \<open>
  Padding. A formatter that appends a text of the announced size, in a field of up to 64 columns,
  appends the field of that text and changes nothing before it; an enabled field is at least as wide
  as asked for, and exactly so if it is truncated or the text fits.
\<close>

theorem padded_field:
  assumes "pd_width p \<le> 64"
  shows "padded p (length t) (append_string_view t) dest = dest @ field p t
    \<and> (pd_enabled p \<longrightarrow> length (field p t) =
        (if pd_truncate p \<or> length t \<le> pd_width p then pd_width p else length t))"
  using padded_exact [OF assms, of "append_string_view t" t "length t" dest]
  by (auto simp: append_string_view_def field_def Let_def split: pad_side.split)

theorem padded_field_witness:
  "padded (mk_padding 5 PadCenter False) 2 (append_string_view ''ab'') ''[''  = ''[ ab  ''"
proof -
  have "pd_width (mk_padding 5 PadCenter False) \<le> 64" "length ''ab'' = 2"
    "''['' @ field (mk_padding 5 PadCenter False) ''ab'' = ''[ ab  ''"
    by code_simp+
  then show ?thesis
    using padded_field [of "mk_padding 5 PadCenter False" "''ab''" "''[''"] by metis
qed

section \<open>The offset from UTC\<close>

definition leap_year :: "nat \<Rightarrow> bool" where
  "leap_year y \<longleftrightarrow> y mod 4 = 0 \<and> (y mod 100 \<noteq> 0 \<or> y mod 400 = 0)"

text \<open>Days in the years 1 to \<open>y\<close> of the Gregorian calendar, and seconds since its begin.\<close>

fun year_days :: "nat \<Rightarrow> int" where
  "year_days 0 = 0"
| "year_days (Suc y) = year_days y + (if leap_year (Suc y) then 366 else 365)"

definition civil_seconds :: "tm \<Rightarrow> int" where
  "civil_seconds t =
     86400 * (year_days (nat (tm_year t + 1899)) + tm_yday t) + 3600 * tm_hour t + 60 * tm_min t + tm_sec t"

lemma year_days_closed: "year_days y = 365 * int y + int (y div 4) - int (y div 100) + int (y div 400)"
proof (induction y)
  case (Suc y)
  have step: "Suc y div k = y div k + (if Suc y mod k = 0 then 1 else 0)" for k
    by (simp add: div_Suc)
  have "Suc y mod 100 = 0 \<Longrightarrow> Suc y mod 4 = 0" "Suc y mod 400 = 0 \<Longrightarrow> Suc y mod 100 = 0"
    using dvd_trans [of 4 100 "Suc y"] dvd_trans [of 100 400 "Suc y"] by (simp_all add: mod_eq_0_iff_dvd)
  then consider "Suc y mod 400 = 0" "Suc y mod 100 = 0" "Suc y mod 4 = 0"
    | "Suc y mod 400 \<noteq> 0" "Suc y mod 100 = 0" "Suc y mod 4 = 0"
    | "Suc y mod 400 \<noteq> 0" "Suc y mod 100 \<noteq> 0" "Suc y mod 4 = 0"
    | "Suc y mod 400 \<noteq> 0" "Suc y mod 100 \<noteq> 0" "Suc y mod 4 \<noteq> 0"
    by (cases "Suc y mod 400 = 0"; cases "Suc y mod 100 = 0"; cases "Suc y mod 4 = 0") (simp_all only: simp_thms)
  then show ?case
    by cases (simp_all only: year_days.simps leap_year_def step Suc of_nat_Suc, simp_all)
qed simp

text \<open>
  The computed offset is right, to the second, for every pair of broken-down times of the same
  instant: it is the difference of the two times counted in the Gregorian calendar, across any change
  of day, month, year, leap years and centuries included.
\<close>

theorem gmt_offset_exact:
  assumes "tm_year localtm \<ge> - 1899" and "tm_year gmtm \<ge> - 1899"
  shows "calculate_gmt_offset localtm gmtm = civil_seconds localtm - civil_seconds gmtm"
proof -
  have parts: "shift2 (int n) = int (n div 4)" "duration_cast 100 (int n) = int (n div 100)"
    "n div 100 div 4 = n div 400" for n
    by (simp_all add: shift2_def duration_cast_def zdiv_int div_mult2_eq [symmetric])
  obtain l g where "tm_year localtm + 1899 = int l" "tm_year gmtm + 1899 = int g"
    using assms zero_le_imp_eq_int [of "tm_year localtm + 1899"] zero_le_imp_eq_int [of "tm_year gmtm + 1899"]
    by auto
  then show ?thesis
    by (simp add: calculate_gmt_offset_def civil_seconds_def Let_def parts year_days_closed algebra_simps)
qed

theorem gmt_offset_exact_witness:
  "calculate_gmt_offset \<lparr>tm_sec = 0, tm_min = 30, tm_hour = 1, tm_mday = 1, tm_mon = 0, tm_year = 101, tm_wday = 1, tm_yday = 0, tm_gmtoff = 0\<rparr>
     \<lparr>tm_sec = 0, tm_min = 30, tm_hour = 16, tm_mday = 31, tm_mon = 11, tm_year = 100, tm_wday = 0, tm_yday = 365, tm_gmtoff = 0\<rparr> = 32400"
  by (subst gmt_offset_exact) (simp_all add: civil_seconds_def year_days_closed)

end
