(* ===== verification/Log_Flags.thy ===== *)
theory Log_Flags
  imports Log_Fmt
begin

text \<open>
  The flag formatters of \<^verbatim>\<open>pattern_formatter-inl.h\<close>, one definition per class. Each appends to a
  buffer; \<open>padded\<close> is its padder. What depends on the process, its id and the diagnostic context of
  the thread, is an argument. Null pointers in a source location are not modelled.
\<close>

section \<open>Name, level, text\<close>

definition name_formatter :: "padding_info \<Rightarrow> log_msg \<Rightarrow> string \<Rightarrow> string" where
  "name_formatter p m = padded p (length (lm_logger m)) (append_string_view (lm_logger m))"

definition level_formatter :: "padding_info \<Rightarrow> log_msg \<Rightarrow> string \<Rightarrow> string" where
  "level_formatter p m =
     (let level_name = level_to_string (lm_level m)
      in padded p (length level_name) (append_string_view level_name))"

definition short_level_formatter :: "padding_info \<Rightarrow> log_msg \<Rightarrow> string \<Rightarrow> string" where
  "short_level_formatter p m =
     (let level_name = level_to_short (lm_level m)
      in padded p (length level_name) (append_string_view level_name))"

definition v_formatter :: "padding_info \<Rightarrow> log_msg \<Rightarrow> string \<Rightarrow> string" where
  "v_formatter p m = padded p (length (lm_payload m)) (append_string_view (lm_payload m))"

section \<open>Dates and times\<close>

definition ampm :: "tm \<Rightarrow> string" where
  "ampm t = (if tm_hour t \<ge> 12 then ''PM'' else ''AM'')"

definition to12h :: "tm \<Rightarrow> int" where
  "to12h t = (if tm_hour t > 12 then tm_hour t - 12 else tm_hour t)"

definition days :: "string list" where
  "days = [''Sun'', ''Mon'', ''Tue'', ''Wed'', ''Thu'', ''Fri'', ''Sat'']"

definition full_days :: "string list" where
  "full_days = [''Sunday'', ''Monday'', ''Tuesday'', ''Wednesday'', ''Thursday'', ''Friday'', ''Saturday'']"

definition months :: "string list" where
  "months = [''Jan'', ''Feb'', ''Mar'', ''Apr'', ''May'', ''Jun'', ''Jul'', ''Aug'', ''Sep'', ''Oct'', ''Nov'', ''Dec'']"

definition full_months :: "string list" where
  "full_months = [''January'', ''February'', ''March'', ''April'', ''May'', ''June'', ''July'', ''August'',
     ''September'', ''October'', ''November'', ''December'']"

text \<open>The remainder of \<^verbatim>\<open>%\<close>, with the sign of the dividend.\<close>

definition c_rem :: "int \<Rightarrow> int \<Rightarrow> int" where
  "c_rem a b = a - b * duration_cast b a"

definition a_formatter :: "padding_info \<Rightarrow> tm \<Rightarrow> string \<Rightarrow> string" where
  "a_formatter p t =
     (let field_value = days ! nat (tm_wday t) in padded p (length field_value) (append_string_view field_value))"

definition A_formatter :: "padding_info \<Rightarrow> tm \<Rightarrow> string \<Rightarrow> string" where
  "A_formatter p t =
     (let field_value = full_days ! nat (tm_wday t) in padded p (length field_value) (append_string_view field_value))"

definition b_formatter :: "padding_info \<Rightarrow> tm \<Rightarrow> string \<Rightarrow> string" where
  "b_formatter p t =
     (let field_value = months ! nat (tm_mon t) in padded p (length field_value) (append_string_view field_value))"

definition B_formatter :: "padding_info \<Rightarrow> tm \<Rightarrow> string \<Rightarrow> string" where
  "B_formatter p t =
     (let field_value = full_months ! nat (tm_mon t) in padded p (length field_value) (append_string_view field_value))"

definition clock_text :: "tm \<Rightarrow> string \<Rightarrow> string" where
  "clock_text t = pad2 (tm_sec t) \<circ> push_char (CHR '':'') \<circ> pad2 (tm_min t) \<circ> push_char (CHR '':'') \<circ> pad2 (tm_hour t)"

definition c_formatter :: "padding_info \<Rightarrow> tm \<Rightarrow> string \<Rightarrow> string" where
  "c_formatter p t =
     padded p 24
       (append_int (tm_year t + 1900) \<circ> push_char (CHR '' '') \<circ> clock_text t \<circ> push_char (CHR '' '')
        \<circ> append_int (tm_mday t) \<circ> push_char (CHR '' '') \<circ> append_string_view (months ! nat (tm_mon t))
        \<circ> push_char (CHR '' '') \<circ> append_string_view (days ! nat (tm_wday t)))"

definition C_formatter :: "padding_info \<Rightarrow> tm \<Rightarrow> string \<Rightarrow> string" where
  "C_formatter p t = padded p 2 (pad2 (c_rem (tm_year t) 100))"

definition D_formatter :: "padding_info \<Rightarrow> tm \<Rightarrow> string \<Rightarrow> string" where
  "D_formatter p t =
     padded p 8 (pad2 (c_rem (tm_year t) 100) \<circ> push_char (CHR ''/'') \<circ> pad2 (tm_mday t)
       \<circ> push_char (CHR ''/'') \<circ> pad2 (tm_mon t + 1))"

definition Y_formatter :: "padding_info \<Rightarrow> tm \<Rightarrow> string \<Rightarrow> string" where
  "Y_formatter p t = padded p 4 (append_int (tm_year t + 1900))"

definition m_formatter :: "padding_info \<Rightarrow> tm \<Rightarrow> string \<Rightarrow> string" where
  "m_formatter p t = padded p 2 (pad2 (tm_mon t + 1))"

definition d_formatter :: "padding_info \<Rightarrow> tm \<Rightarrow> string \<Rightarrow> string" where
  "d_formatter p t = padded p 2 (pad2 (tm_mday t))"

definition H_formatter :: "padding_info \<Rightarrow> tm \<Rightarrow> string \<Rightarrow> string" where
  "H_formatter p t = padded p 2 (pad2 (tm_hour t))"

definition I_formatter :: "padding_info \<Rightarrow> tm \<Rightarrow> string \<Rightarrow> string" where
  "I_formatter p t = padded p 2 (pad2 (to12h t))"

definition M_formatter :: "padding_info \<Rightarrow> tm \<Rightarrow> string \<Rightarrow> string" where
  "M_formatter p t = padded p 2 (pad2 (tm_min t))"

definition S_formatter :: "padding_info \<Rightarrow> tm \<Rightarrow> string \<Rightarrow> string" where
  "S_formatter p t = padded p 2 (pad2 (tm_sec t))"

definition e_formatter :: "padding_info \<Rightarrow> log_msg \<Rightarrow> string \<Rightarrow> string" where
  "e_formatter p m = padded p 3 (pad3 (word_of_int (time_fraction 1000000 (lm_time m))))"

definition f_formatter :: "padding_info \<Rightarrow> log_msg \<Rightarrow> string \<Rightarrow> string" where
  "f_formatter p m = padded p 6 (pad6 (word_of_int (time_fraction 1000 (lm_time m))))"

definition F_formatter :: "padding_info \<Rightarrow> log_msg \<Rightarrow> string \<Rightarrow> string" where
  "F_formatter p m = padded p 9 (pad9 (word_of_int (time_fraction 1 (lm_time m))))"

definition E_formatter :: "padding_info \<Rightarrow> log_msg \<Rightarrow> string \<Rightarrow> string" where
  "E_formatter p m = padded p 10 (append_int (duration_cast one_second (lm_time m)))"

definition p_formatter :: "padding_info \<Rightarrow> tm \<Rightarrow> string \<Rightarrow> string" where
  "p_formatter p t = padded p 2 (append_string_view (ampm t))"

definition r_formatter :: "padding_info \<Rightarrow> tm \<Rightarrow> string \<Rightarrow> string" where
  "r_formatter p t =
     padded p 11 (append_string_view (ampm t) \<circ> push_char (CHR '' '') \<circ> pad2 (tm_sec t) \<circ> push_char (CHR '':'')
       \<circ> pad2 (tm_min t) \<circ> push_char (CHR '':'') \<circ> pad2 (to12h t))"

definition R_formatter :: "padding_info \<Rightarrow> tm \<Rightarrow> string \<Rightarrow> string" where
  "R_formatter p t = padded p 5 (pad2 (tm_min t) \<circ> push_char (CHR '':'') \<circ> pad2 (tm_hour t))"

definition T_formatter :: "padding_info \<Rightarrow> tm \<Rightarrow> string \<Rightarrow> string" where
  "T_formatter p t = padded p 8 (clock_text t)"

text \<open>\<open>z_formatter\<close> keeps the offset it computed last, and when.\<close>

definition get_cached_offset :: "log_msg \<Rightarrow> tm \<Rightarrow> int \<times> int \<Rightarrow> int \<times> int" where
  "get_cached_offset m t cache =
     (let (last_update, offset_minutes) = cache
      in if lm_time m - last_update \<ge> 10 * one_second then (lm_time m, utc_minutes_offset t)
         else (last_update, offset_minutes))"

definition zone_text :: "int \<Rightarrow> string \<Rightarrow> string" where
  "zone_text total_minutes dest =
     (let (total, sign) = (if total_minutes < 0 then (- total_minutes, CHR ''-'') else (total_minutes, CHR ''+''))
      in (pad2 (total mod 60) \<circ> push_char (CHR '':'') \<circ> pad2 (total div 60) \<circ> push_char sign) dest)"

definition z_formatter :: "padding_info \<Rightarrow> int \<times> int \<Rightarrow> log_msg \<Rightarrow> tm \<Rightarrow> string \<Rightarrow> string \<times> (int \<times> int)" where
  "z_formatter p cache m t dest =
     (let cache1 = get_cached_offset m t cache in (padded p 6 (zone_text (snd cache1)) dest, cache1))"

section \<open>Process, thread, source\<close>

definition t_formatter :: "padding_info \<Rightarrow> log_msg \<Rightarrow> string \<Rightarrow> string" where
  "t_formatter p m = padded p (count_digits (int (lm_thread m))) (append_int (int (lm_thread m)))"

definition pid_formatter :: "u32 \<Rightarrow> padding_info \<Rightarrow> string \<Rightarrow> string" where
  "pid_formatter pid p = padded p (count_digits (uint pid)) (append_int (uint pid))"

definition c_string :: "string option \<Rightarrow> string" where
  "c_string s = (case s of Some t \<Rightarrow> t | None \<Rightarrow> [])"

definition source_location_formatter :: "padding_info \<Rightarrow> log_msg \<Rightarrow> string \<Rightarrow> string" where
  "source_location_formatter p m =
     (let loc = lm_source m; filename = c_string (sl_file loc);
          text_size = (if pd_enabled p then length filename + count_digits (sl_line loc) + 1 else 0)
      in if source_empty loc then padded p 0 (\<lambda>d. d)
         else padded p text_size (append_int (sl_line loc) \<circ> push_char (CHR '':'') \<circ> append_string_view filename))"

definition source_filename_formatter :: "padding_info \<Rightarrow> log_msg \<Rightarrow> string \<Rightarrow> string" where
  "source_filename_formatter p m =
     (let loc = lm_source m; filename = c_string (sl_file loc);
          text_size = (if pd_enabled p then length filename else 0)
      in if source_empty loc then padded p 0 (\<lambda>d. d) else padded p text_size (append_string_view filename))"

text \<open>\<^verbatim>\<open>folder_seps\<close> is a single slash: everything after the last one.\<close>

definition basename :: "string \<Rightarrow> string" where
  "basename filename =
     (if CHR ''/'' \<in> set filename then rev (takeWhile (\<lambda>c. c \<noteq> CHR ''/'') (rev filename)) else filename)"

definition short_filename_formatter :: "padding_info \<Rightarrow> log_msg \<Rightarrow> string \<Rightarrow> string" where
  "short_filename_formatter p m =
     (let loc = lm_source m; filename = basename (c_string (sl_file loc));
          text_size = (if pd_enabled p then length filename else 0)
      in if source_empty loc then padded p 0 (\<lambda>d. d) else padded p text_size (append_string_view filename))"

definition source_linenum_formatter :: "padding_info \<Rightarrow> log_msg \<Rightarrow> string \<Rightarrow> string" where
  "source_linenum_formatter p m =
     (let loc = lm_source m
      in if source_empty loc then padded p 0 (\<lambda>d. d)
         else padded p (count_digits (sl_line loc)) (append_int (sl_line loc)))"

definition source_funcname_formatter :: "padding_info \<Rightarrow> log_msg \<Rightarrow> string \<Rightarrow> string" where
  "source_funcname_formatter p m =
     (let loc = lm_source m; funcname = c_string (sl_func loc);
          text_size = (if pd_enabled p then length funcname else 0)
      in if source_empty loc then padded p 0 (\<lambda>d. d) else padded p text_size (append_string_view funcname))"

text \<open>Time since the last message, in a unit; the formatter remembers the time of that message.\<close>

definition elapsed_formatter :: "int \<Rightarrow> padding_info \<Rightarrow> int \<Rightarrow> log_msg \<Rightarrow> string \<Rightarrow> string \<times> int" where
  "elapsed_formatter unit p last_message_time m dest =
     (let delta = max (lm_time m - last_message_time) 0;
          delta_count = duration_cast unit delta
      in (padded p (count_digits delta_count) (append_int delta_count) dest, lm_time m))"

text \<open>The diagnostic context, a map from keys to values in the order of the keys.\<close>

fun format_mdc :: "padding_info \<Rightarrow> (string \<times> string) list \<Rightarrow> string \<Rightarrow> string" where
  "format_mdc p [] dest = dest"
| "format_mdc p [(k, v)] dest =
     padded p (length k + length v + 1)
       (append_string_view v \<circ> append_string_view '':'' \<circ> append_string_view k) dest"
| "format_mdc p ((k, v) # kv # kvs) dest =
     format_mdc p (kv # kvs)
       (padded p (length k + length v + 1 + 1)
         (append_string_view '' '' \<circ> append_string_view v \<circ> append_string_view '':'' \<circ> append_string_view k) dest)"

definition mdc_formatter :: "(string \<times> string) list \<Rightarrow> padding_info \<Rightarrow> string \<Rightarrow> string" where
  "mdc_formatter mdc_map p dest =
     (if mdc_map = [] then padded p 0 (\<lambda>d. d) dest else format_mdc p mdc_map dest)"

section \<open>The default format\<close>

definition datetime_text :: "tm \<Rightarrow> string" where
  "datetime_text t =
     (push_char (CHR ''.'') \<circ> pad2 (tm_sec t) \<circ> push_char (CHR '':'') \<circ> pad2 (tm_min t) \<circ> push_char (CHR '':'')
      \<circ> pad2 (tm_hour t) \<circ> push_char (CHR '' '') \<circ> pad2 (tm_mday t) \<circ> push_char (CHR ''-'')
      \<circ> pad2 (tm_mon t + 1) \<circ> push_char (CHR ''-'') \<circ> append_int (tm_year t + 1900) \<circ> push_char (CHR ''['')) []"

definition full_cache :: "log_msg \<Rightarrow> tm \<Rightarrow> int \<times> string \<Rightarrow> int \<times> string" where
  "full_cache m t cache =
     (let secs = duration_cast one_second (lm_time m)
      in if fst cache \<noteq> secs \<or> snd cache = [] then (secs, datetime_text t) else cache)"

definition full_formatter ::
  "(string \<times> string) list \<Rightarrow> int \<times> string \<Rightarrow> log_msg \<Rightarrow> tm \<Rightarrow> string \<Rightarrow> string \<times> log_msg \<times> (int \<times> string)" where
  "full_formatter mdc_map cache m t dest =
     (let cache1 = full_cache m t cache;
          d1 = dest @ snd cache1;
          d2 = pad3 (word_of_int (time_fraction 1000000 (lm_time m))) d1;
          d3 = push_char (CHR '' '') (push_char (CHR '']'') d2);
          d4 = (if length (lm_logger m) > 0
                then (push_char (CHR '' '') \<circ> push_char (CHR '']'') \<circ> append_string_view (lm_logger m)
                      \<circ> push_char (CHR ''['')) d3
                else d3);
          d5 = push_char (CHR ''['') d4;
          d6 = append_string_view (level_to_string (lm_level m)) d5;
          m1 = m\<lparr>lm_color_start := length d5, lm_color_end := length d6\<rparr>;
          d7 = push_char (CHR '' '') (push_char (CHR '']'') d6);
          loc = lm_source m;
          d8 = (if \<not> source_empty loc
                then (push_char (CHR '' '') \<circ> push_char (CHR '']'') \<circ> append_int (sl_line loc) \<circ> push_char (CHR '':'')
                      \<circ> append_string_view (basename (c_string (sl_file loc))) \<circ> push_char (CHR ''['')) d7
                else d7);
          d9 = (if mdc_map \<noteq> []
                then (push_char (CHR '' '') \<circ> push_char (CHR '']'') \<circ> format_mdc no_padding mdc_map
                      \<circ> push_char (CHR ''['')) d8
                else d8)
      in (append_string_view (lm_payload m) d9, m1, cache1))"

end
