(* ===== verification/Log_Pattern.thy ===== *)
theory Log_Pattern
  imports Log_Flags
begin

text \<open>
  The pattern formatter (\<^verbatim>\<open>pattern_formatter.h\<close>, \<^verbatim>\<open>pattern_formatter-inl.h\<close>): compiling a pattern
  into a list of flag formatters and formatting a message with them.
\<close>

section \<open>Formatters as data\<close>

datatype flag =
    FName | FLevel | FShortLevel | FThread | FPayload
  | FDay | FFullDay | FMonth | FFullMonth | FDateTime | FYear2 | FYear4 | FDate | FMonthNum | FMonthDay
  | FHour | FHour12 | FMinute | FSecond | FMillis | FMicros | FNanos | FEpoch | FAmPm | FClock12 | FHourMin | FClock
  | FPid | FColorStart | FColorStop | FLocation | FShortFile | FFile | FLine | FFunc | FMdc

datatype formatter =
    Plain flag padding_info
  | Zone padding_info "int \<times> int"
  | Elapsed int padding_info int
  | Full "int \<times> string"
  | Aggregate string
  | Ch char
  | Custom char padding_info

text \<open>What a formatter reads beside the message: process id, diagnostic context, user formatters.\<close>

record fmt_env =
  fe_pid :: u32
  fe_mdc :: "(string \<times> string) list"
  fe_custom :: "char \<Rightarrow> padding_info \<Rightarrow> log_msg \<Rightarrow> tm \<Rightarrow> string \<Rightarrow> string"

definition format_plain :: "fmt_env \<Rightarrow> flag \<Rightarrow> padding_info \<Rightarrow> log_msg \<Rightarrow> tm \<Rightarrow> string \<Rightarrow> string" where
  "format_plain env f p m t dest =
     (case f of
        FName \<Rightarrow> name_formatter p m dest
      | FLevel \<Rightarrow> level_formatter p m dest
      | FShortLevel \<Rightarrow> short_level_formatter p m dest
      | FThread \<Rightarrow> t_formatter p m dest
      | FPayload \<Rightarrow> v_formatter p m dest
      | FDay \<Rightarrow> a_formatter p t dest
      | FFullDay \<Rightarrow> A_formatter p t dest
      | FMonth \<Rightarrow> b_formatter p t dest
      | FFullMonth \<Rightarrow> B_formatter p t dest
      | FDateTime \<Rightarrow> c_formatter p t dest
      | FYear2 \<Rightarrow> C_formatter p t dest
      | FYear4 \<Rightarrow> Y_formatter p t dest
      | FDate \<Rightarrow> D_formatter p t dest
      | FMonthNum \<Rightarrow> m_formatter p t dest
      | FMonthDay \<Rightarrow> d_formatter p t dest
      | FHour \<Rightarrow> H_formatter p t dest
      | FHour12 \<Rightarrow> I_formatter p t dest
      | FMinute \<Rightarrow> M_formatter p t dest
      | FSecond \<Rightarrow> S_formatter p t dest
      | FMillis \<Rightarrow> e_formatter p m dest
      | FMicros \<Rightarrow> f_formatter p m dest
      | FNanos \<Rightarrow> F_formatter p m dest
      | FEpoch \<Rightarrow> E_formatter p m dest
      | FAmPm \<Rightarrow> p_formatter p t dest
      | FClock12 \<Rightarrow> r_formatter p t dest
      | FHourMin \<Rightarrow> R_formatter p t dest
      | FClock \<Rightarrow> T_formatter p t dest
      | FPid \<Rightarrow> pid_formatter (fe_pid env) p dest
      | FColorStart \<Rightarrow> dest
      | FColorStop \<Rightarrow> dest
      | FLocation \<Rightarrow> source_location_formatter p m dest
      | FShortFile \<Rightarrow> short_filename_formatter p m dest
      | FFile \<Rightarrow> source_filename_formatter p m dest
      | FLine \<Rightarrow> source_linenum_formatter p m dest
      | FFunc \<Rightarrow> source_funcname_formatter p m dest
      | FMdc \<Rightarrow> mdc_formatter (fe_mdc env) p dest)"

text \<open>The colour range is the one part of the message that formatters change.\<close>

definition mark_color :: "formatter \<Rightarrow> string \<Rightarrow> log_msg \<Rightarrow> log_msg" where
  "mark_color f dest m =
     (case f of
        Plain FColorStart p \<Rightarrow> m\<lparr>lm_color_start := length dest\<rparr>
      | Plain FColorStop p \<Rightarrow> m\<lparr>lm_color_end := length dest\<rparr>
      | _ \<Rightarrow> m)"

definition flag_format :: "fmt_env \<Rightarrow> formatter \<Rightarrow> log_msg \<Rightarrow> tm \<Rightarrow> string \<Rightarrow> string \<times> log_msg \<times> formatter" where
  "flag_format env f m t dest =
     (case f of
        Plain fl p \<Rightarrow> (format_plain env fl p m t dest, mark_color f dest m, f)
      | Zone p cache \<Rightarrow> (let (d, cache1) = z_formatter p cache m t dest in (d, m, Zone p cache1))
      | Elapsed unit p prev \<Rightarrow> (let (d, prev1) = elapsed_formatter unit p prev m dest in (d, m, Elapsed unit p prev1))
      | Full cache \<Rightarrow> (let (d, m1, cache1) = full_formatter (fe_mdc env) cache m t dest in (d, m1, Full cache1))
      | Aggregate s \<Rightarrow> (append_string_view s dest, m, f)
      | Ch c \<Rightarrow> (push_char c dest, m, f)
      | Custom c p \<Rightarrow> (fe_custom env c p m t dest, m, f))"

fun format_all :: "fmt_env \<Rightarrow> formatter list \<Rightarrow> log_msg \<Rightarrow> tm \<Rightarrow> string \<Rightarrow> string \<times> log_msg \<times> formatter list" where
  "format_all env [] m t dest = (dest, m, [])"
| "format_all env (f # fs) m t dest =
     (let (d1, m1, f1) = flag_format env f m t dest;
          (d2, m2, fs2) = format_all env fs m1 t d1
      in (d2, m2, f1 # fs2))"

section \<open>Compiling a pattern\<close>

text \<open>The flags of \<open>handle_flag_\<close> and whether they need the broken-down time.\<close>

definition flag_table :: "(char \<times> flag \<times> bool) list" where
  "flag_table =
     [(CHR ''n'', FName, False), (CHR ''l'', FLevel, False), (CHR ''L'', FShortLevel, False),
      (CHR ''t'', FThread, False), (CHR ''v'', FPayload, False), (CHR ''a'', FDay, True),
      (CHR ''A'', FFullDay, True), (CHR ''b'', FMonth, True), (CHR ''h'', FMonth, True),
      (CHR ''B'', FFullMonth, True), (CHR ''c'', FDateTime, True), (CHR ''C'', FYear2, True),
      (CHR ''Y'', FYear4, True), (CHR ''D'', FDate, True), (CHR ''x'', FDate, True),
      (CHR ''m'', FMonthNum, True), (CHR ''d'', FMonthDay, True), (CHR ''H'', FHour, True),
      (CHR ''I'', FHour12, True), (CHR ''M'', FMinute, True), (CHR ''S'', FSecond, True),
      (CHR ''e'', FMillis, False), (CHR ''f'', FMicros, False), (CHR ''F'', FNanos, False),
      (CHR ''E'', FEpoch, False), (CHR ''p'', FAmPm, True), (CHR ''r'', FClock12, True),
      (CHR ''R'', FHourMin, True), (CHR ''T'', FClock, True), (CHR ''X'', FClock, True),
      (CHR ''P'', FPid, False), (CHR ''^'', FColorStart, False), (CHR ''$'', FColorStop, False),
      (CHR ''@'', FLocation, False), (CHR ''s'', FShortFile, False), (CHR ''g'', FFile, False),
      (CHR ''#'', FLine, False), (CHR ''!'', FFunc, False), (CHR ''&'', FMdc, False)]"

definition elapsed_table :: "(char \<times> int) list" where
  "elapsed_table = [(CHR ''u'', 1), (CHR ''i'', 1000), (CHR ''o'', 1000000), (CHR ''O'', one_second)]"

text \<open>
  \<open>handle_flag_\<close>: the formatters it adds, and whether it asks for the broken-down time. \<open>custom\<close> are
  the flags with a user formatter, \<open>now\<close> is the time at which an elapsed-time formatter starts.
\<close>

definition handle_flag :: "char list \<Rightarrow> int \<Rightarrow> char \<Rightarrow> padding_info \<Rightarrow> formatter list \<times> bool" where
  "handle_flag custom now flag padding =
     (if flag \<in> set custom then ([Custom flag padding], False)
      else if flag = CHR ''+'' then ([Full (0, [])], True)
      else if flag = CHR ''z'' then ([Zone padding (0, 0)], True)
      else if flag = CHR ''%'' then ([Ch (CHR ''%'')], False)
      else case map_of elapsed_table flag of
          Some unit \<Rightarrow> ([Elapsed unit padding now], False)
        | None \<Rightarrow>
            (case map_of flag_table flag of
               Some (f, need) \<Rightarrow> ([Plain f padding], need)
             | None \<Rightarrow>
                 if \<not> pd_truncate padding then ([Aggregate [CHR ''%'', flag]], False)
                 else ([Plain FFunc (padding\<lparr>pd_truncate := False\<rparr>), Aggregate [flag]], False)))"

fun read_width :: "u64 \<Rightarrow> string \<Rightarrow> u64 \<times> string" where
  "read_width width [] = (width, [])"
| "read_width width (c # cs) =
     (if is_digit c then read_width (width * 10 + of_nat (digit_value c)) cs else (width, c # cs))"

definition handle_padspec :: "string \<Rightarrow> padding_info \<times> string" where
  "handle_padspec s =
     (case s of
        [] \<Rightarrow> (no_padding, [])
      | c # cs \<Rightarrow>
          (let (side, it) = (if c = CHR ''-'' then (PadRight, cs)
                             else if c = CHR ''='' then (PadCenter, cs)
                             else (PadLeft, s))
           in case it of
                [] \<Rightarrow> (no_padding, [])
              | d # ds \<Rightarrow>
                  if \<not> is_digit d then (no_padding, it)
                  else (let (width, rest) = read_width (of_nat (digit_value d)) ds;
                            (trunc, rest1) = (case rest of
                                x # xs \<Rightarrow> if x = CHR ''!'' then (True, xs) else (False, rest)
                              | [] \<Rightarrow> (False, rest))
                        in (mk_padding (unat (min width 64)) side trunc, rest1))))"

definition user_formatter :: "string option \<Rightarrow> formatter list" where
  "user_formatter user_chars = (case user_chars of None \<Rightarrow> [] | Some s \<Rightarrow> [Aggregate s])"

definition add_ch :: "string option \<Rightarrow> char \<Rightarrow> string option" where
  "add_ch user_chars c = (case user_chars of None \<Rightarrow> Some [c] | Some s \<Rightarrow> Some (s @ [c]))"

lemma read_width_shorter: "length (snd (read_width w s)) \<le> length s"
  by (induction w s rule: read_width.induct) auto

lemma padspec_rest_shorter:
  "length (snd (case it of
      [] \<Rightarrow> (no_padding, [])
    | d # ds \<Rightarrow>
        if \<not> is_digit d then (no_padding, it)
        else (let (width, rest) = read_width (of_nat (digit_value d)) ds;
                  (trunc, rest1) = (case rest of
                      x # xs \<Rightarrow> if x = CHR ''!'' then (True, xs) else (False, rest)
                    | [] \<Rightarrow> (False, rest))
              in (mk_padding (unat (min width 64)) side trunc, rest1)))) \<le> length it"
proof (cases it)
  case (Cons d ds)
  obtain width rest where w: "read_width (of_nat (digit_value d)) ds = (width, rest)" by fastforce
  have "length rest \<le> length ds" using read_width_shorter [of "of_nat (digit_value d)" ds] w by simp
  then show ?thesis by (cases rest) (simp_all add: Cons w)
qed simp

lemma handle_padspec_shorter: "length (snd (handle_padspec s)) \<le> length s"
proof (cases s)
  case (Cons c cs)
  note shorter = padspec_rest_shorter [where it = cs] padspec_rest_shorter [where it = "c # cs" and side = PadLeft]
  consider "c = CHR ''-''" | "c \<noteq> CHR ''-''" "c = CHR ''=''" | "c \<noteq> CHR ''-''" "c \<noteq> CHR ''=''" by blast
  then show ?thesis
    by cases (simp_all only: handle_padspec_def Cons list.case(2) if_True if_False Let_def prod.case
        shorter(1) [unfolded Let_def] shorter(2) [unfolded Let_def list.case(2) length_Cons] length_Cons le_SucI simp_thms)
qed (simp add: handle_padspec_def)

text \<open>
  \<open>compile_pattern_\<close>: the formatters, and whether one of them needs the broken-down time. A \<^verbatim>\<open>%\<close> at
  the end of the pattern, with or without a padding, ends the loop.
\<close>

function compile_loop :: "char list \<Rightarrow> int \<Rightarrow> string \<Rightarrow> string option \<Rightarrow> formatter list \<times> bool" where
  "compile_loop custom now [] user_chars = (user_formatter user_chars, False)"
| "compile_loop custom now (c # cs) user_chars =
     (if c = CHR ''%''
      then (let (padding, it) = handle_padspec cs
            in case it of
                 [] \<Rightarrow> (user_formatter user_chars, False)
               | flag # rest \<Rightarrow>
                   (let (fs, need) = handle_flag custom now flag padding;
                        (gs, need_rest) = compile_loop custom now rest None
                    in (user_formatter user_chars @ fs @ gs, need \<or> need_rest)))
      else compile_loop custom now cs (add_ch user_chars c))"
  by pat_completeness auto
termination
proof (relation "measure (\<lambda>(custom, now, s, uc). length s)")
  fix custom :: "char list" and now :: int and c cs and uc :: "string option" and x p it flag and rest :: string
  assume "x = handle_padspec cs" "(p, it) = x" "it = flag # rest"
  then have "Suc (length rest) \<le> length cs"
    using handle_padspec_shorter [of cs] by (metis length_Cons snd_conv)
  then show "((custom, now, rest, None), (custom, now, c # cs, uc)) \<in> measure (\<lambda>(custom, now, s, uc). length s)"
    by simp
qed auto

definition compile_pattern :: "char list \<Rightarrow> int \<Rightarrow> string \<Rightarrow> formatter list \<times> bool" where
  "compile_pattern custom now pattern = compile_loop custom now pattern None"

section \<open>The pattern formatter\<close>

datatype time_type = LocalTime | UtcTime

record pattern_formatter =
  pf_pattern :: string
  pf_eol :: string
  pf_time_type :: time_type
  pf_need_localtime :: bool
  pf_cached_tm :: tm
  pf_last_log_secs :: int
  pf_formatters :: "formatter list"
  pf_custom :: "char list"

definition mk_pattern_formatter :: "int \<Rightarrow> string \<Rightarrow> time_type \<Rightarrow> string \<Rightarrow> char list \<Rightarrow> pattern_formatter" where
  "mk_pattern_formatter now pattern time_type eol custom =
     (let (fs, need) = compile_pattern custom now pattern
      in \<lparr>pf_pattern = pattern, pf_eol = eol, pf_time_type = time_type, pf_need_localtime = need,
          pf_cached_tm = zero_tm, pf_last_log_secs = 0, pf_formatters = fs, pf_custom = custom\<rparr>)"

definition default_pattern_formatter :: "time_type \<Rightarrow> string \<Rightarrow> pattern_formatter" where
  "default_pattern_formatter time_type eol =
     \<lparr>pf_pattern = ''%+'', pf_eol = eol, pf_time_type = time_type, pf_need_localtime = True,
      pf_cached_tm = zero_tm, pf_last_log_secs = 0, pf_formatters = [Full (0, [])], pf_custom = []\<rparr>"

definition pf_set_need_localtime :: "bool \<Rightarrow> pattern_formatter \<Rightarrow> pattern_formatter" where
  "pf_set_need_localtime need f = f\<lparr>pf_need_localtime := need\<rparr>"

definition pf_clone :: "int \<Rightarrow> pattern_formatter \<Rightarrow> pattern_formatter" where
  "pf_clone now f =
     pf_set_need_localtime (pf_need_localtime f)
       (mk_pattern_formatter now (pf_pattern f) (pf_time_type f) (pf_eol f) (pf_custom f))"

definition pf_set_pattern :: "int \<Rightarrow> string \<Rightarrow> pattern_formatter \<Rightarrow> pattern_formatter" where
  "pf_set_pattern now pattern f =
     (let (fs, need) = compile_pattern (pf_custom f) now pattern
      in f\<lparr>pf_pattern := pattern, pf_need_localtime := need, pf_formatters := fs\<rparr>)"

text \<open>\<open>add_flag\<close> gives a flag a user formatter; the pattern is not compiled again.\<close>

definition pf_add_flag :: "char \<Rightarrow> pattern_formatter \<Rightarrow> pattern_formatter" where
  "pf_add_flag flag f = f\<lparr>pf_custom := List.insert flag (pf_custom f)\<rparr>"

text \<open>\<open>zone\<close> gives the broken-down local or UTC time of a number of seconds.\<close>

definition get_time :: "(time_type \<Rightarrow> int \<Rightarrow> tm) \<Rightarrow> pattern_formatter \<Rightarrow> log_msg \<Rightarrow> tm" where
  "get_time zone f m = zone (pf_time_type f) (duration_cast one_second (lm_time m))"

definition update_time :: "(time_type \<Rightarrow> int \<Rightarrow> tm) \<Rightarrow> log_msg \<Rightarrow> pattern_formatter \<Rightarrow> pattern_formatter" where
  "update_time zone m f =
     (if pf_need_localtime f
      then (let secs = duration_cast one_second (lm_time m)
            in if secs \<noteq> pf_last_log_secs f then f\<lparr>pf_cached_tm := get_time zone f m, pf_last_log_secs := secs\<rparr> else f)
      else f)"

definition pf_format ::
  "fmt_env \<Rightarrow> (time_type \<Rightarrow> int \<Rightarrow> tm) \<Rightarrow> log_msg \<Rightarrow> string \<Rightarrow> pattern_formatter \<Rightarrow> string \<times> log_msg \<times> pattern_formatter" where
  "pf_format env zone m dest f =
     (let f1 = update_time zone m f;
          (d1, m1, fs) = format_all env (pf_formatters f1) m (pf_cached_tm f1) dest
      in (append_string_view (pf_eol f1) d1, m1, f1\<lparr>pf_formatters := fs\<rparr>))"

end
