(* ===== verification/Log_Pattern_Compile.thy ===== *)
theory Log_Pattern_Compile
  imports Log_Pattern
begin

text \<open>
  The language of patterns: what a pattern of literal characters and directives compiles to, and the bound
  on paddings.
\<close>

section \<open>Patterns\<close>

datatype item = Lit char | Dir "padding_info option" char

definition side_text :: "pad_side \<Rightarrow> string" where
  "side_text s = (case s of PadLeft \<Rightarrow> '''' | PadRight \<Rightarrow> ''-'' | PadCenter \<Rightarrow> ''='')"

definition padding_text :: "padding_info option \<Rightarrow> string" where
  "padding_text po =
     (case po of
        None \<Rightarrow> ''''
      | Some p \<Rightarrow> side_text (pd_side p) @ dec (pd_width p) @ (if pd_truncate p then ''!'' else ''''))"

definition padding_of :: "padding_info option \<Rightarrow> padding_info" where
  "padding_of po = (case po of None \<Rightarrow> no_padding | Some p \<Rightarrow> p)"

fun item_text :: "item \<Rightarrow> string" where
  "item_text (Lit c) = [c]"
| "item_text (Dir po flag) = CHR ''%'' # padding_text po @ [flag]"

definition pattern_text :: "item list \<Rightarrow> string" where
  "pattern_text is = concat (map item_text is)"

text \<open>No literal is a percent sign, and no flag can be taken for a part of the padding before it.\<close>

fun item_ok :: "item \<Rightarrow> bool" where
  "item_ok (Lit c) \<longleftrightarrow> c \<noteq> CHR ''%''"
| "item_ok (Dir None flag) \<longleftrightarrow> flag \<noteq> CHR ''-'' \<and> flag \<noteq> CHR ''='' \<and> \<not> is_digit flag"
| "item_ok (Dir (Some p) flag) \<longleftrightarrow> pd_enabled p \<and> pd_width p \<le> 64
     \<and> (pd_truncate p \<or> flag \<noteq> CHR ''!'' \<and> \<not> is_digit flag)"

text \<open>Runs of literals become one formatter, directives what \<open>handle_flag\<close> makes of them.\<close>

fun item_formatters :: "char list \<Rightarrow> int \<Rightarrow> item list \<Rightarrow> string option \<Rightarrow> formatter list" where
  "item_formatters custom now [] uc = user_formatter uc"
| "item_formatters custom now (Lit c # is) uc = item_formatters custom now is (add_ch uc c)"
| "item_formatters custom now (Dir po flag # is) uc =
     user_formatter uc @ fst (handle_flag custom now flag (padding_of po)) @ item_formatters custom now is None"

fun item_needs_time :: "char list \<Rightarrow> int \<Rightarrow> item \<Rightarrow> bool" where
  "item_needs_time custom now (Lit c) = False"
| "item_needs_time custom now (Dir po flag) = snd (handle_flag custom now flag (padding_of po))"

lemma read_width_digits:
  assumes "list_all is_digit ds" and "rest = [] \<or> \<not> is_digit (hd rest)"
  shows "read_width (of_nat a) (ds @ rest) = (of_nat (foldl (\<lambda>a c. 10 * a + digit_value c) a ds), rest)"
  using assms(1)
proof (induction ds arbitrary: a)
  case Nil
  show ?case using assms(2) by (cases rest) simp_all
next
  case (Cons c ds)
  have "(of_nat a * 10 + of_nat (digit_value c) :: u64) = of_nat (10 * a + digit_value c)"
    by (simp add: mult.commute)
  then have "read_width (of_nat a) ((c # ds) @ rest) = read_width (of_nat (10 * a + digit_value c)) (ds @ rest)"
    using Cons.prems by (simp only: append_Cons read_width.simps list.pred_inject if_True)
  also have "\<dots> = (of_nat (foldl (\<lambda>a c. 10 * a + digit_value c) (10 * a + digit_value c) ds), rest)"
    using Cons.prems by (intro Cons.IH) simp
  finally show ?case by simp
qed

lemma min_width: "w \<le> 64 \<Longrightarrow> unat (min (of_nat w :: u64) 64) = w"
proof -
  assume w: "w \<le> 64"
  then have u: "unat (of_nat w :: u64) = w" by (simp add: unsigned_of_nat take_bit_nat_eq_self)
  then have "(of_nat w :: u64) \<le> 64" using w by (simp add: word_le_nat_alt)
  then show ?thesis using u by (simp add: min_def)
qed

lemma digit_not_side: "is_digit d \<Longrightarrow> d \<noteq> CHR ''-'' \<and> d \<noteq> CHR ''=''"
  by (auto simp: is_digit_def)

lemma padspec_text:
  assumes "item_ok (Dir po flag)"
  shows "handle_padspec (padding_text po @ flag # rest) = (padding_of po, flag # rest)"
proof (cases po)
  case None
  then show ?thesis using assms by (simp add: padding_text_def padding_of_def handle_padspec_def)
next
  case (Some p)
  let ?tail = "(if pd_truncate p then ''!'' else '''') @ flag # rest"
  obtain d ds where dec: "dec (pd_width p) = d # ds" by (cases "dec (pd_width p)") auto
  have digits: "is_digit d" "list_all is_digit ds" using dec_digits [of "pd_width p"] dec by simp_all
  have "foldl (\<lambda>a c. 10 * a + digit_value c) (digit_value d) ds = pd_width p"
    using dec_value_dec [of "pd_width p"] dec by (simp add: dec_value_def)
  moreover have "?tail = [] \<or> \<not> is_digit (hd ?tail)" using assms Some by (auto simp: is_digit_def)
  ultimately have width: "read_width (of_nat (digit_value d)) (ds @ ?tail) = (of_nat (pd_width p), ?tail)"
    using read_width_digits [OF digits(2), of ?tail "digit_value d"] by simp
  have "handle_padspec (side_text (pd_side p) @ (d # ds) @ ?tail) =
      (mk_padding (pd_width p) (pd_side p) (pd_truncate p), flag # rest)"
    using width digits(1) digit_not_side [OF digits(1)] assms Some
    by (cases "pd_side p") (auto simp: handle_padspec_def side_text_def min_width Let_def)
  moreover have "mk_padding (pd_width p) (pd_side p) (pd_truncate p) = p"
    using assms Some by (simp add: mk_padding_def)
  ultimately show ?thesis using Some dec by (simp add: padding_text_def padding_of_def)
qed

lemma compile_items:
  assumes "list_all item_ok is"
  shows "compile_loop custom now (pattern_text is) uc =
    (item_formatters custom now is uc, list_ex (item_needs_time custom now) is)"
  using assms
proof (induction "is" arbitrary: uc)
  case Nil
  then show ?case by (simp add: pattern_text_def)
next
  case (Cons i "is")
  show ?case
  proof (cases i)
    case (Lit c)
    then show ?thesis using Cons by (simp add: pattern_text_def)
  next
    case (Dir po flag)
    then have "handle_padspec (padding_text po @ flag # pattern_text is) = (padding_of po, flag # pattern_text is)"
      using Cons.prems by (intro padspec_text) simp
    then show ?thesis
      using Cons Dir by (simp add: pattern_text_def split: prod.split)
  qed
qed

text \<open>
  C30: Compiling a written pattern gives back what was written: one formatter for each directive, with
  the padding that was written for it, one for each run of literal characters in between, in order,
  and the broken-down time is asked for exactly if a directive needs it.
\<close>

theorem compile_written:
  assumes "list_all item_ok is"
  shows "compile_pattern custom now (pattern_text is) =
    (item_formatters custom now is None, list_ex (item_needs_time custom now) is)"
  unfolding compile_pattern_def by (rule compile_items [OF assms])

theorem compile_written_witness:
  "compile_pattern [] 0 ''a%-8l:%v'' =
    ([Aggregate ''a'', Plain FLevel (mk_padding 8 PadRight False), Aggregate '':'', Plain FPayload no_padding], False)"
proof -
  let ?is = "[Lit (CHR ''a''), Dir (Some (mk_padding 8 PadRight False)) (CHR ''l''), Lit (CHR '':''), Dir None (CHR ''v'')]"
  have "list_all item_ok ?is" "pattern_text ?is = ''a%-8l:%v''"
    "item_formatters [] 0 ?is None =
      [Aggregate ''a'', Plain FLevel (mk_padding 8 PadRight False), Aggregate '':'', Plain FPayload no_padding]"
    "\<not> list_ex (item_needs_time [] 0) ?is"
    by code_simp+
  then show ?thesis using compile_written [of ?is "[]" 0] by simp
qed

section \<open>Paddings are bounded\<close>

fun formatter_padding :: "formatter \<Rightarrow> padding_info option" where
  "formatter_padding (Plain f p) = Some p"
| "formatter_padding (Zone p c) = Some p"
| "formatter_padding (Elapsed u p t) = Some p"
| "formatter_padding (Custom c p) = Some p"
| "formatter_padding _ = None"

definition narrow :: "formatter \<Rightarrow> bool" where
  "narrow f \<longleftrightarrow> (case formatter_padding f of None \<Rightarrow> True | Some p \<Rightarrow> pd_width p \<le> 64)"

lemma handle_padspec_narrow: "pd_width (fst (handle_padspec s)) \<le> 64"
proof -
  have "unat (min w 64) \<le> 64" for w :: u64
    using word_le_nat_alt [of "min w 64" "64 :: u64"] by simp
  then show ?thesis
    by (auto simp: handle_padspec_def no_padding_def mk_padding_def Let_def split: list.split prod.split)
qed

lemma handle_flag_narrow: "pd_width p \<le> 64 \<Longrightarrow> list_all narrow (fst (handle_flag custom now flag p))"
  by (simp add: handle_flag_def narrow_def split: option.split prod.split)

lemma user_narrow: "list_all narrow (user_formatter uc)"
  by (simp add: user_formatter_def narrow_def split: option.split)

lemma compile_narrow: "list_all narrow (fst (compile_loop custom now s uc))"
proof (induction custom now s uc rule: compile_loop.induct)
  case (1 custom now uc)
  then show ?case by (simp add: user_narrow)
next
  case (2 custom now c cs uc)
  show ?case
  proof (cases "c = CHR ''%''")
    case True
    obtain p it where spec: "handle_padspec cs = (p, it)" by fastforce
    then have "pd_width p \<le> 64" using handle_padspec_narrow [of cs] by simp
    then show ?thesis
      using True spec 2(1) [OF True spec [symmetric] refl] user_narrow [of uc] handle_flag_narrow [of p custom now]
      by (auto simp: split: list.split prod.split) (metis fst_conv list_all_append)+
  qed (use 2 in simp)
qed

text \<open>
  No pattern, however written, makes a padder read past its 64 spaces: in every formatter a
  pattern compiles to, whatever size its text has, the number of spaces asked for at either side is at
  most 64.
\<close>

theorem padding_in_bounds:
  assumes "f \<in> set (fst (compile_pattern custom now pattern))" and "formatter_padding f = Some p"
    and "padder_begin n p dest = (remaining, dest1)"
  shows "remaining \<le> int (length spaces) \<and> length dest1 \<le> length dest + length spaces"
proof -
  have "list_all narrow (fst (compile_pattern custom now pattern))"
    by (simp add: compile_pattern_def compile_narrow)
  then have w: "pd_width p \<le> 64" using assms(1,2) by (auto simp: list_all_iff narrow_def)
  let ?r = "int (pd_width p) - int n"
  have half: "?r div 2 + ?r mod 2 \<le> 64" using w by linarith
  have len: "length (pad_it k dest) \<le> length dest + 64" for k
    by (simp add: pad_it_def append_string_view_def spaces_def)
  show ?thesis
    using assms(3) w half len by (auto simp: padder_begin_def spaces_def Let_def split: if_splits pad_side.splits)
qed

theorem padding_in_bounds_witness:
  "fst (padder_begin 1 (mk_padding 64 PadRight False) ''x'') \<le> int (length spaces)"
proof -
  have f: "Plain FLevel (mk_padding 64 PadRight False) \<in> set (fst (compile_pattern [] 0 ''%-99l''))"
    by code_simp
  obtain r d where "padder_begin 1 (mk_padding 64 PadRight False) ''x'' = (r, d)" by fastforce
  then show ?thesis using padding_in_bounds [OF f, of "mk_padding 64 PadRight False" 1 "''x''" r d] by simp
qed

end
