(* ===== verification/Log_Pattern_Spec.thy ===== *)
theory Log_Pattern_Spec
  imports Log_Pattern
begin

text \<open>
  What patterns print: the text of every flag, the language of patterns and its compilation, and
  that formatting a message does not depend on the messages before it.
\<close>

section \<open>The text of a flag\<close>

text \<open>What the C library returns for any instant of the years 1900 to 9999.\<close>

definition tm_ok :: "tm \<Rightarrow> bool" where
  "tm_ok t \<longleftrightarrow> 0 \<le> tm_sec t \<and> tm_sec t \<le> 60 \<and> 0 \<le> tm_min t \<and> tm_min t < 60 \<and> 0 \<le> tm_hour t \<and> tm_hour t < 24
     \<and> 1 \<le> tm_mday t \<and> tm_mday t \<le> 31 \<and> 0 \<le> tm_mon t \<and> tm_mon t < 12 \<and> 0 \<le> tm_year t
     \<and> tm_year t + 1900 < 10000 \<and> 0 \<le> tm_wday t \<and> tm_wday t < 7"

definition msg_ok :: "log_msg \<Rightarrow> bool" where
  "msg_ok m \<longleftrightarrow> 0 \<le> lm_time m \<and> lm_thread m < 2 ^ 64 \<and> sl_line (lm_source m) < 2 ^ 31"

definition zpadi :: "nat \<Rightarrow> int \<Rightarrow> string" where
  "zpadi k n = zpad k (nat n)"

definition clock :: "tm \<Rightarrow> string" where
  "clock t = zpadi 2 (tm_hour t) @ '':'' @ zpadi 2 (tm_min t) @ '':'' @ zpadi 2 (tm_sec t)"

definition year2 :: "tm \<Rightarrow> string" where
  "year2 t = zpadi 2 (tm_year t mod 100)"

definition sub_second :: "log_msg \<Rightarrow> int" where
  "sub_second m = lm_time m mod one_second"

definition flag_text :: "fmt_env \<Rightarrow> flag \<Rightarrow> log_msg \<Rightarrow> tm \<Rightarrow> string" where
  "flag_text env f m t =
     (let loc = lm_source m; at_source = (\<lambda>s. if source_empty loc then [] else s) in
      case f of
        FName \<Rightarrow> lm_logger m
      | FLevel \<Rightarrow> level_to_string (lm_level m)
      | FShortLevel \<Rightarrow> level_to_short (lm_level m)
      | FThread \<Rightarrow> dec (lm_thread m)
      | FPayload \<Rightarrow> lm_payload m
      | FDay \<Rightarrow> days ! nat (tm_wday t)
      | FFullDay \<Rightarrow> full_days ! nat (tm_wday t)
      | FMonth \<Rightarrow> months ! nat (tm_mon t)
      | FFullMonth \<Rightarrow> full_months ! nat (tm_mon t)
      | FYear2 \<Rightarrow> year2 t
      | FYear4 \<Rightarrow> dec (nat (tm_year t + 1900))
      | FDate \<Rightarrow> zpadi 2 (tm_mon t + 1) @ ''/'' @ zpadi 2 (tm_mday t) @ ''/'' @ year2 t
      | FMonthNum \<Rightarrow> zpadi 2 (tm_mon t + 1)
      | FMonthDay \<Rightarrow> zpadi 2 (tm_mday t)
      | FHour \<Rightarrow> zpadi 2 (tm_hour t)
      | FHour12 \<Rightarrow> zpadi 2 (to12h t)
      | FMinute \<Rightarrow> zpadi 2 (tm_min t)
      | FSecond \<Rightarrow> zpadi 2 (tm_sec t)
      | FMillis \<Rightarrow> zpadi 3 (sub_second m div 1000000)
      | FMicros \<Rightarrow> zpadi 6 (sub_second m div 1000)
      | FNanos \<Rightarrow> zpadi 9 (sub_second m)
      | FEpoch \<Rightarrow> dec (nat (lm_time m div one_second))
      | FAmPm \<Rightarrow> ampm t
      | FClock12 \<Rightarrow> zpadi 2 (to12h t) @ '':'' @ zpadi 2 (tm_min t) @ '':'' @ zpadi 2 (tm_sec t) @ '' '' @ ampm t
      | FHourMin \<Rightarrow> zpadi 2 (tm_hour t) @ '':'' @ zpadi 2 (tm_min t)
      | FClock \<Rightarrow> clock t
      | FPid \<Rightarrow> dec (unat (fe_pid env))
      | FLocation \<Rightarrow> at_source (c_string (sl_file loc) @ '':'' @ dec (nat (sl_line loc)))
      | FShortFile \<Rightarrow> at_source (basename (c_string (sl_file loc)))
      | FFile \<Rightarrow> at_source (c_string (sl_file loc))
      | FLine \<Rightarrow> at_source (dec (nat (sl_line loc)))
      | FFunc \<Rightarrow> at_source (c_string (sl_func loc))
      | FDateTime \<Rightarrow> days ! nat (tm_wday t) @ '' '' @ months ! nat (tm_mon t) @ '' '' @ dec (nat (tm_mday t)) @ '' ''
          @ clock t @ '' '' @ dec (nat (tm_year t + 1900))
      | _ \<Rightarrow> [])"

text \<open>Flags that do not write one field: the colour marks and the diagnostic context.\<close>

definition one_field :: "flag \<Rightarrow> bool" where
  "one_field f \<longleftrightarrow> f \<noteq> FColorStart \<and> f \<noteq> FColorStop \<and> f \<noteq> FMdc"

text \<open>Two flags announce a size that their text need not have.\<close>

definition size_as_announced :: "flag \<Rightarrow> log_msg \<Rightarrow> tm \<Rightarrow> bool" where
  "size_as_announced f m t \<longleftrightarrow> (f = FDateTime \<longrightarrow> tm_mday t \<ge> 10)
     \<and> (f = FEpoch \<longrightarrow> 10 ^ 9 \<le> lm_time m div one_second \<and> lm_time m div one_second < 10 ^ 10)"

lemma pad2_nat: "0 \<le> n \<Longrightarrow> n < 100 \<Longrightarrow> pad2 n d = d @ zpadi 2 n"
  using pad2_zpad [of "nat n" d] by (simp add: zpadi_def)

lemma length_zpad: "1 \<le> k \<Longrightarrow> n < 10 ^ k \<Longrightarrow> length (zpad k n) = k"
  using dec_length [of k n] by (simp add: zpad_def)

lemma length_zpadi: "1 \<le> k \<Longrightarrow> n < 10 ^ k \<Longrightarrow> 0 \<le> n \<Longrightarrow> length (zpadi k n) = k"
  unfolding zpadi_def by (rule length_zpad) (simp_all add: nat_less_iff)

lemma length_dec: "1 \<le> k \<Longrightarrow> 10 ^ (k - 1) \<le> n \<Longrightarrow> n < 10 ^ k \<Longrightarrow> length (dec n) = k"
proof (cases "k = 1")
  case False
  assume a: "1 \<le> k" "10 ^ (k - 1) \<le> n" "n < 10 ^ k"
  then have "length (dec n) \<le> k" "\<not> length (dec n) \<le> k - 1"
    using False dec_length [of k n] dec_length [of "k - 1" n] by simp_all
  then show ?thesis by simp
qed (simp add: dec_length_one)

lemma int_text_nonneg: "0 \<le> n \<Longrightarrow> int_text n = dec (nat n)"
  by (simp add: int_text_def)

lemma count_digits_nonneg: "0 \<le> n \<Longrightarrow> n < 2 ^ 64 \<Longrightarrow> count_digits n = length (dec (nat n))"
proof -
  assume "0 \<le> n" "n < 2 ^ 64"
  then have "unat (word_of_int n :: u64) = nat n"
    by (simp add: unsigned_of_int take_bit_int_eq_self)
  then show ?thesis
    by (simp add: count_digits_def count_digits_fallback_def count_digits_loop_length)
qed

lemmas writes = append_string_view_def append_int_def push_char_def


lemma zpadi_lengths [simp]:
  "0 \<le> n \<Longrightarrow> n < 100 \<Longrightarrow> length (zpadi 2 n) = 2" "0 \<le> n \<Longrightarrow> n < 1000 \<Longrightarrow> length (zpadi 3 n) = 3"
  "0 \<le> n \<Longrightarrow> n < 1000000 \<Longrightarrow> length (zpadi 6 n) = 6" "0 \<le> n \<Longrightarrow> n < 1000000000 \<Longrightarrow> length (zpadi 9 n) = 9"
  by (simp_all add: length_zpadi)

lemma to12h_range: "tm_ok t \<Longrightarrow> 0 \<le> to12h t \<and> to12h t \<le> 12"
  by (simp add: tm_ok_def to12h_def)

lemma tm_ok_pads:
  assumes "tm_ok t"
  shows "pad2 (tm_sec t) d = d @ zpadi 2 (tm_sec t)" "pad2 (tm_min t) d = d @ zpadi 2 (tm_min t)"
    "pad2 (tm_hour t) d = d @ zpadi 2 (tm_hour t)" "pad2 (to12h t) d = d @ zpadi 2 (to12h t)"
    "pad2 (tm_mday t) d = d @ zpadi 2 (tm_mday t)" "pad2 (tm_mon t + 1) d = d @ zpadi 2 (tm_mon t + 1)"
    "length (zpadi 2 (tm_sec t)) = 2" "length (zpadi 2 (tm_min t)) = 2" "length (zpadi 2 (tm_hour t)) = 2"
    "length (zpadi 2 (to12h t)) = 2" "length (zpadi 2 (tm_mday t)) = 2" "length (zpadi 2 (tm_mon t + 1)) = 2"
  using assms to12h_range [OF assms] by (simp_all add: tm_ok_def pad2_nat)

lemma time_fraction_nonneg:
  assumes "0 \<le> t" and "unit > 0" and "one_second = k * unit"
  shows "time_fraction unit t = t mod one_second div unit"
proof -
  have whole: "t div one_second * one_second = (t div one_second * k) * unit"
    using assms(3) by (metis mult.assoc)
  have "t div one_second * one_second div unit = t div one_second * k"
    using assms(2) by (subst whole) simp
  moreover have "(t div one_second * one_second + t mod one_second) div unit =
      t div one_second * k + t mod one_second div unit"
    using assms(2) unfolding assms(3) by (metis div_mult_self3 mult.assoc add.commute less_irrefl)
  ultimately show ?thesis
    using assms(1) by (simp add: time_fraction_def duration_cast_def Let_def pos_imp_zdiv_nonneg_iff)
qed

lemma sub_second_parts:
  assumes "0 \<le> lm_time m"
  shows "time_fraction 1000000 (lm_time m) = sub_second m div 1000000" "time_fraction 1000 (lm_time m) = sub_second m div 1000"
    "time_fraction 1 (lm_time m) = sub_second m" "0 \<le> sub_second m" "sub_second m < 1000000000"
  using assms time_fraction_nonneg [of "lm_time m" 1000000 1000] time_fraction_nonneg [of "lm_time m" 1000 1000000]
    time_fraction_nonneg [of "lm_time m" 1 1000000000]
  by (simp_all add: sub_second_def)

lemma pad3_int: "0 \<le> n \<Longrightarrow> n < 1000 \<Longrightarrow> pad3 (word_of_int n) d = d @ zpadi 3 n"
  by (simp add: pad3_zpad zpadi_def unsigned_of_int take_bit_int_eq_self)

lemma pad6_int: "0 \<le> n \<Longrightarrow> n < 1000000 \<Longrightarrow> pad6 (word_of_int n) d = d @ zpadi 6 n"
  by (simp add: pad6_def pad_uint_zpad zpadi_def unsigned_of_int take_bit_int_eq_self)

lemma pad9_int: "0 \<le> n \<Longrightarrow> n < 1000000000 \<Longrightarrow> pad9 (word_of_int n) d = d @ zpadi 9 n"
  by (simp add: pad9_def pad_uint_zpad zpadi_def unsigned_of_int take_bit_int_eq_self)

lemma year_length: "tm_ok t \<Longrightarrow> length (dec (nat (tm_year t + 1900))) = 4"
  by (intro length_dec) (auto simp: tm_ok_def nat_less_iff le_nat_iff)

text \<open>Fields of a broken-down time.\<close>

lemma time_fields:
  assumes "tm_ok t" and "pd_width p \<le> 64"
    and "f \<in> {FYear4, FMonthNum, FMonthDay, FHour, FHour12, FMinute, FSecond, FAmPm, FClock12, FHourMin, FClock}"
  shows "format_plain env f p m t dest = dest @ field p (flag_text env f m t)"
proof -
  note pads = tm_ok_pads [OF assms(1)]
  have year: "int_text (tm_year t + 1900) = dec (nat (tm_year t + 1900))" "length (dec (nat (tm_year t + 1900))) = 4"
    using assms(1) year_length by (simp_all add: tm_ok_def int_text_nonneg)
  show ?thesis
    using assms(3)
    by (auto simp: format_plain_def flag_text_def Let_def clock_def clock_text_def ampm_def pads year writes
        Y_formatter_def m_formatter_def d_formatter_def H_formatter_def I_formatter_def M_formatter_def
        S_formatter_def p_formatter_def r_formatter_def R_formatter_def T_formatter_def
        intro!: padded_exact [OF assms(2)])
qed


text \<open>Names out of tables, and the century.\<close>

lemma table_fields:
  assumes "pd_width p \<le> 64"
    and "f \<in> {FName, FLevel, FShortLevel, FPayload, FDay, FFullDay, FMonth, FFullMonth}"
  shows "format_plain env f p m t dest = dest @ field p (flag_text env f m t)"
  using assms(2)
  by (auto simp: format_plain_def flag_text_def Let_def writes name_formatter_def level_formatter_def
      short_level_formatter_def v_formatter_def a_formatter_def A_formatter_def b_formatter_def B_formatter_def
      intro!: padded_exact [OF assms(1)])

lemma year2_write:
  assumes "tm_ok t"
  shows "pad2 (c_rem (tm_year t) 100) d = d @ year2 t" "length (year2 t) = 2"
proof -
  have "c_rem (tm_year t) 100 = tm_year t mod 100"
    using assms by (simp add: c_rem_def duration_cast_def tm_ok_def minus_mult_div_eq_mod)
  moreover have "0 \<le> tm_year t mod 100" "tm_year t mod 100 < 100" by simp_all
  ultimately show "pad2 (c_rem (tm_year t) 100) d = d @ year2 t" "length (year2 t) = 2"
    by (simp_all only: year2_def pad2_nat zpadi_lengths)
qed

lemma year_fields:
  assumes "tm_ok t" and "pd_width p \<le> 64" and "f \<in> {FYear2, FDate}"
  shows "format_plain env f p m t dest = dest @ field p (flag_text env f m t)"
  using assms(3) tm_ok_pads [OF assms(1)] year2_write [OF assms(1)]
  by (auto simp: format_plain_def flag_text_def Let_def writes C_formatter_def D_formatter_def
      intro!: padded_exact [OF assms(2)])

text \<open>Fields of the message.\<close>

lemma message_fields:
  assumes "msg_ok m" and "pd_width p \<le> 64"
    and "f \<in> {FThread, FPid, FMillis, FMicros, FNanos}"
  shows "format_plain env f p m t dest = dest @ field p (flag_text env f m t)"
proof -
  have time: "0 \<le> lm_time m" using assms(1) by (simp add: msg_ok_def)
  note parts = sub_second_parts [OF time]
  have "sub_second m div 1000000 < 1000" "sub_second m div 1000 < 1000000"
    using parts(4,5) by linarith+
  moreover have "0 \<le> sub_second m div 1000000" "0 \<le> sub_second m div 1000"
    using parts(4) by (simp_all add: pos_imp_zdiv_nonneg_iff)
  moreover have "int (lm_thread m) < 2 ^ 64" using assms(1) by (simp add: msg_ok_def)
  moreover have "uint (fe_pid env) < 2 ^ 64" using uint_lt2p [of "fe_pid env"] by simp
  ultimately show ?thesis
    using assms(3) parts
    by (auto simp: format_plain_def flag_text_def Let_def writes t_formatter_def pid_formatter_def e_formatter_def
        f_formatter_def F_formatter_def pad3_int pad6_int pad9_int int_text_uint int_text_nat count_digits_nonneg
        intro!: padded_exact [OF assms(2)])
qed

lemma source_fields:
  assumes "msg_ok m" and "pd_width p \<le> 64"
    and "f \<in> {FLocation, FShortFile, FFile, FLine, FFunc}"
  shows "format_plain env f p m t dest = dest @ field p (flag_text env f m t)"
proof -
  let ?line = "sl_line (lm_source m)"
  have line: "\<not> source_empty (lm_source m) \<Longrightarrow> 0 \<le> ?line \<and> ?line < 2 ^ 64"
    using assms(1) by (simp add: msg_ok_def source_empty_def)
  show ?thesis
    using assms(3) line
    by (auto simp: format_plain_def flag_text_def Let_def writes source_location_formatter_def
        short_filename_formatter_def source_filename_formatter_def source_linenum_formatter_def
        source_funcname_formatter_def int_text_nonneg count_digits_nonneg
        intro!: padded_exact [OF assms(2)])
qed

lemma table_lengths:
  assumes "tm_ok t"
  shows "length (days ! nat (tm_wday t)) = 3" "length (months ! nat (tm_mon t)) = 3"
proof -
  have "nat (tm_wday t) \<in> set [0..<7]" "nat (tm_mon t) \<in> set [0..<12]" using assms by (auto simp: tm_ok_def)
  moreover have "list_all (\<lambda>i. length (days ! i) = 3) [0..<7]" "list_all (\<lambda>i. length (months ! i) = 3) [0..<12]"
    by code_simp+
  ultimately show "length (days ! nat (tm_wday t)) = 3" "length (months ! nat (tm_mon t)) = 3"
    by (simp_all add: list_all_iff)
qed

lemma datetime_writes:
  assumes "tm_ok t"
  shows "(append_int (tm_year t + 1900) \<circ> push_char (CHR '' '') \<circ> clock_text t \<circ> push_char (CHR '' '')
        \<circ> append_int (tm_mday t) \<circ> push_char (CHR '' '') \<circ> append_string_view (months ! nat (tm_mon t))
        \<circ> push_char (CHR '' '') \<circ> append_string_view (days ! nat (tm_wday t))) d = d @ flag_text env FDateTime m t"
proof -
  have "0 \<le> tm_mday t" "0 \<le> tm_year t + 1900" using assms by (simp_all add: tm_ok_def)
  then show ?thesis
    using tm_ok_pads [OF assms] by (simp add: flag_text_def writes clock_text_def clock_def int_text_nonneg)
qed

lemma datetime_length: "tm_ok t \<Longrightarrow> length (flag_text env FDateTime m t) = 22 + length (dec (nat (tm_mday t)))"
  using tm_ok_pads [of t] year_length [of t] table_lengths [of t] by (simp add: flag_text_def clock_def)

lemma datetime_field:
  assumes "tm_ok t" and "pd_width p \<le> 64" and "size_as_announced FDateTime m t"
  shows "format_plain env FDateTime p m t dest = dest @ field p (flag_text env FDateTime m t)"
proof -
  have "length (dec (nat (tm_mday t))) = 2"
    using assms(1,3) by (intro length_dec) (simp_all add: tm_ok_def size_as_announced_def nat_less_iff le_nat_iff)
  then have "24 = length (flag_text env FDateTime m t)" using datetime_length [OF assms(1), of env m] by simp
  then show ?thesis
    unfolding format_plain_def flag.case c_formatter_def
    by (intro padded_exact [OF assms(2)] datetime_writes [OF assms(1)])
qed

lemma epoch_field:
  assumes "msg_ok m" and "pd_width p \<le> 64" and "size_as_announced FEpoch m t"
  shows "format_plain env FEpoch p m t dest = dest @ field p (flag_text env FEpoch m t)"
proof -
  have secs: "10 ^ 9 \<le> lm_time m div one_second" "lm_time m div one_second < 10 ^ 10"
    using assms(3) unfolding size_as_announced_def by blast+
  then have "length (dec (nat (lm_time m div one_second))) = 10"
    by (intro length_dec) (simp_all add: nat_less_iff le_nat_iff)
  moreover have "duration_cast one_second (lm_time m) = lm_time m div one_second"
    using assms(1) by (simp add: msg_ok_def duration_cast_def)
  moreover have "int_text (lm_time m div one_second) = dec (nat (lm_time m div one_second))"
    using assms(1) by (intro int_text_nonneg) (simp add: msg_ok_def pos_imp_zdiv_nonneg_iff)
  ultimately show ?thesis
    by (simp add: format_plain_def flag_text_def E_formatter_def append_int_def padded_exact [OF assms(2)])
qed

lemma flag_field:
  assumes "tm_ok t" and "msg_ok m" and "pd_width p \<le> 64" and "one_field f" and "size_as_announced f m t"
  shows "format_plain env f p m t dest = dest @ field p (flag_text env f m t)"
proof -
  consider "f \<in> {FYear4, FMonthNum, FMonthDay, FHour, FHour12, FMinute, FSecond, FAmPm, FClock12, FHourMin, FClock}"
    | "f \<in> {FName, FLevel, FShortLevel, FPayload, FDay, FFullDay, FMonth, FFullMonth}" | "f \<in> {FYear2, FDate}"
    | "f \<in> {FThread, FPid, FMillis, FMicros, FNanos}" | "f \<in> {FLocation, FShortFile, FFile, FLine, FFunc}"
    | "f = FDateTime" | "f = FEpoch"
    using assms(4) by (cases f) (simp_all add: one_field_def)
  then show ?thesis
  proof cases
    case 1 then show ?thesis by (rule time_fields [OF assms(1,3)])
  next
    case 2 then show ?thesis by (rule table_fields [OF assms(3)])
  next
    case 3 then show ?thesis by (rule year_fields [OF assms(1,3)])
  next
    case 4 then show ?thesis by (rule message_fields [OF assms(2,3)])
  next
    case 5 then show ?thesis by (rule source_fields [OF assms(2,3)])
  next
    case 6 then show ?thesis using datetime_field [OF assms(1,3)] assms(5) by simp
  next
    case 7 then show ?thesis using epoch_field [OF assms(2,3)] assms(5) by simp
  qed
qed


definition noon :: tm where
  "noon = \<lparr>tm_sec = 5, tm_min = 4, tm_hour = 12, tm_mday = 31, tm_mon = 0, tm_year = 126, tm_wday = 6, tm_yday = 30,
           tm_gmtoff = 3600\<rparr>"


text \<open>
  The size that \<open>%c\<close> announces is wrong on the first nine days of a month: it says 24, the text has 23
  characters. A truncated field then removes a character too many, in a field of width 0 one of the
  text in front of it.
\<close>

theorem datetime_eats_text:
  assumes "tm_ok t" and "tm_mday t < 10"
  shows "length (flag_text env FDateTime m t) = 23
    \<and> format_plain env FDateTime (mk_padding 0 PadLeft True) m t (dest @ [c]) = dest"
proof -
  have "length (dec (nat (tm_mday t))) = 1" using assms by (intro dec_length_one) (simp add: nat_less_iff)
  then have "length (flag_text env FDateTime m t) = 23" using datetime_length [OF assms(1)] by simp
  then show ?thesis
    using datetime_writes [OF assms(1), unfolded o_apply, where env = env and m = m]
    by (simp add: format_plain_def c_formatter_def padded_def padder_begin_def padder_end_def mk_padding_def)
qed

theorem datetime_eats_text_witness:
  "format_plain \<lparr>fe_pid = 7, fe_mdc = [], fe_custom = (\<lambda>c p m t d. d)\<rparr> FDateTime (mk_padding 0 PadLeft True)
     default_log_msg (noon\<lparr>tm_mday := 3\<rparr>) ''['' = []"
  using datetime_eats_text [of "noon\<lparr>tm_mday := 3\<rparr>" _ default_log_msg "[]"] by (simp add: tm_ok_def noon_def)

text \<open>C3: the twelve-hour clock: noon is 12, but midnight is printed as 00.\<close>

theorem twelve_hours:
  assumes "tm_ok t"
  shows "flag_text env FHour12 m t =
    (if tm_hour t = 0 then ''00'' else zpadi 2 ((tm_hour t - 1) mod 12 + 1))"
proof -
  have "zpadi 2 0 = ''00''" by code_simp
  moreover have "to12h t = (tm_hour t - 1) mod 12 + 1" if "tm_hour t \<noteq> 0"
  proof (cases "tm_hour t \<le> 12")
    case True
    then have "(tm_hour t - 1) mod 12 = tm_hour t - 1" using assms that by (intro mod_pos_pos_trivial) (simp_all add: tm_ok_def)
    then show ?thesis using True by (simp add: to12h_def)
  next
    case False
    then have "(tm_hour t - 1 - 12) mod 12 = tm_hour t - 1 - 12" using assms by (intro mod_pos_pos_trivial) (simp_all add: tm_ok_def)
    moreover have "(tm_hour t - 1 - 12 + 12) mod 12 = (tm_hour t - 1 - 12) mod 12" by (rule mod_add_self2)
    ultimately have "(tm_hour t - 1) mod 12 = tm_hour t - 13" by simp
    then show ?thesis using False by (simp add: to12h_def)
  qed
  ultimately show ?thesis by (simp add: flag_text_def to12h_def)
qed

theorem twelve_hours_witness:
  "flag_text \<lparr>fe_pid = 7, fe_mdc = [], fe_custom = (\<lambda>c p m t d. d)\<rparr> FHour12 default_log_msg (noon\<lparr>tm_hour := 0\<rparr>) = ''00''"
  by (subst twelve_hours) (simp_all add: tm_ok_def noon_def)

end
