(* ===== verification/Log_Pattern_History.thy ===== *)
theory Log_Pattern_History
  imports Log_Pattern_Compile Log_Pattern_Spec
begin

text \<open>
  A pattern formatter caches the broken-down time of the last second, the date text of the default
  format and the offset from UTC. Here: that these caches are invisible, so that a formatter that has
  formatted other messages, its clone and a new one print the same.
\<close>

section \<open>Caches\<close>

definition secs_of :: "log_msg \<Rightarrow> int" where
  "secs_of m = duration_cast one_second (lm_time m)"

text \<open>
  \<open>k\<close> is the offset from UTC, constant while the formatter is used. A cache is empty or holds what the
  formatter would compute.
\<close>

fun cache_ok :: "(int \<Rightarrow> tm) \<Rightarrow> int \<Rightarrow> formatter \<Rightarrow> bool" where
  "cache_ok time k (Full c) \<longleftrightarrow> snd c = [] \<or> snd c = datetime_text (time (fst c))"
| "cache_ok time k (Zone p c) \<longleftrightarrow> c = (0, 0) \<or> snd c = k"
| "cache_ok time k (Elapsed u p t) \<longleftrightarrow> False"
| "cache_ok time k f \<longleftrightarrow> True"

fun cleared :: "formatter \<Rightarrow> formatter" where
  "cleared (Full c) = Full (0, [])"
| "cleared (Zone p c) = Zone p (0, 0)"
| "cleared f = f"

lemma datetime_nonempty: "datetime_text t \<noteq> []"
  by (simp add: datetime_text_def push_char_def)

text \<open>One flag: with the right time at hand, the cache changes neither the text nor the marks.\<close>

lemma flag_format_cleared:
  assumes "cache_ok time k f" and "t = time (secs_of m)" and "utc_minutes_offset t = k"
    and "lm_time m \<ge> 10 * one_second"
  shows "fst (flag_format env f m t dest) = fst (flag_format env (cleared f) m t dest)
    \<and> fst (snd (flag_format env f m t dest)) = fst (snd (flag_format env (cleared f) m t dest))
    \<and> cache_ok time k (snd (snd (flag_format env f m t dest)))
    \<and> cleared (snd (snd (flag_format env f m t dest))) = cleared f"
proof (cases f)
  case (Full c)
  have "snd (full_cache m t c) = datetime_text t" "snd (full_cache m t (0, [])) = datetime_text t"
    "fst (full_cache m t c) = secs_of m"
    using assms(1,2) Full by (auto simp: full_cache_def Let_def secs_of_def)
  then show ?thesis
    using assms(2) Full by (simp add: flag_format_def full_formatter_def Let_def)
next
  case (Zone p c)
  have "snd (get_cached_offset m t c) = k" "snd (get_cached_offset m t (0, 0)) = k"
    using assms Zone by (cases c, auto simp: get_cached_offset_def)
  then show ?thesis
    using Zone by (simp add: flag_format_def z_formatter_def Let_def)
qed (use assms(1) in \<open>simp_all add: flag_format_def\<close>)

lemma flag_format_time: "lm_time (fst (snd (flag_format env f m t dest))) = lm_time m"
proof (cases f)
  case (Plain fl p)
  then show ?thesis by (cases fl) (simp_all add: flag_format_def mark_color_def)
qed (simp_all add: flag_format_def full_formatter_def z_formatter_def elapsed_formatter_def Let_def split: prod.split)

lemma format_all_cleared:
  assumes "list_all (cache_ok time k) fs" and "t = time (secs_of m)" and "utc_minutes_offset t = k"
    and "lm_time m \<ge> 10 * one_second"
  shows "fst (format_all env fs m t dest) = fst (format_all env (map cleared fs) m t dest)
    \<and> fst (snd (format_all env fs m t dest)) = fst (snd (format_all env (map cleared fs) m t dest))
    \<and> list_all (cache_ok time k) (snd (snd (format_all env fs m t dest)))
    \<and> map cleared (snd (snd (format_all env fs m t dest))) = map cleared fs"
  using assms
proof (induction fs arbitrary: m dest)
  case (Cons f fs)
  obtain d1 m1 f1 where f1: "flag_format env f m t dest = (d1, m1, f1)" by (metis prod_cases3)
  obtain d2 m2 f2 where f2: "flag_format env (cleared f) m t dest = (d2, m2, f2)" by (metis prod_cases3)
  have "cache_ok time k f" using Cons.prems by simp
  note one = flag_format_cleared [OF this Cons.prems(2-4), of env dest, unfolded f1 f2, simplified]
  have time: "lm_time m1 = lm_time m" using flag_format_time [of env f m t dest] f1 by simp
  then have "t = time (secs_of m1)" "lm_time m1 \<ge> 10 * one_second"
    using Cons.prems by (simp_all add: secs_of_def)
  then have "fst (format_all env fs m1 t d1) = fst (format_all env (map cleared fs) m1 t d1)
    \<and> fst (snd (format_all env fs m1 t d1)) = fst (snd (format_all env (map cleared fs) m1 t d1))
    \<and> list_all (cache_ok time k) (snd (snd (format_all env fs m1 t d1)))
    \<and> map cleared (snd (snd (format_all env fs m1 t d1))) = map cleared fs"
    using Cons.prems by (intro Cons.IH) simp_all
  then show ?case
    using one f1 f2 by (simp add: case_prod_beta Let_def)
qed simp

section \<open>Formatters in use\<close>

text \<open>Messages from the tenth second after the epoch on, so that second 0 is no message's.\<close>

definition formatter_ok :: "(time_type \<Rightarrow> int \<Rightarrow> tm) \<Rightarrow> int \<Rightarrow> pattern_formatter \<Rightarrow> bool" where
  "formatter_ok zone k f \<longleftrightarrow> list_all (cache_ok (zone (pf_time_type f)) k) (pf_formatters f)
     \<and> (pf_last_log_secs f = 0 \<or> pf_cached_tm f = zone (pf_time_type f) (pf_last_log_secs f))"

inductive used :: "fmt_env \<Rightarrow> (time_type \<Rightarrow> int \<Rightarrow> tm) \<Rightarrow> pattern_formatter \<Rightarrow> pattern_formatter \<Rightarrow> bool" for env zone f where
  unused: "used env zone f f"
| used_again: "used env zone f g \<Longrightarrow> lm_time m \<ge> 10 * one_second \<Longrightarrow> used env zone f (snd (snd (pf_format env zone m dest g)))"

definition fresh :: "pattern_formatter \<Rightarrow> pattern_formatter" where
  "fresh f = f\<lparr>pf_cached_tm := zero_tm, pf_last_log_secs := 0, pf_formatters := map cleared (pf_formatters f)\<rparr>"

lemma late_second: "lm_time m \<ge> 10 * one_second \<Longrightarrow> secs_of m \<noteq> 0"
proof -
  assume "lm_time m \<ge> 10 * one_second"
  then have "lm_time m div one_second \<ge> 10" by (simp add: zdiv_mono1 [of "10 * one_second" _ one_second, simplified])
  then show ?thesis using \<open>lm_time m \<ge> 10 * one_second\<close> by (simp add: secs_of_def duration_cast_def)
qed

lemma update_time_ok:
  assumes "formatter_ok zone k f" and "pf_need_localtime f" and "lm_time m \<ge> 10 * one_second"
  shows "pf_cached_tm (update_time zone m f) = zone (pf_time_type f) (secs_of m)"
    and "pf_last_log_secs (update_time zone m f) = secs_of m"
  using assms late_second [OF assms(3)]
  by (auto simp: update_time_def formatter_ok_def get_time_def secs_of_def Let_def)

lemma update_time_fields [simp]:
  "pf_formatters (update_time zone m f) = pf_formatters f" "pf_time_type (update_time zone m f) = pf_time_type f"
  "pf_eol (update_time zone m f) = pf_eol f" "pf_need_localtime (update_time zone m f) = pf_need_localtime f"
  "pf_pattern (update_time zone m f) = pf_pattern f" "pf_custom (update_time zone m f) = pf_custom f"
  by (simp_all add: update_time_def Let_def)

lemma fresh_update: "fresh ((update_time zone m f)\<lparr>pf_formatters := fs\<rparr>) = (fresh f)\<lparr>pf_formatters := map cleared fs\<rparr>"
  by (simp add: fresh_def update_time_def Let_def)

lemma fresh_same: "(fresh f)\<lparr>pf_formatters := map cleared (pf_formatters f)\<rparr> = fresh f"
  by (simp add: fresh_def)

lemma pf_format_ok:
  assumes "formatter_ok zone k f" and "pf_need_localtime f" and "lm_time m \<ge> 10 * one_second"
    and "\<And>s. utc_minutes_offset (zone (pf_time_type f) s) = k"
  shows "fst (pf_format env zone m dest f) = fst (pf_format env zone m dest (fresh f))"
    and "fst (snd (pf_format env zone m dest f)) = fst (snd (pf_format env zone m dest (fresh f)))"
    and "formatter_ok zone k (snd (snd (pf_format env zone m dest f)))"
    and "fresh (snd (snd (pf_format env zone m dest f))) = fresh f"
proof -
  let ?time = "zone (pf_time_type f)" and ?t = "zone (pf_time_type f) (secs_of m)"
  have ok: "list_all (cache_ok ?time k) (pf_formatters f)" using assms(1) by (simp add: formatter_ok_def)
  note all = format_all_cleared [OF ok refl assms(4) assms(3), of env dest]
  have tm: "pf_cached_tm (update_time zone m f) = ?t" "pf_last_log_secs (update_time zone m f) = secs_of m"
    using update_time_ok [OF assms(1-3)] by simp_all
  have tm0: "pf_cached_tm (update_time zone m (fresh f)) = ?t"
    using assms(2) late_second [OF assms(3)] by (simp add: fresh_def update_time_def get_time_def secs_of_def Let_def)
  have fields: "pf_formatters (fresh f) = map cleared (pf_formatters f)" "pf_eol (fresh f) = pf_eol f"
    by (simp_all add: fresh_def)
  show "fst (pf_format env zone m dest f) = fst (pf_format env zone m dest (fresh f))"
    "fst (snd (pf_format env zone m dest f)) = fst (snd (pf_format env zone m dest (fresh f)))"
    using all by (simp_all add: pf_format_def case_prod_beta Let_def tm tm0 fields)
  show "formatter_ok zone k (snd (snd (pf_format env zone m dest f)))"
    using all by (simp add: formatter_ok_def pf_format_def case_prod_beta Let_def tm)
  show "fresh (snd (snd (pf_format env zone m dest f))) = fresh f"
    using all by (simp add: pf_format_def case_prod_beta Let_def tm fresh_update fresh_same)
qed

text \<open>What a pattern compiles to has empty caches, and the time it is compiled at matters to elapsed times only.\<close>

fun is_elapsed :: "formatter \<Rightarrow> bool" where
  "is_elapsed (Elapsed u p t) = True"
| "is_elapsed f = False"

definition new_formatter :: "(int \<Rightarrow> tm) \<Rightarrow> int \<Rightarrow> formatter \<Rightarrow> bool" where
  "new_formatter time k f \<longleftrightarrow> is_elapsed f \<or> cleared f = f \<and> cache_ok time k f"

lemma user_new: "list_all (new_formatter time k) (user_formatter uc)"
  by (simp add: user_formatter_def new_formatter_def split: option.split)

lemma flag_new: "list_all (new_formatter time k) (fst (handle_flag custom now c p))"
  by (simp add: handle_flag_def new_formatter_def split: option.split prod.split)

lemma flag_now:
  "\<not> list_ex is_elapsed (fst (handle_flag custom now c p)) \<Longrightarrow> handle_flag custom now' c p = handle_flag custom now c p"
  by (auto simp: handle_flag_def split: option.splits if_splits)

text \<open>The two equations of the loop at a percent sign.\<close>

lemma compile_flag:
  "handle_padspec cs = (p, flag # rest) \<Longrightarrow>
    compile_loop custom now (CHR ''%'' # cs) uc =
      (user_formatter uc @ fst (handle_flag custom now flag p) @ fst (compile_loop custom now rest None),
       snd (handle_flag custom now flag p) \<or> snd (compile_loop custom now rest None))"
  by (simp add: case_prod_beta Let_def)

lemma compile_end: "handle_padspec cs = (p, []) \<Longrightarrow> compile_loop custom now (CHR ''%'' # cs) uc = (user_formatter uc, False)"
  by simp

lemma compile_new: "list_all (new_formatter time k) (fst (compile_loop custom now s uc))"
proof (induction custom now s uc rule: compile_loop.induct)
  case (2 custom now c cs uc)
  obtain p it where spec: "handle_padspec cs = (p, it)" by fastforce
  show ?case
  proof (cases "c = CHR ''%''")
    case True
    show ?thesis
    proof (cases it)
      case Nil
      then show ?thesis unfolding True using spec by (simp only: compile_end user_new fst_conv)
    next
      case (Cons flag rest)
      have "list_all (new_formatter time k) (fst (compile_loop custom now rest None))"
        using 2(1) [OF True spec [symmetric] refl Cons] by (metis prod.collapse)
      then show ?thesis
        unfolding True using spec Cons by (simp only: compile_flag fst_conv list_all_append user_new flag_new)
    qed
  qed (use 2 in simp)
qed (simp add: user_new)

lemma compile_now:
  "\<not> list_ex is_elapsed (fst (compile_loop custom now s uc)) \<Longrightarrow> compile_loop custom now' s uc = compile_loop custom now s uc"
proof (induction custom now s uc rule: compile_loop.induct)
  case (2 custom now c cs uc)
  obtain p it where spec: "handle_padspec cs = (p, it)" by fastforce
  show ?case
  proof (cases "c = CHR ''%''")
    case True
    show ?thesis
    proof (cases it)
      case Nil
      then show ?thesis unfolding True using spec by (simp only: compile_end)
    next
      case (Cons flag rest)
      have no: "\<not> list_ex is_elapsed (fst (handle_flag custom now flag p))"
        "\<not> list_ex is_elapsed (fst (compile_loop custom now rest None))"
        using 2(3) spec Cons unfolding True by (simp_all only: compile_flag fst_conv list_ex_append) blast+
      have "compile_loop custom now' rest None = compile_loop custom now rest None"
        by (rule 2(1) [OF True refl spec [symmetric] Cons refl prod.collapse no(2)])
      then show ?thesis
        unfolding True using spec Cons flag_now [OF no(1), of now'] by (simp only: compile_flag)
    qed
  qed (use 2 in simp)
qed simp

section \<open>History does not matter\<close>

lemma used_formatter_ok:
  assumes "used env zone f g" and "formatter_ok zone k f" and "pf_need_localtime f"
    and "\<And>s. utc_minutes_offset (zone (pf_time_type f) s) = k"
  shows "formatter_ok zone k g \<and> fresh g = fresh f \<and> pf_need_localtime g \<and> pf_time_type g = pf_time_type f"
  using assms(1)
proof (induction rule: used.induct)
  case unused
  then show ?case using assms(2,3) by simp
next
  case (used_again g m dest)
  then have ok: "formatter_ok zone k g" "pf_need_localtime g"
    and off: "\<And>s. utc_minutes_offset (zone (pf_time_type g) s) = k"
    using assms(4) by simp_all
  note step = pf_format_ok [OF ok used_again(2) off, of env dest]
  have "pf_need_localtime (snd (snd (pf_format env zone m dest g))) = pf_need_localtime g"
    "pf_time_type (snd (snd (pf_format env zone m dest g))) = pf_time_type g"
    by (simp_all add: pf_format_def case_prod_beta Let_def)
  then show ?case using step used_again.IH by simp
qed

lemma made_ok:
  assumes "\<not> list_ex is_elapsed (fst (compile_pattern custom now pattern))"
  shows "formatter_ok zone k (mk_pattern_formatter now pattern tt eol custom)"
    and "fresh (mk_pattern_formatter now pattern tt eol custom) = mk_pattern_formatter now pattern tt eol custom"
proof -
  have new: "list_all (new_formatter (zone tt) k) (fst (compile_pattern custom now pattern))"
    unfolding compile_pattern_def by (rule compile_new)
  then have each: "cache_ok (zone tt) k f" "cleared f = f" if "f \<in> set (fst (compile_pattern custom now pattern))" for f
    using assms that by (auto simp: list_all_iff list_ex_iff new_formatter_def)
  show "formatter_ok zone k (mk_pattern_formatter now pattern tt eol custom)"
    using each by (simp add: formatter_ok_def mk_pattern_formatter_def case_prod_beta list_all_iff)
  have "map cleared (fst (compile_pattern custom now pattern)) = fst (compile_pattern custom now pattern)"
    using each(2) by (simp add: map_idI)
  then show "fresh (mk_pattern_formatter now pattern tt eol custom) = mk_pattern_formatter now pattern tt eol custom"
    by (simp add: fresh_def mk_pattern_formatter_def case_prod_beta)
qed

lemma used_same:
  assumes "used env zone (mk_pattern_formatter now pattern tt eol custom) f"
    and "\<not> list_ex is_elapsed (fst (compile_pattern custom now pattern))" and "snd (compile_pattern custom now pattern)"
    and "\<And>s. utc_minutes_offset (zone tt s) = k" and "lm_time m \<ge> 10 * one_second"
  shows "fst (pf_format env zone m dest f) = fst (pf_format env zone m dest (mk_pattern_formatter now pattern tt eol custom))
    \<and> fst (snd (pf_format env zone m dest f)) = fst (snd (pf_format env zone m dest (mk_pattern_formatter now pattern tt eol custom)))"
proof -
  let ?f = "mk_pattern_formatter now pattern tt eol custom"
  have tt: "pf_time_type ?f = tt" "pf_need_localtime ?f"
    using assms(3) by (simp_all add: mk_pattern_formatter_def case_prod_beta)
  then have off: "\<And>s. utc_minutes_offset (zone (pf_time_type ?f) s) = k" using assms(4) by simp
  have f: "formatter_ok zone k f" "fresh f = ?f" "pf_need_localtime f" "pf_time_type f = tt"
    using used_formatter_ok [OF assms(1) made_ok(1) [OF assms(2)] tt(2) off] made_ok(2) [OF assms(2)] tt by simp_all
  have "\<And>s. utc_minutes_offset (zone (pf_time_type f) s) = k" using assms(4) f(4) by simp
  from pf_format_ok(1,2) [OF f(1,3) assms(5) this] show ?thesis by (simp add: f(2))
qed


lemma used_fields:
  "used env zone f g \<Longrightarrow> pf_pattern g = pf_pattern f \<and> pf_eol g = pf_eol f \<and> pf_custom g = pf_custom f
     \<and> pf_time_type g = pf_time_type f \<and> pf_need_localtime g = pf_need_localtime f"
  by (induction rule: used.induct) (simp_all add: pf_format_def case_prod_beta Let_def)


definition utc_noon :: "time_type \<Rightarrow> int \<Rightarrow> tm" where
  "utc_noon tt s = noon\<lparr>tm_sec := s mod 60, tm_gmtoff := 0\<rparr>"


end
