(* ===== verification/Log_Sinks.thy ===== *)
theory Log_Sinks
  imports Log_Pattern_Spec
begin

text \<open>
  Sinks that transform what they are given: the colour console sink the library logs to by default
  (\<^verbatim>\<open>sinks/ansicolor_sink-inl.h\<close>), the sink that hands a message on to a list of sinks
  (\<^verbatim>\<open>sinks/dist_sink.h\<close>) and the filter of repeated messages built on it
  (\<^verbatim>\<open>sinks/dup_filter_sink.h\<close>).
\<close>

section \<open>The colour sink\<close>

definition esc :: "string \<Rightarrow> string" where
  "esc code = CHR 0x1B # ''['' @ code @ ''m''"

definition reset :: string where "reset = esc ''''"
definition cyan :: string where "cyan = esc ''36''"
definition green :: string where "green = esc ''32''"
definition white :: string where "white = esc ''37''"
definition yellow_bold :: string where "yellow_bold = esc ''33'' @ esc ''1''"
definition red_bold :: string where "red_bold = esc ''31'' @ esc ''1''"
definition bold_on_red :: string where "bold_on_red = esc ''1'' @ esc ''41''"

datatype color_mode = Always | Automatic | Never

record 'f ansicolor_sink =
  as_should_do_colors :: bool
  as_formatter :: 'f
  as_colors :: "string list"

text \<open>\<open>terminal\<close> is what \<^verbatim>\<open>in_terminal\<close> and \<^verbatim>\<open>is_color_terminal\<close> find.\<close>

definition as_set_color_mode :: "bool \<Rightarrow> color_mode \<Rightarrow> 'f ansicolor_sink \<Rightarrow> 'f ansicolor_sink" where
  "as_set_color_mode terminal mode k =
     k\<lparr>as_should_do_colors := (case mode of Always \<Rightarrow> True | Automatic \<Rightarrow> terminal | Never \<Rightarrow> False)\<rparr>"

definition as_set_color :: "log_level \<Rightarrow> string \<Rightarrow> 'f ansicolor_sink \<Rightarrow> 'f ansicolor_sink" where
  "as_set_color color_level color k = k\<lparr>as_colors := (as_colors k)[level_num color_level := color]\<rparr>"

definition mk_ansicolor_sink :: "bool \<Rightarrow> color_mode \<Rightarrow> 'f \<Rightarrow> 'f ansicolor_sink" where
  "mk_ansicolor_sink terminal mode formatter =
     (let k = as_set_color_mode terminal mode
                \<lparr>as_should_do_colors = False, as_formatter = formatter, as_colors = replicate 7 []\<rparr>
      in (as_set_color L_off reset \<circ> as_set_color L_critical bold_on_red \<circ> as_set_color L_err red_bold
          \<circ> as_set_color L_warn yellow_bold \<circ> as_set_color L_info green \<circ> as_set_color L_debug cyan
          \<circ> as_set_color L_trace white) k)"

definition as_set_formatter :: "'f \<Rightarrow> 'f ansicolor_sink \<Rightarrow> 'f ansicolor_sink" where
  "as_set_formatter sink_formatter k = k\<lparr>as_formatter := sink_formatter\<rparr>"

definition as_should_color :: "'f ansicolor_sink \<Rightarrow> bool" where
  "as_should_color k = as_should_do_colors k"

text \<open>
  The bytes written for a range of the buffer. \<open>None\<close> is a read outside of it, or a length below
  zero, which as \<^verbatim>\<open>size_t\<close> is such a read too.
\<close>

definition print_range :: "string \<Rightarrow> nat \<Rightarrow> nat \<Rightarrow> string option" where
  "print_range formatted start stop =
     (if start \<le> stop \<and> stop \<le> length formatted then Some (take (stop - start) (drop start formatted)) else None)"

definition out_append :: "string option \<Rightarrow> string option \<Rightarrow> string option" where
  "out_append a b = (case a of None \<Rightarrow> None | Some x \<Rightarrow> (case b of None \<Rightarrow> None | Some y \<Rightarrow> Some (x @ y)))"

definition as_log ::
  "(log_msg \<Rightarrow> 'f \<Rightarrow> string \<times> log_msg \<times> 'f) \<Rightarrow> log_msg \<Rightarrow> 'f ansicolor_sink \<Rightarrow> string option \<times> 'f ansicolor_sink" where
  "as_log format_msg m k =
     (let (formatted, m1, f) = format_msg (m\<lparr>lm_color_start := 0, lm_color_end := 0\<rparr>) (as_formatter k);
          start = lm_color_start m1; stop = lm_color_end m1;
          out = (if as_should_do_colors k \<and> stop > start
                 then out_append (print_range formatted 0 start)
                       (out_append (Some (as_colors k ! level_num (lm_level m1)))
                       (out_append (print_range formatted start stop)
                       (out_append (Some reset)
                       (print_range formatted stop (length formatted)))))
                 else print_range formatted 0 (length formatted))
      in (out, k\<lparr>as_formatter := f\<rparr>))"

lemma made_colors:
  "as_colors (mk_ansicolor_sink terminal mode f) = [white, cyan, green, yellow_bold, red_bold, bold_on_red, reset]"
  by (simp add: mk_ansicolor_sink_def as_set_color_def as_set_color_mode_def eval_nat_numeral Let_def)

lemma made_sink [simp]:
  "as_formatter (mk_ansicolor_sink terminal mode f) = f"
  "as_should_do_colors (mk_ansicolor_sink terminal mode f) =
    (case mode of Always \<Rightarrow> True | Automatic \<Rightarrow> terminal | Never \<Rightarrow> False)"
  by (simp_all add: mk_ansicolor_sink_def as_set_color_def as_set_color_mode_def Let_def)

lemma colored_parts:
  assumes "format_msg (m\<lparr>lm_color_start := 0, lm_color_end := 0\<rparr>) (as_formatter k) = (a @ b @ c, m1, f)"
    and "lm_color_start m1 = length a" and "lm_color_end m1 = length (a @ b)" and "as_should_do_colors k" and "b \<noteq> []"
  shows "fst (as_log format_msg m k) = Some (a @ (as_colors k ! level_num (lm_level m1)) @ b @ reset @ c)"
  using assms by (simp add: as_log_def print_range_def out_append_def)

lemma two_datetimes_compiled:
  "compile_pattern [] now ''%^ab%$%0!c%0!c'' =
    ([Plain FColorStart no_padding, Aggregate ''ab'', Plain FColorStop no_padding,
      Plain FDateTime (mk_padding 0 PadLeft True), Plain FDateTime (mk_padding 0 PadLeft True)], True)"
  by code_simp

text \<open>
  Truncated date and time fields take away a character each on the first nine days of a month. Where they follow a
  coloured range of two characters, the range ends behind the text, and the sink reads outside of its buffer.
\<close>

theorem color_range_past_end:
  assumes "tm_ok (zone tt (duration_cast one_second (lm_time m)))"
    and "tm_mday (zone tt (duration_cast one_second (lm_time m))) < 10"
    and "duration_cast one_second (lm_time m) \<noteq> 0" and "length eol \<le> 1"
  shows "fst (as_log (\<lambda>m. pf_format env zone m []) m
      (mk_ansicolor_sink terminal Always (mk_pattern_formatter now ''%^ab%$%0!c%0!c'' tt eol []))) = None"
proof -
  let ?t = "zone tt (duration_cast one_second (lm_time m))"
  have "length (dec (nat (tm_mday ?t))) = 1" using assms by (intro dec_length_one) (simp add: nat_less_iff)
  then have len: "length (flag_text env FDateTime m ?t) = 23" for m using datetime_length [OF assms(1)] by simp
  have clamp: "nat (max 0 (int n - 1)) = n - Suc 0" for n by linarith
  have eats: "format_plain env FDateTime (mk_padding 0 PadLeft True) m ?t d = take (length d - 1) d" for d m
    using datetime_writes [OF assms(1), unfolded o_apply, where env = env and m = m and d = d] len
    by (simp add: format_plain_def c_formatter_def padded_def padder_begin_def padder_end_def mk_padding_def clamp)
  show ?thesis
    using assms(3,4)
    by (simp add: as_log_def pf_format_def mk_pattern_formatter_def two_datetimes_compiled Let_def update_time_def get_time_def
        flag_format_def mark_color_def eats append_string_view_def print_range_def out_append_def
        format_plain_def [of _ FColorStart] format_plain_def [of _ FColorStop])
qed

theorem color_range_past_end_witness:
  "fst (as_log (\<lambda>m. pf_format \<lparr>fe_pid = 7, fe_mdc = [], fe_custom = (\<lambda>c p m t d. d)\<rparr> (\<lambda>tt s. noon\<lparr>tm_mday := 3\<rparr>) m [])
      (default_log_msg\<lparr>lm_time := 5000000000\<rparr>)
      (mk_ansicolor_sink False Always (mk_pattern_formatter 0 ''%^ab%$%0!c%0!c'' LocalTime [CHR 0x0A] []))) = None"
  by (rule color_range_past_end) (simp_all add: tm_ok_def noon_def duration_cast_def)



section \<open>Handing on to other sinks\<close>

text \<open>
  The sinks are objects of a heap; the distribution sink holds references. \<open>should\<close>, \<open>emit\<close>,
  \<open>flush_one\<close> and \<open>give\<close> are the virtual functions of a sink.
\<close>

record dist_sink =
  ds_sinks :: "nat list"

definition ds_add_sink :: "nat \<Rightarrow> dist_sink \<Rightarrow> dist_sink" where
  "ds_add_sink sub_sink d = d\<lparr>ds_sinks := ds_sinks d @ [sub_sink]\<rparr>"

definition ds_remove_sink :: "nat \<Rightarrow> dist_sink \<Rightarrow> dist_sink" where
  "ds_remove_sink sub_sink d = d\<lparr>ds_sinks := filter (\<lambda>r. r \<noteq> sub_sink) (ds_sinks d)\<rparr>"

definition ds_set_sinks :: "nat list \<Rightarrow> dist_sink \<Rightarrow> dist_sink" where
  "ds_set_sinks sinks d = d\<lparr>ds_sinks := sinks\<rparr>"

definition ds_sink_it ::
  "(log_level \<Rightarrow> 'k \<Rightarrow> bool) \<Rightarrow> (log_msg \<Rightarrow> 'k \<Rightarrow> 'k) \<Rightarrow> log_msg \<Rightarrow> dist_sink \<Rightarrow> 'k list \<Rightarrow> 'k list" where
  "ds_sink_it should emit m d heap =
     fold (\<lambda>r h. if should (lm_level m) (h ! r) then h[r := emit m (h ! r)] else h) (ds_sinks d) heap"

definition ds_flush :: "('k \<Rightarrow> 'k) \<Rightarrow> dist_sink \<Rightarrow> 'k list \<Rightarrow> 'k list" where
  "ds_flush flush_one d heap = fold (\<lambda>r h. h[r := flush_one (h ! r)]) (ds_sinks d) heap"

definition ds_set_formatter :: "('f \<Rightarrow> 'k \<Rightarrow> 'k) \<Rightarrow> ('f \<Rightarrow> 'f) \<Rightarrow> 'f \<Rightarrow> dist_sink \<Rightarrow> 'k list \<Rightarrow> 'k list" where
  "ds_set_formatter give clone f d heap = fold (\<lambda>r h. h[r := give (clone f) (h ! r)]) (ds_sinks d) heap"


section \<open>The filter of repeated messages\<close>

text \<open>The longest silence is in microseconds, times are in nanoseconds.\<close>

record dup_filter =
  df_max_skip :: int
  df_last_time :: int
  df_last_payload :: string
  df_skip_counter :: size_t
  df_skipped_level :: log_level

definition mk_dup_filter :: "int \<Rightarrow> dup_filter" where
  "mk_dup_filter max_skip_duration =
     \<lparr>df_max_skip = max_skip_duration, df_last_time = 0, df_last_payload = [], df_skip_counter = 0,
      df_skipped_level = L_off\<rparr>"

definition df_filter :: "log_msg \<Rightarrow> dup_filter \<Rightarrow> bool" where
  "df_filter m k \<longleftrightarrow>
     lm_time m - df_last_time k > 1000 * df_max_skip k \<or> lm_payload m \<noteq> df_last_payload k"

definition skip_text :: "size_t \<Rightarrow> string" where
  "skip_text n = ''Skipped '' @ dec (unat (ucast n :: u32)) @ '' duplicate messages..''"

text \<open>The messages given to the distribution sink, and the filter afterwards.\<close>

definition df_sink_it :: "int \<Rightarrow> nat \<Rightarrow> log_msg \<Rightarrow> dup_filter \<Rightarrow> log_msg list \<times> dup_filter" where
  "df_sink_it now tid m k =
     (let filtered = df_filter m k in
      if \<not> filtered
      then ([], k\<lparr>df_skip_counter := df_skip_counter k + 1, df_skipped_level := lm_level m\<rparr>)
      else
        (let report =
               (if df_skip_counter k > 0
                then (let buf = skip_text (df_skip_counter k) in
                      if length buf > 0 \<and> length buf < 64
                      then [mk_log_msg now tid (lm_source m) (lm_logger m) (df_skipped_level k) buf]
                      else [])
                else [])
         in (report @ [m], k\<lparr>df_last_time := lm_time m, df_skip_counter := 0, df_last_payload := lm_payload m\<rparr>)))"

fun df_all :: "(int \<times> nat \<times> log_msg) list \<Rightarrow> dup_filter \<Rightarrow> log_msg list \<times> dup_filter" where
  "df_all [] k = ([], k)"
| "df_all ((now, tid, m) # ms) k =
     (case df_sink_it now tid m k of (out, k1) \<Rightarrow> (case df_all ms k1 of (outs, k2) \<Rightarrow> (out @ outs, k2)))"

text \<open>
  Messages cut into segments: those that repeat the last one that was shown, then one that is
  shown.
\<close>

definition repeats :: "int \<Rightarrow> int \<times> string \<Rightarrow> log_msg \<Rightarrow> bool" where
  "repeats max_skip shown m \<longleftrightarrow> lm_payload m = snd shown \<and> lm_time m - fst shown \<le> 1000 * max_skip"

fun segments_ok :: "int \<Rightarrow> int \<times> string \<Rightarrow> (log_msg list \<times> log_msg) list \<Rightarrow> log_msg list \<Rightarrow> bool" where
  "segments_ok max_skip shown [] rest = list_all (repeats max_skip shown) rest"
| "segments_ok max_skip shown ((skipped, m) # segs) rest =
     (list_all (repeats max_skip shown) skipped \<and> \<not> repeats max_skip shown m
      \<and> segments_ok max_skip (lm_time m, lm_payload m) segs rest)"

definition segment_texts :: "log_msg list \<times> log_msg \<Rightarrow> string list" where
  "segment_texts seg =
     (case seg of (skipped, m) \<Rightarrow>
        (if skipped = [] then [] else [''Skipped '' @ dec (length skipped) @ '' duplicate messages..''])
        @ [lm_payload m])"

lemma skip_text_small:
  assumes "n < 2 ^ 32"
  shows "skip_text (of_nat n) = ''Skipped '' @ dec n @ '' duplicate messages..''" "length (skip_text (of_nat n)) < 64"
proof -
  have u: "unat (ucast (of_nat n :: size_t) :: u32) = n" 
    using assms unat_of_nat_small [of n, where 'a = 32] by (simp add: ucast_of_nat_unat)
  then show eq: "skip_text (of_nat n) = ''Skipped '' @ dec n @ '' duplicate messages..''" by (simp add: skip_text_def)
  have "length (dec n) \<le> 10" using assms by (subst dec_length) simp_all
  then show "length (skip_text (of_nat n)) < 64" by (simp add: eq)
qed

lemma df_segments:
  assumes "length skipped + length ms < 2 ^ 32" and "df_skip_counter k = of_nat (length skipped)"
    and "list_all (repeats (df_max_skip k) (df_last_time k, df_last_payload k)) skipped"
  shows "\<exists>segs rest. skipped @ map (\<lambda>x. snd (snd x)) ms = concat (map (\<lambda>(s, m). s @ [m]) segs) @ rest
    \<and> segments_ok (df_max_skip k) (df_last_time k, df_last_payload k) segs rest
    \<and> map lm_payload (fst (df_all ms k)) = concat (map segment_texts segs)
    \<and> df_skip_counter (snd (df_all ms k)) = of_nat (length rest)"
  using assms
proof (induction ms arbitrary: k skipped)
  case Nil
  then show ?case by (intro exI [of _ "[]"] exI [of _ skipped]) simp
next
  case (Cons x ms)
  obtain now tid m where x: "x = (now, tid, m)" by (cases x)
  let ?shown = "(df_last_time k, df_last_payload k)"
  have pass: "df_filter m k \<longleftrightarrow> \<not> repeats (df_max_skip k) ?shown m"
    by (auto simp: df_filter_def repeats_def)
  show ?case
  proof (cases "repeats (df_max_skip k) ?shown m")
    case True
    let ?k = "k\<lparr>df_skip_counter := df_skip_counter k + 1, df_skipped_level := lm_level m\<rparr>"
    have step: "df_all (x # ms) k = df_all ms ?k" using True pass by (simp add: x df_sink_it_def)
    have "length (skipped @ [m]) + length ms < 2 ^ 32" "df_skip_counter ?k = of_nat (length (skipped @ [m]))"
      "list_all (repeats (df_max_skip ?k) (df_last_time ?k, df_last_payload ?k)) (skipped @ [m])"
      using Cons.prems True by simp_all
    from Cons.IH [OF this] show ?thesis unfolding step by (simp add: x)
  next
    case False
    let ?k = "k\<lparr>df_last_time := lm_time m, df_skip_counter := 0, df_last_payload := lm_payload m\<rparr>"
    let ?out = "fst (df_sink_it now tid m k)"
    have n: "length skipped < 2 ^ 32" using Cons.prems(1) by simp
    then have pos: "df_skip_counter k > 0 \<longleftrightarrow> skipped \<noteq> []"
      using Cons.prems(2) by (simp add: word_less_nat_alt)
    have out: "map lm_payload ?out = segment_texts (skipped, m)" "snd (df_sink_it now tid m k) = ?k"
      using False pass pos skip_text_small [OF n] Cons.prems(2)
      by (simp_all add: df_sink_it_def segment_texts_def Let_def mk_log_msg_def)
    have step: "df_all (x # ms) k = (?out @ fst (df_all ms ?k), snd (df_all ms ?k))"
      using out(2) by (simp add: x case_prod_beta)
    have "length [] + length ms < 2 ^ 32" "df_skip_counter ?k = of_nat (length [])"
      "list_all (repeats (df_max_skip ?k) (df_last_time ?k, df_last_payload ?k)) []"
      using Cons.prems(1) by simp_all
    from Cons.IH [OF this] obtain segs rest
      where "map (\<lambda>x. snd (snd x)) ms = concat (map (\<lambda>(s, m). s @ [m]) segs) @ rest"
        "segments_ok (df_max_skip k) (lm_time m, lm_payload m) segs rest"
        "map lm_payload (fst (df_all ms ?k)) = concat (map segment_texts segs)"
        "df_skip_counter (snd (df_all ms ?k)) = of_nat (length rest)"
      by auto
    then show ?thesis
      unfolding step using False Cons.prems(3) out(1)
      by (intro exI [of _ "(skipped, m) # segs"] exI [of _ rest]) (simp add: x)
  qed
qed

text \<open>
  What the filter shows. The messages of any log fall into segments, each of some repetitions of the
  text shown last, within the allowed time of it, and a message that is none. Of each segment
  exactly the last message is shown, after a line with the number of those left out when there were any; the
  repetitions at the end of the log are counted and not yet reported.
\<close>

theorem dup_filter_spec:
  assumes "length ms < 2 ^ 32"
  shows "\<exists>segs rest. map (\<lambda>x. snd (snd x)) ms = concat (map (\<lambda>(s, m). s @ [m]) segs) @ rest
    \<and> segments_ok max_skip (0, []) segs rest
    \<and> map lm_payload (fst (df_all ms (mk_dup_filter max_skip))) = concat (map segment_texts segs)
    \<and> df_skip_counter (snd (df_all ms (mk_dup_filter max_skip))) = of_nat (length rest)"
  using df_segments [of "[]" ms "mk_dup_filter max_skip"] assms by (simp add: mk_dup_filter_def)

definition hello :: "int \<Rightarrow> string \<Rightarrow> int \<times> nat \<times> log_msg" where
  "hello t s = (t, 1, mk_log_msg t 1 no_source ''l'' L_info s)"

theorem dup_filter_spec_witness:
  "map lm_payload (fst (df_all [hello 1 ''Hello'', hello 2 ''Hello'', hello 3 ''Hello'', hello 4 ''Different Hello'']
       (mk_dup_filter 5000000)))
     = [''Hello'', ''Skipped 2 duplicate messages..'', ''Different Hello'']
   \<and> (\<exists>segs rest. map (\<lambda>x. snd (snd x)) [hello 1 ''Hello'', hello 2 ''Hello'', hello 3 ''Hello'', hello 4 ''Different Hello'']
         = concat (map (\<lambda>(s, m). s @ [m]) segs) @ rest
       \<and> segments_ok 5000000 (0, []) segs rest)"
proof -
  have "map lm_payload (fst (df_all [hello 1 ''Hello'', hello 2 ''Hello'', hello 3 ''Hello'', hello 4 ''Different Hello'']
       (mk_dup_filter 5000000)))
     = [''Hello'', ''Skipped 2 duplicate messages..'', ''Different Hello'']"
    by code_simp
  then show ?thesis
    using dup_filter_spec [of "[hello 1 ''Hello'', hello 2 ''Hello'', hello 3 ''Hello'', hello 4 ''Different Hello'']" 5000000]
    by auto
qed

end
