(* ===== verification/Log_File.thy ===== *)
theory Log_File
  imports Zem_Prelude Decimal_Text
begin

text \<open>
  The files the logging library writes: the system calls it makes (\<^verbatim>\<open>details/os-inl.h\<close>), the helper
  that owns one open log file (\<^verbatim>\<open>details/file_helper-inl.h\<close>), and how it takes a file name apart.
  The disk is a map from names to contents and a set of directories; which calls fail is not known, so the outcome of the
  n-th call is an arbitrary function of n, and a failing write may leave a part of its bytes. A call
  that does not fail in this way still fails when it cannot succeed: a file is opened only in a directory that exists.
  Names are compared as they are written: the sinks build all their names from one base name, so
  that no two of them denote the same file.
\<close>

section \<open>System calls\<close>

datatype callback = BeforeOpen | AfterOpen | BeforeClose | AfterClose

record os =
  os_files :: "string \<rightharpoonup> string"
  os_dirs :: "string set"
  os_calls :: nat
  os_outcome :: "nat \<Rightarrow> nat option"
  os_events :: "(callback \<times> string) list"

definition tick :: "os \<Rightarrow> nat option \<times> os" where
  "tick s = (os_outcome s (os_calls s), s\<lparr>os_calls := Suc (os_calls s)\<rparr>)"

text \<open>\<^verbatim>\<open>rfind\<close> and \<^verbatim>\<open>find_last_of\<close> with the separator of Unix.\<close>

definition rfind :: "char \<Rightarrow> string \<Rightarrow> nat option" where
  "rfind c s =
     (let k = length (takeWhile (\<lambda>x. x \<noteq> c) (rev s)) in if k = length s then None else Some (length s - 1 - k))"

definition dir_name :: "string \<Rightarrow> string" where
  "dir_name path = (case rfind (CHR ''/'') path of Some pos \<Rightarrow> take pos path | None \<Rightarrow> [])"

text \<open>
  The empty directory name is the current directory, or the root in front of a leading
  separator; both exist.
\<close>

definition place :: "string \<Rightarrow> os \<Rightarrow> bool" where
  "place path s \<longleftrightarrow> dir_name path = [] \<or> dir_name path \<in> os_dirs s"

text \<open>
  Like \<^verbatim>\<open>fopen_s\<close> the model returns whether opening failed. Mode \<^verbatim>\<open>wb\<close> empties the file, mode
  \<^verbatim>\<open>ab\<close> keeps what it holds; both create it.
\<close>

datatype open_mode = WB | AB

definition fopen_s :: "string \<Rightarrow> open_mode \<Rightarrow> os \<Rightarrow> bool \<times> os" where
  "fopen_s fname mode s =
     (case tick s of
        (Some _, s1) \<Rightarrow> (True, s1)
      | (None, s1) \<Rightarrow>
          if fname = [] \<or> fname \<in> os_dirs s1 \<or> \<not> place fname s1 then (True, s1)
          else (False, s1\<lparr>os_files := (os_files s1)(fname \<mapsto>
             (case mode of WB \<Rightarrow> [] | AB \<Rightarrow> (case os_files s1 fname of None \<Rightarrow> [] | Some c \<Rightarrow> c)))\<rparr>))"

text \<open>
  The results of \<^verbatim>\<open>remove\<close> and \<^verbatim>\<open>rename\<close> are 0 on success. The sinks remove and rename
  files within the directory of their base name; a directory of such a name counts as not empty and is not removed.
\<close>

definition os_remove :: "string \<Rightarrow> os \<Rightarrow> int \<times> os" where
  "os_remove fname s =
     (case tick s of
        (Some _, s1) \<Rightarrow> (-1, s1)
      | (None, s1) \<Rightarrow>
          (case os_files s1 fname of
             None \<Rightarrow> (-1, s1)
           | Some _ \<Rightarrow> (0, s1\<lparr>os_files := (os_files s1)(fname := None)\<rparr>)))"

definition os_rename :: "string \<Rightarrow> string \<Rightarrow> os \<Rightarrow> int \<times> os" where
  "os_rename from_name to_name s =
     (case tick s of
        (Some _, s1) \<Rightarrow> (-1, s1)
      | (None, s1) \<Rightarrow>
          (case os_files s1 from_name of
             None \<Rightarrow> (-1, s1)
           | Some c \<Rightarrow>
               if to_name \<in> os_dirs s1 then (-1, s1)
               else (0, s1\<lparr>os_files := (os_files s1)(from_name := None, to_name \<mapsto> c)\<rparr>)))"

definition path_exists :: "string \<Rightarrow> os \<Rightarrow> bool \<times> os" where
  "path_exists fname s =
     (case tick s of
        (Some _, s1) \<Rightarrow> (False, s1)
      | (None, s1) \<Rightarrow> (os_files s1 fname \<noteq> None \<or> fname \<in> os_dirs s1, s1))"

definition remove_if_exists :: "string \<Rightarrow> os \<Rightarrow> int \<times> os" where
  "remove_if_exists fname s =
     (case path_exists fname s of (there, s1) \<Rightarrow> if there then os_remove fname s1 else (0, s1))"

text \<open>Making directories; \<open>mkdir\<close> returns whether it succeeded.\<close>

definition mkdir :: "string \<Rightarrow> os \<Rightarrow> bool \<times> os" where
  "mkdir path s =
     (case tick s of
        (Some _, s1) \<Rightarrow> (False, s1)
      | (None, s1) \<Rightarrow>
          if path = [] \<or> os_files s1 path \<noteq> None \<or> path \<in> os_dirs s1 \<or> \<not> place path s1 then (False, s1)
          else (True, s1\<lparr>os_dirs := insert path (os_dirs s1)\<rparr>))"

text \<open>\<^verbatim>\<open>find_first_of\<close>, with the size of the text for \<^verbatim>\<open>npos\<close>.\<close>

definition next_sep :: "string \<Rightarrow> nat \<Rightarrow> nat" where
  "next_sep path search_offset =
     (let k = search_offset + length (takeWhile (\<lambda>x. x \<noteq> CHR ''/'') (drop search_offset path))
      in if k < length path then k else length path)"

definition make_subdir :: "string \<Rightarrow> os \<Rightarrow> bool \<times> os" where
  "make_subdir subdir s =
     (if subdir = [] then (True, s)
      else case path_exists subdir s of
          (True, s1) \<Rightarrow> (True, s1)
        | (False, s1) \<Rightarrow> mkdir subdir s1)"

function create_dirs :: "string \<Rightarrow> nat \<Rightarrow> os \<Rightarrow> bool \<times> os" where
  "create_dirs path search_offset s =
     (let token_pos = next_sep path search_offset in
      case make_subdir (take token_pos path) s of
        (False, s1) \<Rightarrow> (False, s1)
      | (True, s1) \<Rightarrow>
          if token_pos + 1 < length path then create_dirs path (token_pos + 1) s1 else (True, s1))"
  by pat_completeness auto
termination
  by (relation "measure (\<lambda>(path, search_offset, s). length path - search_offset)") (auto simp: next_sep_def Let_def split: if_splits)

declare create_dirs.simps [simp del]

definition create_dir :: "string \<Rightarrow> os \<Rightarrow> bool \<times> os" where
  "create_dir path s =
     (case path_exists path s of
        (True, s1) \<Rightarrow> (True, s1)
      | (False, s1) \<Rightarrow> if path = [] then (False, s1) else create_dirs path 0 s1)"

text \<open>
  Bytes accepted by \<^verbatim>\<open>fwrite\<close> count as in the file: the buffer of the C library is not visible
  to the sinks, which ask for the size of a file only when it was just opened or flushed. What is written to a
  file whose name is gone is lost.
\<close>

definition append_to :: "string \<Rightarrow> string \<Rightarrow> os \<Rightarrow> os" where
  "append_to fname data s =
     s\<lparr>os_files := (os_files s)(fname := map_option (\<lambda>c. c @ data) (os_files s fname))\<rparr>"

definition fwrite_bytes :: "string \<Rightarrow> string \<Rightarrow> os \<Rightarrow> bool \<times> os" where
  "fwrite_bytes data fname s =
     (case tick s of
        (Some k, s1) \<Rightarrow> (False, append_to fname (take k data) s1)
      | (None, s1) \<Rightarrow> (True, append_to fname data s1))"


section \<open>The file helper\<close>

text \<open>
  \<open>fh_open\<close> says whether \<^verbatim>\<open>fd_\<close> is non-null; the open file is always \<open>fh_filename\<close>.
  \<open>fh_handlers\<close> are the callbacks that were set; their calls are recorded.
\<close>

record file_helper =
  fh_filename :: string
  fh_open :: bool
  fh_handlers :: "callback list"

datatype file_error =
    OpenFailed string | NotOpenedBefore | FlushFailed string | SyncFailed string | WriteFailed string
  | SizeOfClosed string | SizeFailed | RenameFailed string string | RemoveFailed string
  | ZeroMaxSize | TooManyFiles | BadRotationTime

definition mk_file_helper :: "callback list \<Rightarrow> file_helper" where
  "mk_file_helper event_handlers = \<lparr>fh_filename = [], fh_open = False, fh_handlers = event_handlers\<rparr>"

definition call_handler :: "callback \<Rightarrow> file_helper \<Rightarrow> os \<Rightarrow> os" where
  "call_handler c h s =
     (if List.member (fh_handlers h) c then s\<lparr>os_events := os_events s @ [(c, fh_filename h)]\<rparr> else s)"

definition file_close :: "file_helper \<Rightarrow> os \<Rightarrow> file_helper \<times> os" where
  "file_close h s =
     (if fh_open h
      then let h1 = h\<lparr>fh_open := False\<rparr>
           in (h1, call_handler AfterClose h1 (call_handler BeforeClose h s))
      else (h, s))"

definition open_tries :: nat where
  "open_tries = 5"

fun open_loop :: "nat \<Rightarrow> bool \<Rightarrow> file_helper \<Rightarrow> os \<Rightarrow> bool \<times> file_helper \<times> os" where
  "open_loop 0 trunc h s = (False, h, s)"
| "open_loop (Suc tries) trunc h s0 =
     (let s = snd (create_dir (dir_name (fh_filename h)) s0) in
      case (if trunc then fopen_s (fh_filename h) WB s else (False, s)) of
        (True, s1) \<Rightarrow> open_loop tries trunc h s1
      | (False, s1) \<Rightarrow>
          (case fopen_s (fh_filename h) AB s1 of
             (True, s2) \<Rightarrow> open_loop tries trunc h s2
           | (False, s2) \<Rightarrow> (True, h\<lparr>fh_open := True\<rparr>, call_handler AfterOpen h s2)))"

definition file_open :: "string \<Rightarrow> bool \<Rightarrow> file_helper \<Rightarrow> os \<Rightarrow> file_error option \<times> file_helper \<times> os" where
  "file_open fname trunc h s =
     (let (h1, s1) = file_close h s;
          h2 = h1\<lparr>fh_filename := fname\<rparr>;
          (ok, h3, s3) = open_loop open_tries trunc h2 (call_handler BeforeOpen h2 s1)
      in (if ok then None else Some (OpenFailed fname), h3, s3))"

definition file_reopen :: "bool \<Rightarrow> file_helper \<Rightarrow> os \<Rightarrow> file_error option \<times> file_helper \<times> os" where
  "file_reopen trunc h s =
     (if fh_filename h = [] then (Some NotOpenedBefore, h, s) else file_open (fh_filename h) trunc h s)"

text \<open>\<^verbatim>\<open>fflush\<close> of a null pointer flushes every stream.\<close>

definition file_flush :: "file_helper \<Rightarrow> os \<Rightarrow> file_error option \<times> os" where
  "file_flush h s = (case tick s of (r, s1) \<Rightarrow> (if r = None then None else Some (FlushFailed (fh_filename h)), s1))"

definition file_sync :: "file_helper \<Rightarrow> os \<Rightarrow> file_error option \<times> os" where
  "file_sync h s = (case tick s of (r, s1) \<Rightarrow> (if r = None then None else Some (SyncFailed (fh_filename h)), s1))"

definition file_write :: "string \<Rightarrow> file_helper \<Rightarrow> os \<Rightarrow> file_error option \<times> os" where
  "file_write buf h s =
     (if \<not> fh_open h then (None, s)
      else case fwrite_bytes buf (fh_filename h) s of
        (ok, s1) \<Rightarrow> (if ok then None else Some (WriteFailed (fh_filename h)), s1))"

definition filesize :: "string \<Rightarrow> os \<Rightarrow> (file_error + size_t) \<times> os" where
  "filesize fname s =
     (case tick s of
        (Some _, s1) \<Rightarrow> (Inl SizeFailed, s1)
      | (None, s1) \<Rightarrow> (Inr (case os_files s1 fname of None \<Rightarrow> 0 | Some c \<Rightarrow> of_nat (length c)), s1))"

definition helper_size :: "file_helper \<Rightarrow> os \<Rightarrow> (file_error + size_t) \<times> os" where
  "helper_size h s =
     (if \<not> fh_open h then (Inl (SizeOfClosed (fh_filename h)), s) else filesize (fh_filename h) s)"


section \<open>File names\<close>

definition split_by_extension :: "string \<Rightarrow> string \<times> string" where
  "split_by_extension fname =
     (case rfind (CHR ''.'') fname of
        None \<Rightarrow> (fname, [])
      | Some ext_index \<Rightarrow>
          if ext_index = 0 \<or> ext_index = length fname - 1 then (fname, [])
          else (case rfind (CHR ''/'') fname of
             None \<Rightarrow> (take ext_index fname, drop ext_index fname)
           | Some folder_index \<Rightarrow>
               if folder_index \<ge> ext_index - 1 then (fname, [])
               else (take ext_index fname, drop ext_index fname)))"

definition calc_filename :: "string \<Rightarrow> nat \<Rightarrow> string" where
  "calc_filename fname index =
     (if index = 0 then fname
      else case split_by_extension fname of (basename, ext) \<Rightarrow> basename @ ''.'' @ dec index @ ext)"

lemma rfind_Some:
  assumes "rfind c s = Some i"
  shows "i < length s" "s ! i = c" "c \<notin> set (drop (Suc i) s)"
proof -
  let ?k = "length (takeWhile (\<lambda>x. x \<noteq> c) (rev s))"
  have k: "?k \<noteq> length s" and i: "i = length s - 1 - ?k"
    using assms by (auto simp: rfind_def Let_def split: if_splits)
  have "?k \<le> length s" using length_takeWhile_le [of _ "rev s"] by simp
  with k have less: "?k < length s" by simp
  then show "i < length s" using i by simp
  have "rev s ! ?k = c" using nth_length_takeWhile [of "\<lambda>x. x \<noteq> c" "rev s"] less by simp
  then show "s ! i = c" using less i by (simp add: rev_nth)
  have "length s - ?k = Suc i" using less i by simp
  then have "drop (Suc i) s = rev (take ?k (rev s))" by (simp add: take_rev)
  then show "c \<notin> set (drop (Suc i) s)"
    by (simp add: takeWhile_eq_take [symmetric]) (metis (mono_tags) set_takeWhileD)
qed

lemma rfind_None: "rfind c s = None \<longleftrightarrow> c \<notin> set s"
proof -
  have "length (takeWhile (\<lambda>x. x \<noteq> c) (rev s)) = length s \<longleftrightarrow> takeWhile (\<lambda>x. x \<noteq> c) (rev s) = rev s"
    by (metis length_rev takeWhile_eq_take take_all_iff le_refl)
  then show ?thesis by (auto simp: rfind_def Let_def takeWhile_eq_all_conv)
qed

lemma split_joins: "fst (split_by_extension fname) @ snd (split_by_extension fname) = fname"
  by (simp add: split_by_extension_def split: option.split)

text \<open>
  Taking a file name apart. The two parts make the name again; an extension starts with its only
  dot, is more than that dot and has no separator in it, and what is in front of it neither is empty nor
  ends in a separator, so that hidden files and dotted directories have no extension.
\<close>

theorem split_by_extension_spec:
  assumes "split_by_extension fname = (basename, ext)"
  shows "basename @ ext = fname
    \<and> (ext = [] \<or> (\<exists>e. ext = CHR ''.'' # e \<and> e \<noteq> [] \<and> CHR ''.'' \<notin> set e \<and> CHR ''/'' \<notin> set e
           \<and> basename \<noteq> [] \<and> last basename \<noteq> CHR ''/''))"
proof (cases "ext = []")
  case True
  then show ?thesis using split_joins [of fname] assms by simp
next
  case ne: False
  obtain i where i: "rfind (CHR ''.'') fname = Some i"
    using assms ne by (cases "rfind (CHR ''.'') fname") (auto simp: split_by_extension_def)
  note dot = rfind_Some [OF i]
  have split: "i \<noteq> 0" "i \<noteq> length fname - 1" "basename = take i fname" "ext = drop i fname"
    "\<And>k. rfind (CHR ''/'') fname = Some k \<Longrightarrow> k < i - 1"
    using assms ne i by (auto simp: split_by_extension_def split: if_splits option.splits)
  have ext: "ext = CHR ''.'' # drop (Suc i) fname" using dot split by (metis Cons_nth_drop_Suc)
  have sep: "fname ! j \<noteq> CHR ''/''" if "i - 1 \<le> j" "j < length fname" for j
  proof (cases "rfind (CHR ''/'') fname")
    case None
    then show ?thesis using that by (auto simp: rfind_None in_set_conv_nth)
  next
    case (Some k)
    then have "Suc k \<le> j" using split(5) that by fastforce
    then have "fname ! j = drop (Suc k) fname ! (j - Suc k)" "j - Suc k < length (drop (Suc k) fname)" using that by simp_all
    then show ?thesis using rfind_Some(3) [OF Some] by (metis nth_mem)
  qed
  have "CHR ''/'' \<notin> set (drop (Suc i) fname)"
    using sep by (auto simp: in_set_conv_nth)
  moreover have base: "basename \<noteq> []" using split dot by auto
  moreover have "last basename = fname ! (i - 1)" using last_conv_nth [OF base] split dot by (simp add: min_def)
  moreover have "fname ! (i - 1) \<noteq> CHR ''/''" "drop (Suc i) fname \<noteq> []" using sep [of "i - 1"] dot split by auto
  ultimately show ?thesis using ext dot split_joins [of fname] assms by auto
qed

theorem split_by_extension_spec_witness:
  "split_by_extension ''logs/zem.2.txt'' = (''logs/zem.2'', ''.txt'') \<and> ''logs/zem.2'' @ ''.txt'' = ''logs/zem.2.txt''"
proof -
  have s: "split_by_extension ''logs/zem.2.txt'' = (''logs/zem.2'', ''.txt'')" by code_simp
  show ?thesis using split_by_extension_spec [OF s] s by blast
qed

lemma calc_filename_inject [simp]: "calc_filename fname i = calc_filename fname j \<longleftrightarrow> i = j"
proof -
  obtain b e where s: "split_by_extension fname = (b, e)" by fastforce
  then have f: "fname = b @ e" using split_joins [of fname] by simp
  have "b @ ''.'' @ dec k @ e \<noteq> b @ e" for k
  proof
    assume "b @ ''.'' @ dec k @ e = b @ e"
    then have "length (''.'' @ dec k @ e) = length e" by simp
    then show False by simp
  qed
  then show ?thesis using s f by (auto simp: calc_filename_def)
qed

lemma rfind_snoc: "c \<notin> set ys \<Longrightarrow> rfind c (xs @ ys) = rfind c xs"
  by (auto simp: rfind_def Let_def takeWhile_append)

lemma rfind_exact:
  assumes "rfind c s = Some i" and "j < length s" and "s ! j = c"
  shows "j \<le> i"
proof (rule ccontr)
  assume "\<not> j \<le> i"
  then have "drop (Suc i) s ! (j - Suc i) = c" "j - Suc i < length (drop (Suc i) s)" using assms by simp_all
  then show False using rfind_Some(3) [OF assms(1)] by (metis nth_mem)
qed

lemma dir_name_append: "CHR ''/'' \<notin> set y \<Longrightarrow> dir_name (x @ y) = dir_name x"
  using rfind_Some(1) by (fastforce simp: dir_name_def rfind_snoc split: option.split)

lemma ext_no_separator: "CHR ''/'' \<notin> set (snd (split_by_extension fname))"
proof -
  obtain b e where "split_by_extension fname = (b, e)" by fastforce
  then show ?thesis using split_by_extension_spec [of fname b e] by auto
qed

lemma dir_name_between:
  assumes "CHR ''/'' \<notin> set x"
  shows "dir_name (fst (split_by_extension fname) @ x @ snd (split_by_extension fname)) = dir_name fname"
  using dir_name_append [of "x @ snd (split_by_extension fname)"] dir_name_append [of "snd (split_by_extension fname)"]
    ext_no_separator [of fname] assms split_joins [of fname] by (metis Un_iff set_append)

lemma dec_no_separator: "CHR ''/'' \<notin> set (dec n)"
proof -
  have "\<not> is_digit (CHR ''/'')" by (simp add: is_digit_def)
  then show ?thesis using dec_digits [of n] by (metis list_all_iff)
qed

lemma dir_name_calc_filename: "dir_name (calc_filename fname i) = dir_name fname"
  using dir_name_between [of "''.'' @ dec i" fname] dec_no_separator [of i]
  by (auto simp: calc_filename_def case_prod_beta)

lemma dir_name_shorter: "path \<noteq> [] \<Longrightarrow> length (dir_name path) < length path"
  using rfind_Some(1) by (auto simp: dir_name_def split: option.split)


section \<open>Calls that all succeed\<close>

definition calm :: "os \<Rightarrow> bool" where
  "calm s \<longleftrightarrow> (\<forall>n. os_outcome s n = None)"

lemma calm_tick: "calm s \<Longrightarrow> tick s = (None, s\<lparr>os_calls := Suc (os_calls s)\<rparr>)"
  by (simp add: calm_def tick_def)

lemma calm_updates [simp]:
  "calm (s\<lparr>os_calls := n\<rparr>) = calm s" "calm (s\<lparr>os_files := f\<rparr>) = calm s" "calm (s\<lparr>os_events := e\<rparr>) = calm s"
  "calm (s\<lparr>os_dirs := d\<rparr>) = calm s"
  by (simp_all add: calm_def)

lemma place_updates [simp]:
  "place f (s\<lparr>os_calls := n\<rparr>) = place f s" "place f (s\<lparr>os_files := g\<rparr>) = place f s" "place f (s\<lparr>os_events := e\<rparr>) = place f s"
  by (simp_all add: place_def)

lemma calm_call_handler [simp]: "calm (call_handler c h s) = calm s"
  "os_files (call_handler c h s) = os_files s" "os_dirs (call_handler c h s) = os_dirs s"
  by (simp_all add: call_handler_def)

lemma file_close_frame [simp]:
  "os_files (snd (file_close h s)) = os_files s" "os_dirs (snd (file_close h s)) = os_dirs s"
  "calm (snd (file_close h s)) = calm s"
  "fh_filename (fst (file_close h s)) = fh_filename h" "\<not> fh_open (fst (file_close h s))"
  by (auto simp: file_close_def Let_def)

text \<open>The directories that lead to a path, in the order in which they are made.\<close>

definition way :: "string \<Rightarrow> string list" where
  "way d = map (\<lambda>i. take i d) (filter (\<lambda>i. 0 < i \<and> (i = length d \<or> d ! i = CHR ''/'')) [0..<Suc (length d)])"

lemma in_way: "p \<in> set (way d) \<longleftrightarrow> (\<exists>i. 0 < i \<and> i \<le> length d \<and> (i = length d \<or> d ! i = CHR ''/'') \<and> p = take i d)"
  by (auto simp: way_def less_Suc_eq_le)

lemma way_self: "d \<noteq> [] \<Longrightarrow> d \<in> set (way d)"
  by (auto simp: in_way intro!: exI [of _ "length d"])

lemma way_length: "p \<in> set (way d) \<Longrightarrow> length p \<le> length d"
  by (auto simp: in_way)

lemma next_sep_props:
  "next_sep d k \<le> length d" "next_sep d k < length d \<Longrightarrow> d ! next_sep d k = CHR ''/''"
  "k \<le> length d \<Longrightarrow> k \<le> next_sep d k" "k \<le> j \<Longrightarrow> j < next_sep d k \<Longrightarrow> d ! j \<noteq> CHR ''/''"
proof -
  let ?w = "takeWhile (\<lambda>x. x \<noteq> CHR ''/'') (drop k d)"
  have n: "next_sep d k = (if k + length ?w < length d then k + length ?w else length d)"
    by (simp add: next_sep_def Let_def)
  show "next_sep d k \<le> length d" by (simp add: n)
  show "k \<le> length d \<Longrightarrow> k \<le> next_sep d k" by (simp add: n)
  show "d ! next_sep d k = CHR ''/''" if "next_sep d k < length d"
    using that nth_length_takeWhile [of "\<lambda>x. x \<noteq> CHR ''/''" "drop k d"] by (auto simp: n split: if_splits)
  show "d ! j \<noteq> CHR ''/''" if "k \<le> j" "j < next_sep d k"
  proof -
    have "length ?w \<le> length (drop k d)" by (rule length_takeWhile_le)
    then have less: "j - k < length ?w" using that by (auto simp: n split: if_splits)
    then have "?w ! (j - k) = d ! j" using that by (simp add: takeWhile_nth n split: if_splits)
    then show ?thesis using nth_mem [OF less] by (metis set_takeWhileD)
  qed
qed

lemma calm_make_subdir:
  assumes "calm s" and "os_files s p = None" and "place p s"
  shows "\<exists>s'. make_subdir p s = (True, s') \<and> calm s' \<and> os_files s' = os_files s
    \<and> os_dirs s' = (if p = [] then os_dirs s else insert p (os_dirs s))"
  using assms by (cases "p \<in> os_dirs s") (auto simp: make_subdir_def path_exists_def mkdir_def calm_tick insert_absorb)

lemma calm_create_dirs:
  assumes "calm s" and "\<forall>p \<in> set (way d). os_files s p = None" and "d \<noteq> []" "last d \<noteq> CHR ''/''" and "k < length d"
    and "\<forall>i. 0 < i \<and> i < k \<and> d ! i = CHR ''/'' \<longrightarrow> take i d \<in> os_dirs s"
  shows "\<exists>s'. create_dirs d k s = (True, s') \<and> calm s' \<and> os_files s' = os_files s \<and> d \<in> os_dirs s'
    \<and> os_dirs s \<subseteq> os_dirs s' \<and> os_dirs s' \<subseteq> os_dirs s \<union> set (way d)"
  using assms
proof (induction d k s rule: create_dirs.induct)
  case (1 d k s)
  let ?n = "next_sep d k"
  note n = next_sep_props [where d = d and k = k]
  have way: "?n = 0 \<or> take ?n d \<in> set (way d)" using n(1,2) by (auto simp: in_way le_less)
  have "os_files s (take ?n d) = None \<or> ?n = 0"
    using way by (rule disjE) (use bspec [OF 1(3)] in blast)+
  moreover have "place (take ?n d) s"
  proof (cases "rfind (CHR ''/'') (take ?n d)")
    case (Some j)
    note j = rfind_Some [OF Some]
    have less: "j < ?n" "d ! j = CHR ''/''" using j(1,2) by simp_all
    then have "j < k" using n(4) [of j] by (meson not_le)
    moreover have "dir_name (take ?n d) = take j d" using Some less by (simp add: dir_name_def min_def)
    ultimately show ?thesis using 1(7) less by (cases "j = 0") (auto simp: place_def)
  qed (simp add: place_def dir_name_def)
  ultimately have "\<exists>s1. make_subdir (take ?n d) s = (True, s1) \<and> calm s1 \<and> os_files s1 = os_files s
    \<and> os_dirs s1 = (if take ?n d = [] then os_dirs s else insert (take ?n d) (os_dirs s))"
    using calm_make_subdir [OF 1(2), of "take ?n d"] 1(2) by (cases "?n = 0") (auto simp: make_subdir_def)
  then obtain s1 where s1: "make_subdir (take ?n d) s = (True, s1)" "calm s1" "os_files s1 = os_files s"
    "os_dirs s1 = (if take ?n d = [] then os_dirs s else insert (take ?n d) (os_dirs s))" by blast
  have sub: "os_dirs s \<subseteq> os_dirs s1" "os_dirs s1 \<subseteq> os_dirs s \<union> set (way d)"
    using s1(4) way by auto
  show ?case
  proof (cases "?n + 1 < length d")
    case True
    have inv: "\<forall>i. 0 < i \<and> i < ?n + 1 \<and> d ! i = CHR ''/'' \<longrightarrow> take i d \<in> os_dirs s1"
    proof (intro allI impI)
      fix i assume i: "0 < i \<and> i < ?n + 1 \<and> d ! i = CHR ''/''"
      then have "i < k \<or> i = ?n" using n(4) [of i] by (cases "i = ?n"; cases "k \<le> i") auto
      then show "take i d \<in> os_dirs s1" using 1(7) i s1(4) sub(1) 1(4) by auto
    qed
    have "\<exists>s'. create_dirs d (?n + 1) s1 = (True, s') \<and> calm s' \<and> os_files s' = os_files s1 \<and> d \<in> os_dirs s'
        \<and> os_dirs s1 \<subseteq> os_dirs s' \<and> os_dirs s' \<subseteq> os_dirs s1 \<union> set (way d)"
      using 1(1) [OF refl s1(1) [symmetric] refl True s1(2)] 1(3-5) s1(3) True inv by simp
    then obtain s' where s': "create_dirs d (?n + 1) s1 = (True, s')" "calm s'" "os_files s' = os_files s1" "d \<in> os_dirs s'"
        "os_dirs s1 \<subseteq> os_dirs s'" "os_dirs s' \<subseteq> os_dirs s1 \<union> set (way d)"
      by blast
    moreover have "create_dirs d k s = (True, s')"
      using s1(1) s'(1) True by (subst create_dirs.simps) (simp add: Let_def)
    moreover have "os_dirs s \<subseteq> os_dirs s'" using sub(1) s'(5) by (rule subset_trans)
    moreover have "os_dirs s' \<subseteq> os_dirs s \<union> set (way d)"
      by (rule subset_trans [OF s'(6)]) (use sub(2) in simp)
    moreover have "os_files s' = os_files s" using s'(3) s1(3) by simp
    ultimately show ?thesis by iprover
  next
    case False
    have "?n = length d"
    proof (rule ccontr)
      assume "?n \<noteq> length d"
      then have "?n < length d" "?n = length d - 1" using n(1) False by simp_all
      then show False using n(2) 1(5) last_conv_nth [OF 1(4)] by simp
    qed
    then have "d \<in> os_dirs s1" using s1(4) 1(4) by simp
    moreover have "create_dirs d k s = (True, s1)"
      using s1(1) False by (subst create_dirs.simps) (simp add: Let_def)
    ultimately show ?thesis using s1(2,3) sub by iprover
  qed
qed

text \<open>
  A disk on which the files \<open>names\<close> of a directory can be made: the calls succeed, no file is in the way of the
  directory, and no directory has such a name.
\<close>

definition ready :: "string \<Rightarrow> (string \<Rightarrow> bool) \<Rightarrow> os \<Rightarrow> bool" where
  "ready d names s \<longleftrightarrow> calm s \<and> (d = [] \<or> last d \<noteq> CHR ''/'') \<and> (\<forall>p \<in> set (way d). os_files s p = None)
     \<and> (\<forall>f \<in> os_dirs s. \<not> names f)"

lemma ready_updates [simp]:
  "ready d names (s\<lparr>os_calls := n\<rparr>) = ready d names s" "ready d names (s\<lparr>os_events := e\<rparr>) = ready d names s"
  by (simp_all add: ready_def)

lemma ready_no_dirs: "calm s \<Longrightarrow> os_dirs s = {} \<Longrightarrow> CHR ''/'' \<notin> set base \<Longrightarrow> ready (dir_name base) names s"
  by (simp add: ready_def way_def dir_name_def rfind_None [THEN iffD2])

lemma ready_calm: "ready d names s \<Longrightarrow> calm s"
  by (simp add: ready_def)

section \<open>A directory of log files\<close>

lemma calm_create_dir:
  assumes "calm s" and "\<forall>p \<in> set (way d). os_files s p = None" and "d = [] \<or> last d \<noteq> CHR ''/''"
  shows "\<exists>b s'. create_dir d s = (b, s') \<and> calm s' \<and> os_files s' = os_files s \<and> (d = [] \<or> d \<in> os_dirs s')
    \<and> os_dirs s \<subseteq> os_dirs s' \<and> os_dirs s' \<subseteq> os_dirs s \<union> set (way d)"
proof (cases "d = []")
  case True
  then show ?thesis
    using assms(1) by (cases "os_files s [] = None"; cases "[] \<in> os_dirs s") (auto simp: create_dir_def path_exists_def calm_tick)
next
  case ne: False
  have free: "os_files s d = None" using bspec [OF assms(2) way_self [OF ne]] .
  let ?s = "s\<lparr>os_calls := Suc (os_calls s)\<rparr>"
  show ?thesis
  proof (cases "d \<in> os_dirs s")
    case True
    then show ?thesis using assms(1) by (auto simp: create_dir_def path_exists_def calm_tick)
  next
    case False
    obtain s' where "create_dirs d 0 ?s = (True, s')" "calm s'" "os_files s' = os_files s" "d \<in> os_dirs s'"
        "os_dirs s \<subseteq> os_dirs s'" "os_dirs s' \<subseteq> os_dirs s \<union> set (way d)"
      using calm_create_dirs [of ?s d 0] assms ne by auto
    then show ?thesis using assms(1) False free ne by (auto simp: create_dir_def path_exists_def calm_tick)
  qed
qed

text \<open>Names of files that all belong into one directory, as the sinks derive them from a base name.\<close>

locale log_dir =
  fixes d :: string
    and names :: "string \<Rightarrow> bool"
  assumes names_here: "names f \<Longrightarrow> f \<noteq> [] \<and> dir_name f = d"
begin

lemma not_on_way: "names f \<Longrightarrow> f \<notin> set (way d)"
  using names_here dir_name_shorter way_length by (metis not_le)

lemma ready_file: "ready d names s \<Longrightarrow> names f \<Longrightarrow> ready d names (s\<lparr>os_files := (os_files s)(f := c)\<rparr>)"
  using not_on_way by (auto simp: ready_def)

lemma ready_close: "ready d names s \<Longrightarrow> ready d names (snd (file_close h s))"
  by (simp add: ready_def)

lemma ready_exists:
  "ready d names s \<Longrightarrow> names f \<Longrightarrow>
    \<exists>s1. path_exists f s = (os_files s f \<noteq> None, s1) \<and> ready d names s1 \<and> os_files s1 = os_files s"
  by (auto simp: path_exists_def calm_tick ready_calm) (auto simp: ready_def)

lemma ready_remove:
  assumes "ready d names s"
  shows "ready d names (snd (os_remove f s)) \<and> os_files (snd (os_remove f s)) = (os_files s)(f := None)"
proof -
  have "ready d names (s\<lparr>os_calls := Suc (os_calls s), os_files := (os_files s)(f := None)\<rparr>)"
    using assms by (simp add: ready_def)
  then show ?thesis using assms by (auto simp: os_remove_def calm_tick ready_calm split: option.split)
qed

lemma ready_rename:
  assumes "ready d names s" and "os_files s f = Some c" and "names f" and "names g"
  shows "\<exists>s'. os_rename f g s = (0, s') \<and> ready d names s' \<and> os_files s' = (os_files s)(f := None, g \<mapsto> c)"
proof -
  let ?s = "s\<lparr>os_calls := Suc (os_calls s)\<rparr>"
  have "ready d names (?s\<lparr>os_files := (os_files s)(f := None)\<rparr>)" using ready_file [of ?s f None] assms by simp
  then have "ready d names (?s\<lparr>os_files := (os_files s)(f := None, g \<mapsto> c)\<rparr>)"
    using ready_file [of "?s\<lparr>os_files := (os_files s)(f := None)\<rparr>" g "Some c"] assms by simp
  moreover have "g \<notin> os_dirs s" using assms by (auto simp: ready_def)
  ultimately show ?thesis using assms by (simp add: os_rename_def calm_tick ready_calm)
qed

lemma ready_fopen:
  assumes "ready d names s" and "names f" and "d = [] \<or> d \<in> os_dirs s"
  shows "\<exists>s'. fopen_s f mode s = (False, s') \<and> ready d names s' \<and> os_dirs s' = os_dirs s
    \<and> os_files s' = (os_files s)(f \<mapsto> (case mode of WB \<Rightarrow> [] | AB \<Rightarrow> (case os_files s f of None \<Rightarrow> [] | Some c \<Rightarrow> c)))"
proof -
  let ?s = "s\<lparr>os_calls := Suc (os_calls s)\<rparr>"
  have "ready d names ?s" using assms(1) by simp
  note ready_file [OF this assms(2)]
  moreover have "f \<notin> os_dirs s" using assms(1,2) by (auto simp: ready_def)
  ultimately show ?thesis
    using names_here [OF assms(2)] assms by (cases mode) (simp_all add: fopen_s_def calm_tick ready_calm place_def)
qed

lemma ready_create:
  assumes "ready d names s"
  shows "\<exists>b s'. create_dir d s = (b, s') \<and> ready d names s' \<and> os_files s' = os_files s \<and> (d = [] \<or> d \<in> os_dirs s')"
proof -
  have c: "calm s" "\<forall>p \<in> set (way d). os_files s p = None" "d = [] \<or> last d \<noteq> CHR ''/''"
    and names: "\<forall>f \<in> os_dirs s. \<not> names f"
    using assms by (simp_all add: ready_def)
  obtain b s' where s': "create_dir d s = (b, s')" "calm s'" "os_files s' = os_files s" "d = [] \<or> d \<in> os_dirs s'"
      "os_dirs s' \<subseteq> os_dirs s \<union> set (way d)"
    using calm_create_dir [OF c] by blast
  have "\<not> names f" if "f \<in> os_dirs s'" for f using names not_on_way [of f] s'(5) that by blast
  then have "ready d names s'" using s' c by (simp add: ready_def)
  then show ?thesis using s' by blast
qed

lemma ready_open:
  assumes "ready d names s" and "names f"
  shows "\<exists>h' s'. file_open f trunc h s = (None, h', s') \<and> ready d names s' \<and> fh_open h' \<and> fh_filename h' = f
    \<and> (d = [] \<or> d \<in> os_dirs s')
    \<and> os_files s' = (os_files s)(f \<mapsto> (if trunc then [] else case os_files s f of None \<Rightarrow> [] | Some c \<Rightarrow> c))"
proof -
  obtain h1 s1 where c: "file_close h s = (h1, s1)" by fastforce
  let ?h2 = "h1\<lparr>fh_filename := f\<rparr>"
  let ?s1 = "call_handler BeforeOpen ?h2 s1"
  have "ready d names s1" "os_files s1 = os_files s"
    using ready_close [OF assms(1), of h] file_close_frame(1) [of h s] c by simp_all
  then have s1: "ready d names ?s1" "os_files ?s1 = os_files s" by (simp_all add: ready_def)
  obtain b s2 where s2: "create_dir d ?s1 = (b, s2)" "ready d names s2" "os_files s2 = os_files s" "d = [] \<or> d \<in> os_dirs s2"
    using ready_create [OF s1(1)] s1(2) by (elim exE conjE) simp
  obtain s3 where s3: "(if trunc then fopen_s f WB s2 else (False, s2)) = (False, s3)" "ready d names s3" "os_dirs s3 = os_dirs s2"
      "os_files s3 = (if trunc then (os_files s)(f \<mapsto> []) else os_files s)"
    using ready_fopen [OF s2(2) assms(2) s2(4), of WB] s2 by (cases trunc) auto
  have d3: "d = [] \<or> d \<in> os_dirs s3" using s2(4) s3(3) by simp
  obtain s4 where s4: "fopen_s f AB s3 = (False, s4)" "ready d names s4" "os_dirs s4 = os_dirs s3"
      "os_files s4 = (os_files s3)(f \<mapsto> (case os_files s3 f of None \<Rightarrow> [] | Some c \<Rightarrow> c))"
    using ready_fopen [OF s3(2) assms(2) d3, of AB] by auto
  have "open_loop (Suc n) trunc ?h2 ?s1 = (True, ?h2\<lparr>fh_open := True\<rparr>, call_handler AfterOpen ?h2 s4)" for n
    using names_here [OF assms(2)] s2(1) s3(1) s4(1) by (cases trunc) (simp_all add: Let_def)
  then have "file_open f trunc h s = (None, ?h2\<lparr>fh_open := True\<rparr>, call_handler AfterOpen ?h2 s4)"
    by (simp add: file_open_def c Let_def open_tries_def eval_nat_numeral del: open_loop.simps)
  moreover have "os_files s4 = (os_files s)(f \<mapsto> (if trunc then [] else case os_files s f of None \<Rightarrow> [] | Some c \<Rightarrow> c))"
    using s4(4) s3(4) by simp
  moreover have "ready d names (call_handler AfterOpen h' s4)" for h' using s4(2) by (simp add: ready_def)
  ultimately show ?thesis
    using s2(4) s3(3) s4(3) by simp
qed

lemma ready_write:
  assumes "ready d names s" and "names f" and "os_files s f = Some c" and "fh_open h" and "fh_filename h = f"
  shows "\<exists>s'. file_write t h s = (None, s') \<and> ready d names s' \<and> os_files s' = (os_files s)(f \<mapsto> c @ t)"
  using ready_file [of "s\<lparr>os_calls := Suc (os_calls s)\<rparr>" f] assms
  by (simp add: file_write_def fwrite_bytes_def calm_tick ready_calm append_to_def)

end

end
