(* ===== verification/Log_Rotating.thy ===== *)
theory Log_Rotating
  imports Log_File Log_Core
begin

text \<open>
  The sink behind the log file of the program: \<^verbatim>\<open>sinks/rotating_file_sink-inl.h\<close>, which starts a new
  file when the current one would grow beyond its limit and keeps a number of old ones. The
  formatter is an object behind an interface; \<open>format_msg\<close> is its \<^verbatim>\<open>format\<close>, giving the
  text and the formatter afterwards. On the disk the sink is shown to refine \<open>rot_put\<close>, an operation
  on a list of files.
\<close>

section \<open>The sink\<close>

record 'f rotating_sink =
  rs_formatter :: 'f
  rs_base :: string
  rs_max_size :: size_t
  rs_max_files :: size_t
  rs_current :: size_t
  rs_helper :: file_helper

definition max_files_limit :: size_t where
  "max_files_limit = 200000"

definition rename_file :: "string \<Rightarrow> string \<Rightarrow> os \<Rightarrow> bool \<times> os" where
  "rename_file src target s =
     (case os_remove target s of (_, s1) \<Rightarrow> (case os_rename src target s1 of (r, s2) \<Rightarrow> (r = 0, s2)))"

definition rename_twice :: "string \<Rightarrow> string \<Rightarrow> os \<Rightarrow> bool \<times> os" where
  "rename_twice src target s =
     (case rename_file src target s of
        (True, s1) \<Rightarrow> (True, s1)
      | (False, s1) \<Rightarrow> rename_file src target s1)"

definition rs_reopen :: "'f rotating_sink \<Rightarrow> os \<Rightarrow> file_error option \<times> 'f rotating_sink \<times> os" where
  "rs_reopen k s = (case file_reopen True (rs_helper k) s of (e, h, s1) \<Rightarrow> (e, k\<lparr>rs_helper := h\<rparr>, s1))"

fun rotate_loop :: "nat \<Rightarrow> 'f rotating_sink \<Rightarrow> os \<Rightarrow> file_error option \<times> 'f rotating_sink \<times> os" where
  "rotate_loop 0 k s = (None, k, s)"
| "rotate_loop (Suc i) k s =
     (let src = calc_filename (rs_base k) i in
      case path_exists src s of
        (False, s1) \<Rightarrow> rotate_loop i k s1
      | (True, s1) \<Rightarrow>
          (let target = calc_filename (rs_base k) (Suc i) in
           case rename_twice src target s1 of
             (True, s2) \<Rightarrow> rotate_loop i k s2
           | (False, s2) \<Rightarrow>
               (case rs_reopen k s2 of
                  (Some e, k3, s3) \<Rightarrow> (Some e, k3, s3)
                | (None, k3, s3) \<Rightarrow> (Some (RenameFailed src target), k3\<lparr>rs_current := 0\<rparr>, s3))))"

definition rotate_files :: "'f rotating_sink \<Rightarrow> os \<Rightarrow> file_error option \<times> 'f rotating_sink \<times> os" where
  "rotate_files k s =
     (case file_close (rs_helper k) s of
        (h, s1) \<Rightarrow>
          (case rotate_loop (unat (rs_max_files k)) (k\<lparr>rs_helper := h\<rparr>) s1 of
             (Some e, k2, s2) \<Rightarrow> (Some e, k2, s2)
           | (None, k2, s2) \<Rightarrow> rs_reopen k2 s2))"

text \<open>An exception in the constructor destroys the helper, whose destructor closes the file.\<close>

definition mk_rotating_sink ::
  "'f \<Rightarrow> string \<Rightarrow> size_t \<Rightarrow> size_t \<Rightarrow> bool \<Rightarrow> callback list \<Rightarrow> os \<Rightarrow> (file_error + 'f rotating_sink) \<times> os" where
  "mk_rotating_sink formatter base_filename max_size max_files rotate_on_open event_handlers s =
     (let fail = (\<lambda>e h s. (Inl e, snd (file_close h s)));
          h0 = mk_file_helper event_handlers in
      if max_size = 0 then fail ZeroMaxSize h0 s
      else if max_files > max_files_limit then fail TooManyFiles h0 s
      else (case file_open (calc_filename base_filename 0) False h0 s of
          (Some e, h1, s1) \<Rightarrow> fail e h1 s1
        | (None, h1, s1) \<Rightarrow>
            (case helper_size h1 s1 of
               (Inl e, s2) \<Rightarrow> fail e h1 s2
             | (Inr sz, s2) \<Rightarrow>
                 (let k = \<lparr>rs_formatter = formatter, rs_base = base_filename, rs_max_size = max_size,
                           rs_max_files = max_files, rs_current = sz, rs_helper = h1\<rparr> in
                  if rotate_on_open \<and> sz > 0
                  then (case rotate_files k s2 of
                          (Some e, k1, s3) \<Rightarrow> fail e (rs_helper k1) s3
                        | (None, k1, s3) \<Rightarrow> (Inr (k1\<lparr>rs_current := 0\<rparr>), s3))
                  else (Inr k, s2)))))"

definition rs_filename :: "'f rotating_sink \<Rightarrow> string" where
  "rs_filename k = fh_filename (rs_helper k)"

definition rotate_now :: "'f rotating_sink \<Rightarrow> os \<Rightarrow> file_error option \<times> 'f rotating_sink \<times> os" where
  "rotate_now k s = rotate_files k s"

definition rs_set_max_size :: "size_t \<Rightarrow> 'f rotating_sink \<Rightarrow> file_error option \<times> 'f rotating_sink" where
  "rs_set_max_size max_size k =
     (if max_size = 0 then (Some ZeroMaxSize, k) else (None, k\<lparr>rs_max_size := max_size\<rparr>))"

definition rs_get_max_size :: "'f rotating_sink \<Rightarrow> size_t" where
  "rs_get_max_size k = rs_max_size k"

definition rs_set_max_files :: "size_t \<Rightarrow> 'f rotating_sink \<Rightarrow> file_error option \<times> 'f rotating_sink" where
  "rs_set_max_files max_files k =
     (if max_files > max_files_limit then (Some TooManyFiles, k) else (None, k\<lparr>rs_max_files := max_files\<rparr>))"

definition rs_get_max_files :: "'f rotating_sink \<Rightarrow> size_t" where
  "rs_get_max_files k = rs_max_files k"

definition rs_write :: "string \<Rightarrow> size_t \<Rightarrow> 'f rotating_sink \<Rightarrow> os \<Rightarrow> file_error option \<times> 'f rotating_sink \<times> os" where
  "rs_write formatted new_size k s =
     (case file_write formatted (rs_helper k) s of
        (Some e, s1) \<Rightarrow> (Some e, k, s1)
      | (None, s1) \<Rightarrow> (None, k\<lparr>rs_current := new_size\<rparr>, s1))"

definition rs_sink_it ::
  "('m \<Rightarrow> 'f \<Rightarrow> string \<times> 'f) \<Rightarrow> 'm \<Rightarrow> 'f rotating_sink \<Rightarrow> os \<Rightarrow> file_error option \<times> 'f rotating_sink \<times> os" where
  "rs_sink_it format_msg m k0 s =
     (let (formatted, f) = format_msg m (rs_formatter k0);
          k = k0\<lparr>rs_formatter := f\<rparr>;
          formatted_size = of_nat (length formatted);
          new_size = rs_current k + formatted_size in
      if new_size > rs_max_size k
      then (case file_flush (rs_helper k) s of
              (Some e, s1) \<Rightarrow> (Some e, k, s1)
            | (None, s1) \<Rightarrow>
                (case helper_size (rs_helper k) s1 of
                   (Inl e, s2) \<Rightarrow> (Some e, k, s2)
                 | (Inr sz, s2) \<Rightarrow>
                     if sz > 0
                     then (case rotate_files k s2 of
                             (Some e, k3, s3) \<Rightarrow> (Some e, k3, s3)
                           | (None, k3, s3) \<Rightarrow> rs_write formatted formatted_size k3 s3)
                     else rs_write formatted new_size k s2))
      else rs_write formatted new_size k s)"

definition rs_flush :: "'f rotating_sink \<Rightarrow> os \<Rightarrow> file_error option \<times> os" where
  "rs_flush k s = file_flush (rs_helper k) s"

text \<open>A sequence of messages; the logger reports an exception of the sink and goes on.\<close>

fun rs_all ::
  "('m \<Rightarrow> 'f \<Rightarrow> string \<times> 'f) \<Rightarrow> 'm list \<Rightarrow> 'f rotating_sink \<Rightarrow> os \<Rightarrow> file_error list \<times> 'f rotating_sink \<times> os" where
  "rs_all format_msg [] k s = ([], k, s)"
| "rs_all format_msg (m # ms) k s =
     (case rs_sink_it format_msg m k s of
        (e, k1, s1) \<Rightarrow>
          (case rs_all format_msg ms k1 s1 of
             (es, k2, s2) \<Rightarrow> ((case e of None \<Rightarrow> es | Some x \<Rightarrow> x # es), k2, s2)))"


section \<open>Shifting the files\<close>

locale file_names =
  fixes name :: "nat \<Rightarrow> string"
  assumes name_inject: "name i = name j \<longleftrightarrow> i = j"
begin

fun shift :: "nat \<Rightarrow> (string \<rightharpoonup> string) \<Rightarrow> (string \<rightharpoonup> string)" where
  "shift 0 fs = fs"
| "shift (Suc i) fs =
     shift i (case fs (name i) of None \<Rightarrow> fs | Some c \<Rightarrow> fs(name i := None, name (Suc i) \<mapsto> c))"

lemma shift_above: "i < j \<Longrightarrow> shift i fs (name j) = fs (name j)"
proof (induction i arbitrary: fs)
  case (Suc i)
  then show ?case by (simp add: name_inject split: option.split)
qed simp

lemma shift_top: "shift (Suc i) fs (name (Suc i)) = (case fs (name i) of None \<Rightarrow> fs (name (Suc i)) | Some c \<Rightarrow> Some c)"
  by (simp add: shift_above split: option.split)

lemma shift_below: "0 < j \<Longrightarrow> j < i \<Longrightarrow> shift i fs (name j) = fs (name (j - 1))"
proof (induction i arbitrary: fs)
  case (Suc i)
  show ?case
  proof (cases "j = i")
    case True
    then obtain i' where i: "i = Suc i'" using Suc.prems by (cases i) auto
    show ?thesis
      using True i by (simp add: shift_above name_inject split: option.split)
  next
    case False
    then have "j < i" "j - Suc 0 \<noteq> i" "j - Suc 0 \<noteq> Suc i" using Suc.prems by simp_all
    then show ?thesis using Suc.IH [OF Suc.prems(1)] Suc.prems(1) by (simp add: name_inject split: option.split)
  qed
qed simp

lemma shift_bottom: "0 < i \<Longrightarrow> shift i fs (name 0) = None"
proof (induction i arbitrary: fs)
  case (Suc i)
  then show ?case by (cases i) (simp_all add: name_inject split: option.split)
qed simp

text \<open>The first files of the disk, when there is no gap between them.\<close>

definition in_order :: "nat \<Rightarrow> string list \<Rightarrow> (string \<rightharpoonup> string) \<Rightarrow> bool" where
  "in_order n cs fs \<longleftrightarrow> (\<forall>i \<le> n. fs (name i) = (if i < length cs then Some (cs ! i) else None))"

lemma shift_in_order:
  assumes "in_order n cs fs" and "cs \<noteq> []" and "length cs \<le> Suc n"
  shows "in_order n (c # take n cs) ((shift n fs)(name 0 \<mapsto> c))"
  unfolding in_order_def
proof (intro allI impI)
  fix i assume i: "i \<le> n"
  have old: "fs (name j) = (if j < length cs then Some (cs ! j) else None)" if "j \<le> n" for j
    using assms(1) that by (simp add: in_order_def)
  show "((shift n fs)(name 0 \<mapsto> c)) (name i) = (if i < length (c # take n cs) then Some ((c # take n cs) ! i) else None)"
  proof (cases i)
    case (Suc j)
    have "shift n fs (name i) = (if j < length cs then Some (cs ! j) else None)"
    proof (cases "i = n")
      case True
      then show ?thesis using Suc old [of j] old [of n] assms(3) shift_top [of j fs] by (auto split: option.splits)
    next
      case False
      then show ?thesis using Suc i old [of j] shift_below [of i n fs] by simp
    qed
    then show ?thesis using Suc i by (simp add: name_inject)
  qed simp
qed

end

interpretation backups: file_names "calc_filename base" for base
  by unfold_locales simp

text \<open>The names of a log and its old files; all are in the directory of the base name.\<close>

definition rot_name :: "string \<Rightarrow> string \<Rightarrow> bool" where
  "rot_name base f \<longleftrightarrow> base \<noteq> [] \<and> (\<exists>i. f = calc_filename base i)"

interpretation rot_dir: log_dir "dir_name base" "rot_name base" for base
proof
  have "calc_filename base i \<noteq> []" if "base \<noteq> []" for i
    using that by (simp add: calc_filename_def split: prod.split)
  then show "rot_name base f \<Longrightarrow> f \<noteq> [] \<and> dir_name f = dir_name base" for f
    by (auto simp: rot_name_def dir_name_calc_filename)
qed

abbreviation log_ready :: "string \<Rightarrow> os \<Rightarrow> bool" where
  "log_ready base s \<equiv> ready (dir_name base) (rot_name base) s"

lemma rot_names [simp]: "base \<noteq> [] \<Longrightarrow> rot_name base (calc_filename base i)" "base \<noteq> [] \<Longrightarrow> rot_name base base"
proof -
  have "calc_filename base 0 = base" by (simp add: calc_filename_def)
  then show "base \<noteq> [] \<Longrightarrow> rot_name base (calc_filename base i)" "base \<noteq> [] \<Longrightarrow> rot_name base base"
    unfolding rot_name_def by metis+
qed

end
