(* ===== verification/Log_Rotating_Spec.thy ===== *)
theory Log_Rotating_Spec
  imports Log_Rotating
begin

text \<open>
  What the rotating sink promises. \<open>rot_put\<close> is the abstract sink, an operation on the contents of the
  files, newest first; the model of the code refines it as long as the system calls succeed. What it keeps of
  the log is then shown on lists alone. When a file could not be opened again, the sink stays dead.
\<close>

section \<open>The abstract sink\<close>

definition rot_put :: "nat \<Rightarrow> nat \<Rightarrow> string \<Rightarrow> string list \<Rightarrow> string list" where
  "rot_put cap n t cs =
     (if length (hd cs) + length t > cap \<and> hd cs \<noteq> [] then t # take n cs else (hd cs @ t) # tl cs)"

lemma rot_put_ne [simp]: "rot_put cap n t cs \<noteq> []"
  by (simp add: rot_put_def)

text \<open>
  The contents are \<open>groups\<close> of whole records, the newest first, that follow each other in the log; records
  are dropped only once all \<open>n + 1\<close> files are in use.
\<close>

definition kept :: "nat \<Rightarrow> nat \<Rightarrow> string list \<Rightarrow> string list \<Rightarrow> bool" where
  "kept cap n ts cs \<longleftrightarrow>
     (\<exists>groups d. cs = map concat groups \<and> concat (rev groups) = drop d ts \<and> d \<le> length ts
        \<and> (d = 0 \<or> length cs = Suc n))
     \<and> cs \<noteq> [] \<and> length cs \<le> Suc n \<and> (\<forall>c \<in> set cs. length c \<le> cap \<or> c \<in> set ts)"

lemma kept_put:
  assumes "kept cap n ts cs"
  shows "kept cap n (ts @ [t]) (rot_put cap n t cs)"
proof -
  obtain gs d where g: "cs = map concat gs" "concat (rev gs) = drop d ts" "d \<le> length ts" "d = 0 \<or> length cs = Suc n"
    using assms unfolding kept_def by blast
  have cs: "cs \<noteq> []" "length cs \<le> Suc n" "\<And>c. c \<in> set cs \<Longrightarrow> length c \<le> cap \<or> c \<in> set ts"
    using assms unfolding kept_def by blast+
  then obtain g1 gs1 where gs: "gs = g1 # gs1" using g(1) by (cases gs) auto
  show ?thesis
  proof (cases "length (hd cs) + length t > cap \<and> hd cs \<noteq> []")
    case rotate: True
    have "\<exists>d'. concat (rev ([t] # take n gs)) = drop d' (ts @ [t]) \<and> d' \<le> length (ts @ [t])
        \<and> (d' = 0 \<or> length (t # take n cs) = Suc n)"
    proof (cases "length cs \<le> n")
      case True
      then show ?thesis using g by (intro exI [of _ d]) auto
    next
      case False
      then have len: "length gs = Suc n" using cs(2) g(1) by simp
      let ?d = "d + length (concat (drop n gs))"
      have "concat (rev (take n gs)) = drop (length (concat (rev (drop n gs)))) (concat (rev gs))"
        by (metis append_eq_conv_conj append_take_drop_id concat_append rev_append)
      moreover have "length (concat (rev (drop n gs))) = length (concat (drop n gs))"
        using len by (simp add: length_concat rev_map [symmetric] sum_list_rev)
      ultimately have "concat (rev (take n gs)) = drop ?d ts" using g(2) by (simp add: add.commute)
      moreover have "?d \<le> length ts"
      proof -
        have "length (concat (drop n gs)) \<le> length (concat gs)" by (metis append_take_drop_id concat_append length_append le_add2)
        also have "\<dots> = length (concat (rev gs))" by (simp add: length_concat rev_map [symmetric] sum_list_rev)
        finally show ?thesis using g(2,3) by simp
      qed
      ultimately show ?thesis using len g(1) by (intro exI [of _ ?d]) auto
    qed
    then obtain d' where "concat (rev ([t] # take n gs)) = drop d' (ts @ [t])" "d' \<le> length (ts @ [t])"
        "d' = 0 \<or> length (t # take n cs) = Suc n" by blast
    moreover have "t # take n cs = map concat ([t] # take n gs)" using g(1) by (simp add: take_map)
    moreover have "rot_put cap n t cs = t # take n cs" using rotate by (simp add: rot_put_def)
    ultimately show ?thesis
      unfolding kept_def using cs(2,3) in_set_takeD [of _ n cs]
      by (intro conjI exI [of _ "[t] # take n gs"] exI [of _ d']) auto
  next
    case False
    then have put: "rot_put cap n t cs = map concat ((g1 @ [t]) # gs1)"
      using g(1) gs by (auto simp: rot_put_def)
    have "concat (rev ((g1 @ [t]) # gs1)) = drop d (ts @ [t])" using g(2,3) gs by simp
    moreover have "length (hd cs @ t) \<le> cap \<or> hd cs @ t \<in> set (ts @ [t])" using False by auto
    moreover have "c \<in> set (rot_put cap n t cs) \<Longrightarrow> c = hd cs @ t \<or> c \<in> set cs" for c
      using g(1) gs put by auto
    ultimately show ?thesis
      unfolding kept_def using cs g gs put
      by (intro conjI exI [of _ "(g1 @ [t]) # gs1"] exI [of _ d]) auto
  qed
qed

lemma kept_fold: "kept cap n us cs \<Longrightarrow> kept cap n (us @ ts) (fold (rot_put cap n) ts cs)"
proof (induction ts arbitrary: us cs)
  case (Cons t ts)
  then show ?case using Cons.IH [OF kept_put [OF Cons.prems, of t]] by simp
qed simp

lemma kept_start: "kept cap n [] [[]]"
  by (auto simp: kept_def intro!: exI [of _ "[[]]"])


section \<open>The sink on the disk\<close>

definition settled :: "string \<Rightarrow> file_helper \<Rightarrow> os \<Rightarrow> bool" where
  "settled base h s \<longleftrightarrow> log_ready base s \<and> fh_open h \<and> fh_filename h = base \<and> base \<noteq> []"

definition holds :: "'f rotating_sink \<Rightarrow> os \<Rightarrow> string list \<Rightarrow> bool" where
  "holds k s cs \<longleftrightarrow>
     settled (rs_base k) (rs_helper k) s \<and> cs \<noteq> [] \<and> length cs \<le> Suc (unat (rs_max_files k))
     \<and> backups.in_order (rs_base k) (unat (rs_max_files k)) cs (os_files s)
     \<and> rs_current k = of_nat (length (hd cs))"

definition same_limits :: "'f rotating_sink \<Rightarrow> 'f rotating_sink \<Rightarrow> bool" where
  "same_limits k k' \<longleftrightarrow>
     rs_base k' = rs_base k \<and> rs_max_size k' = rs_max_size k \<and> rs_max_files k' = rs_max_files k"

lemma ready_rename_twice:
  assumes "log_ready base s" and "base \<noteq> []" and "os_files s (calc_filename base i) = Some c" and "i \<noteq> j"
  shows "\<exists>s'. rename_twice (calc_filename base i) (calc_filename base j) s = (True, s') \<and> log_ready base s'
    \<and> os_files s' = (os_files s)(calc_filename base i := None, calc_filename base j \<mapsto> c)"
proof -
  let ?a = "calc_filename base i" and ?b = "calc_filename base j"
  note names = rot_names(1) [OF assms(2)]
  obtain r s1 where r: "os_remove ?b s = (r, s1)" by fastforce
  then have s1: "log_ready base s1" "os_files s1 = (os_files s)(?b := None)"
    using rot_dir.ready_remove [OF assms(1), of ?b] by simp_all
  then have "os_files s1 ?a = Some c" using assms(3,4) by simp
  from rot_dir.ready_rename [OF s1(1) this names names, of j] show ?thesis
    by (auto simp: rename_twice_def rename_file_def r s1(2) fun_upd_twist)
qed

lemma rotate_loop_shift:
  "log_ready (rs_base k) s \<Longrightarrow> rs_base k \<noteq> [] \<Longrightarrow> \<exists>s'. rotate_loop i k s = (None, k, s') \<and> log_ready (rs_base k) s'
     \<and> os_files s' = backups.shift (rs_base k) i (os_files s)"
proof (induction i arbitrary: s)
  case (Suc i)
  let ?src = "calc_filename (rs_base k) i" and ?target = "calc_filename (rs_base k) (Suc i)"
  obtain s1 where e: "path_exists ?src s = (os_files s ?src \<noteq> None, s1)" "log_ready (rs_base k) s1" "os_files s1 = os_files s"
    using rot_dir.ready_exists [OF Suc.prems(1) rot_names(1) [OF Suc.prems(2)]] by blast
  show ?case
  proof (cases "os_files s ?src")
    case None
    then show ?thesis using e Suc.IH [OF e(2) Suc.prems(2)] by simp
  next
    case (Some c)
    then obtain s2 where r: "rename_twice ?src ?target s1 = (True, s2)" "log_ready (rs_base k) s2"
        "os_files s2 = (os_files s)(?src := None, ?target \<mapsto> c)"
      using ready_rename_twice [OF e(2) Suc.prems(2), of i c "Suc i"] e(3) by auto
    then show ?thesis using Some e Suc.IH [OF r(2) Suc.prems(2)] by (simp del: fun_upd_apply)
  qed
qed simp

lemma rotate_settled:
  assumes "settled (rs_base k) (rs_helper k) s"
  shows "\<exists>h' s'. rotate_files k s = (None, k\<lparr>rs_helper := h'\<rparr>, s') \<and> settled (rs_base k) h' s'
     \<and> os_files s' = (backups.shift (rs_base k) (unat (rs_max_files k)) (os_files s))(rs_base k \<mapsto> [])"
proof -
  obtain h s1 where c: "file_close (rs_helper k) s = (h, s1)" by fastforce
  have ne: "rs_base k \<noteq> []" using assms by (simp add: settled_def)
  have c1: "log_ready (rs_base k) s1" "os_files s1 = os_files s" "fh_filename h = rs_base k"
    using file_close_frame [of "rs_helper k" s] rot_dir.ready_close [of "rs_base k" s "rs_helper k"] assms c
    by (simp_all add: settled_def)
  obtain s2 where l: "rotate_loop (unat (rs_max_files k)) (k\<lparr>rs_helper := h\<rparr>) s1 = (None, k\<lparr>rs_helper := h\<rparr>, s2)"
      "log_ready (rs_base k) s2" "os_files s2 = backups.shift (rs_base k) (unat (rs_max_files k)) (os_files s)"
    using rotate_loop_shift [of "k\<lparr>rs_helper := h\<rparr>" s1 "unat (rs_max_files k)"] c1 ne by auto
  obtain h' s' where o: "file_open (rs_base k) True h s2 = (None, h', s')" "log_ready (rs_base k) s'" "fh_open h'"
      "fh_filename h' = rs_base k" "os_files s' = (os_files s2)(rs_base k \<mapsto> [])"
    using rot_dir.ready_open [OF l(2) rot_names(2) [OF ne], of True h] by auto
  show ?thesis
    using c1(3) l o ne by (auto simp: rotate_files_def c rs_reopen_def file_reopen_def settled_def)
qed

lemma write_settled:
  assumes "settled base h s" and "os_files s base = Some c"
  shows "\<exists>s'. file_write t h s = (None, s') \<and> settled base h s' \<and> os_files s' = (os_files s)(base \<mapsto> c @ t)"
  using rot_dir.ready_write [of base s base c h t] assms by (auto simp: settled_def)

text \<open>One message.\<close>

lemma put_holds:
  assumes holds: "holds k s cs" and format: "format_msg m (rs_formatter k) = (t, f)"
    and fits: "length (hd cs) + length t < 2 ^ 64"
  shows "\<exists>k' s'. rs_sink_it format_msg m k s = (None, k', s') \<and> rs_formatter k' = f \<and> same_limits k k'
     \<and> holds k' s' (rot_put (unat (rs_max_size k)) (unat (rs_max_files k)) t cs)"
proof -
  let ?n = "unat (rs_max_files k)" and ?cap = "unat (rs_max_size k)" and ?b = "rs_base k"
  let ?k = "k\<lparr>rs_formatter := f\<rparr>"
  have set: "settled ?b (rs_helper k) s" and ne: "cs \<noteq> []" and len: "length cs \<le> Suc ?n"
    and ord: "backups.in_order ?b ?n cs (os_files s)" and cur: "rs_current k = of_nat (length (hd cs))"
    using holds by (simp_all add: holds_def)
  have at: "os_files s ?b = Some (hd cs)"
    using ord ne by (auto simp: backups.in_order_def calc_filename_def hd_conv_nth dest!: spec [of _ 0])
  have new: "unat (rs_current k + of_nat (length t)) = length (hd cs) + length t"
    using fits by (simp only: cur of_nat_add [symmetric] unat_of_nat_size)
  have big: "rs_current k + of_nat (length t) > rs_max_size k \<longleftrightarrow> length (hd cs) + length t > ?cap"
    by (simp add: word_less_nat_alt new)
  have stay: "\<exists>k' s2. rs_write t (rs_current k + of_nat (length t)) ?k s1 = (None, k', s2) \<and> rs_formatter k' = f
       \<and> same_limits k k' \<and> holds k' s2 ((hd cs @ t) # tl cs)"
    if settled1: "settled ?b (rs_helper k) s1" and same: "os_files s1 = os_files s" for s1
  proof -
    obtain s2 where w: "file_write t (rs_helper k) s1 = (None, s2)" "settled ?b (rs_helper k) s2"
        "os_files s2 = (os_files s)(?b \<mapsto> hd cs @ t)"
      using write_settled [OF settled1, of "hd cs" t] same at by auto
    have "backups.in_order ?b ?n ((hd cs @ t) # tl cs) (os_files s2)"
      using ord ne w(3)
      by (auto simp: backups.in_order_def calc_filename_inject [of ?b _ 0, unfolded calc_filename_def [of _ 0], simplified]
          nth_Cons' nth_tl split: if_splits)
    then show ?thesis
      using w ne len cur by (simp add: rs_write_def holds_def same_limits_def)
  qed
  show ?thesis
  proof (cases "length (hd cs) + length t > ?cap")
    case False
    then show ?thesis
      using stay [OF set refl] big format by (simp add: rs_sink_it_def rot_put_def)
  next
    case True
    note size = fits
    let ?s1 = "s\<lparr>os_calls := Suc (os_calls s)\<rparr>" and ?s2 = "s\<lparr>os_calls := Suc (Suc (os_calls s))\<rparr>"
    have s1: "file_flush (rs_helper k) s = (None, ?s1)" "helper_size (rs_helper k) ?s1 = (Inr (of_nat (length (hd cs))), ?s2)"
      and set2: "settled ?b (rs_helper k) ?s2"
      using set at ready_calm [of _ _ s]
      by (auto simp: file_flush_def helper_size_def filesize_def settled_def calm_tick)
    have pos: "(of_nat (length (hd cs)) :: size_t) > 0 \<longleftrightarrow> hd cs \<noteq> []"
      using fits by (simp add: word_less_nat_alt)
    show ?thesis
    proof (cases "hd cs = []")
      case empty: True
      then show ?thesis
        using stay [OF set2] True big format s1 pos by (simp add: rs_sink_it_def rot_put_def)
    next
      case full: False
      obtain h' s3 where r: "rotate_files ?k ?s2 = (None, ?k\<lparr>rs_helper := h'\<rparr>, s3)" "settled ?b h' s3"
          "os_files s3 = (backups.shift ?b ?n (os_files s))(?b \<mapsto> [])"
        using rotate_settled [of ?k ?s2] set2 by auto
      obtain s4 where w: "file_write t h' s3 = (None, s4)" "settled ?b h' s4"
          "os_files s4 = (backups.shift ?b ?n (os_files s))(?b \<mapsto> t)"
        using write_settled [OF r(2), of "[]" t] r(3) by auto
      have "backups.in_order ?b ?n (t # take ?n cs) (os_files s4)"
        using backups.shift_in_order [OF ord ne len, of t] w(3) by (simp add: calc_filename_def)
      then show ?thesis
        using True full big format s1 pos r w len
        by (simp add: rs_sink_it_def rot_put_def rs_write_def holds_def same_limits_def)
    qed
  qed
qed


section \<open>A sequence of messages\<close>

fun texts :: "('m \<Rightarrow> 'f \<Rightarrow> string \<times> 'f) \<Rightarrow> 'm list \<Rightarrow> 'f \<Rightarrow> string list" where
  "texts format_msg [] f = []"
| "texts format_msg (m # ms) f = (case format_msg m f of (t, f') \<Rightarrow> t # texts format_msg ms f')"

lemma rot_put_hd: "length (hd (rot_put cap n t cs)) \<le> length (hd cs) + length t"
  by (simp add: rot_put_def)

lemma all_hold:
  "holds k s cs \<Longrightarrow> length (hd cs) + length (concat (texts format_msg ms (rs_formatter k))) < 2 ^ 64 \<Longrightarrow>
    \<exists>k' s'. rs_all format_msg ms k s = ([], k', s') \<and> same_limits k k'
      \<and> holds k' s' (fold (rot_put (unat (rs_max_size k)) (unat (rs_max_files k))) (texts format_msg ms (rs_formatter k)) cs)"
proof (induction ms arbitrary: k s cs)
  case Nil
  then show ?case by (simp add: same_limits_def)
next
  case (Cons m ms)
  obtain t f where f: "format_msg m (rs_formatter k) = (t, f)" by fastforce
  obtain k1 s1 where 1: "rs_sink_it format_msg m k s = (None, k1, s1)" "rs_formatter k1 = f" "same_limits k k1"
      "holds k1 s1 (rot_put (unat (rs_max_size k)) (unat (rs_max_files k)) t cs)"
    using put_holds [where format_msg = format_msg, OF Cons.prems(1) f] Cons.prems(2) f by auto
  have "length (hd (rot_put (unat (rs_max_size k)) (unat (rs_max_files k)) t cs))
      + length (concat (texts format_msg ms (rs_formatter k1))) < 2 ^ 64"
    using rot_put_hd [of "unat (rs_max_size k)" "unat (rs_max_files k)" t cs] Cons.prems(2) f 1(2) by simp
  from Cons.IH [OF 1(4) this] show ?case
    using 1 f by (auto simp: same_limits_def)
qed

text \<open>
  C12: The model of the rotating sink refines the abstract sink. From a disk whose log files are the list
  \<open>cs\<close>, newest first and without a gap, any sequence of messages is logged without an error, and
  leaves the files that \<open>rot_put\<close> makes of their texts: on the disk, under the names \<open>base\<close>, \<open>base.1\<close>, up to the
  configured number.
\<close>

theorem rotating_refines:
  assumes "holds k s cs"
    and "length (hd cs) + length (concat (texts format_msg ms (rs_formatter k))) < 2 ^ 64"
  shows "case rs_all format_msg ms k s of (errors, k', s') \<Rightarrow>
    errors = [] \<and> holds k' s' (fold (rot_put (unat (rs_max_size k)) (unat (rs_max_files k))) (texts format_msg ms (rs_formatter k)) cs)"
  using all_hold [OF assms] by auto

definition plain_format :: "string \<Rightarrow> nat \<Rightarrow> string \<times> nat" where
  "plain_format m f = (m, Suc f)"

definition example_sink :: "nat rotating_sink" where
  "example_sink = \<lparr>rs_formatter = 0, rs_base = ''a.txt'', rs_max_size = 4, rs_max_files = 1, rs_current = 2,
     rs_helper = \<lparr>fh_filename = ''a.txt'', fh_open = True, fh_handlers = []\<rparr>\<rparr>"

definition example_disk :: os where
  "example_disk = \<lparr>os_files = [''a.txt'' \<mapsto> ''ab''], os_dirs = {}, os_calls = 0, os_outcome = (\<lambda>n. None), os_events = []\<rparr>"

lemma example_holds: "holds example_sink example_disk [''ab'']"
proof -
  have "calc_filename ''a.txt'' 0 = ''a.txt''" "calc_filename ''a.txt'' 1 = ''a.1.txt''" by code_simp+
  moreover have "i \<le> 1 \<longleftrightarrow> i = 0 \<or> i = 1" for i :: nat by linarith
  ultimately have "backups.in_order ''a.txt'' 1 [''ab''] (os_files example_disk)"
    by (auto simp: backups.in_order_def example_disk_def)
  moreover have "log_ready ''a.txt'' example_disk" by (simp add: ready_no_dirs calm_def example_disk_def)
  ultimately show ?thesis by (simp add: holds_def settled_def example_sink_def)
qed

theorem rotating_refines_witness:
  "case rs_all plain_format [''cd'', ''e''] example_sink example_disk of (errors, k', s') \<Rightarrow>
    errors = [] \<and> holds k' s' [''e'', ''abcd'']"
proof -
  have t: "texts plain_format [''cd'', ''e''] (rs_formatter example_sink) = [''cd'', ''e'']" by code_simp
  have "unat (rs_max_size example_sink) = 4" "unat (rs_max_files example_sink) = 1" by (simp_all add: example_sink_def)
  then show ?thesis
    using rotating_refines [OF example_holds, of plain_format "[''cd'', ''e'']", unfolded t]
    by (simp add: rot_put_def)
qed

lemma sink_made:
  assumes "log_ready base s" and "base \<noteq> []" and "\<And>i. os_files s (calc_filename base i) = None"
    and "max_size > 0" and "max_files \<le> max_files_limit"
  shows "\<exists>k s'. mk_rotating_sink formatter base max_size max_files rotate_on_open handlers s = (Inr k, s')
    \<and> rs_formatter k = formatter \<and> rs_base k = base \<and> rs_max_size k = max_size \<and> rs_max_files k = max_files
    \<and> holds k s' [[]]"
proof -
  have name: "calc_filename base 0 = base" by (simp add: calc_filename_def)
  obtain h s1 where o: "file_open base False (mk_file_helper handlers) s = (None, h, s1)" "log_ready base s1" "fh_open h"
      "fh_filename h = base" "os_files s1 = (os_files s)(base \<mapsto> [])"
    using rot_dir.ready_open [OF assms(1) rot_names(2) [OF assms(2)], of False "mk_file_helper handlers"] assms(3) [of 0] name
    by auto
  have "backups.in_order base (unat max_files) [[]] (os_files s1)"
    using assms(3) o(5) calc_filename_inject [of base _ 0] by (auto simp: backups.in_order_def name)
  moreover have "\<not> max_files > max_files_limit" "max_size \<noteq> 0" using assms(4,5) by auto
  ultimately show ?thesis
    using o assms(2)
    by (simp add: mk_rotating_sink_def Let_def name helper_size_def filesize_def calm_tick ready_calm holds_def settled_def)
qed

lemma kept_on_disk:
  assumes "log_ready base s" and "base \<noteq> []" and "\<And>i. os_files s (calc_filename base i) = None"
    and "max_size > 0" and "max_files \<le> max_files_limit"
    and "length (concat (texts format_msg ms formatter)) < 2 ^ 64"
  shows "\<exists>k s0 k' s' cs. mk_rotating_sink formatter base max_size max_files False handlers s = (Inr k, s0)
    \<and> rs_all format_msg ms k s0 = ([], k', s')
    \<and> (\<forall>i \<le> unat max_files. os_files s' (calc_filename base i) = (if i < length cs then Some (cs ! i) else None))
    \<and> kept (unat max_size) (unat max_files) (texts format_msg ms formatter) cs"
proof -
  obtain k s0 where k: "mk_rotating_sink formatter base max_size max_files False handlers s = (Inr k, s0)"
      "rs_formatter k = formatter" "rs_base k = base" "rs_max_size k = max_size" "rs_max_files k = max_files" "holds k s0 [[]]"
    using sink_made [OF assms(1-5), of formatter False handlers] by (elim exE conjE)
  let ?cs = "fold (rot_put (unat max_size) (unat max_files)) (texts format_msg ms formatter) [[]]"
  obtain k' s' where r: "rs_all format_msg ms k s0 = ([], k', s')" "same_limits k k'" "holds k' s' ?cs"
    using all_hold [OF k(6), of format_msg ms] assms(6) k by auto
  have "kept (unat max_size) (unat max_files) (texts format_msg ms formatter) ?cs"
    using kept_fold [OF kept_start] by simp
  then show ?thesis
    using k r by (auto simp: holds_def same_limits_def backups.in_order_def)
qed

text \<open>
  What is kept of the log. A sink made on a disk without its files, that is used for any messages, raises no error. Read
  from the oldest to the newest its files are the end of the log in whole records: nothing is
  lost or torn but the oldest records, and those only when all files are in use. No file is longer
  than the limit, unless it is one record that is longer itself.
\<close>

theorem rotating_keeps_log:
  assumes "log_ready base s" and "base \<noteq> []" and "\<And>i. os_files s (calc_filename base i) = None"
    and "max_size > 0" and "max_files \<le> max_files_limit"
    and "length (concat (texts format_msg ms formatter)) < 2 ^ 64"
  shows "\<exists>k s0 k' s' cs. mk_rotating_sink formatter base max_size max_files False handlers s = (Inr k, s0)
    \<and> rs_all format_msg ms k s0 = ([], k', s')
    \<and> (\<forall>i \<le> unat max_files. os_files s' (calc_filename base i) = (if i < length cs then Some (cs ! i) else None))
    \<and> kept (unat max_size) (unat max_files) (texts format_msg ms formatter) cs"
  by (rule kept_on_disk [OF assms])

theorem rotating_keeps_log_witness:
  "\<exists>k s0 k' s' cs. mk_rotating_sink 0 ''a.txt'' 4 1 False [] (example_disk\<lparr>os_files := Map.empty\<rparr>) = (Inr k, s0)
    \<and> rs_all plain_format [''ab'', ''cd'', ''efghij'', ''k''] k s0 = ([], k', s')
    \<and> (\<forall>i \<le> unat (1 :: size_t). os_files s' (calc_filename ''a.txt'' i) = (if i < length cs then Some (cs ! i) else None))
    \<and> kept (unat (4 :: size_t)) (unat (1 :: size_t)) (texts plain_format [''ab'', ''cd'', ''efghij'', ''k''] 0) cs"
proof (rule rotating_keeps_log)
  show "log_ready ''a.txt'' (example_disk\<lparr>os_files := Map.empty\<rparr>)" by (simp add: ready_no_dirs calm_def example_disk_def)
  show "os_files (example_disk\<lparr>os_files := Map.empty\<rparr>) (calc_filename ''a.txt'' i) = None" for i by simp
  have "texts plain_format [''ab'', ''cd'', ''efghij'', ''k''] 0 = [''ab'', ''cd'', ''efghij'', ''k'']"
    by (simp add: plain_format_def)
  then show "length (concat (texts plain_format [''ab'', ''cd'', ''efghij'', ''k''] 0)) < 2 ^ 64" by simp
qed (simp_all add: max_files_limit_def)


section \<open>The interface to the formatter\<close>

text \<open>
  What the sink may expect of a formatter: while it is \<open>ok\<close>, a message that \<open>fits\<close> is printed as \<open>msg_text\<close> says,
  whatever was printed before.
\<close>

locale steady_formatter =
  fixes format_msg :: "'m \<Rightarrow> 'f \<Rightarrow> string \<times> 'f"
    and ok :: "'f \<Rightarrow> bool"
    and fits :: "'m \<Rightarrow> bool"
    and msg_text :: "'m \<Rightarrow> string"
  assumes prints: "ok f \<Longrightarrow> fits m \<Longrightarrow> fst (format_msg m f) = msg_text m"
    and stays_ok: "ok f \<Longrightarrow> fits m \<Longrightarrow> ok (snd (format_msg m f))"
begin

lemma texts_steady: "ok f \<Longrightarrow> list_all fits ms \<Longrightarrow> texts format_msg ms f = map msg_text ms"
  by (induction ms arbitrary: f) (auto simp: case_prod_beta prints stays_ok)

lemma kept_steady:
  assumes "ok formatter" and "list_all fits ms" and "log_ready base s" and "base \<noteq> []"
    and "\<And>i. os_files s (calc_filename base i) = None" and "max_size > 0" and "max_files \<le> max_files_limit"
    and "length (concat (map msg_text ms)) < 2 ^ 64"
  shows "\<exists>k s0 k' s' cs. mk_rotating_sink formatter base max_size max_files False handlers s = (Inr k, s0)
    \<and> rs_all format_msg ms k s0 = ([], k', s')
    \<and> (\<forall>i \<le> unat max_files. os_files s' (calc_filename base i) = (if i < length cs then Some (cs ! i) else None))
    \<and> kept (unat max_size) (unat max_files) (map msg_text ms) cs"
  using kept_on_disk [OF assms(3-7), of format_msg ms formatter handlers] assms(8)
  unfolding texts_steady [OF assms(1,2)] by (rule meta_mp)

end

section \<open>A sink without its file\<close>

lemma open_loop_closed: "\<not> fh_open h \<Longrightarrow> fst (open_loop n trunc h s) = fh_open (fst (snd (open_loop n trunc h s)))"
proof (induction n arbitrary: s)
  case (Suc n)
  then show ?case by (auto simp: Let_def split: prod.split bool.split)
qed simp

lemma failed_open_closed: "file_open fname trunc h s = (Some e, h', s') \<Longrightarrow> \<not> fh_open h'"
proof -
  assume open_fails: "file_open fname trunc h s = (Some e, h', s')"
  obtain h1 s1 where c: "file_close h s = (h1, s1)" by fastforce
  then have "\<not> fh_open h1" using file_close_frame(5) [of h s] by simp
  then show ?thesis
    using open_fails open_loop_closed [of "h1\<lparr>fh_filename := fname\<rparr>"]
    by (auto simp: file_open_def c Let_def split: prod.splits if_splits) (metis fst_conv snd_conv)
qed

lemma failed_reopen_closed: "rs_reopen k s = (Some (OpenFailed f), k', s') \<Longrightarrow> \<not> fh_open (rs_helper k')"
  by (auto simp: rs_reopen_def file_reopen_def split: prod.splits if_splits dest: failed_open_closed)

lemma failed_loop_closed:
  "rotate_loop i k s = (Some (OpenFailed f), k', s') \<Longrightarrow> \<not> fh_open (rs_helper k')"
proof (induction i arbitrary: s)
  case (Suc i)
  then show ?case
    by (auto simp: Let_def split: prod.splits bool.splits option.splits dest: failed_reopen_closed)
qed simp

lemma failed_rotate_closed:
  "rotate_files k s = (Some (OpenFailed f), k', s') \<Longrightarrow> \<not> fh_open (rs_helper k')"
  by (auto simp: rotate_files_def split: prod.splits option.splits dest: failed_loop_closed failed_reopen_closed)

lemma rs_write_error: "rs_write t n k s \<noteq> (Some (OpenFailed f), k1, s1)"
  by (simp add: rs_write_def file_write_def split: prod.split option.split)

lemma failed_sink_closed:
  assumes "rs_sink_it format_msg m k s = (Some (OpenFailed f), k', s')"
  shows "\<not> fh_open (rs_helper k')"
proof -
  have "file_flush h s \<noteq> (Some (OpenFailed f), s1)" for h s s1
    by (simp add: file_flush_def split: prod.split)
  moreover have "helper_size h s \<noteq> (Inl (OpenFailed f), s1)" for h s s1
    by (simp add: helper_size_def filesize_def split: prod.split option.split)
  ultimately show ?thesis
    using assms
    by (auto simp: rs_sink_it_def Let_def split: prod.splits if_splits option.splits sum.splits dest: failed_rotate_closed simp: rs_write_error)
qed

lemma closed_sink_it:
  assumes "\<not> fh_open (rs_helper k)"
  shows "\<exists>e k' s'. rs_sink_it format_msg m k s = (e, k', s') \<and> \<not> fh_open (rs_helper k') \<and> os_files s' = os_files s"
  using assms
  by (auto simp: rs_sink_it_def Let_def rs_write_def file_write_def helper_size_def file_flush_def tick_def
      split: prod.split option.split)

lemma closed_all:
  "\<not> fh_open (rs_helper k) \<Longrightarrow>
    \<exists>es k' s'. rs_all format_msg ms k s = (es, k', s') \<and> \<not> fh_open (rs_helper k') \<and> os_files s' = os_files s"
proof (induction ms arbitrary: k s)
  case (Cons m ms)
  obtain e k1 s1 where 1: "rs_sink_it format_msg m k s = (e, k1, s1)" "\<not> fh_open (rs_helper k1)" "os_files s1 = os_files s"
    using closed_sink_it [OF Cons.prems, of format_msg m s] by (elim exE conjE)
  then show ?case using Cons.IH [OF 1(2), of s1] by auto
qed simp

text \<open>
  C16: A sink that lost its file. When the log file cannot be opened again after a rotation, no later message
  opens it: whatever is logged, and however the system calls go from then on, not one byte more
  reaches the disk.
\<close>

theorem failed_reopen_kills_sink:
  assumes "rs_sink_it format_msg m k s = (Some (OpenFailed f), k1, s1)"
  shows "case rs_all format_msg ms k1 s1 of (errors, k2, s2) \<Rightarrow>
    os_files s2 = os_files s1 \<and> \<not> fh_open (rs_helper k2)"
  using closed_all [OF failed_sink_closed [OF assms], of format_msg ms s1] by auto

definition failing_disk :: os where
  "failing_disk = example_disk\<lparr>os_outcome := (\<lambda>n. if 5 \<le> n \<and> n < 15 then Some 0 else None)\<rparr>"

theorem failed_reopen_kills_sink_witness:
  "\<exists>k1 s1. rs_sink_it plain_format ''cde'' example_sink failing_disk = (Some (OpenFailed ''a.txt''), k1, s1)
    \<and> (case rs_all plain_format [''f'', ''g''] k1 s1 of (errors, k2, s2) \<Rightarrow>
         os_files s2 = os_files s1 \<and> \<not> fh_open (rs_helper k2))"
proof -
  have "fst (rs_sink_it plain_format ''cde'' example_sink failing_disk) = Some (OpenFailed ''a.txt'')"
    by code_simp
  then obtain k1 s1 where f: "rs_sink_it plain_format ''cde'' example_sink failing_disk = (Some (OpenFailed ''a.txt''), k1, s1)"
    by (metis prod.collapse)
  show ?thesis by (intro exI conjI, rule f, rule failed_reopen_kills_sink [OF f])
qed

end
