(* ===== verification/App_Logging.thy ===== *)
theory App_Logging
  imports App_Context Log_Registry Log_Pattern_History Log_Sinks Log_Rotating_Spec
begin

text \<open>
  The program and its log. \<open>AppContext::InitLogger\<close> and \<open>AppContext::ShutdownLogger\<close> are calls on the
  registry of spdlog; here the events of a run are replayed on the registry, so that what
  \<^verbatim>\<open>main\<close> finds when it reports an error is known.
\<close>

definition file_logger_name :: string where
  "file_logger_name = ''zem_file_logger''"

definition zem_init_logger :: "string option \<Rightarrow> registry \<Rightarrow> string option \<times> registry" where
  "zem_init_logger sink_error r =
     (case create_async Block sink_error file_logger_name r of
        (Inl e, r1) \<Rightarrow> (Some e, r1)
      | (Inr file_logger, r1) \<Rightarrow>
          (let r2 = with_logger file_logger (logger_flush_on L_err) r1;
               r3 = flush_every 3 r2;
               r4 = set_default_logger (Some file_logger) r3;
               r5 = set_formatter log_pattern r4
           in (None, set_level L_trace r5)))"

definition log_event :: "app_event \<Rightarrow> registry \<Rightarrow> registry" where
  "log_event e r =
     (case e of
        LoggerUp file_size file_num pattern \<Rightarrow> snd (zem_init_logger None r)
      | LoggerDown \<Rightarrow> registry_shutdown r
      | _ \<Rightarrow> r)"

definition replay :: "app_event list \<Rightarrow> registry" where
  "replay es = fold log_event es mk_registry"


lemma create_file_logger:
  "create_async Block None file_logger_name mk_registry =
    (Inr 1, mk_registry\<lparr>rg_objects := rg_objects mk_registry @
        [\<lparr>lo_logger = initialized mk_registry (mk_logger file_logger_name [L_trace]), lo_async = Some (Block, 0)\<rparr>],
      rg_loggers := rg_loggers mk_registry @ [(file_logger_name, 1)],
      rg_pools := [\<lparr>tp_queue = mk_mpmc AsyncTerminate default_async_q_size, tp_workers = [WorkerIdle],
                    tp_dying = False, tp_done = []\<rparr>], rg_tp := Some 0\<rparr>)"
  by (simp add: create_async_def make_pool_def mk_thread_pool_def set_tp_def make_logger_def initialize_logger_eq
      register_logger_def throw_if_exists_def mk_registry_def file_logger_name_def with_logger_def mk_logger_def
      initialized_def configured_level_def)

text \<open>
  Logging after start-up. The default logger is the asynchronous file logger, registered under
  its name beside the console logger; its pool is alive, so that every message is posted to it; both
  loggers log from \<open>trace\<close> on in the configured pattern, and only the file logger flushes by itself,
  from \<open>err\<close> on; a thread flushes all loggers every 3 seconds.
\<close>

theorem zem_init_logger_spec:
  "fst (zem_init_logger None mk_registry) = None
   \<and> (let r = snd (zem_init_logger None mk_registry) in
      default_logger_raw r = Some 1 \<and> registry_get file_logger_name r = Some 1 \<and> registry_get [] r = Some 0
      \<and> lo_async (rg_objects r ! 1) = Some (Block, 0) \<and> pool_alive 0 r
      \<and> lg_level (the_logger r 0) = L_trace \<and> lg_level (the_logger r 1) = L_trace
      \<and> lg_formats (the_logger r 0) = [log_pattern] \<and> lg_formats (the_logger r 1) = [log_pattern]
      \<and> lg_flush_level (the_logger r 0) = L_off \<and> lg_flush_level (the_logger r 1) = L_err
      \<and> rg_flusher r = Some 3 \<and> rg_global_level r = L_trace)"
  unfolding zem_init_logger_def create_file_logger Let_def
  by (simp add: set_level_def set_formatter_def set_default_logger_def
      flush_every_def apply_all_def with_logger_def mk_registry_def mk_logger_def initialized_def logger_ops
      configured_level_def default_logger_raw_def registry_get_def file_logger_name_def pool_alive_def periodic_active_def)

lemma shutdown_default: "default_logger_raw (registry_shutdown r) = None"
  by (simp add: registry_shutdown_def drop_all_def set_tp_def default_logger_raw_def)

lemma init_default: "default_logger_raw (snd (zem_init_logger None mk_registry)) \<noteq> None"
  by (simp add: zem_init_logger_def create_file_logger Let_def set_level_def set_formatter_def set_default_logger_def
      flush_every_def apply_all_each default_logger_raw_def)

lemma default_log_null: "default_log throws now tid lvl body r = None \<longleftrightarrow> default_logger_raw r = None"
  by (simp add: default_log_def split: option.split prod.split)

text \<open>
  C15: An error of \<^verbatim>\<open>main\<close> is reported through the default logger, and that exists exactly if the
  error did not come from running the server. When \<^verbatim>\<open>Run\<close> throws, unwinding destroys the
  application first, its destructor shuts the registry down, and the report goes through a null
  pointer.
\<close>

theorem error_report_through_null:
  fixes env log_ok open_ok bind_ok hw run_fails
  defines "result \<equiv> main_program env log_ok open_ok bind_ok hw run_fails"
  assumes "fst result = Some e"
  shows "default_log throws now tid L_err body (replay (events (snd result))) = None
    \<longleftrightarrow> ServerRun \<in> set (events (snd result))"
proof -
  have up: "default_logger_raw (replay (started_events hw c @ es)) \<noteq> None"
    if "\<forall>e \<in> set es. \<exists>n. e = RepoUp n" for c es
  proof -
    have "fold log_event es r = r" for r
      using that by (induction es arbitrary: r) (auto simp: log_event_def)
    then show ?thesis using init_default by (simp add: replay_def started_events_def log_event_def)
  qed
  have fresh: "default_logger_raw (replay []) \<noteq> None"
    by (simp add: replay_def default_logger_raw_def mk_registry_def)
  show ?thesis
    unfolding default_log_null
    using main_paths [of log_ok env open_ok bind_ok hw run_fails, folded result_def] up [of "[]"] up fresh
    by (elim disjE exE conjE)
      (simp_all add: replay_def log_event_def shutdown_default started_events_def)
qed

theorem error_report_through_null_witness:
  "default_log (\<lambda>e. Fine) 0 1 L_err (Fine, ''Error occured!'')
     (replay (events (snd (main_program (\<lambda>v. None) True (\<lambda>i s. True) (\<lambda>p. True) 4 (Some SystemError))))) = None"
proof -
  have e: "fst (main_program (\<lambda>v. None) True (\<lambda>i s. True) (\<lambda>p. True) 4 (Some SystemError)) = Some SystemError"
    and run: "ServerRun \<in> set (events (snd (main_program (\<lambda>v. None) True (\<lambda>i s. True) (\<lambda>p. True) 4 (Some SystemError))))"
    using main_paths [of True "\<lambda>v. None" "\<lambda>i s. True" "\<lambda>p. True" 4 "Some SystemError"] by auto
  show ?thesis using error_report_through_null [OF e] run by simp
qed


section \<open>A line of the log\<close>

lemma log_pattern_compiled:
  "compile_pattern [] now log_pattern =
    ([Aggregate ''['', Plain FHour no_padding, Aggregate '':'', Plain FMinute no_padding, Aggregate '':'',
      Plain FSecond no_padding, Aggregate '' '', Zone no_padding (0, 0), Aggregate ''] ['', Plain FThread no_padding,
      Aggregate ''] ['', Plain FColorStart no_padding, Aggregate ''-'', Plain FShortLevel no_padding, Aggregate ''-'',
      Plain FColorStop no_padding, Aggregate ''] '', Plain FPayload no_padding], True)"
proof -
  let ?d = "\<lambda>c. Dir None c"
  let ?is = "[Lit (CHR ''[''), ?d (CHR ''H''), Lit (CHR '':''), ?d (CHR ''M''), Lit (CHR '':''), ?d (CHR ''S''), Lit (CHR '' ''),
    ?d (CHR ''z''), Lit (CHR '']''), Lit (CHR '' ''), Lit (CHR ''[''), ?d (CHR ''t''), Lit (CHR '']''), Lit (CHR '' ''),
    Lit (CHR ''[''), ?d (CHR ''^''), Lit (CHR ''-''), ?d (CHR ''L''), Lit (CHR ''-''), ?d (CHR ''$''), Lit (CHR '']''),
    Lit (CHR '' ''), ?d (CHR ''v'')]"
  have "list_all item_ok ?is" "pattern_text ?is = log_pattern" by code_simp+
  then have "compile_pattern [] now log_pattern = (item_formatters [] now ?is None, list_ex (item_needs_time [] now) ?is)"
    using compile_items [of ?is "[]" now None] by (simp add: compile_pattern_def)
  then show ?thesis
    by (simp add: add_ch_def user_formatter_def handle_flag_def elapsed_table_def flag_table_def padding_of_def)
qed

definition zone_field :: "int \<Rightarrow> string" where
  "zone_field k = (if k < 0 then ''-'' else ''+'') @ zpadi 2 (\<bar>k\<bar> div 60) @ '':'' @ zpadi 2 (\<bar>k\<bar> mod 60)"

lemma zone_text_field: "\<bar>k\<bar> < 6000 \<Longrightarrow> zone_text k dest = dest @ zone_field k"
  by (auto simp: zone_text_def zone_field_def pad2_nat push_char_def)

definition log_line :: "log_msg \<Rightarrow> tm \<Rightarrow> int \<Rightarrow> string" where
  "log_line m t k =
     ''['' @ clock t @ '' '' @ zone_field k @ ''] ['' @ dec (lm_thread m) @ ''] [-'' @ level_to_short (lm_level m)
       @ ''-] '' @ lm_payload m @ [CHR 0x0A]"

lemma padded_none: "padded no_padding n write dest = write dest"
  by (simp add: padded_def no_padding_def)

lemma plain_writes:
  assumes "tm_ok t"
  shows "format_plain env FHour no_padding m t d = d @ zpadi 2 (tm_hour t)"
    "format_plain env FMinute no_padding m t d = d @ zpadi 2 (tm_min t)"
    "format_plain env FSecond no_padding m t d = d @ zpadi 2 (tm_sec t)"
    "format_plain env FThread no_padding m t d = d @ dec (lm_thread m)"
    "format_plain env FShortLevel no_padding m t d = d @ level_to_short (lm_level m)"
    "format_plain env FPayload no_padding m t d = d @ lm_payload m"
    "format_plain env FColorStart no_padding m t d = d" "format_plain env FColorStop no_padding m t d = d"
  using tm_ok_pads [OF assms]
  by (simp_all add: format_plain_def padded_none H_formatter_def M_formatter_def S_formatter_def t_formatter_def
      short_level_formatter_def v_formatter_def writes int_text_nat Let_def)

definition line_start :: "log_msg \<Rightarrow> tm \<Rightarrow> int \<Rightarrow> string" where
  "line_start m t k = ''['' @ clock t @ '' '' @ zone_field k @ ''] ['' @ dec (lm_thread m) @ ''] [''"

definition line_mark :: "log_msg \<Rightarrow> string" where
  "line_mark m = ''-'' @ level_to_short (lm_level m) @ ''-''"

lemma log_line_parts: "log_line m t k = line_start m t k @ line_mark m @ ''] '' @ lm_payload m @ [CHR 0x0A]"
  by (simp add: log_line_def line_start_def line_mark_def)

lemma log_line_written:
  assumes "used env zone (mk_pattern_formatter now log_pattern LocalTime [CHR 0x0A] []) f"
    and "lm_time m \<ge> 10 * one_second" and "tm_ok (zone LocalTime (secs_of m))" and "msg_ok m"
    and "\<And>s. utc_minutes_offset (zone LocalTime s) = k" and "\<bar>k\<bar> < 6000"
  shows "fst (pf_format env zone m [] f) = log_line m (zone LocalTime (secs_of m)) k"
    and "fst (snd (pf_format env zone m [] f)) =
      m\<lparr>lm_color_start := length (line_start m (zone LocalTime (secs_of m)) k),
        lm_color_end := length (line_start m (zone LocalTime (secs_of m)) k @ line_mark m)\<rparr>"
proof -
  let ?t = "zone LocalTime (secs_of m)" and ?new = "mk_pattern_formatter now log_pattern LocalTime [CHR 0x0A] []"
  have "\<not> list_ex is_elapsed (fst (compile_pattern [] now log_pattern))" "snd (compile_pattern [] now log_pattern)"
    by (simp_all add: log_pattern_compiled)
  from used_same [OF assms(1) this assms(5,2)]
  have same: "fst (pf_format env zone m [] f) = fst (pf_format env zone m [] ?new)"
    "fst (snd (pf_format env zone m [] f)) = fst (snd (pf_format env zone m [] ?new))" by blast+
  have time: "pf_cached_tm (update_time zone m ?new) = ?t"
    using late_second [OF assms(2)]
    by (simp add: update_time_def get_time_def mk_pattern_formatter_def log_pattern_compiled secs_of_def Let_def)
  have offset: "get_cached_offset m ?t (0, 0) = (lm_time m, k)"
    using assms(2,5) by (simp add: get_cached_offset_def)
  let ?start = "''['' @ clock ?t @ '' '' @ zone_field k @ ''] ['' @ dec (lm_thread m) @ ''] [''"
  let ?mark = "''-'' @ level_to_short (lm_level m) @ ''-''"
  have line: "log_line m ?t k = ?start @ ?mark @ ''] '' @ lm_payload m @ [CHR 0x0A]"
    by (simp add: log_line_def)
  let ?all = "format_all env (fst (compile_pattern [] now log_pattern)) m ?t []"
  have "fst ?all = ?start @ ?mark @ ''] '' @ lm_payload m"
    "fst (snd ?all) = m\<lparr>lm_color_start := length ?start, lm_color_end := length (?start @ ?mark)\<rparr>"
    using assms(6)
    by (simp_all add: log_pattern_compiled flag_format_def Let_def plain_writes [OF assms(3)] mark_color_def writes
        z_formatter_def offset padded_none zone_text_field clock_def case_prod_beta)
  moreover have "pf_formatters ?new = fst (compile_pattern [] now log_pattern)" "pf_eol ?new = [CHR 0x0A]"
    by (simp_all add: mk_pattern_formatter_def case_prod_beta)
  ultimately have new: "fst (pf_format env zone m [] ?new) = log_line m ?t k"
    "fst (snd (pf_format env zone m [] ?new)) = m\<lparr>lm_color_start := length ?start, lm_color_end := length (?start @ ?mark)\<rparr>"
    by (simp_all add: pf_format_def Let_def case_prod_beta time append_string_view_def line)
  show "fst (pf_format env zone m [] f) = log_line m ?t k" by (simp only: same new)
  show "fst (snd (pf_format env zone m [] f)) =
      m\<lparr>lm_color_start := length (line_start m ?t k), lm_color_end := length (line_start m ?t k @ line_mark m)\<rparr>"
    by (simp only: same new line_start_def line_mark_def)
qed


text \<open>
  A line of the log file. With the configured pattern every message, whatever was logged before,
  becomes one line: the time of day with its offset from UTC, the thread, the level's letter between
  dashes, and the text; the colour range covers the dashes and the letter.
\<close>

theorem log_line_spec:
  assumes "used env zone (mk_pattern_formatter now log_pattern LocalTime [CHR 0x0A] []) f"
    and "lm_time m \<ge> 10 * one_second" and "tm_ok (zone LocalTime (secs_of m))" and "msg_ok m"
    and "\<And>s. utc_minutes_offset (zone LocalTime s) = k" and "\<bar>k\<bar> < 6000"
  shows "fst (pf_format env zone m [] f) = log_line m (zone LocalTime (secs_of m)) k
    \<and> (let m1 = fst (snd (pf_format env zone m [] f)) in
        take (lm_color_end m1 - lm_color_start m1) (drop (lm_color_start m1) (log_line m (zone LocalTime (secs_of m)) k))
          = ''-'' @ level_to_short (lm_level m) @ ''-'')"
proof -
  have between: "take (length (a @ b) - length a) (drop (length a) (a @ b @ c)) = b" for a b c :: string
    by simp
  have marks: "lm_color_start (m\<lparr>lm_color_start := a, lm_color_end := b\<rparr>) = a"
    "lm_color_end (m\<lparr>lm_color_start := a, lm_color_end := b\<rparr>) = b" for a b
    by simp_all
  show ?thesis
    by (simp only: log_line_written [OF assms] Let_def log_line_parts marks between line_mark_def [symmetric] simp_thms)
qed


theorem log_line_spec_witness:
  "fst (pf_format \<lparr>fe_pid = 7, fe_mdc = [], fe_custom = (\<lambda>c p m t d. d)\<rparr> utc_noon
      (mk_log_msg 70000000000 42 no_source ''a'' L_info ''hello'') []
      (mk_pattern_formatter 0 log_pattern LocalTime [CHR 0x0A] []))
    = ''[12:04:10 +00:00] [42] [-I-] hello'' @ [CHR 0x0A]"
proof -
  let ?m = "mk_log_msg 70000000000 42 no_source ''a'' L_info ''hello''"
  have late: "lm_time ?m \<ge> 10 * one_second" and ok: "msg_ok ?m"
    by (simp_all add: mk_log_msg_def msg_ok_def no_source_def)
  have secs: "secs_of ?m = 70" by (simp add: secs_of_def duration_cast_def mk_log_msg_def)
  have tm: "tm_ok (utc_noon LocalTime (secs_of ?m))"
    by (simp add: secs utc_noon_def tm_ok_def noon_def)
  have off: "\<And>s. utc_minutes_offset (utc_noon LocalTime s) = 0"
    by (simp add: utc_noon_def utc_minutes_offset_def duration_cast_def)
  have "log_line ?m (utc_noon LocalTime 70) 0 = ''[12:04:10 +00:00] [42] [-I-] hello'' @ [CHR 0x0A]"
    by code_simp
  then show ?thesis
    using log_line_spec [where zone = utc_noon and k = 0, OF unused late tm ok off] secs by simp
qed



section \<open>The log on the disk and on the console\<close>

definition loggable :: "(time_type \<Rightarrow> int \<Rightarrow> tm) \<Rightarrow> log_msg \<Rightarrow> bool" where
  "loggable zone m \<longleftrightarrow> lm_time m \<ge> 10 * one_second \<and> tm_ok (zone LocalTime (secs_of m)) \<and> msg_ok m"

definition pattern_format ::
  "fmt_env \<Rightarrow> (time_type \<Rightarrow> int \<Rightarrow> tm) \<Rightarrow> log_msg \<Rightarrow> pattern_formatter \<Rightarrow> string \<times> pattern_formatter" where
  "pattern_format env zone m f = (case pf_format env zone m [] f of (formatted, _, f1) \<Rightarrow> (formatted, f1))"

definition line_formatter ::
  "fmt_env \<Rightarrow> (time_type \<Rightarrow> int \<Rightarrow> tm) \<Rightarrow> int \<Rightarrow> int \<Rightarrow> pattern_formatter \<Rightarrow> bool" where
  "line_formatter env zone now k f \<longleftrightarrow>
     used env zone (mk_pattern_formatter now log_pattern LocalTime [CHR 0x0A] []) f
     \<and> (\<forall>s. utc_minutes_offset (zone LocalTime s) = k) \<and> \<bar>k\<bar> < 6000"

interpretation lines: steady_formatter "pattern_format env zone" "line_formatter env zone now k" "loggable zone"
    "\<lambda>m. log_line m (zone LocalTime (secs_of m)) k" for env zone now k
proof
  fix f m assume f: "line_formatter env zone now k f" and m: "loggable zone m"
  then have u: "used env zone (mk_pattern_formatter now log_pattern LocalTime [CHR 0x0A] []) f"
    and ok: "lm_time m \<ge> 10 * one_second" "tm_ok (zone LocalTime (secs_of m))" "msg_ok m"
      "\<And>s. utc_minutes_offset (zone LocalTime s) = k" "\<bar>k\<bar> < 6000"
    by (auto simp: line_formatter_def loggable_def)
  show "fst (pattern_format env zone m f) = log_line m (zone LocalTime (secs_of m)) k"
    using log_line_written(1) [OF u ok] by (simp add: pattern_format_def case_prod_beta)
  show "line_formatter env zone now k (snd (pattern_format env zone m f))"
    using used_again [OF u ok(1)] ok by (simp add: line_formatter_def pattern_format_def case_prod_beta)
qed

text \<open>
  C11: The log of the program. The rotating sink with the configured pattern, started on a disk without log
  files where the system calls succeed, writes each message as its line: the log files, from the oldest to the newest,
  are whole lines, the last ones of the log in their order; lines are missing only when all the configured
  files are in use, and no file exceeds the limit unless it is one line.
\<close>

theorem log_files_hold_lines:
  assumes "log_ready base s" and "base \<noteq> []" and "\<And>i. os_files s (calc_filename base i) = None"
    and "\<And>s. utc_minutes_offset (zone LocalTime s) = k" and "\<bar>k\<bar> < 6000" and "list_all (loggable zone) ms"
    and "length (concat (map (\<lambda>m. log_line m (zone LocalTime (secs_of m)) k) ms)) < 2 ^ 64"
  shows "\<exists>sink s0 sink' s' files.
      mk_rotating_sink (mk_pattern_formatter now log_pattern LocalTime [CHR 0x0A] []) base log_file_size log_file_num False handlers s
        = (Inr sink, s0)
    \<and> rs_all (pattern_format env zone) ms sink s0 = ([], sink', s')
    \<and> (\<forall>i \<le> unat log_file_num. os_files s' (calc_filename base i) = (if i < length files then Some (files ! i) else None))
    \<and> kept (unat log_file_size) (unat log_file_num) (map (\<lambda>m. log_line m (zone LocalTime (secs_of m)) k) ms) files"
proof -
  have f: "line_formatter env zone now k (mk_pattern_formatter now log_pattern LocalTime [CHR 0x0A] [])"
    using assms(4,5) unused by (simp add: line_formatter_def)
  have limits: "log_file_size > 0" "log_file_num \<le> max_files_limit"
    by (simp_all add: log_file_size_def log_file_num_def max_files_limit_def)
  show ?thesis by (rule lines.kept_steady [OF f assms(6,1-3) limits assms(7)])
qed

theorem log_files_hold_lines_witness:
  "\<exists>sink s0 sink' s' files.
      mk_rotating_sink (mk_pattern_formatter 0 log_pattern LocalTime [CHR 0x0A] []) ''a.log'' log_file_size log_file_num False []
          (example_disk\<lparr>os_files := Map.empty\<rparr>) = (Inr sink, s0)
    \<and> rs_all (pattern_format \<lparr>fe_pid = 7, fe_mdc = [], fe_custom = (\<lambda>c p m t d. d)\<rparr> utc_noon)
        [mk_log_msg 70000000000 42 no_source ''a'' L_info ''hello''] sink s0 = ([], sink', s')
    \<and> (\<forall>i \<le> unat log_file_num. os_files s' (calc_filename ''a.log'' i) = (if i < length files then Some (files ! i) else None))
    \<and> kept (unat log_file_size) (unat log_file_num)
        (map (\<lambda>m. log_line m (utc_noon LocalTime (secs_of m)) 0) [mk_log_msg 70000000000 42 no_source ''a'' L_info ''hello'']) files"
proof (rule log_files_hold_lines)
  let ?m = "mk_log_msg 70000000000 42 no_source ''a'' L_info ''hello''"
  have secs: "secs_of ?m = 70" by (simp add: secs_of_def duration_cast_def mk_log_msg_def)
  show "log_ready ''a.log'' (example_disk\<lparr>os_files := Map.empty\<rparr>)" by (simp add: ready_no_dirs calm_def example_disk_def)
  show "os_files (example_disk\<lparr>os_files := Map.empty\<rparr>) (calc_filename ''a.log'' i) = None" for i by simp
  show "utc_minutes_offset (utc_noon LocalTime s) = 0" for s
    by (simp add: utc_noon_def utc_minutes_offset_def duration_cast_def)
  show "list_all (loggable utc_noon) [?m]"
    by (simp add: loggable_def secs) (simp add: mk_log_msg_def msg_ok_def no_source_def utc_noon_def tm_ok_def noon_def)
  have "log_line ?m (utc_noon LocalTime 70) 0 = ''[12:04:10 +00:00] [42] [-I-] hello'' @ [CHR 0x0A]" by code_simp
  then show "length (concat (map (\<lambda>m. log_line m (utc_noon LocalTime (secs_of m)) 0) [?m])) < 2 ^ 64"
    by (simp add: secs)
qed simp_all

text \<open>
  The console. The colour sink with the configured pattern shows the same line, with only
  the level between its dashes in the level's colour.
\<close>

theorem console_line_spec:
  assumes "used env zone (mk_pattern_formatter now log_pattern LocalTime [CHR 0x0A] []) f"
    and "loggable zone m" and "\<And>s. utc_minutes_offset (zone LocalTime s) = k" and "\<bar>k\<bar> < 6000"
  shows "fst (as_log (\<lambda>m. pf_format env zone m []) m (mk_ansicolor_sink terminal Automatic f)) =
    Some (if terminal
          then line_start m (zone LocalTime (secs_of m)) k
            @ [white, cyan, green, yellow_bold, red_bold, bold_on_red, reset] ! level_num (lm_level m)
            @ line_mark m @ reset @ ''] '' @ lm_payload m @ [CHR 0x0A]
          else log_line m (zone LocalTime (secs_of m)) k)"
proof -
  let ?m = "m\<lparr>lm_color_start := 0, lm_color_end := 0\<rparr>" and ?t = "zone LocalTime (secs_of m)"
  have same: "secs_of ?m = secs_of m" "msg_ok ?m = msg_ok m" "line_start ?m = line_start m" "line_mark ?m = line_mark m"
    by (simp_all add: secs_of_def msg_ok_def line_start_def line_mark_def fun_eq_iff)
  have ok: "lm_time ?m \<ge> 10 * one_second" "tm_ok (zone LocalTime (secs_of ?m))" "msg_ok ?m"
    using assms(2) by (simp_all add: loggable_def same)
  obtain formatted m1 f1 where f: "pf_format env zone ?m [] f = (formatted, m1, f1)" by (metis prod.exhaust)
  have out: "formatted = line_start m ?t k @ line_mark m @ ''] '' @ lm_payload m @ [CHR 0x0A]"
      "lm_color_start m1 = length (line_start m ?t k)" "lm_color_end m1 = length (line_start m ?t k @ line_mark m)"
      "lm_level m1 = lm_level m"
    using log_line_written [OF assms(1) ok assms(3,4)] f by (simp_all add: log_line_parts same)
  have "line_mark m \<noteq> []" by (simp add: line_mark_def)
  then show ?thesis
    using f out by (simp add: as_log_def print_range_def out_append_def made_colors log_line_parts)
qed

theorem console_line_spec_witness:
  "fst (as_log (\<lambda>m. pf_format \<lparr>fe_pid = 7, fe_mdc = [], fe_custom = (\<lambda>c p m t d. d)\<rparr> utc_noon m [])
      (mk_log_msg 70000000000 42 no_source ''a'' L_info ''hello'')
      (mk_ansicolor_sink True Automatic (mk_pattern_formatter 0 log_pattern LocalTime [CHR 0x0A] []))) =
    Some (''[12:04:10 +00:00] [42] ['' @ green @ ''-I-'' @ reset @ ''] hello'' @ [CHR 0x0A])"
proof -
  let ?m = "mk_log_msg 70000000000 42 no_source ''a'' L_info ''hello''"
  have secs: "secs_of ?m = 70" by (simp add: secs_of_def duration_cast_def mk_log_msg_def)
  have ok: "loggable utc_noon ?m"
    by (simp add: loggable_def secs) (simp add: mk_log_msg_def msg_ok_def no_source_def utc_noon_def tm_ok_def noon_def)
  have off: "\<And>s. utc_minutes_offset (utc_noon LocalTime s) = 0"
    by (simp add: utc_noon_def utc_minutes_offset_def duration_cast_def)
  have "line_start ?m (utc_noon LocalTime 70) 0 = ''[12:04:10 +00:00] [42] [''" "line_mark ?m = ''-I-''"
    "level_num (lm_level ?m) = 2" "lm_payload ?m = ''hello''"
    by code_simp+
  then show ?thesis
    using console_line_spec [where zone = utc_noon and k = 0 and terminal = True, OF unused ok off] secs by simp
qed

end
