(* ===== verification/Fmt_Specs.thy ===== *)
theory Fmt_Specs
  imports Zem_Prelude Decimal_Text
begin

text \<open>
  The formatting library that spdlog carries along (\<^verbatim>\<open>fmt/bundled/base.h\<close>, \<^verbatim>\<open>fmt/bundled/format.h\<close>): the specification of
  a replacement field. The library packs it into one word; here are the word with its masks and shifts, the record
  it stands for, and the proof that the one implements the other. The configuration of the server takes
  the formatting functions of the C++ standard library instead, which were made after this library and read
  the same language; the models of the bundled code are the semantics of the log messages.
\<close>

section \<open>The specification of a field\<close>

text \<open>
  The presentations share their numbers: \<^verbatim>\<open>pointer\<close> and \<^verbatim>\<open>general\<close> are \<^verbatim>\<open>dec\<close>, \<^verbatim>\<open>exp\<close> is \<^verbatim>\<open>debug\<close>, \<^verbatim>\<open>fixed\<close> is
  \<^verbatim>\<open>string\<close> and \<^verbatim>\<open>hexfloat\<close> is \<^verbatim>\<open>hex\<close>.
\<close>

datatype presentation = PNone | PDebug | PString | PDec | PHex | POct | PBin | PChr

abbreviation "PPointer \<equiv> PDec"
abbreviation "PExp \<equiv> PDebug"
abbreviation "PFixed \<equiv> PString"
abbreviation "PGeneral \<equiv> PDec"
abbreviation "PHexfloat \<equiv> PHex"

datatype alignment = AlignNone | AlignLeft | AlignRight | AlignCenter | AlignNumeric
datatype sign_spec = SignNone | SignMinus | SignPlus | SignSpace
datatype arg_id_kind = KindNone | KindIndex | KindName

record basic_specs =
  sp_type :: presentation
  sp_align :: alignment
  sp_dynamic_width :: arg_id_kind
  sp_dynamic_precision :: arg_id_kind
  sp_sign :: sign_spec
  sp_upper :: bool
  sp_alt :: bool
  sp_localized :: bool
  sp_fill :: string

record format_specs = basic_specs +
  sp_width :: int
  sp_precision :: int

text \<open>An argument that gives a width or a precision when the text is formatted.\<close>

datatype arg_ref = RefIndex int | RefName string

record dynamic_format_specs = format_specs +
  sp_width_ref :: arg_ref
  sp_precision_ref :: arg_ref

definition mk_specs :: dynamic_format_specs where
  "mk_specs =
     \<lparr>sp_type = PNone, sp_align = AlignNone, sp_dynamic_width = KindNone, sp_dynamic_precision = KindNone,
      sp_sign = SignNone, sp_upper = False, sp_alt = False, sp_localized = False, sp_fill = '' '',
      sp_width = 0, sp_precision = -1, sp_width_ref = RefIndex 0, sp_precision_ref = RefIndex 0\<rparr>"

definition specs_dynamic :: "'a basic_specs_scheme \<Rightarrow> bool" where
  "specs_dynamic sp \<longleftrightarrow> sp_dynamic_width sp \<noteq> KindNone \<or> sp_dynamic_precision sp \<noteq> KindNone"


section \<open>The packed word\<close>

record packed_specs =
  ps_data :: u32
  ps_fill :: string

definition type_mask :: u32 where "type_mask = 0x00007"
definition align_mask :: u32 where "align_mask = 0x00038"
definition width_mask :: u32 where "width_mask = 0x000C0"
definition precision_mask :: u32 where "precision_mask = 0x00300"
definition sign_mask :: u32 where "sign_mask = 0x00C00"
definition uppercase_mask :: u32 where "uppercase_mask = 0x01000"
definition alternate_mask :: u32 where "alternate_mask = 0x02000"
definition localized_mask :: u32 where "localized_mask = 0x04000"
definition fill_size_mask :: u32 where "fill_size_mask = 0x38000"

lemmas mask_defs = type_mask_def align_mask_def width_mask_def precision_mask_def sign_mask_def uppercase_mask_def
  alternate_mask_def localized_mask_def fill_size_mask_def

definition mk_packed :: packed_specs where
  "mk_packed = \<lparr>ps_data = push_bit 15 1, ps_fill = [CHR '' '', CHR 0x00, CHR 0x00, CHR 0x00]\<rparr>"

definition get_field :: "u32 \<Rightarrow> nat \<Rightarrow> u32 \<Rightarrow> u32" where
  "get_field m sh data = drop_bit sh (data AND m)"

definition set_field :: "u32 \<Rightarrow> nat \<Rightarrow> u32 \<Rightarrow> u32 \<Rightarrow> u32" where
  "set_field m sh v data = (data AND NOT m) OR push_bit sh v"

primrec presentation_num :: "presentation \<Rightarrow> nat" where
  "presentation_num PNone = 0" | "presentation_num PDebug = 1" | "presentation_num PString = 2"
| "presentation_num PDec = 3" | "presentation_num PHex = 4" | "presentation_num POct = 5"
| "presentation_num PBin = 6" | "presentation_num PChr = 7"

primrec align_num :: "alignment \<Rightarrow> nat" where
  "align_num AlignNone = 0" | "align_num AlignLeft = 1" | "align_num AlignRight = 2" | "align_num AlignCenter = 3"
| "align_num AlignNumeric = 4"

primrec sign_num :: "sign_spec \<Rightarrow> nat" where
  "sign_num SignNone = 0" | "sign_num SignMinus = 1" | "sign_num SignPlus = 2" | "sign_num SignSpace = 3"

primrec kind_num :: "arg_id_kind \<Rightarrow> nat" where
  "kind_num KindNone = 0" | "kind_num KindIndex = 1" | "kind_num KindName = 2"

definition presentation_of :: "u32 \<Rightarrow> presentation" where
  "presentation_of w = [PNone, PDebug, PString, PDec, PHex, POct, PBin, PChr] ! unat w"

definition align_of :: "u32 \<Rightarrow> alignment" where
  "align_of w = [AlignNone, AlignLeft, AlignRight, AlignCenter, AlignNumeric] ! unat w"

definition sign_of :: "u32 \<Rightarrow> sign_spec" where
  "sign_of w = [SignNone, SignMinus, SignPlus, SignSpace] ! unat w"

definition kind_of :: "u32 \<Rightarrow> arg_id_kind" where
  "kind_of w = [KindNone, KindIndex, KindName] ! unat w"

definition ps_type :: "packed_specs \<Rightarrow> presentation" where
  "ps_type p = presentation_of (ps_data p AND type_mask)"

definition ps_set_type :: "presentation \<Rightarrow> packed_specs \<Rightarrow> packed_specs" where
  "ps_set_type t p = p\<lparr>ps_data := set_field type_mask 0 (of_nat (presentation_num t)) (ps_data p)\<rparr>"

definition ps_align :: "packed_specs \<Rightarrow> alignment" where
  "ps_align p = align_of (get_field align_mask 3 (ps_data p))"

definition ps_set_align :: "alignment \<Rightarrow> packed_specs \<Rightarrow> packed_specs" where
  "ps_set_align a p = p\<lparr>ps_data := set_field align_mask 3 (of_nat (align_num a)) (ps_data p)\<rparr>"

definition ps_dynamic_width :: "packed_specs \<Rightarrow> arg_id_kind" where
  "ps_dynamic_width p = kind_of (get_field width_mask 6 (ps_data p))"

definition ps_set_dynamic_width :: "arg_id_kind \<Rightarrow> packed_specs \<Rightarrow> packed_specs" where
  "ps_set_dynamic_width w p = p\<lparr>ps_data := set_field width_mask 6 (of_nat (kind_num w)) (ps_data p)\<rparr>"

definition ps_dynamic_precision :: "packed_specs \<Rightarrow> arg_id_kind" where
  "ps_dynamic_precision p = kind_of (get_field precision_mask 8 (ps_data p))"

definition ps_set_dynamic_precision :: "arg_id_kind \<Rightarrow> packed_specs \<Rightarrow> packed_specs" where
  "ps_set_dynamic_precision w p = p\<lparr>ps_data := set_field precision_mask 8 (of_nat (kind_num w)) (ps_data p)\<rparr>"

definition ps_dynamic :: "packed_specs \<Rightarrow> bool" where
  "ps_dynamic p \<longleftrightarrow> ps_data p AND (width_mask OR precision_mask) \<noteq> 0"

definition ps_sign :: "packed_specs \<Rightarrow> sign_spec" where
  "ps_sign p = sign_of (get_field sign_mask 10 (ps_data p))"

definition ps_set_sign :: "sign_spec \<Rightarrow> packed_specs \<Rightarrow> packed_specs" where
  "ps_set_sign s p = p\<lparr>ps_data := set_field sign_mask 10 (of_nat (sign_num s)) (ps_data p)\<rparr>"

definition ps_upper :: "packed_specs \<Rightarrow> bool" where
  "ps_upper p \<longleftrightarrow> ps_data p AND uppercase_mask \<noteq> 0"

definition ps_set_upper :: "packed_specs \<Rightarrow> packed_specs" where
  "ps_set_upper p = p\<lparr>ps_data := ps_data p OR uppercase_mask\<rparr>"

definition ps_alt :: "packed_specs \<Rightarrow> bool" where
  "ps_alt p \<longleftrightarrow> ps_data p AND alternate_mask \<noteq> 0"

definition ps_set_alt :: "packed_specs \<Rightarrow> packed_specs" where
  "ps_set_alt p = p\<lparr>ps_data := ps_data p OR alternate_mask\<rparr>"

definition ps_clear_alt :: "packed_specs \<Rightarrow> packed_specs" where
  "ps_clear_alt p = p\<lparr>ps_data := ps_data p AND NOT alternate_mask\<rparr>"

definition ps_localized :: "packed_specs \<Rightarrow> bool" where
  "ps_localized p \<longleftrightarrow> ps_data p AND localized_mask \<noteq> 0"

definition ps_set_localized :: "packed_specs \<Rightarrow> packed_specs" where
  "ps_set_localized p = p\<lparr>ps_data := ps_data p OR localized_mask\<rparr>"

definition ps_fill_size :: "packed_specs \<Rightarrow> nat" where
  "ps_fill_size p = unat (get_field fill_size_mask 15 (ps_data p))"

definition ps_set_fill_size :: "nat \<Rightarrow> packed_specs \<Rightarrow> packed_specs" where
  "ps_set_fill_size n p = p\<lparr>ps_data := set_field fill_size_mask 15 (of_nat n) (ps_data p)\<rparr>"

definition ps_set_fill_char :: "char \<Rightarrow> packed_specs \<Rightarrow> packed_specs" where
  "ps_set_fill_char c p = ps_set_fill_size 1 (p\<lparr>ps_fill := (ps_fill p)[0 := c]\<rparr>)"

text \<open>A fill of several code units; its size is at most 4, which the code asserts.\<close>

definition ps_set_fill :: "string \<Rightarrow> packed_specs \<Rightarrow> packed_specs" where
  "ps_set_fill s p =
     (let p1 = ps_set_fill_size (length s) p in
      if length s = 1
      then p1\<lparr>ps_fill := (ps_fill p)[0 := hd s, 1 := CHR 0x00, 2 := CHR 0x00]\<rparr>
      else p1\<lparr>ps_fill := fold (\<lambda>i f. f[i mod 4 := s ! i]) [0..<length s] (ps_fill p)\<rparr>)"

definition ps_copy_fill_from :: "packed_specs \<Rightarrow> packed_specs \<Rightarrow> packed_specs" where
  "ps_copy_fill_from other p =
     (ps_set_fill_size (ps_fill_size other) p)\<lparr>ps_fill := map (\<lambda>i. ps_fill other ! i) [0..<4]\<rparr>"


section \<open>The word implements the record\<close>

definition unpack :: "packed_specs \<Rightarrow> basic_specs" where
  "unpack p =
     \<lparr>sp_type = ps_type p, sp_align = ps_align p, sp_dynamic_width = ps_dynamic_width p,
      sp_dynamic_precision = ps_dynamic_precision p, sp_sign = ps_sign p, sp_upper = ps_upper p, sp_alt = ps_alt p,
      sp_localized = ps_localized p, sp_fill = take (ps_fill_size p) (ps_fill p)\<rparr>"

definition packed_ok :: "packed_specs \<Rightarrow> bool" where
  "packed_ok p \<longleftrightarrow> length (ps_fill p) = 4 \<and> ps_fill_size p \<le> 4 \<and> unat (get_field align_mask 3 (ps_data p)) < 5
     \<and> unat (get_field width_mask 6 (ps_data p)) < 3 \<and> unat (get_field precision_mask 8 (ps_data p)) < 3"

lemma get_set_same:
  assumes "push_bit sh v AND m = push_bit sh v" and "drop_bit sh (push_bit sh v) = v"
  shows "get_field m sh (set_field m sh v d) = v"
proof -
  have "(d AND NOT m OR push_bit sh v) AND m = push_bit sh v"
  proof (rule bit_word_eqI)
    fix n assume "n < LENGTH(32)"
    moreover have "bit (push_bit sh v) n \<longrightarrow> bit m n" using assms(1) by (metis bit_and_iff)
    ultimately show "bit ((d AND NOT m OR push_bit sh v) AND m) n = bit (push_bit sh v) n"
      by (auto simp: bit_and_iff bit_or_iff bit_not_iff)
  qed
  then show ?thesis by (simp add: get_field_def set_field_def assms(2))
qed

lemma set_other_and:
  assumes "push_bit sh v AND m = push_bit sh v" and "m AND k = 0"
  shows "set_field m sh v d AND k = d AND k"
proof (rule bit_word_eqI)
  fix n assume n: "n < LENGTH(32)"
  have "\<not> (bit m n \<and> bit k n)" using assms(2) by (metis bit_0_eq bit_and_iff bot_apply bot_bool_def)
  moreover have "bit (push_bit sh v) n \<longrightarrow> bit m n" using assms(1) by (metis bit_and_iff)
  ultimately show "bit (set_field m sh v d AND k) n = bit (d AND k) n"
    using n by (auto simp: set_field_def bit_and_iff bit_or_iff bit_not_iff)
qed

lemma or_other_and: "m AND k = 0 \<Longrightarrow> (d OR m) AND k = d AND (k :: u32)"
  by (simp add: bit.conj_disj_distrib2)

lemma clear_other_and:
  assumes "m AND k = 0"
  shows "(d AND NOT m) AND k = d AND (k :: u32)"
proof (rule bit_word_eqI)
  fix n assume n: "n < LENGTH(32)"
  have "\<not> (bit m n \<and> bit k n)" using assms by (metis bit_0_eq bit_and_iff bot_apply bot_bool_def)
  then show "bit ((d AND NOT m) AND k) n = bit (d AND k) n"
    using n by (auto simp: bit_and_iff bit_not_iff)
qed

lemma or_same_and: "(d OR m) AND m = (m :: u32)"
  by (rule bit_word_eqI) (auto simp: bit_and_iff bit_or_iff)

text \<open>What a setter leaves of the other fields.\<close>

lemma get_other:
  assumes "push_bit sh v AND m = push_bit sh v" and "m AND k = 0"
  shows "get_field k sh' (set_field m sh v d) = get_field k sh' d"
  by (simp add: get_field_def set_other_and [OF assms])

lemma zero_and: "(d AND NOT m) AND m = (0 :: u32)"
  by (rule bit_word_eqI) (auto simp: bit_and_iff bit_not_iff)

lemmas field_rules = get_set_same get_other set_other_and or_other_and clear_other_and or_same_and zero_and

lemmas getter_defs = ps_type_def ps_align_def ps_dynamic_width_def ps_dynamic_precision_def ps_sign_def ps_upper_def ps_alt_def
  ps_localized_def ps_fill_size_def

lemma unpack_fields [simp]:
  "sp_type (unpack p) = ps_type p" "sp_align (unpack p) = ps_align p" "sp_dynamic_width (unpack p) = ps_dynamic_width p"
  "sp_dynamic_precision (unpack p) = ps_dynamic_precision p" "sp_sign (unpack p) = ps_sign p" "sp_upper (unpack p) = ps_upper p"
  "sp_alt (unpack p) = ps_alt p" "sp_localized (unpack p) = ps_localized p"
  "sp_fill (unpack p) = take (ps_fill_size p) (ps_fill p)"
  by (simp_all add: unpack_def)

lemma type_field: "d AND type_mask = get_field type_mask 0 d"
  by (simp add: get_field_def)

text \<open>An enumeration in a field of the word.\<close>

locale word_field =
  fixes m :: u32
    and sh :: nat
    and num :: "'a \<Rightarrow> nat"
    and of_word :: "u32 \<Rightarrow> 'a"
    and values_num :: nat
  assumes fits: "push_bit sh (of_nat (num x)) AND m = push_bit sh (of_nat (num x) :: u32)"
    and shifted: "drop_bit sh (push_bit sh (of_nat (num x)) :: u32) = of_nat (num x)"
    and decodes: "of_word (of_nat (num x)) = x"
    and in_range: "unat (of_nat (num x) :: u32) < values_num"
begin

lemma get_set: "get_field m sh (set_field m sh (of_nat (num x)) d) = of_nat (num x)"
  by (rule get_set_same [OF fits shifted])

lemma decode_set: "of_word (get_field m sh (set_field m sh (of_nat (num x)) d)) = x"
  by (simp add: get_set decodes)

lemma in_range_set: "unat (get_field m sh (set_field m sh (of_nat (num x)) d)) < values_num"
  by (simp add: get_set in_range)

lemma others:
  "m AND k = 0 \<Longrightarrow> get_field k sh' (set_field m sh (of_nat (num x)) d) = get_field k sh' d"
  "m AND k = 0 \<Longrightarrow> set_field m sh (of_nat (num x)) d AND k = d AND k"
  by (rule get_other [OF fits] set_other_and [OF fits], assumption)+

end

interpretation type_field: word_field type_mask 0 presentation_num presentation_of 8
  by unfold_locales (case_tac x; simp add: type_mask_def presentation_of_def)+

interpretation align_field: word_field align_mask 3 align_num align_of 5
  by unfold_locales (case_tac x; simp add: align_mask_def align_of_def)+

interpretation width_field: word_field width_mask 6 kind_num kind_of 3
  by unfold_locales (case_tac x; simp add: width_mask_def kind_of_def)+

interpretation precision_field: word_field precision_mask 8 kind_num kind_of 3
  by unfold_locales (case_tac x; simp add: precision_mask_def kind_of_def)+

interpretation sign_field: word_field sign_mask 10 sign_num sign_of 4
  by unfold_locales (case_tac x; simp add: sign_mask_def sign_of_def)+

lemma set_type_refines:
  "unpack (ps_set_type x p) = (unpack p)\<lparr>sp_type := x\<rparr>" "packed_ok p \<Longrightarrow> packed_ok (ps_set_type x p)"
proof -
  note rules = type_field.others [unfolded mask_defs] type_field.decode_set [unfolded mask_defs]
    type_field.in_range_set [unfolded mask_defs] type_field.get_set [folded type_field, unfolded mask_defs] type_field.decodes
  show "unpack (ps_set_type x p) = (unpack p)\<lparr>sp_type := x\<rparr>" "packed_ok p \<Longrightarrow> packed_ok (ps_set_type x p)"
    by (simp_all add: unpack_def packed_ok_def getter_defs ps_set_type_def rules mask_defs)
qed

lemma set_align_refines:
  "unpack (ps_set_align x p) = (unpack p)\<lparr>sp_align := x\<rparr>" "packed_ok p \<Longrightarrow> packed_ok (ps_set_align x p)"
proof -
  note rules = align_field.others [unfolded mask_defs] align_field.decode_set [unfolded mask_defs]
    align_field.in_range_set [unfolded mask_defs]
  show "unpack (ps_set_align x p) = (unpack p)\<lparr>sp_align := x\<rparr>" "packed_ok p \<Longrightarrow> packed_ok (ps_set_align x p)"
    by (simp_all add: unpack_def packed_ok_def getter_defs ps_set_align_def rules mask_defs)
qed

lemma set_dynamic_width_refines:
  "unpack (ps_set_dynamic_width x p) = (unpack p)\<lparr>sp_dynamic_width := x\<rparr>" "packed_ok p \<Longrightarrow> packed_ok (ps_set_dynamic_width x p)"
proof -
  note rules = width_field.others [unfolded mask_defs] width_field.decode_set [unfolded mask_defs]
    width_field.in_range_set [unfolded mask_defs]
  show "unpack (ps_set_dynamic_width x p) = (unpack p)\<lparr>sp_dynamic_width := x\<rparr>" "packed_ok p \<Longrightarrow> packed_ok (ps_set_dynamic_width x p)"
    by (simp_all add: unpack_def packed_ok_def getter_defs ps_set_dynamic_width_def rules mask_defs)
qed

lemma set_dynamic_precision_refines:
  "unpack (ps_set_dynamic_precision x p) = (unpack p)\<lparr>sp_dynamic_precision := x\<rparr>" "packed_ok p \<Longrightarrow> packed_ok (ps_set_dynamic_precision x p)"
proof -
  note rules = precision_field.others [unfolded mask_defs] precision_field.decode_set [unfolded mask_defs]
    precision_field.in_range_set [unfolded mask_defs]
  show "unpack (ps_set_dynamic_precision x p) = (unpack p)\<lparr>sp_dynamic_precision := x\<rparr>" "packed_ok p \<Longrightarrow> packed_ok (ps_set_dynamic_precision x p)"
    by (simp_all add: unpack_def packed_ok_def getter_defs ps_set_dynamic_precision_def rules mask_defs)
qed

lemma set_sign_refines:
  "unpack (ps_set_sign x p) = (unpack p)\<lparr>sp_sign := x\<rparr>" "packed_ok p \<Longrightarrow> packed_ok (ps_set_sign x p)"
proof -
  note rules = sign_field.others [unfolded mask_defs] sign_field.decode_set [unfolded mask_defs]
    sign_field.in_range_set [unfolded mask_defs]
  show "unpack (ps_set_sign x p) = (unpack p)\<lparr>sp_sign := x\<rparr>" "packed_ok p \<Longrightarrow> packed_ok (ps_set_sign x p)"
    by (simp_all add: unpack_def packed_ok_def getter_defs ps_set_sign_def rules mask_defs)
qed

lemma set_upper_refines:
  "unpack (ps_set_upper p) = (unpack p)\<lparr>sp_upper := True\<rparr>" "packed_ok p \<Longrightarrow> packed_ok (ps_set_upper p)"
proof -
  note other = or_other_and or_same_and [of _ uppercase_mask, unfolded mask_defs]
  show "unpack (ps_set_upper p) = (unpack p)\<lparr>sp_upper := True\<rparr>" "packed_ok p \<Longrightarrow> packed_ok (ps_set_upper p)"
    by (simp_all add: unpack_def packed_ok_def getter_defs ps_set_upper_def get_field_def other mask_defs)
qed

lemma set_alt_refines:
  "unpack (ps_set_alt p) = (unpack p)\<lparr>sp_alt := True\<rparr>" "packed_ok p \<Longrightarrow> packed_ok (ps_set_alt p)"
proof -
  note other = or_other_and or_same_and [of _ alternate_mask, unfolded mask_defs]
  show "unpack (ps_set_alt p) = (unpack p)\<lparr>sp_alt := True\<rparr>" "packed_ok p \<Longrightarrow> packed_ok (ps_set_alt p)"
    by (simp_all add: unpack_def packed_ok_def getter_defs ps_set_alt_def get_field_def other mask_defs)
qed

lemma set_localized_refines:
  "unpack (ps_set_localized p) = (unpack p)\<lparr>sp_localized := True\<rparr>" "packed_ok p \<Longrightarrow> packed_ok (ps_set_localized p)"
proof -
  note other = or_other_and or_same_and [of _ localized_mask, unfolded mask_defs]
  show "unpack (ps_set_localized p) = (unpack p)\<lparr>sp_localized := True\<rparr>" "packed_ok p \<Longrightarrow> packed_ok (ps_set_localized p)"
    by (simp_all add: unpack_def packed_ok_def getter_defs ps_set_localized_def get_field_def other mask_defs)
qed

lemma clear_alt_refines:
  "unpack (ps_clear_alt p) = (unpack p)\<lparr>sp_alt := False\<rparr>" "packed_ok p \<Longrightarrow> packed_ok (ps_clear_alt p)"
proof -
  have clear: "alternate_mask AND k = 0 \<Longrightarrow> ps_data (ps_clear_alt p) AND k = ps_data p AND k" for k
    by (simp add: ps_clear_alt_def clear_other_and)
  have alt: "ps_data (ps_clear_alt p) AND alternate_mask = 0" by (simp add: ps_clear_alt_def zero_and)
  have fill: "ps_fill (ps_clear_alt p) = ps_fill p" by (simp add: ps_clear_alt_def)
  note other = clear [unfolded mask_defs] alt [unfolded mask_defs]
  show "unpack (ps_clear_alt p) = (unpack p)\<lparr>sp_alt := False\<rparr>" "packed_ok p \<Longrightarrow> packed_ok (ps_clear_alt p)"
    by (simp_all add: unpack_def packed_ok_def getter_defs get_field_def other fill mask_defs)
qed

lemma fill_size_set:
  assumes "n \<le> 4"
  shows "ps_fill_size (ps_set_fill_size n p) = n" "ps_fill (ps_set_fill_size n p) = ps_fill p"
    "fill_size_mask AND k = 0 \<Longrightarrow> ps_data (ps_set_fill_size n p) AND k = ps_data p AND k"
proof -
  have "n = 0 \<or> n = 1 \<or> n = 2 \<or> n = 3 \<or> n = 4" using assms by linarith
  then have fits: "push_bit 15 (of_nat n) AND fill_size_mask = push_bit 15 (of_nat n)"
    and shifted: "drop_bit 15 (push_bit 15 (of_nat n) :: u32) = of_nat n" and num: "unat (of_nat n :: u32) = n"
    by (elim disjE; simp add: fill_size_mask_def)+
  show "ps_fill_size (ps_set_fill_size n p) = n" "ps_fill (ps_set_fill_size n p) = ps_fill p"
    "fill_size_mask AND k = 0 \<Longrightarrow> ps_data (ps_set_fill_size n p) AND k = ps_data p AND k"
    by (simp_all add: ps_fill_size_def ps_set_fill_size_def get_set_same [OF fits shifted] set_other_and [OF fits] num)
qed

lemma fill_refines:
  assumes "packed_ok p" and "n \<le> 4" and "length f = 4"
  shows "unpack ((ps_set_fill_size n p)\<lparr>ps_fill := f\<rparr>) = (unpack p)\<lparr>sp_fill := take n f\<rparr>"
    "packed_ok ((ps_set_fill_size n p)\<lparr>ps_fill := f\<rparr>)"
proof -
  note rules = fill_size_set [OF assms(2), unfolded mask_defs]
  have size: "ps_fill_size ((ps_set_fill_size n p)\<lparr>ps_fill := f\<rparr>) = n"
    using fill_size_set(1) [OF assms(2), of p] by (simp add: ps_fill_size_def)
  show "unpack ((ps_set_fill_size n p)\<lparr>ps_fill := f\<rparr>) = (unpack p)\<lparr>sp_fill := take n f\<rparr>"
    using rules by (simp add: unpack_def size) (simp add: getter_defs get_field_def mask_defs)
  show "packed_ok ((ps_set_fill_size n p)\<lparr>ps_fill := f\<rparr>)"
    using rules assms by (simp add: packed_ok_def size) (simp add: get_field_def mask_defs)
qed

lemma list_four: "length f = 4 \<Longrightarrow> \<exists>a b c d. f = [a, b, c, d]"
  by (auto simp: length_Suc_conv eval_nat_numeral)

lemma short_list: "length s \<le> 4 \<Longrightarrow> s = [] \<or> (\<exists>a. s = [a]) \<or> (\<exists>a b. s = [a, b]) \<or> (\<exists>a b c. s = [a, b, c]) \<or> (\<exists>a b c d. s = [a, b, c, d])"
  by (cases s rule: remdups_adj.cases; simp add: le_Suc_eq length_Suc_conv eval_nat_numeral) auto

lemma set_fill_refines:
  assumes "packed_ok p" and "length s \<le> 4"
  shows "unpack (ps_set_fill s p) = (unpack p)\<lparr>sp_fill := s\<rparr>" "packed_ok (ps_set_fill s p)"
proof -
  obtain a b c d where f: "ps_fill p = [a, b, c, d]" using assms(1) list_four [of "ps_fill p"] unfolding packed_ok_def by blast
  have copied: "fold (\<lambda>i f. f[i mod 4 := s ! i]) [0..<length s] [a, b, c, d] = s @ drop (length s) [a, b, c, d]"
    using short_list [OF assms(2)] by (elim disjE exE) (simp_all add: mod_less)
  define g where "g = ps_fill (ps_set_fill s p)"
  have "g = (if length s = 1 then ([a, b, c, d])[0 := hd s, 1 := CHR 0x00, 2 := CHR 0x00] else s @ drop (length s) [a, b, c, d])"
    unfolding copied [symmetric] by (simp add: g_def ps_set_fill_def f Let_def del: upt.simps)
  then have g: "length g = 4" "take (length s) g = s"
    using assms(2) by (auto simp: length_Suc_conv)
  have shape: "ps_set_fill s p = (ps_set_fill_size (length s) p)\<lparr>ps_fill := g\<rparr>"
    by (simp add: g_def ps_set_fill_def Let_def ps_set_fill_size_def)
  show "unpack (ps_set_fill s p) = (unpack p)\<lparr>sp_fill := s\<rparr>" "packed_ok (ps_set_fill s p)"
    using fill_refines [OF assms g(1)] g(2) shape by simp_all
qed

lemma set_fill_char_refines:
  assumes "packed_ok p"
  shows "unpack (ps_set_fill_char c p) = (unpack p)\<lparr>sp_fill := [c]\<rparr>" "packed_ok (ps_set_fill_char c p)"
proof -
  obtain a b d e where f: "ps_fill p = [a, b, d, e]" using assms list_four [of "ps_fill p"] unfolding packed_ok_def by blast
  have "ps_set_fill_char c p = (ps_set_fill_size 1 p)\<lparr>ps_fill := [c, b, d, e]\<rparr>"
    by (simp add: ps_set_fill_char_def ps_set_fill_size_def f)
  then show "unpack (ps_set_fill_char c p) = (unpack p)\<lparr>sp_fill := [c]\<rparr>" "packed_ok (ps_set_fill_char c p)"
    using fill_refines [OF assms, of 1 "[c, b, d, e]"] by simp_all
qed

lemma copy_fill_refines:
  assumes "packed_ok p" and "packed_ok other"
  shows "unpack (ps_copy_fill_from other p) = (unpack p)\<lparr>sp_fill := sp_fill (unpack other)\<rparr>" "packed_ok (ps_copy_fill_from other p)"
proof -
  have len: "ps_fill_size other \<le> 4" "length (ps_fill other) = 4" using assms(2) by (simp_all add: packed_ok_def)
  have "map (\<lambda>i. ps_fill other ! i) [0..<4] = ps_fill other" using len(2) by (metis map_nth)
  then have "ps_copy_fill_from other p = (ps_set_fill_size (ps_fill_size other) p)\<lparr>ps_fill := ps_fill other\<rparr>"
    by (simp add: ps_copy_fill_from_def)
  then show "unpack (ps_copy_fill_from other p) = (unpack p)\<lparr>sp_fill := sp_fill (unpack other)\<rparr>"
      "packed_ok (ps_copy_fill_from other p)"
    using fill_refines [OF assms(1) len] by simp_all
qed


section \<open>Any sequence of calls\<close>

datatype spec_call =
    SetType presentation | SetAlign alignment | SetDynamicWidth arg_id_kind | SetDynamicPrecision arg_id_kind
  | SetSign sign_spec | SetUpper | SetAlt | ClearAlt | SetLocalized | SetFill string | SetFillChar char

fun call_packed :: "spec_call \<Rightarrow> packed_specs \<Rightarrow> packed_specs" where
  "call_packed (SetType t) p = ps_set_type t p"
| "call_packed (SetAlign a) p = ps_set_align a p"
| "call_packed (SetDynamicWidth k) p = ps_set_dynamic_width k p"
| "call_packed (SetDynamicPrecision k) p = ps_set_dynamic_precision k p"
| "call_packed (SetSign s) p = ps_set_sign s p"
| "call_packed SetUpper p = ps_set_upper p"
| "call_packed SetAlt p = ps_set_alt p"
| "call_packed ClearAlt p = ps_clear_alt p"
| "call_packed SetLocalized p = ps_set_localized p"
| "call_packed (SetFill s) p = ps_set_fill s p"
| "call_packed (SetFillChar c) p = ps_set_fill_char c p"

fun call_record :: "spec_call \<Rightarrow> basic_specs \<Rightarrow> basic_specs" where
  "call_record (SetType t) r = r\<lparr>sp_type := t\<rparr>"
| "call_record (SetAlign a) r = r\<lparr>sp_align := a\<rparr>"
| "call_record (SetDynamicWidth k) r = r\<lparr>sp_dynamic_width := k\<rparr>"
| "call_record (SetDynamicPrecision k) r = r\<lparr>sp_dynamic_precision := k\<rparr>"
| "call_record (SetSign s) r = r\<lparr>sp_sign := s\<rparr>"
| "call_record SetUpper r = r\<lparr>sp_upper := True\<rparr>"
| "call_record SetAlt r = r\<lparr>sp_alt := True\<rparr>"
| "call_record ClearAlt r = r\<lparr>sp_alt := False\<rparr>"
| "call_record SetLocalized r = r\<lparr>sp_localized := True\<rparr>"
| "call_record (SetFill s) r = r\<lparr>sp_fill := s\<rparr>"
| "call_record (SetFillChar c) r = r\<lparr>sp_fill := [c]\<rparr>"

fun call_ok :: "spec_call \<Rightarrow> bool" where
  "call_ok (SetFill s) = (length s \<le> 4)"
| "call_ok _ = True"

lemma call_refines:
  "packed_ok p \<Longrightarrow> call_ok c \<Longrightarrow> unpack (call_packed c p) = call_record c (unpack p) \<and> packed_ok (call_packed c p)"
  by (cases c)
    (simp_all add: set_type_refines set_align_refines set_dynamic_width_refines set_dynamic_precision_refines set_sign_refines
      set_upper_refines set_alt_refines clear_alt_refines set_localized_refines set_fill_refines set_fill_char_refines)

lemma packed_start: "packed_ok mk_packed" "unpack mk_packed = basic_specs.truncate mk_specs"
  by (simp_all add: mk_packed_def packed_ok_def unpack_def getter_defs get_field_def mask_defs presentation_of_def align_of_def
      sign_of_def kind_of_def mk_specs_def basic_specs.defs)

lemma dynamic_refines:
  assumes "packed_ok p"
  shows "ps_dynamic p \<longleftrightarrow> specs_dynamic (unpack p)"
proof -
  have kind: "unat w < 3 \<Longrightarrow> kind_of w = KindNone \<longleftrightarrow> w = 0" for w :: u32
  proof -
    assume "unat w < 3"
    then have "unat w = 0 \<or> unat w = 1 \<or> unat w = 2" by linarith
    then show ?thesis by (auto simp: kind_of_def unat_eq_0)
  qed
  have zero: "d AND (a OR b) = 0 \<longleftrightarrow> d AND a = 0 \<and> d AND b = 0" for d a b :: u32
    by (simp add: bit_eq_iff bit_and_iff bit_or_iff) blast
  have "get_field width_mask 6 d = 0 \<longleftrightarrow> d AND width_mask = 0" "get_field precision_mask 8 d = 0 \<longleftrightarrow> d AND precision_mask = 0"
    for d
  proof -
    have shifted: "drop_bit n (d AND m) = 0 \<longleftrightarrow> d AND m = 0" if "m = push_bit n k" for n :: nat and m k :: u32
    proof -
      have low: "bit m i \<longrightarrow> n \<le> i" for i using that by (auto simp: bit_push_bit_iff)
      show ?thesis
      proof
        assume zero: "drop_bit n (d AND m) = 0"
        show "d AND m = 0"
        proof (rule bit_word_eqI)
          fix i
          have "\<not> bit (drop_bit n (d AND m)) (i - n)" unfolding zero by simp
          then show "bit (d AND m) i = bit 0 i"
            using low [of i] by (auto simp: bit_drop_bit_eq bit_and_iff)
        qed
      qed simp
    qed
    show "get_field width_mask 6 d = 0 \<longleftrightarrow> d AND width_mask = 0"
      using shifted [of width_mask 6 3] by (simp add: get_field_def width_mask_def)
    show "get_field precision_mask 8 d = 0 \<longleftrightarrow> d AND precision_mask = 0"
      using shifted [of precision_mask 8 3] by (simp add: get_field_def precision_mask_def)
  qed
  then show ?thesis
    using assms kind
    by (auto simp: ps_dynamic_def specs_dynamic_def zero packed_ok_def ps_dynamic_width_def ps_dynamic_precision_def)
qed

text \<open>
  C18: The packed word implements the record. Whatever setters are called on a fresh specification, in any order, every getter
  answers as if the fields were kept apart: no setter touches a field of another, and the test for dynamic
  arguments looks at exactly the two fields it means.
\<close>

theorem packed_specs_refine:
  assumes "list_all call_ok calls"
  shows "unpack (fold call_packed calls mk_packed) = fold call_record calls (basic_specs.truncate mk_specs)
    \<and> (ps_dynamic (fold call_packed calls mk_packed) \<longleftrightarrow> specs_dynamic (fold call_record calls (basic_specs.truncate mk_specs)))"
proof -
  have "list_all call_ok calls \<Longrightarrow> packed_ok p \<Longrightarrow>
      unpack (fold call_packed calls p) = fold call_record calls (unpack p) \<and> packed_ok (fold call_packed calls p)" for p
    by (induction calls arbitrary: p) (simp_all add: call_refines)
  from this [OF assms packed_start(1)] show ?thesis using dynamic_refines packed_start(2) by metis
qed

theorem packed_specs_refine_witness:
  "unpack (fold call_packed [SetAlign AlignCenter, SetFill ''-*'', SetUpper, SetType PHex, SetSign SignPlus, ClearAlt] mk_packed)
     = \<lparr>sp_type = PHex, sp_align = AlignCenter, sp_dynamic_width = KindNone, sp_dynamic_precision = KindNone,
        sp_sign = SignPlus, sp_upper = True, sp_alt = False, sp_localized = False, sp_fill = ''-*''\<rparr>"
  using packed_specs_refine [of "[SetAlign AlignCenter, SetFill ''-*'', SetUpper, SetType PHex, SetSign SignPlus, ClearAlt]"]
  by (simp add: mk_specs_def basic_specs.defs)

end
