(* ===== verification/Fmt_Parse.thy ===== *)
theory Fmt_Parse
  imports Fmt_Specs
begin

text \<open>
  How a format string is read (\<^verbatim>\<open>fmt/bundled/base.h\<close>): numbers, argument references, the specification of a field, and the
  loop that cuts the string into text and fields. The code is a template over a handler; the handler is a record of its
  operations here. Pointers into the string are what is left of it. An error is the message of the
  exception, at compile time the reason why the program is rejected.
\<close>

section \<open>Types of arguments\<close>

datatype fmt_type =
    NoneType | IntType | UIntType | LongLongType | ULongLongType | Int128Type | UInt128Type | BoolType | CharType
  | FloatType | DoubleType | LongDoubleType | CStringType | StringType | PointerType | CustomType

definition sint_set :: "fmt_type list" where "sint_set = [IntType, LongLongType, Int128Type]"
definition uint_set :: "fmt_type list" where "uint_set = [UIntType, ULongLongType, UInt128Type]"
definition bool_set :: "fmt_type list" where "bool_set = [BoolType]"
definition char_set :: "fmt_type list" where "char_set = [CharType]"
definition float_set :: "fmt_type list" where "float_set = [FloatType, DoubleType, LongDoubleType]"
definition string_set :: "fmt_type list" where "string_set = [StringType]"
definition cstring_set :: "fmt_type list" where "cstring_set = [CStringType]"
definition pointer_set :: "fmt_type list" where "pointer_set = [PointerType]"
definition integral_set :: "fmt_type list" where "integral_set = sint_set @ uint_set @ bool_set @ char_set"

definition is_integral_type :: "fmt_type \<Rightarrow> bool" where
  "is_integral_type t \<longleftrightarrow> t \<in> set integral_set"

definition is_arithmetic_type :: "fmt_type \<Rightarrow> bool" where
  "is_arithmetic_type t \<longleftrightarrow> t \<in> set (integral_set @ float_set)"

lemmas set_defs = sint_set_def uint_set_def bool_set_def char_set_def float_set_def string_set_def cstring_set_def
  pointer_set_def integral_set_def is_integral_type_def is_arithmetic_type_def

section \<open>The parsing context\<close>

text \<open>
  \<open>pc_next\<close> is the next automatic index, negative once an index was given. When a string is checked at compile time the
  types of the arguments are known: \<open>pc_types\<close>.
\<close>

record parse_context =
  pc_next :: int
  pc_types :: "fmt_type list option"

definition mk_parse_context :: "fmt_type list option \<Rightarrow> parse_context" where
  "mk_parse_context types = \<lparr>pc_next = 0, pc_types = types\<rparr>"

definition do_check_arg_id :: "int \<Rightarrow> parse_context \<Rightarrow> string + unit" where
  "do_check_arg_id arg_id ctx =
     (case pc_types ctx of
        Some types \<Rightarrow> if arg_id \<ge> int (length types) then Inl ''argument not found'' else Inr ()
      | None \<Rightarrow> Inr ())"

definition next_arg_id :: "parse_context \<Rightarrow> string + int \<times> parse_context" where
  "next_arg_id ctx =
     (if pc_next ctx < 0 then Inl ''cannot switch from manual to automatic argument indexing''
      else let ident = pc_next ctx in
        case do_check_arg_id ident ctx of
          Inl e \<Rightarrow> Inl e
        | Inr _ \<Rightarrow> Inr (ident, ctx\<lparr>pc_next := ident + 1\<rparr>))"

definition check_arg_id :: "int \<Rightarrow> parse_context \<Rightarrow> string + parse_context" where
  "check_arg_id ident ctx =
     (if pc_next ctx > 0 then Inl ''cannot switch from automatic to manual argument indexing''
      else case do_check_arg_id ident ctx of
          Inl e \<Rightarrow> Inl e
        | Inr _ \<Rightarrow> Inr (ctx\<lparr>pc_next := -1\<rparr>))"

definition check_arg_name :: "parse_context \<Rightarrow> parse_context" where
  "check_arg_name ctx = ctx\<lparr>pc_next := -1\<rparr>"

definition check_dynamic_spec :: "int \<Rightarrow> parse_context \<Rightarrow> string + unit" where
  "check_dynamic_spec arg_id ctx =
     (case pc_types ctx of
        Some types \<Rightarrow>
          if arg_id < int (length types) \<and> \<not> is_integral_type (types ! nat arg_id)
          then Inl ''width/precision is not integer'' else Inr ()
      | None \<Rightarrow> Inr ())"

section \<open>Numbers and names\<close>

text \<open>The number of code units of a code point, read from a table of two-bit numbers.\<close>

definition code_point_length :: "char \<Rightarrow> nat" where
  "code_point_length c = unat (drop_bit (2 * (of_char c div 8)) (0x3a55000000000000 :: u64) AND 3) + 1"

definition INT_MAX :: int where
  "INT_MAX = 2147483647"

fun read_digits :: "u32 \<Rightarrow> u32 \<Rightarrow> nat \<Rightarrow> string \<Rightarrow> u32 \<times> u32 \<times> nat \<times> string" where
  "read_digits prev value n [] = (prev, value, n, [])"
| "read_digits prev value n (c # cs) =
     (if is_digit c then read_digits value (value * 10 + of_nat (digit_value c)) (Suc n) cs
      else (prev, value, n, c # cs))"

text \<open>
  At most nine digits always fit. With ten the last step is repeated with 64 bits; \<open>prev\<close> is the number without the last
  digit.
\<close>

definition parse_nonnegative_int :: "string \<Rightarrow> int \<Rightarrow> int \<times> string" where
  "parse_nonnegative_int s error_value =
     (case read_digits 0 0 0 s of
        (prev, value, num_digits, rest) \<Rightarrow>
          if num_digits \<le> 9 then (sint value, rest)
          else if num_digits = 10 \<and>
              (ucast prev :: u64) * 10 + of_nat (digit_value (s ! (num_digits - 1))) \<le> of_int INT_MAX
          then (sint value, rest)
          else (error_value, rest))"

definition parse_align :: "char \<Rightarrow> alignment" where
  "parse_align c =
     (if c = CHR ''<'' then AlignLeft else if c = CHR ''>'' then AlignRight
      else if c = CHR ''^'' then AlignCenter else AlignNone)"

definition is_name_start :: "char \<Rightarrow> bool" where
  "is_name_start c \<longleftrightarrow>
     97 \<le> (of_char c :: nat) \<and> (of_char c :: nat) \<le> 122 \<or> 65 \<le> (of_char c :: nat) \<and> (of_char c :: nat) \<le> 90 \<or> c = CHR ''_''"

text \<open>The text starts with the first character of the reference; the handler is called by the caller.\<close>

definition parse_arg_id :: "string \<Rightarrow> string + arg_ref \<times> string" where
  "parse_arg_id s =
     (let c = hd s in
      if is_digit c
      then (let (index, rest) = (if c \<noteq> CHR ''0'' then parse_nonnegative_int s INT_MAX else (0, tl s))
            in if rest = [] \<or> hd rest \<noteq> CHR ''}'' \<and> hd rest \<noteq> CHR '':'' then Inl ''invalid format string''
               else Inr (RefIndex index, rest))
      else if \<not> is_name_start c then Inl ''invalid format string''
      else (let it = dropWhile (\<lambda>x. is_name_start x \<or> is_digit x) (tl s)
            in Inr (RefName (take (length s - length it) s), it)))"

section \<open>Width and precision\<close>

record dynamic_spec =
  dn_value :: "int option"
  dn_ref :: arg_ref
  dn_kind :: arg_id_kind

definition static_spec :: "int option \<Rightarrow> dynamic_spec" where
  "static_spec v = \<lparr>dn_value = v, dn_ref = RefIndex 0, dn_kind = KindNone\<rparr>"

definition dynamic_on_index :: "int \<Rightarrow> parse_context \<Rightarrow> string + parse_context" where
  "dynamic_on_index ident ctx =
     (case check_arg_id ident ctx of
        Inl e \<Rightarrow> Inl e
      | Inr ctx1 \<Rightarrow> (case check_dynamic_spec ident ctx1 of Inl e \<Rightarrow> Inl e | Inr _ \<Rightarrow> Inr ctx1))"

definition parse_dynamic_ref :: "string \<Rightarrow> parse_context \<Rightarrow> string + dynamic_spec \<times> string \<times> parse_context" where
  "parse_dynamic_ref s ctx =
     (if hd s = CHR ''}'' \<or> hd s = CHR '':''
      then (case next_arg_id ctx of
              Inl e \<Rightarrow> Inl e
            | Inr (ident, ctx1) \<Rightarrow>
                (case check_dynamic_spec ident ctx1 of
                   Inl e \<Rightarrow> Inl e
                 | Inr _ \<Rightarrow> Inr (\<lparr>dn_value = None, dn_ref = RefIndex ident, dn_kind = KindIndex\<rparr>, s, ctx1)))
      else (case parse_arg_id s of
              Inl e \<Rightarrow> Inl e
            | Inr (RefIndex ident, rest) \<Rightarrow>
                (case dynamic_on_index ident ctx of
                   Inl e \<Rightarrow> Inl e
                 | Inr ctx1 \<Rightarrow> Inr (\<lparr>dn_value = None, dn_ref = RefIndex ident, dn_kind = KindIndex\<rparr>, rest, ctx1))
            | Inr (RefName ident, rest) \<Rightarrow>
                Inr (\<lparr>dn_value = None, dn_ref = RefName ident, dn_kind = KindName\<rparr>, rest, check_arg_name ctx)))"

definition parse_dynamic_spec :: "string \<Rightarrow> parse_context \<Rightarrow> string + dynamic_spec \<times> string \<times> parse_context" where
  "parse_dynamic_spec s ctx =
     (if is_digit (hd s)
      then (let (val, rest) = parse_nonnegative_int s (-1)
            in if val = -1 then Inl ''number is too big'' else Inr (static_spec (Some val), rest, ctx))
      else if hd s = CHR ''{''
      then (if tl s = [] then Inl ''invalid format string''
            else case parse_dynamic_ref (tl s) ctx of
                Inl e \<Rightarrow> Inl e
              | Inr (d, rest, ctx1) \<Rightarrow>
                  if rest \<noteq> [] \<and> hd rest = CHR ''}'' then Inr (d, tl rest, ctx1) else Inl ''invalid format string'')
      else Inl ''invalid format string'')"

definition value_or :: "int \<Rightarrow> int option \<Rightarrow> int" where
  "value_or old v = (case v of None \<Rightarrow> old | Some n \<Rightarrow> n)"

definition parse_width ::
  "string \<Rightarrow> dynamic_format_specs \<Rightarrow> parse_context \<Rightarrow> string + dynamic_format_specs \<times> parse_context \<times> string" where
  "parse_width s sp ctx =
     (case parse_dynamic_spec s ctx of
        Inl e \<Rightarrow> Inl e
      | Inr (d, rest, ctx1) \<Rightarrow>
          Inr (sp\<lparr>sp_width := value_or (sp_width sp) (dn_value d),
                  sp_width_ref := (if dn_kind d = KindNone then sp_width_ref sp else dn_ref d),
                  sp_dynamic_width := dn_kind d\<rparr>, ctx1, rest))"

definition parse_precision ::
  "string \<Rightarrow> dynamic_format_specs \<Rightarrow> parse_context \<Rightarrow> string + dynamic_format_specs \<times> parse_context \<times> string" where
  "parse_precision s sp ctx =
     (if tl s = [] then Inl ''invalid precision''
      else case parse_dynamic_spec (tl s) ctx of
        Inl e \<Rightarrow> Inl e
      | Inr (d, rest, ctx1) \<Rightarrow>
          Inr (sp\<lparr>sp_precision := value_or (sp_precision sp) (dn_value d),
                  sp_precision_ref := (if dn_kind d = KindNone then sp_precision_ref sp else dn_ref d),
                  sp_dynamic_precision := dn_kind d\<rparr>, ctx1, rest))"

section \<open>The specification of a field\<close>

text \<open>The order in which the parts of a specification may come.\<close>

datatype spec_state =
    AtStart | AtAlign | AtSign | AtHash | AtZero | AtWidth | AtPrecision | AtLocale

primrec state_num :: "spec_state \<Rightarrow> nat" where
  "state_num AtStart = 0" | "state_num AtAlign = 1" | "state_num AtSign = 2" | "state_num AtHash = 3"
| "state_num AtZero = 4" | "state_num AtWidth = 5" | "state_num AtPrecision = 6" | "state_num AtLocale = 7"

definition enter_state :: "spec_state \<Rightarrow> bool \<Rightarrow> spec_state \<Rightarrow> string + spec_state" where
  "enter_state s valid current_state =
     (if state_num current_state \<ge> state_num s \<or> \<not> valid then Inl ''invalid format specifier'' else Inr s)"

text \<open>What a turn of the loop does: it goes on behind what it has read, or it is done.\<close>

datatype turn_result =
    SpecNext spec_state dynamic_format_specs parse_context string
  | SpecDone dynamic_format_specs parse_context string

definition presentation_type :: "fmt_type \<Rightarrow> presentation \<Rightarrow> fmt_type list \<Rightarrow> dynamic_format_specs \<Rightarrow> parse_context \<Rightarrow> string
    \<Rightarrow> string + turn_result" where
  "presentation_type arg_type pres allowed sp ctx s =
     (if arg_type \<notin> set allowed then Inl ''invalid format specifier''
      else Inr (SpecDone (sp\<lparr>sp_type := pres\<rparr>) ctx (tl s)))"

text \<open>The type that a letter stands for, and the types of arguments it is for.\<close>

definition letter_presentation :: "char \<Rightarrow> (bool \<times> presentation \<times> fmt_type list) option" where
  "letter_presentation c =
     (if c = CHR ''d'' then Some (False, PDec, integral_set)
      else if c = CHR ''X'' then Some (True, PHex, integral_set)
      else if c = CHR ''x'' then Some (False, PHex, integral_set)
      else if c = CHR ''o'' then Some (False, POct, integral_set)
      else if c = CHR ''B'' then Some (True, PBin, integral_set)
      else if c = CHR ''b'' then Some (False, PBin, integral_set)
      else if c = CHR ''E'' then Some (True, PExp, float_set)
      else if c = CHR ''e'' then Some (False, PExp, float_set)
      else if c = CHR ''F'' then Some (True, PFixed, float_set)
      else if c = CHR ''f'' then Some (False, PFixed, float_set)
      else if c = CHR ''G'' then Some (True, PGeneral, float_set)
      else if c = CHR ''g'' then Some (False, PGeneral, float_set)
      else if c = CHR ''A'' then Some (True, PHexfloat, float_set)
      else if c = CHR ''a'' then Some (False, PHexfloat, float_set)
      else if c = CHR ''c'' then Some (False, PChr, integral_set)
      else if c = CHR ''s'' then Some (False, PString, bool_set @ string_set @ cstring_set)
      else if c = CHR ''p'' then Some (False, PPointer, pointer_set @ cstring_set)
      else if c = CHR ''?'' then Some (False, PDebug, char_set @ string_set @ cstring_set)
      else None)"

definition upper_if :: "bool \<Rightarrow> dynamic_format_specs \<Rightarrow> dynamic_format_specs" where
  "upper_if up sp = (if up then sp\<lparr>sp_upper := True\<rparr> else sp)"

text \<open>A character in single quotes, as the messages have it.\<close>

definition quoted :: "char \<Rightarrow> string" where
  "quoted c = [CHR 0x27, c, CHR 0x27]"

definition parse_fill :: "spec_state \<Rightarrow> dynamic_format_specs \<Rightarrow> parse_context \<Rightarrow> string \<Rightarrow> string + turn_result" where
  "parse_fill st sp ctx s =
     (if hd s = CHR ''}'' then Inr (SpecDone sp ctx s)
      else let n = code_point_length (hd s) in
        if length s \<le> n then Inl ''invalid format specifier''
        else if hd s = CHR ''{'' then Inl (''invalid fill character '' @ quoted (CHR ''{''))
        else let alignment = parse_align (s ! n) in
          case enter_state AtAlign (alignment \<noteq> AlignNone) st of
            Inl e \<Rightarrow> Inl e
          | Inr st1 \<Rightarrow> Inr (SpecNext st1 (sp\<lparr>sp_fill := take n s, sp_align := alignment\<rparr>) ctx (drop (Suc n) s)))"

text \<open>One turn of the loop; \<open>c\<close> is the character it looks at.\<close>

definition spec_turn :: "fmt_type \<Rightarrow> spec_state \<Rightarrow> dynamic_format_specs \<Rightarrow> parse_context \<Rightarrow> char \<Rightarrow> string \<Rightarrow> string + turn_result" where
  "spec_turn arg_type st sp ctx c s =
     (let enter = (\<lambda>state valid sp1. case enter_state state valid st of
            Inl e \<Rightarrow> Inl e
          | Inr st1 \<Rightarrow> Inr (SpecNext st1 sp1 ctx (tl s))) in
      if c = CHR ''<'' \<or> c = CHR ''>'' \<or> c = CHR ''^''
      then enter AtAlign True (sp\<lparr>sp_align := parse_align c\<rparr>)
      else if c = CHR ''+'' \<or> c = CHR '' '' \<or> c = CHR ''-''
      then enter AtSign (arg_type \<in> set (sint_set @ float_set))
             (if c = CHR ''-'' then sp else sp\<lparr>sp_sign := (if c = CHR '' '' then SignSpace else SignPlus)\<rparr>)
      else if c = CHR ''#'' then enter AtHash (is_arithmetic_type arg_type) (sp\<lparr>sp_alt := True\<rparr>)
      else if c = CHR ''0''
      then (case enter_state AtZero True st of
              Inl e \<Rightarrow> Inl e
            | Inr st1 \<Rightarrow>
                if \<not> is_arithmetic_type arg_type then Inl ''format specifier requires numeric argument''
                else Inr (SpecNext st1
                       (if sp_align sp = AlignNone then sp\<lparr>sp_align := AlignNumeric, sp_fill := ''0''\<rparr> else sp) ctx (tl s)))
      else if is_digit c \<or> c = CHR ''{''
      then (case enter_state AtWidth True st of
              Inl e \<Rightarrow> Inl e
            | Inr st1 \<Rightarrow>
                (case parse_width s sp ctx of Inl e \<Rightarrow> Inl e | Inr (sp1, ctx1, rest) \<Rightarrow> Inr (SpecNext st1 sp1 ctx1 rest)))
      else if c = CHR ''.''
      then (case enter_state AtPrecision (arg_type \<in> set (float_set @ string_set @ cstring_set)) st of
              Inl e \<Rightarrow> Inl e
            | Inr st1 \<Rightarrow>
                (case parse_precision s sp ctx of Inl e \<Rightarrow> Inl e | Inr (sp1, ctx1, rest) \<Rightarrow> Inr (SpecNext st1 sp1 ctx1 rest)))
      else if c = CHR ''L'' then enter AtLocale (is_arithmetic_type arg_type) (sp\<lparr>sp_localized := True\<rparr>)
      else case letter_presentation c of
          Some (up, pres, allowed) \<Rightarrow>
            if c = CHR ''c'' \<and> arg_type = BoolType then Inl ''invalid format specifier''
            else presentation_type arg_type pres allowed (upper_if up sp) ctx s
        | None \<Rightarrow> if c = CHR ''}'' then Inr (SpecDone sp ctx s) else parse_fill st sp ctx s)"

subsection \<open>The loop ends\<close>

lemma read_digits_rest: "snd (snd (snd (read_digits p v n s))) = dropWhile is_digit s"
  by (induction p v n s rule: read_digits.induct) auto

lemma parse_int_rest: "snd (parse_nonnegative_int s e) = dropWhile is_digit s"
  using read_digits_rest [of 0 0 0 s] by (auto simp: parse_nonnegative_int_def split: prod.splits)

lemma parse_int_suffix: "suffix (snd (parse_nonnegative_int s e)) s"
  by (simp add: parse_int_rest suffix_dropWhile)

lemma parse_int_shorter: "s \<noteq> [] \<Longrightarrow> is_digit (hd s) \<Longrightarrow> length (snd (parse_nonnegative_int s e)) < length s"
  by (cases s) (auto simp: parse_int_rest length_dropWhile_le le_imp_less_Suc)

lemma suffix_tl_of: "suffix r (tl s) \<Longrightarrow> suffix r s"
  using suffix_tl suffix_order.trans by blast

lemma parse_arg_id_suffix:
  assumes "parse_arg_id s = Inr (r, rest)"
  shows "suffix rest s"
  using assms parse_int_suffix [of s INT_MAX] suffix_tl_of [OF suffix_dropWhile]
  by (auto simp: parse_arg_id_def Let_def suffix_tl split: if_splits prod.splits)

lemma parse_dynamic_ref_suffix: "parse_dynamic_ref s ctx = Inr (d, rest, ctx1) \<Longrightarrow> suffix rest s"
  by (auto simp: parse_dynamic_ref_def split: if_splits sum.splits prod.splits arg_ref.splits dest: parse_arg_id_suffix)

lemma suffix_tl_shorter: "suffix r (tl s) \<Longrightarrow> s \<noteq> [] \<Longrightarrow> length r < length s"
  using suffix_length_le [of r "tl s"] by (cases s) auto

lemma parse_dynamic_spec_suffix:
  assumes "parse_dynamic_spec s ctx = Inr (d, rest, ctx1)" and "s \<noteq> []"
  shows "suffix rest s \<and> length rest < length s"
proof (cases "is_digit (hd s)")
  case True
  then show ?thesis
    using assms parse_int_suffix [of s "-1"] parse_int_shorter [OF assms(2) True, of "-1"]
    by (auto simp: parse_dynamic_spec_def Let_def split: prod.splits if_splits)
next
  case False
  then obtain rest' where "parse_dynamic_ref (tl s) ctx = Inr (d, rest', ctx1)" "rest = tl rest'"
    using assms(1) by (auto simp: parse_dynamic_spec_def split: if_splits sum.splits)
  then have "suffix rest (tl s)" using parse_dynamic_ref_suffix suffix_tl suffix_order.trans by metis
  then show ?thesis using suffix_tl_of suffix_tl_shorter [OF _ assms(2)] by blast
qed

text \<open>A turn that goes on has read something.\<close>

definition moves :: "string \<Rightarrow> string + turn_result \<Rightarrow> bool" where
  "moves s r \<longleftrightarrow>
     (case r of
        Inl e \<Rightarrow> True
      | Inr (SpecNext st1 sp1 ctx1 rest) \<Rightarrow> suffix rest s \<and> length rest < length s
      | Inr (SpecDone sp1 ctx1 rest) \<Rightarrow> suffix rest s)"

lemma moves_simps [simp]:
  "moves s (Inl e)" "moves s (Inr (SpecNext st1 sp1 ctx1 rest)) \<longleftrightarrow> suffix rest s \<and> length rest < length s"
  "moves s (Inr (SpecDone sp1 ctx1 rest)) \<longleftrightarrow> suffix rest s"
  by (simp_all add: moves_def)

lemma moves_if: "moves s x \<Longrightarrow> moves s y \<Longrightarrow> moves s (if b then x else y)"
  by simp

lemma moves_enter: "s \<noteq> [] \<Longrightarrow> (\<And>st1. moves s (f st1)) \<Longrightarrow> moves s (case enter_state state valid st of Inl e \<Rightarrow> Inl e | Inr st1 \<Rightarrow> f st1)"
  by (simp add: enter_state_def)

lemma moves_width:
  "s \<noteq> [] \<Longrightarrow> moves s (case parse_width s sp ctx of Inl e \<Rightarrow> Inl e | Inr (sp1, ctx1, rest) \<Rightarrow> Inr (SpecNext st1 sp1 ctx1 rest))"
  using parse_dynamic_spec_suffix by (auto simp: parse_width_def split: sum.split)

lemma moves_precision:
  "s \<noteq> [] \<Longrightarrow> moves s (case parse_precision s sp ctx of Inl e \<Rightarrow> Inl e | Inr (sp1, ctx1, rest) \<Rightarrow> Inr (SpecNext st1 sp1 ctx1 rest))"
  using parse_dynamic_spec_suffix suffix_tl_of by (fastforce simp: parse_precision_def split: sum.split)

lemma moves_fill: "s \<noteq> [] \<Longrightarrow> moves s (parse_fill st sp ctx s)"
  by (simp add: parse_fill_def Let_def enter_state_def suffix_drop)

lemma moves_presentation: "moves s (presentation_type arg_type pres allowed sp ctx s)"
  by (simp add: presentation_type_def suffix_tl)

lemma spec_turn_moves:
  assumes "s \<noteq> []"
  shows "moves s (spec_turn arg_type st sp ctx c s)"
proof -
  have tl: "suffix (tl s) s" "length (tl s) < length s" using assms by (simp_all add: suffix_tl)
  have letter: "moves s (case letter_presentation c of
          Some (up, pres, allowed) \<Rightarrow>
            if c = CHR ''c'' \<and> arg_type = BoolType then Inl ''invalid format specifier''
            else presentation_type arg_type pres allowed (upper_if up sp) ctx s
        | None \<Rightarrow> if c = CHR ''}'' then Inr (SpecDone sp ctx s) else parse_fill st sp ctx s)"
    using moves_fill [OF assms] moves_presentation by (cases "letter_presentation c") (auto split: prod.split)
  show ?thesis
    unfolding spec_turn_def Let_def
    by (intro moves_if moves_enter letter moves_width moves_precision assms) (simp_all only: moves_simps tl simp_thms)
qed

lemma spec_turn_shorter:
  "spec_turn arg_type st sp ctx c s = Inr (SpecNext st1 sp1 ctx1 rest) \<Longrightarrow> s \<noteq> [] \<Longrightarrow> length rest < length s"
  "spec_turn arg_type st sp ctx c s = Inr (SpecNext st1 sp1 ctx1 rest) \<Longrightarrow> s \<noteq> [] \<Longrightarrow> suffix rest s"
  "spec_turn arg_type st sp ctx c s = Inr (SpecDone sp1 ctx1 rest) \<Longrightarrow> s \<noteq> [] \<Longrightarrow> suffix rest s"
  using spec_turn_moves [of s arg_type st sp ctx c] by simp_all

function parse_specs_loop ::
  "fmt_type \<Rightarrow> spec_state \<Rightarrow> dynamic_format_specs \<Rightarrow> parse_context \<Rightarrow> char \<Rightarrow> string
     \<Rightarrow> string + dynamic_format_specs \<times> parse_context \<times> string" where
  "parse_specs_loop arg_type st sp ctx c s =
     (if s = [] then Inr (sp, ctx, s)
      else case spec_turn arg_type st sp ctx c s of
          Inl e \<Rightarrow> Inl e
        | Inr (SpecDone sp1 ctx1 rest) \<Rightarrow> Inr (sp1, ctx1, rest)
        | Inr (SpecNext st1 sp1 ctx1 rest) \<Rightarrow>
            if rest = [] then Inr (sp1, ctx1, rest) else parse_specs_loop arg_type st1 sp1 ctx1 (hd rest) rest)"
  by pat_completeness auto
termination
  by (relation "measure (\<lambda>(arg_type, st, sp, ctx, c, s). length s)") (auto dest: spec_turn_shorter)

declare parse_specs_loop.simps [simp del]

text \<open>Two characters are looked at first: a fill character may be any, even one with a meaning of its own.\<close>

definition parse_format_specs ::
  "fmt_type \<Rightarrow> dynamic_format_specs \<Rightarrow> parse_context \<Rightarrow> string \<Rightarrow> string + dynamic_format_specs \<times> parse_context \<times> string" where
  "parse_format_specs arg_type sp ctx s =
     (if s = [] then Inr (sp, ctx, s)
      else let c = (if length s > 1 then if parse_align (s ! 1) = AlignNone then hd s else CHR 0x00 else hd s)
        in parse_specs_loop arg_type AtStart sp ctx c s)"

lemma parse_specs_loop_suffix: "parse_specs_loop arg_type st sp ctx c s = Inr (sp1, ctx1, rest) \<Longrightarrow> suffix rest s"
proof (induction arg_type st sp ctx c s rule: parse_specs_loop.induct)
  case (1 arg_type st sp ctx c s)
  show ?case
  proof (cases "s = []")
    case True
    then show ?thesis using 1(2) by (simp add: parse_specs_loop.simps)
  next
    case ne: False
    then show ?thesis
      using 1(2) spec_turn_shorter(2,3) [OF _ ne] 1(1) [OF ne] suffix_order.trans
      by (subst (asm) parse_specs_loop.simps) (fastforce split: sum.splits turn_result.splits if_splits)
  qed
qed

lemma parse_format_specs_suffix: "parse_format_specs arg_type sp ctx s = Inr (sp1, ctx1, rest) \<Longrightarrow> suffix rest s"
  using parse_specs_loop_suffix by (auto simp: parse_format_specs_def Let_def split: if_splits)

section \<open>Fields and text\<close>

text \<open>
  A handler takes the pieces of a format string; it may fail. \<open>on_specs\<close> says how many
  characters of the specification it has read.
\<close>

record 'h fmt_handler =
  on_text :: "string \<Rightarrow> 'h \<Rightarrow> 'h"
  on_auto_id :: "'h \<Rightarrow> string + int \<times> 'h"
  on_index :: "int \<Rightarrow> 'h \<Rightarrow> string + int \<times> 'h"
  on_name :: "string \<Rightarrow> 'h \<Rightarrow> string + int \<times> 'h"
  on_field :: "int \<Rightarrow> 'h \<Rightarrow> string + 'h"
  on_specs :: "int \<Rightarrow> string \<Rightarrow> 'h \<Rightarrow> string + nat \<times> 'h"

definition finish_field :: "'h fmt_handler \<Rightarrow> int \<Rightarrow> string \<Rightarrow> 'h \<Rightarrow> string + string \<times> 'h" where
  "finish_field h arg_id s st =
     (case on_specs h arg_id s st of
        Inl e \<Rightarrow> Inl e
      | Inr (n, st1) \<Rightarrow>
          if drop n s = [] \<or> hd (drop n s) \<noteq> CHR ''}'' then Inl ''unknown format specifier''
          else Inr (tl (drop n s), st1))"

definition plain_field :: "'h fmt_handler \<Rightarrow> int \<Rightarrow> string \<Rightarrow> 'h \<Rightarrow> string + string \<times> 'h" where
  "plain_field h arg_id rest st = (case on_field h arg_id st of Inl e \<Rightarrow> Inl e | Inr st1 \<Rightarrow> Inr (rest, st1))"

definition on_arg_ref :: "'h fmt_handler \<Rightarrow> arg_ref \<Rightarrow> 'h \<Rightarrow> string + int \<times> 'h" where
  "on_arg_ref h r st = (case r of RefIndex i \<Rightarrow> on_index h i st | RefName n \<Rightarrow> on_name h n st)"

text \<open>\<open>s\<close> starts behind the opening brace.\<close>

definition parse_replacement_field :: "'h fmt_handler \<Rightarrow> string \<Rightarrow> 'h \<Rightarrow> string + string \<times> 'h" where
  "parse_replacement_field h s st =
     (if s = [] then Inl ''invalid format string''
      else if hd s = CHR ''}''
      then (case on_auto_id h st of Inl e \<Rightarrow> Inl e | Inr (arg_id, st1) \<Rightarrow> plain_field h arg_id (tl s) st1)
      else if hd s = CHR ''{'' then Inr (tl s, on_text h [hd s] st)
      else if hd s = CHR '':''
      then (case on_auto_id h st of Inl e \<Rightarrow> Inl e | Inr (arg_id, st1) \<Rightarrow> finish_field h arg_id (tl s) st1)
      else (case parse_arg_id s of
              Inl e \<Rightarrow> Inl e
            | Inr (r, rest) \<Rightarrow>
                (case on_arg_ref h r st of
                   Inl e \<Rightarrow> Inl e
                 | Inr (arg_id, st1) \<Rightarrow>
                     if rest \<noteq> [] \<and> hd rest = CHR ''}'' then plain_field h arg_id (tl rest) st1
                     else if rest = [] \<or> hd rest \<noteq> CHR '':''
                     then Inl (''missing '' @ quoted (CHR ''}'') @ '' in format string'')
                     else finish_field h arg_id (tl rest) st1)))"

lemma parse_replacement_field_shorter:
  assumes "parse_replacement_field h s st = Inr (rest, st1)"
  shows "length rest < length s"
proof -
  have arg: "length r \<le> length s" if "parse_arg_id s = Inr (a, r)" for a r
    using parse_arg_id_suffix [OF that] suffix_length_le by blast
  have len: "0 < length s"
    using assms by (auto simp: parse_replacement_field_def)
  show ?thesis
    using assms
    by (auto simp: parse_replacement_field_def plain_field_def finish_field_def dest!: arg split: if_splits sum.splits)
      (use len in linarith)+
qed

text \<open>\<open>start\<close> is the text read since the last piece was handed over.\<close>

function parse_fields :: "'h fmt_handler \<Rightarrow> string \<Rightarrow> string \<Rightarrow> 'h \<Rightarrow> string + 'h" where
  "parse_fields h start [] st = Inr (on_text h start st)"
| "parse_fields h start (c # p) st =
     (if c = CHR ''{''
      then (case parse_replacement_field h p (on_text h start st) of
              Inl e \<Rightarrow> Inl e
            | Inr (rest, st1) \<Rightarrow> parse_fields h [] rest st1)
      else if c = CHR ''}''
      then (if p = [] \<or> hd p \<noteq> CHR ''}'' then Inl (''unmatched '' @ quoted (CHR ''}'') @ '' in format string'')
            else parse_fields h [] (tl p) (on_text h (start @ [c]) st))
      else parse_fields h (start @ [c]) p st)"
  by pat_completeness auto
termination
  by (relation "measure (\<lambda>(h, start, p, st). length p)")
    (auto dest: parse_replacement_field_shorter)

declare parse_fields.simps(2) [simp del]

definition parse_format_string :: "'h fmt_handler \<Rightarrow> string \<Rightarrow> 'h \<Rightarrow> string + 'h" where
  "parse_format_string h fmt st = parse_fields h [] fmt st"

end
