(* ===== verification/Fmt_Digits.thy ===== *)
theory Fmt_Digits
  imports Decimal_Text
begin

text \<open>
  Numbers as text in \<^verbatim>\<open>fmt/bundled/format.h\<close>: how the length of a number is found without printing it, and the loops that print
  it backwards into a buffer. An unsigned number of any width is its value: dividing, comparing and masking do
  not wrap. Where the code adds or shifts at a fixed width, the model has a word of that
  width. The printing loops write through a pointer; a write outside of the buffer is \<open>None\<close>.
\<close>

section \<open>Leading zeros\<close>

text \<open>
  The compiler's \<^verbatim>\<open>__builtin_clz\<close>, documented as the number of leading zero bits starting at the most significant one;
  without the compiler's help a loop does the same, and does not return for 0.
\<close>

definition builtin_clz :: "'a::len word \<Rightarrow> nat" where
  "builtin_clz n = length (takeWhile (\<lambda>i. \<not> bit n i) (rev [0..<LENGTH('a)]))"

partial_function (option) countl_zero_loop :: "'a::len word \<Rightarrow> nat \<Rightarrow> nat option" where
  "countl_zero_loop n lz =
     (if n AND push_bit (LENGTH('a) - 1) 1 = 0 then countl_zero_loop (push_bit 1 n) (lz + 1) else Some lz)"

declare countl_zero_loop.simps [code]

definition countl_zero_fallback :: "'a::len word \<Rightarrow> nat option" where
  "countl_zero_fallback n = countl_zero_loop n 0"

lemma countl_zero_loop_step:
  "countl_zero_loop n lz =
     (if bit (n :: 'a::len word) (LENGTH('a) - 1) then Some lz else countl_zero_loop (push_bit 1 n) (lz + 1))"
  by (subst countl_zero_loop.simps) (simp add: and_exp_eq_0_iff_not_bit del: push_bit_Suc)

lemma takeWhile_rev_bits:
  assumes "bit (n :: 'a::len word) k" and "\<And>i. k < i \<Longrightarrow> \<not> bit n i" and "k < m"
  shows "length (takeWhile (\<lambda>i. \<not> bit n i) (rev [0..<m])) = m - 1 - k"
  using assms(3)
proof (induction m)
  case (Suc m)
  show ?case
  proof (cases "m = k")
    case True
    then show ?thesis using assms(1) by simp
  next
    case False
    then show ?thesis using Suc assms(2) by auto
  qed
qed simp

text \<open>The position of the highest bit.\<close>

lemma highest_bit:
  assumes "2 ^ k \<le> unat (n :: 'a::len word)" and "unat n < 2 ^ Suc k"
  shows "bit n k" "\<And>i. k < i \<Longrightarrow> \<not> bit n i" "k < LENGTH('a)"
proof -
  have "(2 :: nat) ^ k < 2 ^ LENGTH('a)" using assms(1) unsigned_less [of n, where ?'a = nat] by linarith
  then show "k < LENGTH('a)" by simp
  have "unat n div 2 ^ k = 1"
    using assms by (simp add: div_nat_eqI)
  then have "bit (unat n) k" by (simp add: bit_iff_odd)
  then show "bit n k" by (simp add: bit_unsigned_iff)
  fix i assume "k < i"
  then have "(2 :: nat) ^ Suc k \<le> 2 ^ i" by (intro power_increasing) simp_all
  then have "unat n div 2 ^ i = 0" using assms(2) by simp
  then have "\<not> bit (unat n) i" by (simp add: bit_iff_odd)
  then show "\<not> bit n i" by (simp add: bit_unsigned_iff)
qed

lemma builtin_clz_eq:
  assumes "2 ^ k \<le> unat (n :: 'a::len word)" and "unat n < 2 ^ Suc k"
  shows "builtin_clz n = LENGTH('a) - 1 - k"
  unfolding builtin_clz_def using highest_bit [OF assms] by (intro takeWhile_rev_bits)

lemma nonzero_has_highest: "0 < m \<Longrightarrow> \<exists>k. 2 ^ k \<le> m \<and> m < 2 ^ Suc k" for m :: nat
  using ex_power_ivl1 [of 2 m] by auto

text \<open>Shifting one bit at a time: the highest bit moves up until it is the sign bit.\<close>

lemma countl_zero_loop_eq:
  assumes "bit (n :: 'a::len word) k" and "\<And>i. k < i \<Longrightarrow> \<not> bit n i" and "k < LENGTH('a)"
  shows "countl_zero_loop n lz = Some (lz + (LENGTH('a) - 1 - k))"
  using assms
proof (induction "LENGTH('a) - 1 - k" arbitrary: n k lz)
  case 0
  then have "k = LENGTH('a) - 1" by simp
  then show ?case using 0 by (subst countl_zero_loop_step) simp
next
  case (Suc d)
  then have k: "Suc k < LENGTH('a)" by simp
  have "\<not> bit n (LENGTH('a) - 1)" using Suc.prems(2) k by simp
  moreover have "countl_zero_loop (push_bit 1 n) (lz + 1) = Some (lz + 1 + (LENGTH('a) - 1 - Suc k))"
    using Suc.hyps(2) Suc.prems k
    by (intro Suc.hyps(1)) (auto simp: mult.commute [of n 2] bit_double_iff)
  ultimately show ?case
    using k by (subst countl_zero_loop_step) simp
qed

theorem countl_zero_fallback_correct: "n \<noteq> 0 \<Longrightarrow> countl_zero_fallback n = Some (builtin_clz n)"
proof -
  assume "n \<noteq> 0"
  then obtain k where k: "2 ^ k \<le> unat n" "unat n < 2 ^ Suc k"
    using nonzero_has_highest [of "unat n"] by (auto simp: unat_gt_0)
  show ?thesis
    unfolding countl_zero_fallback_def builtin_clz_eq [OF k] using highest_bit [OF k]
    by (subst countl_zero_loop_eq) auto
qed

section \<open>The number of digits\<close>

function count_fallback :: "nat \<Rightarrow> nat \<Rightarrow> nat" where
  "count_fallback n count =
     (if n < 10 then count
      else if n < 100 then count + 1
      else if n < 1000 then count + 2
      else if n < 10000 then count + 3
      else count_fallback (n div 10000) (count + 4))"
  by pat_completeness auto
termination by (relation "measure fst") simp_all

declare count_fallback.simps [simp del]

definition count_digits_any :: "nat \<Rightarrow> nat" where
  "count_digits_any n = count_fallback n 1"

text \<open>64 bits: a table from the highest bit to a number of digits that is at most one too large.\<close>

definition bsr2log10 :: "nat list" where
  "bsr2log10 =
     [1, 1, 1, 2, 2, 2, 3, 3, 3, 4, 4, 4, 4, 5, 5, 5,
      6, 6, 6, 7, 7, 7, 7, 8, 8, 8, 9, 9, 9, 10, 10, 10,
      10, 11, 11, 11, 12, 12, 12, 13, 13, 13, 13, 14, 14, 14, 15, 15,
      15, 16, 16, 16, 16, 17, 17, 17, 18, 18, 18, 19, 19, 19, 19, 20]"

definition powers_of_10 :: "u64 \<Rightarrow> u64 list" where
  "powers_of_10 factor =
     [factor * 10, factor * 100, factor * 1000, factor * 10000, factor * 100000, factor * 1000000, factor * 10000000,
      factor * 100000000, factor * 1000000000]"

definition zero_or_powers_of_10 :: "u64 list" where
  "zero_or_powers_of_10 = [0, 0] @ powers_of_10 1 @ powers_of_10 1000000000 @ [10000000000000000000]"

definition count_digits_64 :: "u64 \<Rightarrow> nat" where
  "count_digits_64 n =
     (let t = bsr2log10 ! (builtin_clz (n OR 1) XOR 63)
      in t - (if n < zero_or_powers_of_10 ! t then 1 else 0))"

text \<open>32 bits: adding the entry of the table carries into the upper half exactly when the number has the last digit.\<close>

definition fmt_inc :: "string \<Rightarrow> u64 \<Rightarrow> u64" where
  "fmt_inc literal t = push_bit 32 (of_nat (length literal)) - t"

definition willets_table :: "u64 list" where
  "willets_table =
     [fmt_inc ''0'' 0, fmt_inc ''0'' 0, fmt_inc ''0'' 0, fmt_inc ''10'' 10,
      fmt_inc ''10'' 10, fmt_inc ''10'' 10, fmt_inc ''100'' 100, fmt_inc ''100'' 100,
      fmt_inc ''100'' 100, fmt_inc ''1000'' 1000, fmt_inc ''1000'' 1000, fmt_inc ''1000'' 1000,
      fmt_inc ''10000'' 10000, fmt_inc ''10000'' 10000, fmt_inc ''10000'' 10000, fmt_inc ''100000'' 100000,
      fmt_inc ''100000'' 100000, fmt_inc ''100000'' 100000, fmt_inc ''1000000'' 1000000, fmt_inc ''1000000'' 1000000,
      fmt_inc ''1000000'' 1000000, fmt_inc ''10000000'' 10000000, fmt_inc ''10000000'' 10000000, fmt_inc ''10000000'' 10000000,
      fmt_inc ''100000000'' 100000000, fmt_inc ''100000000'' 100000000, fmt_inc ''100000000'' 100000000, fmt_inc ''1000000000'' 1000000000,
      fmt_inc ''1000000000'' 1000000000, fmt_inc ''1000000000'' 1000000000, fmt_inc ''1000000000'' 1000000000, fmt_inc ''1000000000'' 1000000000]"

definition count_digits_32 :: "u32 \<Rightarrow> int" where
  "count_digits_32 n =
     (let inc = willets_table ! (builtin_clz (n OR 1) XOR 31)
      in sint (ucast (drop_bit 32 (ucast n + inc)) :: u32))"

text \<open>The digits of a power of two: \<open>bits\<close> is 1, 3 or 4. The first test of the loop comes after its first turn.\<close>

lemma drop_bit_smaller: "drop_bit b m \<noteq> 0 \<Longrightarrow> 0 < b \<Longrightarrow> drop_bit b m < m" for m :: nat
  using one_less_power [of "2 :: nat" b] by (cases "m = 0") (auto simp: drop_bit_eq_div intro!: div_less_dividend)

function count_shifts :: "nat \<Rightarrow> nat \<Rightarrow> nat \<Rightarrow> nat" where
  "count_shifts bits m num_digits =
     (let m1 = drop_bit bits m in
      if m1 = 0 \<or> bits = 0 then num_digits + 1 else count_shifts bits m1 (num_digits + 1))"
  by pat_completeness auto
termination
  by (relation "measure (\<lambda>(bits, m, num_digits). m)") (auto intro: drop_bit_smaller)

declare count_shifts.simps [simp del]

definition count_digits_base2 :: "nat \<Rightarrow> nat \<Rightarrow> nat" where
  "count_digits_base2 bits n = count_shifts bits n 0"

definition count_digits_base2_32 :: "nat \<Rightarrow> u32 \<Rightarrow> nat" where
  "count_digits_base2_32 bits n = (builtin_clz (n OR 1) XOR 31) div bits + 1"

subsection \<open>All of them count the digits\<close>

lemma dec_step: "n \<ge> 10 \<Longrightarrow> length (dec n) = Suc (length (dec (n div 10)))"
  by (subst dec.simps) simp

lemma count_fallback_length: "count_fallback n count + 1 = length (dec n) + count"
proof (induction n count rule: count_fallback.induct)
  case (1 n count)
  show ?case
  proof (cases "n < 10000")
    case False
    then have "length (dec n) = 4 + length (dec (n div 10000))"
      by (simp add: dec_step div_mult2_eq [symmetric])
    then show ?thesis using False 1 by (simp add: count_fallback.simps [of n count])
  qed (simp add: count_fallback.simps [of n count] dec_step dec_length_one div_mult2_eq [symmetric])
qed

theorem count_digits_any_correct: "count_digits_any n = length (dec n)"
  using count_fallback_length [of n 1] by (simp add: count_digits_any_def)

text \<open>Two digits lengths are possible for a highest bit; a comparison decides.\<close>

lemma digits_between:
  assumes "n < 10 ^ d" and "d = 1 \<or> 10 ^ (d - 2) \<le> n" and "1 \<le> d"
  shows "length (dec n) = d - (if d \<noteq> 1 \<and> n < 10 ^ (d - 1) then 1 else 0)"
proof -
  have up: "length (dec n) \<le> d" using dec_length [OF assms(3)] assms(1) by blast
  have le: "length (dec n) \<le> d - 1 \<longleftrightarrow> n < 10 ^ (d - 1)" if "d \<noteq> 1"
    using that assms(3) by (intro dec_length) simp
  have low: "d - 1 \<le> length (dec n)" if "d \<noteq> 1"
  proof (cases "d = 2")
    case False
    then have "1 \<le> d - 2" using that assms(3) by simp
    then have "\<not> length (dec n) \<le> d - 2" using dec_length [of "d - 2" n] assms(2) that by simp
    then show ?thesis by simp
  qed (simp add: Suc_le_eq)
  show ?thesis using up le low assms(3) by (cases "d = 1") (auto simp: le_antisym Suc_le_eq)
qed

lemma or_one_bounds:
  fixes n :: nat
  assumes "2 ^ k \<le> n OR 1" and "n OR 1 < 2 ^ Suc k"
  shows "k = 0 \<or> 2 ^ k \<le> n" and "n < 2 ^ Suc k"
proof -
  have eq: "n OR 1 = n + of_bool (even n)" by (simp add: or_Suc_0_eq)
  show "n < 2 ^ Suc k" using assms(2) eq by simp
  show "k = 0 \<or> 2 ^ k \<le> n"
  proof (cases "k = 0 \<or> odd n")
    case False
    then have "even ((2 :: nat) ^ k)" "odd (n + 1)" by simp_all
    then have "2 ^ k \<noteq> n + 1" by metis
    then show ?thesis using assms(1) eq by (cases "even n") simp_all
  qed (use assms(1) eq in auto)
qed

lemma builtin_clz_or_one:
  obtains k where "builtin_clz ((n :: 'a::len word) OR 1) = LENGTH('a) - 1 - k" "k < LENGTH('a)"
    "k = 0 \<or> 2 ^ k \<le> unat n" "unat n < 2 ^ Suc k"
proof -
  have or1: "unat (n OR 1) = unat n OR 1" by (simp add: unsigned_or_eq)
  then have "0 < unat (n OR 1)" by (cases "even (unat n)") (auto simp: or_Suc_0_eq odd_pos)
  then obtain k where k: "2 ^ k \<le> unat (n OR 1)" "unat (n OR 1) < 2 ^ Suc k"
    using nonzero_has_highest by blast
  show thesis
    using that [OF builtin_clz_eq [OF k] highest_bit(3) [OF k]] or_one_bounds [OF k [unfolded or1]] by blast
qed

lemma table_64:
  "list_all (\<lambda>k. let t = bsr2log10 ! k in
      (63 - k) XOR 63 = k \<and> 1 \<le> t \<and> (2 :: int) ^ Suc k \<le> 10 ^ t \<and> (t = 1 \<or> k \<noteq> 0 \<and> (10 :: int) ^ (t - 2) \<le> 2 ^ k) \<and>
      uint (zero_or_powers_of_10 ! t) = (if t = 1 then 0 else 10 ^ (t - 1))) [0..<64]"
  by code_simp

lemma power_le_int:
  "(2 :: nat) ^ i \<le> 10 ^ j \<longleftrightarrow> (2 :: int) ^ i \<le> 10 ^ j" "(10 :: nat) ^ j \<le> 2 ^ i \<longleftrightarrow> (10 :: int) ^ j \<le> 2 ^ i"
  using of_nat_le_iff [of "2 ^ i" "10 ^ j", where ?'a = int] of_nat_le_iff [of "10 ^ j" "2 ^ i", where ?'a = int] by simp_all

lemma table_64_nat:
  assumes "k < 64" and "t = bsr2log10 ! k"
  shows "(63 - k) XOR 63 = k" "1 \<le> t" "(2 :: nat) ^ Suc k \<le> 10 ^ t" "t = 1 \<or> k \<noteq> 0 \<and> (10 :: nat) ^ (t - 2) \<le> 2 ^ k"
    "unat (zero_or_powers_of_10 ! t) = (if t = 1 then 0 else 10 ^ (t - 1))"
proof -
  have row: "(63 - k) XOR 63 = k" "1 \<le> t" "(2 :: int) ^ Suc k \<le> 10 ^ t" "t = 1 \<or> k \<noteq> 0 \<and> (10 :: int) ^ (t - 2) \<le> 2 ^ k"
    "uint (zero_or_powers_of_10 ! t) = (if t = 1 then 0 else 10 ^ (t - 1))"
    using table_64 assms by (simp_all add: list_all_iff Let_def)
  show "(63 - k) XOR 63 = k" "1 \<le> t" by (fact row)+
  show "(2 :: nat) ^ Suc k \<le> 10 ^ t" using row(3) by (simp only: power_le_int)
  show "t = 1 \<or> k \<noteq> 0 \<and> (10 :: nat) ^ (t - 2) \<le> 2 ^ k" using row(4) by (simp only: power_le_int)
  show "unat (zero_or_powers_of_10 ! t) = (if t = 1 then 0 else 10 ^ (t - 1))"
    using row(5) by (simp add: unat_eq_nat_uint nat_power_eq)
qed

theorem count_digits_64_correct: "count_digits_64 n = length (dec (unat n))"
proof -
  obtain k where k: "builtin_clz (n OR 1) = LENGTH(64) - 1 - k" "k < LENGTH(64)"
    "k = 0 \<or> 2 ^ k \<le> unat n" "unat n < 2 ^ Suc k"
    by (rule builtin_clz_or_one)
  define t where "t = bsr2log10 ! k"
  have t: "(63 - k) XOR 63 = k" "1 \<le> t" "(2 :: nat) ^ Suc k \<le> 10 ^ t" "t = 1 \<or> k \<noteq> 0 \<and> (10 :: nat) ^ (t - 2) \<le> 2 ^ k"
    "unat (zero_or_powers_of_10 ! t) = (if t = 1 then 0 else 10 ^ (t - 1))"
    using table_64_nat [OF _ t_def] k(2) by simp_all
  have low: "t = 1 \<or> 10 ^ (t - 2) \<le> unat n" using t(4) k(3) le_trans by blast
  have "n < zero_or_powers_of_10 ! t \<longleftrightarrow> t \<noteq> 1 \<and> unat n < 10 ^ (t - 1)"
    using t(5) by (simp add: word_less_nat_alt)
  then show ?thesis
    using digits_between [OF less_le_trans [OF k(4) t(3)] low t(2)] k(1) t(1)
    by (simp add: count_digits_64_def Let_def t_def)
qed

definition willets_digits :: "nat \<Rightarrow> nat" where
  "willets_digits k = min (k div 3 + 1) 10"

definition last_digit_at :: "nat \<Rightarrow> nat" where
  "last_digit_at t = (if t = 1 then 0 else 10 ^ (t - 1))"

lemma willets_entries:
  "map uint willets_table =
     map (\<lambda>k. int (willets_digits k) * 4294967296 - int (last_digit_at (willets_digits k))) [0..<32]"
  by (simp add: willets_table_def fmt_inc_def willets_digits_def last_digit_at_def upt_rec)

lemma willets_rows:
  "list_all (\<lambda>k. (31 - k) XOR 31 = k \<and> (2 :: int) ^ Suc k \<le> 10 ^ willets_digits k \<and>
      (willets_digits k = 1 \<or> k \<noteq> 0 \<and> (10 :: int) ^ (willets_digits k - 2) \<le> 2 ^ k)) [0..<32]"
  by code_simp

lemma sint_of_small: "m < 2 ^ 31 \<Longrightarrow> sint (word_of_nat m :: u32) = int m"
  by (simp add: signed_of_nat signed_take_bit_int_eq_self)

lemma ucast_of_small: "m < 2 ^ 31 \<Longrightarrow> (ucast (word_of_nat m :: u64) :: u32) = word_of_nat m"
  using take_bit_nat_eq_self [of m 64] by (simp add: unsigned_of_nat)

lemma carry_digit:
  fixes n p t :: nat
  assumes "n < 2 ^ 32" and "p < 2 ^ 32" and "1 \<le> t"
  shows "(n + (t * 2 ^ 32 - p)) div 2 ^ 32 = t - (if n < p then 1 else 0)"
proof (cases "n < p")
  case True
  have "n + (t * 2 ^ 32 - p) = (2 ^ 32 + n - p) + (t - 1) * 2 ^ 32"
    using assms True by (cases t) simp_all
  moreover have "(2 ^ 32 + n - p) div 2 ^ 32 = 0" using assms True by simp
  ultimately show ?thesis using True by (simp only: div_mult_self1) simp
next
  case False
  have "n + (t * 2 ^ 32 - p) = (n - p) + t * 2 ^ 32" using assms False by simp
  moreover have "(n - p) div 2 ^ 32 = 0" using assms False by simp
  ultimately show ?thesis using False by (simp only: div_mult_self1) simp
qed

theorem count_digits_32_correct: "count_digits_32 n = int (length (dec (unat n)))"
proof -
  obtain k where k: "builtin_clz (n OR 1) = LENGTH(32) - 1 - k" "k < LENGTH(32)"
    "k = 0 \<or> 2 ^ k \<le> unat n" "unat n < 2 ^ Suc k"
    by (rule builtin_clz_or_one)
  define t where "t = willets_digits k"
  define p where "p = last_digit_at t"
  have row: "(31 - k) XOR 31 = k" "(2 :: int) ^ Suc k \<le> 10 ^ t" "t = 1 \<or> k \<noteq> 0 \<and> (10 :: int) ^ (t - 2) \<le> 2 ^ k"
    using willets_rows k(2) by (simp_all add: list_all_iff t_def)
  have len: "length willets_table = 32" by (simp add: willets_table_def)
  have entry: "uint (willets_table ! k) = int t * 4294967296 - int p"
    using arg_cong [OF willets_entries, of "\<lambda>xs. xs ! k"] k(2) len by (simp add: t_def p_def)
  have t: "1 \<le> t" "t \<le> 10" by (simp_all add: t_def willets_digits_def)
  have "(10 :: nat) ^ (t - 1) \<le> 10 ^ 9" using t by (intro power_increasing) simp_all
  then have p: "p < 2 ^ 32" by (simp add: p_def last_digit_at_def)
  have n: "unat n < 2 ^ 32" using unsigned_less [of n, where ?'a = nat] by simp
  have inc: "unat (willets_table ! k) = t * 2 ^ 32 - p"
    using entry p t by (simp add: unat_eq_nat_uint nat_diff_distrib nat_mult_distrib)
  have sum: "unat (ucast n + willets_table ! k) = unat n + (t * 2 ^ 32 - p)"
  proof -
    have "take_bit 64 (unat n) = unat n" using n by (simp add: take_bit_nat_eq_self_iff)
    moreover have "unat n + t * 2 ^ 32 - p < 2 ^ 64" using n t by simp
    ultimately show ?thesis using n t p by (simp add: unat_word_ariths inc unsigned_ucast_eq)
  qed
  have low: "t = 1 \<or> 10 ^ (t - 2) \<le> unat n" using row(3) k(3) le_trans unfolding power_le_int [symmetric] by blast
  have digits: "length (dec (unat n)) = t - (if unat n < p then 1 else 0)"
    using digits_between [OF less_le_trans [OF k(4)] low t(1)] row(2) unfolding power_le_int [symmetric]
    by (simp add: p_def last_digit_at_def)
  have "take_bit LENGTH(64) (unat n + (t * 2 ^ 32 - p)) = unat n + (t * 2 ^ 32 - p)"
    using n t by (simp add: take_bit_nat_eq_self_iff)
  then have "unat (drop_bit 32 (ucast n + willets_table ! k)) = length (dec (unat n))"
    by (simp only: unsigned_drop_bit_eq sum drop_bit_eq_div [where 'a = nat] carry_digit [OF n p t(1)] digits)
  then have w: "drop_bit 32 (ucast n + willets_table ! k) = word_of_nat (length (dec (unat n)))"
    by (metis of_nat_unat ucast_id)
  have "length (dec (unat n)) \<le> 10" using digits t(2) by (simp split: if_splits)
  then show ?thesis
    using k(1) row(1) by (simp add: count_digits_32_def Let_def w ucast_of_small sint_of_small)
qed

section \<open>Printing into a buffer\<close>

definition put :: "int \<Rightarrow> char \<Rightarrow> string \<Rightarrow> string option" where
  "put i c buf = (if 0 \<le> i \<and> i < int (length buf) then Some (buf[nat i := c]) else None)"

text \<open>The table of all pairs of digits.\<close>

definition digits_table :: string where
  "digits_table =
     ''0001020304050607080910111213141516171819'' @
     ''2021222324252627282930313233343536373839'' @
     ''4041424344454647484950515253545556575859'' @
     ''6061626364656667686970717273747576777879'' @
     ''8081828384858687888990919293949596979899''"

definition digits2 :: "nat \<Rightarrow> string" where
  "digits2 v = drop (v * 2) digits_table"

definition write2digits :: "int \<Rightarrow> nat \<Rightarrow> string \<Rightarrow> string option" where
  "write2digits out v buf =
     (case put out (digits2 v ! 0) buf of None \<Rightarrow> None | Some buf1 \<Rightarrow> put (out + 1) (digits2 v ! Suc 0) buf1)"

text \<open>The same without the table, as at compile time.\<close>

definition write2digits_plain :: "int \<Rightarrow> nat \<Rightarrow> string \<Rightarrow> string option" where
  "write2digits_plain out v buf =
     (case put out (char_of (48 + v div 10)) buf of
        None \<Rightarrow> None
      | Some buf1 \<Rightarrow> put (out + 1) (char_of (48 + v mod 10)) buf1)"

text \<open>The result is the buffer and the position of the first digit.\<close>

function decimal_loop :: "nat \<Rightarrow> int \<Rightarrow> string \<Rightarrow> (string \<times> int) option" where
  "decimal_loop v n buf =
     (if v \<ge> 100
      then (case write2digits (n - 2) (v mod 100) buf of
              None \<Rightarrow> None
            | Some buf1 \<Rightarrow> decimal_loop (v div 100) (n - 2) buf1)
      else if v \<ge> 10
      then (case write2digits (n - 2) v buf of None \<Rightarrow> None | Some buf1 \<Rightarrow> Some (buf1, n - 2))
      else (case put (n - 1) (char_of (48 + v)) buf of None \<Rightarrow> None | Some buf1 \<Rightarrow> Some (buf1, n - 1)))"
  by pat_completeness auto
termination by (relation "measure (\<lambda>(v, n, buf). v)") simp_all

declare decimal_loop.simps [simp del]

definition do_format_decimal :: "string \<Rightarrow> nat \<Rightarrow> nat \<Rightarrow> (string \<times> int) option" where
  "do_format_decimal buf v sz = decimal_loop v (int sz) buf"

definition base_digit :: "nat \<Rightarrow> bool \<Rightarrow> nat \<Rightarrow> char" where
  "base_digit base_bits upper d =
     (if base_bits < 4 then char_of (48 + d)
      else (if upper then ''0123456789ABCDEF'' else ''0123456789abcdef'') ! d)"

function base2e_loop :: "nat \<Rightarrow> bool \<Rightarrow> nat \<Rightarrow> int \<Rightarrow> string \<Rightarrow> (string \<times> int) option" where
  "base2e_loop base_bits upper v out buf =
     (case put (out - 1) (base_digit base_bits upper (v AND (push_bit base_bits 1 - 1))) buf of
        None \<Rightarrow> None
      | Some buf1 \<Rightarrow>
          let v1 = drop_bit base_bits v in
          if v1 = 0 \<or> base_bits = 0 then Some (buf1, out - 1) else base2e_loop base_bits upper v1 (out - 1) buf1)"
  by pat_completeness auto
termination
  by (relation "measure (\<lambda>(base_bits, upper, v, out, buf). v)") (auto intro: drop_bit_smaller)

declare base2e_loop.simps [simp del]

definition do_format_base2e :: "nat \<Rightarrow> string \<Rightarrow> nat \<Rightarrow> nat \<Rightarrow> bool \<Rightarrow> (string \<times> int) option" where
  "do_format_base2e base_bits buf v sz upper = base2e_loop base_bits upper v (int sz) buf"

subsection \<open>What is printed, and where\<close>

lemma put_inside: "i < length buf \<Longrightarrow> put (int i) c buf = Some (take i buf @ c # drop (Suc i) buf)"
  by (simp add: put_def upd_conv_take_nth_drop)

definition pair_text :: "nat \<Rightarrow> string" where
  "pair_text v = [''0123456789'' ! (v div 10), ''0123456789'' ! (v mod 10)]"

lemma digits_table_pairs: "digits_table = concat (map pair_text [0..<100])"
  by code_simp

lemma drop_pairs: "drop (k * 2) (concat (map pair_text xs)) = concat (map pair_text (drop k xs))"
  by (induction xs arbitrary: k) (auto simp: drop_Cons pair_text_def split: nat.split)

lemma digit_char_table: "list_all (\<lambda>d. digit_char d = ''0123456789'' ! d) [0..<10]"
  by code_simp

lemma digit_char_nth: "d < 10 \<Longrightarrow> digit_char d = ''0123456789'' ! d"
  using digit_char_table unfolding list_all_iff by (drule_tac bspec) auto

lemma digits2_eq:
  assumes "v < 100"
  shows "digits2 v ! 0 = digit_char (v div 10)" "digits2 v ! Suc 0 = digit_char (v mod 10)"
proof -
  have "digits2 v = concat (map pair_text [v..<100])"
    unfolding digits2_def digits_table_pairs drop_pairs drop_upt by simp
  also have "\<dots> = pair_text v @ concat (map pair_text [Suc v..<100])"
    using assms by (subst upt_conv_Cons) simp_all
  finally have d: "digits2 v = digit_char (v div 10) # digit_char (v mod 10) # concat (map pair_text [Suc v..<100])"
    using assms by (simp add: pair_text_def digit_char_nth)
  show "digits2 v ! 0 = digit_char (v div 10)" "digits2 v ! Suc 0 = digit_char (v mod 10)"
    unfolding d by (simp_all only: nth_Cons_0 nth_Cons_Suc)
qed

lemma write2digits_same: "v < 100 \<Longrightarrow> write2digits out v buf = write2digits_plain out v buf"
  by (simp only: digits2_eq write2digits_def write2digits_plain_def digit_char_def)

lemma write2digits_inside:
  assumes "2 \<le> n" and "n \<le> length buf" and "v < 100"
  shows "write2digits (int n - 2) v buf = Some (take (n - 2) buf @ [digit_char (v div 10), digit_char (v mod 10)] @ drop n buf)"
proof -
  have "length (drop (n - 2) buf) \<ge> 2" using assms by simp
  then obtain x y ys where d: "drop (n - 2) buf = x # y # ys"
    by (cases "drop (n - 2) buf" rule: remdups_adj.cases) auto
  define xs where "xs = take (n - 2) buf"
  have xs: "length xs = n - 2" using assms by (simp add: xs_def)
  have buf: "buf = xs @ x # y # ys" unfolding xs_def d [symmetric] by simp
  have ys: "drop n buf = ys" using buf xs assms(1) by (simp add: drop_Cons')
  have pos: "int n - 2 = int (length xs)" "int n - 1 = int (length (xs @ [x]))" using xs assms by auto
  have "put (int n - 2) b buf = Some (xs @ b # y # ys)" for b
    unfolding pos(1) buf by (simp add: put_inside)
  moreover have "put (int n - 1) c (xs @ b # y # ys) = Some (xs @ b # c # ys)" for b c
    unfolding pos(2) by (subst put_inside) simp_all
  moreover have "int n - 2 + 1 = int n - 1" by simp
  ultimately show ?thesis
    by (simp add: write2digits_same [OF assms(3)] write2digits_plain_def digit_char_def ys flip: xs_def)
qed

text \<open>The number stands before position \<open>n\<close>; the rest of the buffer is as it was.\<close>

definition printed_before :: "nat \<Rightarrow> string \<Rightarrow> string \<Rightarrow> (string \<times> int) option" where
  "printed_before n ds buf = Some (take (n - length ds) buf @ ds @ drop n buf, int n - int (length ds))"

lemma printed_before_more:
  assumes "length es + length ds \<le> n" and "n \<le> length buf"
  shows "printed_before (n - length ds) es (take (n - length ds) buf @ ds @ drop n buf) = printed_before n (es @ ds) buf"
  using assms by (simp add: printed_before_def diff_diff_add add.commute min_def)

lemma mod_div_mod_100: "v mod 100 div 10 = v div 10 mod 10" "v mod 100 mod 10 = v mod 10" for v :: nat
  using mod_mult2_eq [of v 10 10] by (simp_all add: mod_mod_cancel)

lemma decimal_loop_prints:
  "length (dec v) \<le> n \<Longrightarrow> n \<le> length buf \<Longrightarrow> decimal_loop v (int n) buf = printed_before n (dec v) buf"
proof (induction v arbitrary: n buf rule: less_induct)
  case (less v)
  consider "v \<ge> 100" | "10 \<le> v" "v < 100" | "v < 10" by linarith
  then show ?case
  proof cases
    case 1
    have split: "dec v = dec (v div 100) @ [digit_char (v mod 100 div 10), digit_char (v mod 100 mod 10)]"
      using 1 by (simp add: dec.simps [of v] dec.simps [of "v div 10"] div_mult2_eq [symmetric] mod_div_mod_100)
    then have n: "2 + length (dec (v div 100)) \<le> n" using less.prems by simp
    then have "int n - 2 = int (n - 2)" by simp
    then show ?thesis
      using 1 less.prems n less.IH [of "v div 100" "n - 2"] printed_before_more [of "dec (v div 100)" "[digit_char (v mod 100 div 10), digit_char (v mod 100 mod 10)]" n buf]
      by (simp add: decimal_loop.simps [of v] write2digits_inside split numeral_2_eq_2)
  next
    case 2
    then show ?thesis
      using less.prems by (simp add: decimal_loop.simps [of v] write2digits_inside dec_two printed_before_def flip: numeral_2_eq_2)
  next
    case 3
    then have d: "dec v = [char_of (48 + v)]" by (simp add: dec.simps digit_char_def)
    then have "1 \<le> n" using less.prems by simp
    then have "put (int n - 1) (char_of (48 + v)) buf = Some (take (n - 1) buf @ char_of (48 + v) # drop n buf)"
      using put_inside [of "n - 1" buf] less.prems(2) by (simp add: of_nat_diff)
    then show ?thesis using 3 by (simp add: decimal_loop.simps [of v] d printed_before_def)
  qed
qed

text \<open>
  With room for the digits the loop writes inside of the buffer, prints the number in front of position \<open>sz\<close>, leaves the rest as
  it was and returns where the number begins.
\<close>

theorem format_decimal_prints:
  assumes "length (dec v) \<le> sz" and "sz \<le> length buf"
  shows "do_format_decimal buf v sz =
    Some (take (sz - length (dec v)) buf @ dec v @ drop sz buf, int sz - int (length (dec v)))"
  using decimal_loop_prints [OF assms] by (simp add: do_format_decimal_def printed_before_def)

text \<open>Text in base \<open>2 ^ bits\<close>.\<close>

function base_text :: "nat \<Rightarrow> bool \<Rightarrow> nat \<Rightarrow> string" where
  "base_text bits upper v =
     (if v < 2 ^ bits \<or> bits = 0 then [base_digit bits upper (v mod 2 ^ bits)]
      else base_text bits upper (v div 2 ^ bits) @ [base_digit bits upper (v mod 2 ^ bits)])"
  by pat_completeness auto
termination
  by (relation "measure (\<lambda>(bits, upper, v). v)") (use drop_bit_smaller in \<open>auto simp: drop_bit_eq_div div_eq_0_iff\<close>)

declare base_text.simps [simp del]

lemma base_text_nonempty [simp]: "base_text bits upper v \<noteq> []"
  by (subst base_text.simps) simp

lemma low_bits: "v AND (2 ^ bits - Suc 0) = v mod 2 ^ bits" for v :: nat
  using take_bit_eq_mask [of bits v] by (simp add: mask_eq_exp_minus_1 take_bit_eq_mod)

lemma base2e_loop_prints:
  assumes "0 < bits"
  shows "length (base_text bits upper v) \<le> n \<Longrightarrow> n \<le> length buf \<Longrightarrow>
    base2e_loop bits upper v (int n) buf = printed_before n (base_text bits upper v) buf"
proof (induction v arbitrary: n buf rule: less_induct)
  case (less v)
  define c where "c = base_digit bits upper (v mod 2 ^ bits)"
  have n: "1 \<le> n" using less.prems(1) by (cases n) auto
  have put: "put (int n - 1) c buf = Some (take (n - 1) buf @ [c] @ drop n buf)"
    using put_inside [of "n - 1" buf c] n less.prems(2) by (simp add: of_nat_diff)
  show ?case
  proof (cases "v < 2 ^ bits")
    case True
    then have "base_text bits upper v = [c]" "drop_bit bits v = 0"
      by (simp_all add: base_text.simps [of bits upper v] c_def drop_bit_eq_div)
    then show ?thesis using put by (simp add: base2e_loop.simps [of bits] low_bits printed_before_def flip: c_def)
  next
    case False
    then have more: "drop_bit bits v \<noteq> 0" "drop_bit bits v = v div 2 ^ bits" by (simp_all add: drop_bit_eq_div div_eq_0_iff)
    have t: "base_text bits upper v = base_text bits upper (v div 2 ^ bits) @ [c]"
      using False assms by (simp add: base_text.simps [of bits upper v] c_def)
    have "base2e_loop bits upper v (int n) buf =
        base2e_loop bits upper (v div 2 ^ bits) (int (n - 1)) (take (n - 1) buf @ [c] @ drop n buf)"
      using put more assms n
      by (subst base2e_loop.simps) (simp add: low_bits of_nat_diff flip: c_def)
    also have "\<dots> = printed_before (n - 1) (base_text bits upper (v div 2 ^ bits)) (take (n - 1) buf @ [c] @ drop n buf)"
      using drop_bit_smaller [of bits v] more assms less.prems t by (intro less.IH) auto
    also have "\<dots> = printed_before n (base_text bits upper v) buf"
      using printed_before_more [of "base_text bits upper (v div 2 ^ bits)" "[c]" n buf] less.prems t by simp
    finally show ?thesis .
  qed
qed

theorem format_base2e_prints:
  assumes "0 < bits" and "length (base_text bits upper v) \<le> sz" and "sz \<le> length buf"
  shows "do_format_base2e bits buf v sz upper =
    Some (take (sz - length (base_text bits upper v)) buf @ base_text bits upper v @ drop sz buf,
          int sz - int (length (base_text bits upper v)))"
  using base2e_loop_prints [OF assms] by (simp add: do_format_base2e_def printed_before_def)

lemma count_shifts_length: "0 < bits \<Longrightarrow> count_shifts bits m k = length (base_text bits upper m) + k"
proof (induction bits m k rule: count_shifts.induct)
  case (1 bits m k)
  then show ?case
    by (cases "m < 2 ^ bits")
      (simp_all add: count_shifts.simps [of bits m] base_text.simps [of bits upper m] drop_bit_eq_div div_eq_0_iff)
qed

theorem count_digits_base2_correct: "0 < bits \<Longrightarrow> count_digits_base2 bits n = length (base_text bits upper n)"
  by (simp add: count_digits_base2_def count_shifts_length [of bits n 0 upper])

lemma count_shifts_bits: "0 < bits \<Longrightarrow> 2 ^ k \<le> m \<Longrightarrow> m < 2 ^ Suc k \<Longrightarrow> count_shifts bits m j = k div bits + 1 + j"
proof (induction bits m j arbitrary: k rule: count_shifts.induct)
  case (1 bits m j)
  show ?case
  proof (cases "k < bits")
    case True
    have "m < 2 ^ bits" using "1.prems"(3) True power_increasing [of "Suc k" bits "2 :: nat"] by linarith
    then show ?thesis using True by (simp add: count_shifts.simps [of bits m] drop_bit_eq_div)
  next
    case False
    then obtain i where k: "k = bits + i" using le_Suc_ex not_less by blast
    have m1: "2 ^ i \<le> m div 2 ^ bits" "m div 2 ^ bits < 2 ^ Suc i"
      using "1.prems" unfolding k by (simp_all add: less_eq_div_iff_mult_less_eq div_less_iff_less_mult power_add mult.commute)
    then have ne: "drop_bit bits m \<noteq> 0" by (auto simp: drop_bit_eq_div)
    then show ?thesis
      using 1 m1 by (subst count_shifts.simps) (simp add: drop_bit_eq_div k div_add_self1)
  qed
qed

theorem count_digits_base2_32_correct:
  assumes "0 < bits"
  shows "count_digits_base2_32 bits n = count_digits_base2 bits (unat n)"
proof -
  obtain k where k: "builtin_clz (n OR 1) = LENGTH(32) - 1 - k" "k < LENGTH(32)"
    "k = 0 \<or> 2 ^ k \<le> unat n" "unat n < 2 ^ Suc k"
    by (rule builtin_clz_or_one)
  have x: "(31 - k) XOR 31 = k" using willets_rows k(2) by (simp add: list_all_iff)
  have "count_shifts bits (unat n) 0 = k div bits + 1"
  proof (cases "unat n = 0")
    case True
    then have "k = 0" using k(3) by auto
    then show ?thesis using True by (simp add: count_shifts.simps)
  next
    case False
    then have "2 ^ k \<le> unat n" using k(3) by auto
    then show ?thesis using count_shifts_bits [OF assms _ k(4)] by simp
  qed
  then show ?thesis using k(1) x by (simp add: count_digits_base2_32_def count_digits_base2_def)
qed

text \<open>
  C21: The digit counters agree. For every number of 64 and of 32 bits, the tables indexed by the highest bit give the count of the
  portable loop, which is the number of decimal digits; the addition of the 32-bit counter carries exactly at the powers of ten.
\<close>

theorem digit_counters_agree:
  "count_digits_64 n = count_digits_any (unat n) \<and> count_digits_32 m = int (count_digits_any (unat m)) \<and>
   count_digits_any k = length (dec k)"
  by (simp add: count_digits_any_correct count_digits_64_correct count_digits_32_correct)

end
