(* ===== verification/Fmt_Utf8.thy ===== *)
theory Fmt_Utf8
  imports Zem_Prelude
begin

text \<open>
  Code points in \<^verbatim>\<open>fmt/bundled/format.h\<close>: the decoder without branches that reads four bytes at a time, the loop over
  the code points of a text, and the two functions that use it, the display width and the position of a code point.
  The decoder is compared with the encoding of code points as UTF-8 defines it.
\<close>

section \<open>The decoder\<close>

definition utf8_masks :: "u32 list" where "utf8_masks = [0x00, 0x7f, 0x1f, 0x0f, 0x07]"
definition utf8_mins :: "u32 list" where "utf8_mins = [4194304, 0, 128, 2048, 65536]"
definition utf8_shiftc :: "nat list" where "utf8_shiftc = [0, 18, 12, 6, 0]"
definition utf8_shifte :: "nat list" where "utf8_shifte = [0, 6, 4, 2, 0]"

text \<open>The length by the upper five bits of the first byte; the last entry is the end of the string literal.\<close>

definition utf8_lens :: "nat list" where
  "utf8_lens = [1,1,1,1,1,1,1,1,1,1,1,1,1,1,1,1,0,0,0,0,0,0,0,0,2,2,2,2,3,3,4,0]"

definition utf8_length :: "u8 \<Rightarrow> nat" where
  "utf8_length b = utf8_lens ! unat (drop_bit 3 b)"

definition utf8_code :: "nat \<Rightarrow> u8 \<Rightarrow> u8 \<Rightarrow> u8 \<Rightarrow> u8 \<Rightarrow> u32" where
  "utf8_code len b0 b1 b2 b3 =
     drop_bit (utf8_shiftc ! len)
       (push_bit 18 (ucast b0 AND utf8_masks ! len) OR push_bit 12 (ucast (b1 AND 0x3f)) OR
        push_bit 6 (ucast (b2 AND 0x3f)) OR ucast (b3 AND 0x3f))"

definition utf8_error :: "nat \<Rightarrow> u32 \<Rightarrow> u8 \<Rightarrow> u8 \<Rightarrow> u8 \<Rightarrow> u32" where
  "utf8_error len c b1 b2 b3 =
     drop_bit (utf8_shifte ! len)
       ((push_bit 6 (if c < utf8_mins ! len then 1 else 0) OR
         push_bit 7 (if drop_bit 11 c = 0x1b then 1 else 0) OR
         push_bit 8 (if c > 0x10FFFF then 1 else 0) OR
         drop_bit 2 (ucast (b1 AND 0xc0)) OR drop_bit 4 (ucast (b2 AND 0xc0)) OR drop_bit 6 (ucast b3)) XOR 0x2a)"

text \<open>How far the next character is, the code point, and the errors.\<close>

definition utf8_decode :: "u8 \<Rightarrow> u8 \<Rightarrow> u8 \<Rightarrow> u8 \<Rightarrow> nat \<times> u32 \<times> u32" where
  "utf8_decode b0 b1 b2 b3 =
     (let len = utf8_length b0; c = utf8_code len b0 b1 b2 b3
      in (len + (if len = 0 then 1 else 0), c, utf8_error len c b1 b2 b3))"

section \<open>UTF-8\<close>

text \<open>The code points that have an encoding, and their encodings.\<close>

definition scalar_value :: "nat \<Rightarrow> bool" where
  "scalar_value cp \<longleftrightarrow> cp \<le> 0x10FFFF \<and> \<not> (0xD800 \<le> cp \<and> cp \<le> 0xDFFF)"

definition utf8_encode :: "nat \<Rightarrow> nat list" where
  "utf8_encode cp =
     (if cp < 0x80 then [cp]
      else if cp < 0x800 then [0xC0 + cp div 0x40, 0x80 + cp mod 0x40]
      else if cp < 0x10000 then [0xE0 + cp div 0x1000, 0x80 + cp div 0x40 mod 0x40, 0x80 + cp mod 0x40]
      else [0xF0 + cp div 0x40000, 0x80 + cp div 0x1000 mod 0x40, 0x80 + cp div 0x40 mod 0x40, 0x80 + cp mod 0x40])"

definition tail_byte :: "u8 \<Rightarrow> bool" where
  "tail_byte b \<longleftrightarrow> unat b div 64 = 2"

section \<open>The decoder in numbers\<close>

lemma no_high_bits: "x < 2 ^ k \<Longrightarrow> k \<le> n \<Longrightarrow> \<not> bit x n" for x :: nat
proof -
  assume x: "x < 2 ^ k" and n: "k \<le> n"
  have "x < 2 ^ n" using x power_increasing [OF n, of "2 :: nat"] by linarith
  then show ?thesis by (simp add: bit_iff_odd)
qed

lemma or_is_plus: "x < 2 ^ k \<Longrightarrow> push_bit k a OR x = a * 2 ^ k + x" for a x :: nat
proof -
  assume x: "x < 2 ^ k"
  have "push_bit k a + x = push_bit k a OR x"
    using no_high_bits [OF x] by (intro disjunctive_add) (auto simp: bit_push_bit_iff not_le)
  then show ?thesis by (simp add: push_bit_eq_mult)
qed

lemma low_six: "unat (b AND 0x3f) = unat b mod 64" for b :: u8
  using take_bit_eq_mask [of 6 "unat b"] by (simp add: unsigned_and_eq mask_eq_exp_minus_1 take_bit_eq_mod)

lemma fits_32: "x < 2 ^ 32 \<Longrightarrow> take_bit 32 x = x" for x :: nat
  by (simp add: take_bit_nat_eq_self_iff)

lemma byte_less: "unat b < 256" for b :: u8
  using unsigned_less [of b, where ?'a = nat] by simp

lemma widen_byte: "unat (ucast b :: u32) = unat b" for b :: u8
proof -
  have "unat b < 2 ^ 32" by (rule order.strict_trans [OF byte_less]) simp
  then show ?thesis using fits_32 by (simp only: unsigned_ucast_eq) simp
qed

lemma unat_push: "unat w * 2 ^ k < 2 ^ 32 \<Longrightarrow> unat (push_bit k w) = push_bit k (unat w)" for w :: u32
  using fits_32 [of "push_bit k (unat w)"] by (simp only: unsigned_push_bit_eq) (simp add: push_bit_eq_mult)

lemma utf8_code_unat:
  assumes "m = unat (ucast b0 AND utf8_masks ! len)" and "m < 128"
  shows "unat (utf8_code len b0 b1 b2 b3) =
    (m * 262144 + unat b1 mod 64 * 4096 + unat b2 mod 64 * 64 + unat b3 mod 64) div 2 ^ (utf8_shiftc ! len)"
proof -
  define x1 where "x1 = unat b1 mod 64"
  define x2 where "x2 = unat b2 mod 64"
  define x3 where "x3 = unat b3 mod 64"
  have x: "x1 < 64" "x2 < 64" "x3 < 64" by (simp_all add: x1_def x2_def x3_def)
  have s2: "push_bit 6 x2 OR x3 = x2 * 64 + x3" using or_is_plus [of x3 6 x2] x by simp
  have s1: "push_bit 12 x1 OR (x2 * 64 + x3) = x1 * 4096 + x2 * 64 + x3"
    using or_is_plus [of "x2 * 64 + x3" 12 x1] x by simp
  have s0: "push_bit 18 m OR (x1 * 4096 + x2 * 64 + x3) = m * 262144 + x1 * 4096 + x2 * 64 + x3"
    using or_is_plus [of "x1 * 4096 + x2 * 64 + x3" 18 m] x by simp
  have p: "unat (push_bit 18 (ucast b0 AND utf8_masks ! len)) = push_bit 18 m"
    using assms by (subst unat_push) simp_all
  have q: "unat (push_bit 12 (ucast (b1 AND 0x3f) :: u32)) = push_bit 12 x1"
    "unat (push_bit 6 (ucast (b2 AND 0x3f) :: u32)) = push_bit 6 x2" "unat (ucast (b3 AND 0x3f) :: u32) = x3"
    using x by (subst unat_push; simp add: widen_byte low_six x1_def x2_def)+ (simp add: widen_byte low_six x3_def)
  have sum: "unat (push_bit 18 (ucast b0 AND utf8_masks ! len) OR push_bit 12 (ucast (b1 AND 0x3f)) OR
        push_bit 6 (ucast (b2 AND 0x3f)) OR ucast (b3 AND 0x3f)) = m * 262144 + x1 * 4096 + x2 * 64 + x3"
    by (simp only: unsigned_or_eq p q or.assoc s0 s1 s2)
  have "m * 262144 + x1 * 4096 + x2 * 64 + x3 < 2 ^ 32" using x assms(2) by simp
  then show ?thesis
    unfolding utf8_code_def unsigned_drop_bit_eq sum
    by (simp add: fits_32 drop_bit_eq_div x1_def x2_def x3_def)
qed

subsection \<open>The bits of the error\<close>

definition error_word :: "nat \<Rightarrow> u32 \<Rightarrow> u8 \<Rightarrow> u8 \<Rightarrow> u8 \<Rightarrow> u32" where
  "error_word len c b1 b2 b3 =
     (push_bit 6 (if c < utf8_mins ! len then 1 else 0) OR
         push_bit 7 (if drop_bit 11 c = 0x1b then 1 else 0) OR
         push_bit 8 (if c > 0x10FFFF then 1 else 0) OR
         drop_bit 2 (ucast (b1 AND 0xc0)) OR drop_bit 4 (ucast (b2 AND 0xc0)) OR drop_bit 6 (ucast b3)) XOR 0x2a"

lemma byte_bits [simp]: "8 \<le> n \<Longrightarrow> \<not> bit b n" for b :: u8
  using bit_imp_le_length [of b n] by auto

lemma error_word_bits:
  "bit (error_word len c b1 b2 b3) 0 \<longleftrightarrow> bit b3 6" "bit (error_word len c b1 b2 b3) 1 \<longleftrightarrow> \<not> bit b3 7"
  "bit (error_word len c b1 b2 b3) 2 \<longleftrightarrow> bit b2 6" "bit (error_word len c b1 b2 b3) 3 \<longleftrightarrow> \<not> bit b2 7"
  "bit (error_word len c b1 b2 b3) 4 \<longleftrightarrow> bit b1 6" "bit (error_word len c b1 b2 b3) 5 \<longleftrightarrow> \<not> bit b1 7"
  "bit (error_word len c b1 b2 b3) 6 \<longleftrightarrow> c < utf8_mins ! len"
  "bit (error_word len c b1 b2 b3) 7 \<longleftrightarrow> drop_bit 11 c = 0x1b"
  "bit (error_word len c b1 b2 b3) 8 \<longleftrightarrow> c > 0x10FFFF"
  by (simp_all add: error_word_def bit_simps)

lemma flag_bit: "k < 32 \<Longrightarrow> bit (push_bit k (if P then 1 else 0 :: u32)) n \<longleftrightarrow> P \<and> n = k"
  by (auto simp: bit_push_bit_iff bit_1_iff)

lemma error_word_high: "9 \<le> n \<Longrightarrow> \<not> bit (error_word len c b1 b2 b3) n"
proof -
  assume n: "9 \<le> n"
  have "\<not> bit (0x2a :: u32) n"
    using bit_unsigned_iff [of "0x2a :: u32" n, where ?'a = nat] no_high_bits [of "unat (0x2a :: u32)" 9 n] n by auto
  moreover have "\<not> bit (push_bit 6 (if P then 1 else 0 :: u32)) n" "\<not> bit (push_bit 7 (if P then 1 else 0 :: u32)) n"
    "\<not> bit (push_bit 8 (if P then 1 else 0 :: u32)) n" for P
    using n by (subst flag_bit; simp)+
  moreover have "\<not> bit (drop_bit k (ucast b :: u32)) n" for k and b :: u8
    using n by (simp add: bit_drop_bit_eq bit_unsigned_iff)
  ultimately show ?thesis
    unfolding error_word_def bit_xor_iff bit_or_iff by (simp only: simp_thms)
qed

lemma drop_bit_zero: "drop_bit k w = 0 \<longleftrightarrow> (\<forall>n\<ge>k. \<not> bit w n)" for w :: u32
proof
  assume z: "drop_bit k w = 0"
  show "\<forall>n\<ge>k. \<not> bit w n"
  proof (intro allI impI)
    fix n assume "k \<le> n"
    then have "bit w n = bit (drop_bit k w) (n - k)" by (simp add: bit_drop_bit_eq)
    then show "\<not> bit w n" using z by simp
  qed
qed (auto intro!: bit_word_eqI simp: bit_drop_bit_eq)

lemma error_word_zero:
  "drop_bit k (error_word len c b1 b2 b3) = 0 \<longleftrightarrow> (\<forall>n\<in>{k..<9}. \<not> bit (error_word len c b1 b2 b3) n)"
  unfolding drop_bit_zero using error_word_high by (meson atLeastLessThan_iff not_le)

lemma tail_byte_bits: "tail_byte b \<longleftrightarrow> bit b 7 \<and> \<not> bit b 6"
proof -
  have "bit b 7 \<longleftrightarrow> odd (unat b div 128)" "bit b 6 \<longleftrightarrow> odd (unat b div 64)"
    using bit_unsigned_iff [of b 7, where ?'a = nat] bit_unsigned_iff [of b 6, where ?'a = nat]
    by (simp_all add: bit_iff_odd [where 'a = nat])
  moreover have "unat b div 128 = unat b div 64 div 2" by (simp add: div_mult2_eq [symmetric])
  moreover have "unat b div 64 < 4" using byte_less [of b] by (simp add: div_less_iff_less_mult)
  then have "unat b div 64 = 0 \<or> unat b div 64 = 1 \<or> unat b div 64 = 2 \<or> unat b div 64 = 3" by arith
  ultimately show ?thesis unfolding tail_byte_def by auto
qed

text \<open>There is no error exactly when the code point is in order and the bytes that belong to the character are tail bytes.\<close>

definition scalar_in_order :: "nat \<Rightarrow> nat \<Rightarrow> bool" where
  "scalar_in_order len cp \<longleftrightarrow> unat (utf8_mins ! len) \<le> cp \<and> cp div 2048 \<noteq> 27 \<and> cp \<le> 0x10FFFF"

lemma error_word_surrogate: "drop_bit 11 c = 0x1b \<longleftrightarrow> unat c div 2048 = 27" for c :: u32
proof -
  have "drop_bit 11 c = 0x1b \<longleftrightarrow> unat (drop_bit 11 c) = unat (0x1b :: u32)" by (simp only: word_unat_eq_iff)
  also have "unat (drop_bit 11 c) = unat c div 2048"
    using fits_32 [of "unat c"] unsigned_less [of c, where ?'a = nat]
    by (simp only: unsigned_drop_bit_eq drop_bit_eq_div [where 'a = nat]) simp
  finally show ?thesis by simp
qed

lemma error_bits_in_order:
  "\<not> bit (error_word len c b1 b2 b3) 6 \<and> \<not> bit (error_word len c b1 b2 b3) 7 \<and> \<not> bit (error_word len c b1 b2 b3) 8
    \<longleftrightarrow> scalar_in_order len (unat c)"
  by (auto simp: error_word_bits scalar_in_order_def error_word_surrogate word_less_nat_alt not_less)

lemma utf8_error_zero:
  "utf8_error (Suc 0) c b1 b2 b3 = 0 \<longleftrightarrow> scalar_in_order (Suc 0) (unat c)"
  "utf8_error 2 c b1 b2 b3 = 0 \<longleftrightarrow> scalar_in_order 2 (unat c) \<and> tail_byte b1"
  "utf8_error 3 c b1 b2 b3 = 0 \<longleftrightarrow> scalar_in_order 3 (unat c) \<and> tail_byte b1 \<and> tail_byte b2"
  "utf8_error 4 c b1 b2 b3 = 0 \<longleftrightarrow> scalar_in_order 4 (unat c) \<and> tail_byte b1 \<and> tail_byte b2 \<and> tail_byte b3"
  "utf8_error 0 c b1 b2 b3 = 0 \<Longrightarrow> scalar_in_order 0 (unat c)"
proof -
  have e: "utf8_error len c b1 b2 b3 = 0 \<longleftrightarrow> (\<forall>n\<in>{utf8_shifte ! len..<9}. \<not> bit (error_word len c b1 b2 b3) n)" for len
    unfolding error_word_zero [symmetric] by (simp add: utf8_error_def error_word_def)
  have nine: "{6..<9} = {6, 7, 8 :: nat}" "{4..<9} = {4, 5, 6, 7, 8 :: nat}" "{2..<9} = {2, 3, 4, 5, 6, 7, 8 :: nat}"
    "{0..<9} = {0, 1, 2, 3, 4, 5, 6, 7, 8 :: nat}" by auto
  have tail: "tail_byte b1 \<longleftrightarrow> \<not> bit (error_word len c b1 b2 b3) 4 \<and> \<not> bit (error_word len c b1 b2 b3) 5"
    "tail_byte b2 \<longleftrightarrow> \<not> bit (error_word len c b1 b2 b3) 2 \<and> \<not> bit (error_word len c b1 b2 b3) 3"
    "tail_byte b3 \<longleftrightarrow> \<not> bit (error_word len c b1 b2 b3) 0 \<and> \<not> bit (error_word len c b1 b2 b3) 1" for len
    unfolding error_word_bits tail_byte_bits by auto
  have s: "utf8_shifte ! Suc 0 = 6" "utf8_shifte ! 2 = 4" "utf8_shifte ! 3 = 2" "utf8_shifte ! 4 = 0" "utf8_shifte ! 0 = 0"
    by (simp_all add: utf8_shifte_def)
  show "utf8_error (Suc 0) c b1 b2 b3 = 0 \<longleftrightarrow> scalar_in_order (Suc 0) (unat c)"
    unfolding e s nine error_bits_in_order [symmetric, of _ _ b1 b2 b3] by simp
  show "utf8_error 2 c b1 b2 b3 = 0 \<longleftrightarrow> scalar_in_order 2 (unat c) \<and> tail_byte b1"
    unfolding e s nine error_bits_in_order [symmetric, of _ _ b1 b2 b3] tail(1) [of 2] by auto
  show "utf8_error 3 c b1 b2 b3 = 0 \<longleftrightarrow> scalar_in_order 3 (unat c) \<and> tail_byte b1 \<and> tail_byte b2"
    unfolding e s nine error_bits_in_order [symmetric, of _ _ b1 b2 b3] tail(1,2) [of 3] by auto
  show "utf8_error 4 c b1 b2 b3 = 0 \<longleftrightarrow> scalar_in_order 4 (unat c) \<and> tail_byte b1 \<and> tail_byte b2 \<and> tail_byte b3"
    unfolding e s nine error_bits_in_order [symmetric, of _ _ b1 b2 b3] tail [of 4] by auto
  show "utf8_error 0 c b1 b2 b3 = 0 \<Longrightarrow> scalar_in_order 0 (unat c)"
    unfolding e s nine error_bits_in_order [symmetric, of _ _ b1 b2 b3] by simp
qed

section \<open>The decoder reads UTF-8\<close>

lemma byte_div8: "utf8_length b = utf8_lens ! (unat b div 8)"
proof -
  have "take_bit 8 (unat b) = unat b" using byte_less [of b] by (simp add: take_bit_nat_eq_self_iff)
  then have "unat (drop_bit 3 b) = unat b div 8"
    by (simp only: unsigned_drop_bit_eq drop_bit_eq_div [where 'a = nat]) simp
  then show ?thesis by (simp add: utf8_length_def)
qed

lemma lens_ranges:
  "list_all (\<lambda>k. utf8_lens ! k = (if k < 16 then 1 else if k < 24 then 0 else if k < 28 then 2 else if k < 30 then 3
     else if k < 31 then 4 else 0)) [0..<32]"
  by code_simp

lemma utf8_length_eq:
  "utf8_length b = (if unat b < 128 then 1 else if unat b < 192 then 0 else if unat b < 224 then 2
     else if unat b < 240 then 3 else if unat b < 248 then 4 else 0)"
proof -
  have "unat b div 8 \<in> set [0..<32]" using byte_less [of b] by (simp add: div_less_iff_less_mult)
  then have "utf8_lens ! (unat b div 8) = (if unat b div 8 < 16 then 1 else if unat b div 8 < 24 then 0
      else if unat b div 8 < 28 then 2 else if unat b div 8 < 30 then 3 else if unat b div 8 < 31 then 4 else 0)"
    using lens_ranges unfolding list_all_iff by blast
  then show ?thesis by (simp add: byte_div8 div_less_iff_less_mult)
qed

lemma masked:
  "unat (ucast b AND utf8_masks ! Suc 0) = unat b mod 128" "unat (ucast b AND utf8_masks ! 2) = unat b mod 32"
  "unat (ucast b AND utf8_masks ! 3) = unat b mod 16" "unat (ucast b AND utf8_masks ! 4) = unat b mod 8"
  "unat (ucast b AND utf8_masks ! 0) = 0" for b :: u8
  using take_bit_eq_mask [of 7 "unat b"] take_bit_eq_mask [of 5 "unat b"] take_bit_eq_mask [of 4 "unat b"]
    take_bit_eq_mask [of 3 "unat b"]
  by (simp_all add: utf8_masks_def unsigned_and_eq widen_byte mask_eq_exp_minus_1 take_bit_eq_mod)

lemma code_of_length:
  "unat (utf8_code (Suc 0) b0 b1 b2 b3) = unat b0 mod 128"
  "unat (utf8_code 2 b0 b1 b2 b3) = unat b0 mod 32 * 64 + unat b1 mod 64"
  "unat (utf8_code 3 b0 b1 b2 b3) = unat b0 mod 16 * 4096 + unat b1 mod 64 * 64 + unat b2 mod 64"
  "unat (utf8_code 4 b0 b1 b2 b3) = unat b0 mod 8 * 262144 + unat b1 mod 64 * 4096 + unat b2 mod 64 * 64 + unat b3 mod 64"
  "unat (utf8_code 0 b0 b1 b2 b3) < 4194304"
proof -
  have shift: "(m * 262144 + x * 4096 + y * 64 + z) div 262144 = m" "(m * 262144 + x * 4096 + y * 64 + z) div 4096 = m * 64 + x"
    "(m * 262144 + x * 4096 + y * 64 + z) div 64 = m * 4096 + x * 64 + y" if "x < 64" "y < 64" "z < 64" for m x y z :: nat
    using that by (auto intro!: div_nat_eqI)
  show "unat (utf8_code (Suc 0) b0 b1 b2 b3) = unat b0 mod 128"
    by (subst utf8_code_unat [OF refl]) (simp_all add: masked shift utf8_shiftc_def)
  have below: "x mod 64 < 64" for x :: nat by simp
  show "unat (utf8_code 2 b0 b1 b2 b3) = unat b0 mod 32 * 64 + unat b1 mod 64"
    by (subst utf8_code_unat [OF refl])
      (auto simp: masked shift utf8_shiftc_def intro: less_le_trans [OF mod_less_divisor])
  show "unat (utf8_code 3 b0 b1 b2 b3) = unat b0 mod 16 * 4096 + unat b1 mod 64 * 64 + unat b2 mod 64"
    by (subst utf8_code_unat [OF refl])
      (auto simp: masked shift utf8_shiftc_def intro: less_le_trans [OF mod_less_divisor])
  show "unat (utf8_code 4 b0 b1 b2 b3) =
      unat b0 mod 8 * 262144 + unat b1 mod 64 * 4096 + unat b2 mod 64 * 64 + unat b3 mod 64"
    by (subst utf8_code_unat [OF refl]) (auto simp: masked utf8_shiftc_def intro: less_le_trans [OF mod_less_divisor])
  have "unat b1 mod 64 * 4096 + unat b2 mod 64 * 64 + unat b3 mod 64 < 4194304"
    using below [of "unat b1"] below [of "unat b2"] below [of "unat b3"] by linarith
  then show "unat (utf8_code 0 b0 b1 b2 b3) < 4194304"
    by (subst utf8_code_unat [OF refl]) (auto simp: masked utf8_shiftc_def)
qed

lemma tail_byte_value: "tail_byte b \<longleftrightarrow> unat b = 128 + unat b mod 64"
  unfolding tail_byte_def using div_mult_mod_eq [of "unat b" 64] by linarith

lemma quotient_known: "k * m \<le> x \<Longrightarrow> x < Suc k * m \<Longrightarrow> x = k * m + x mod m" for x k m :: nat
proof -
  assume "k * m \<le> x" "x < Suc k * m"
  then have "x div m = k" by (simp add: div_nat_eqI mult.commute)
  then show ?thesis using div_mult_mod_eq [of x m] by simp
qed

lemma lead_byte:
  "192 \<le> x \<Longrightarrow> x < 224 \<Longrightarrow> x = 192 + x mod 32" "224 \<le> x \<Longrightarrow> x < 240 \<Longrightarrow> x = 224 + x mod 16"
  "240 \<le> x \<Longrightarrow> x < 248 \<Longrightarrow> x = 240 + x mod 8" for x :: nat
  using quotient_known [of 6 32 x] quotient_known [of 14 16 x] quotient_known [of 30 8 x] by simp_all

lemma lead_byte_mod: "q < 32 \<Longrightarrow> (192 + q) mod 32 = q" "q < 16 \<Longrightarrow> (224 + q) mod 16 = q" "q < 8 \<Longrightarrow> (240 + q) mod 8 = q"
  for q :: nat
  using mod_mult_self3 [of 6 32 q] mod_mult_self3 [of 14 16 q] mod_mult_self3 [of 30 8 q] by simp_all

lemma not_surrogate: "cp div 2048 \<noteq> 27 \<longleftrightarrow> \<not> (0xD800 \<le> cp \<and> cp \<le> 0xDFFF)" for cp :: nat
proof -
  have "cp div 2048 = 27 \<longleftrightarrow> 27 * 2048 \<le> cp \<and> cp < 28 * 2048"
    by (auto intro!: div_nat_eqI)
  then show ?thesis by auto
qed

lemma code_point_parts:
  "cp = cp div 64 * 64 + cp mod 64"
  "cp = cp div 4096 * 4096 + cp div 64 mod 64 * 64 + cp mod 64"
  "cp = cp div 262144 * 262144 + cp div 4096 mod 64 * 4096 + cp div 64 mod 64 * 64 + cp mod 64" for cp :: nat
proof -
  have d: "cp div 4096 = cp div 64 div 64" "cp div 262144 = cp div 64 div 64 div 64"
    by (simp_all add: div_mult2_eq [symmetric])
  show "cp = cp div 64 * 64 + cp mod 64" by simp
  then show 2: "cp = cp div 4096 * 4096 + cp div 64 mod 64 * 64 + cp mod 64"
    using div_mult_mod_eq [of "cp div 64" 64] unfolding d by linarith
  show "cp = cp div 262144 * 262144 + cp div 4096 mod 64 * 4096 + cp div 64 mod 64 * 64 + cp mod 64"
    using 2 div_mult_mod_eq [of "cp div 64 div 64" 64] unfolding d by linarith
qed

text \<open>The bytes of an encoding are read back, whatever comes behind them.\<close>

lemma code_word: "unat c = cp \<Longrightarrow> c = word_of_nat cp" for c :: u32
  by (metis of_nat_unat ucast_id)

definition encoded_by :: "nat \<Rightarrow> u8 \<Rightarrow> u8 \<Rightarrow> u8 \<Rightarrow> u8 \<Rightarrow> bool" where
  "encoded_by cp b0 b1 b2 b3 \<longleftrightarrow>
     cp \<le> 0x10FFFF \<and> cp div 2048 \<noteq> 27 \<and> prefix (utf8_encode cp) (map unat [b0, b1, b2, b3])"

lemma decode_one:
  assumes "encoded_by cp b0 b1 b2 b3" "cp < 0x80"
  shows "utf8_decode b0 b1 b2 b3 = (length (utf8_encode cp), word_of_nat cp, 0)"
proof -
  have b: "unat b0 = cp" using assms by (simp add: encoded_by_def utf8_encode_def)
  have len: "utf8_length b0 = Suc 0" using assms b by (simp add: utf8_length_eq)
  have c: "unat (utf8_code (Suc 0) b0 b1 b2 b3) = cp" using assms b by (simp add: code_of_length)
  have "utf8_error (Suc 0) (utf8_code (Suc 0) b0 b1 b2 b3) b1 b2 b3 = 0"
    using assms by (simp add: utf8_error_zero c scalar_in_order_def utf8_mins_def encoded_by_def)
  then show ?thesis using len assms code_word [OF c] by (simp add: utf8_decode_def Let_def utf8_encode_def)
qed

lemma decode_two:
  assumes "encoded_by cp b0 b1 b2 b3" "0x80 \<le> cp" "cp < 0x800"
  shows "utf8_decode b0 b1 b2 b3 = (length (utf8_encode cp), word_of_nat cp, 0)"
proof -
  have b: "unat b0 = 192 + cp div 64" "unat b1 = 128 + cp mod 64" using assms by (simp_all add: encoded_by_def utf8_encode_def)
  have q: "cp div 64 < 32" using assms by (simp add: div_less_iff_less_mult)
  have len: "utf8_length b0 = 2" using q b by (simp add: utf8_length_eq)
  have t: "tail_byte b1" "unat b1 mod 64 = cp mod 64" using b by (simp_all add: tail_byte_value mod_add_eq [symmetric])
  have c: "unat (utf8_code 2 b0 b1 b2 b3) = cp"
    using code_point_parts(1) [of cp] t by (simp only: code_of_length b(1) lead_byte_mod(1) [OF q])
  have "utf8_error 2 (utf8_code 2 b0 b1 b2 b3) b1 b2 b3 = 0"
    using assms t by (simp add: utf8_error_zero c scalar_in_order_def utf8_mins_def encoded_by_def)
  then show ?thesis using len assms code_word [OF c] by (simp add: utf8_decode_def Let_def utf8_encode_def)
qed

lemma decode_three:
  assumes "encoded_by cp b0 b1 b2 b3" "0x800 \<le> cp" "cp < 0x10000"
  shows "utf8_decode b0 b1 b2 b3 = (length (utf8_encode cp), word_of_nat cp, 0)"
proof -
  have b: "unat b0 = 224 + cp div 4096" "unat b1 = 128 + cp div 64 mod 64" "unat b2 = 128 + cp mod 64"
    using assms by (simp_all add: encoded_by_def utf8_encode_def)
  have q: "cp div 4096 < 16" using assms by (simp add: div_less_iff_less_mult)
  have len: "utf8_length b0 = 3" using q b by (simp add: utf8_length_eq)
  have t: "tail_byte b1" "unat b1 mod 64 = cp div 64 mod 64" "tail_byte b2" "unat b2 mod 64 = cp mod 64"
    using b by (simp_all add: tail_byte_value mod_add_eq [symmetric])
  have c: "unat (utf8_code 3 b0 b1 b2 b3) = cp"
    using code_point_parts(2) [of cp] t by (simp only: code_of_length b(1) lead_byte_mod(2) [OF q])
  have "utf8_error 3 (utf8_code 3 b0 b1 b2 b3) b1 b2 b3 = 0"
    using assms t by (simp add: utf8_error_zero c scalar_in_order_def utf8_mins_def encoded_by_def)
  then show ?thesis using len assms code_word [OF c] by (simp add: utf8_decode_def Let_def utf8_encode_def)
qed

lemma decode_four:
  assumes "encoded_by cp b0 b1 b2 b3" "0x10000 \<le> cp"
  shows "utf8_decode b0 b1 b2 b3 = (length (utf8_encode cp), word_of_nat cp, 0)"
proof -
  have b: "unat b0 = 240 + cp div 262144" "unat b1 = 128 + cp div 4096 mod 64" "unat b2 = 128 + cp div 64 mod 64"
    "unat b3 = 128 + cp mod 64"
    using assms by (simp_all add: encoded_by_def utf8_encode_def)
  have q: "cp div 262144 < 8" using assms by (simp add: encoded_by_def div_less_iff_less_mult)
  have len: "utf8_length b0 = 4" using q b by (simp add: utf8_length_eq)
  have t: "tail_byte b1" "unat b1 mod 64 = cp div 4096 mod 64" "tail_byte b2" "unat b2 mod 64 = cp div 64 mod 64"
    "tail_byte b3" "unat b3 mod 64 = cp mod 64"
    using b by (simp_all add: tail_byte_value mod_add_eq [symmetric])
  have c: "unat (utf8_code 4 b0 b1 b2 b3) = cp"
    using code_point_parts(3) [of cp] t by (simp only: code_of_length b(1) lead_byte_mod(3) [OF q])
  have "utf8_error 4 (utf8_code 4 b0 b1 b2 b3) b1 b2 b3 = 0"
    using assms t by (simp add: utf8_error_zero c scalar_in_order_def utf8_mins_def encoded_by_def)
  then show ?thesis using len assms code_word [OF c] by (simp add: utf8_decode_def Let_def utf8_encode_def)
qed

lemma decode_encode_lemma:
  assumes "scalar_value cp" and "prefix (utf8_encode cp) (map unat [b0, b1, b2, b3])"
  shows "utf8_decode b0 b1 b2 b3 = (length (utf8_encode cp), word_of_nat cp, 0)"
proof -
  have "encoded_by cp b0 b1 b2 b3" using assms unfolding scalar_value_def not_surrogate encoded_by_def by simp
  then show ?thesis using decode_one decode_two decode_three decode_four by (meson not_less)
qed

text \<open>Nothing else is accepted: without an error the bytes are the encoding of the code point.\<close>

lemma scalar_in_order: "scalar_in_order len cp \<Longrightarrow> scalar_value cp"
  unfolding scalar_in_order_def scalar_value_def not_surrogate by blast

lemma compose_parts:
  fixes m x y z :: nat
  assumes "x < 64" and "y < 64" and "z < 64"
  shows "(m * 64 + x) div 64 = m" "(m * 64 + x) mod 64 = x"
    "(m * 4096 + x * 64 + y) div 4096 = m" "(m * 4096 + x * 64 + y) div 64 = m * 64 + x" "(m * 4096 + x * 64 + y) mod 64 = y"
    "(m * 262144 + x * 4096 + y * 64 + z) div 262144 = m" "(m * 262144 + x * 4096 + y * 64 + z) div 4096 = m * 64 + x"
    "(m * 262144 + x * 4096 + y * 64 + z) div 64 = m * 4096 + x * 64 + y" "(m * 262144 + x * 4096 + y * 64 + z) mod 64 = z"
proof -
  have "(k * 64 + r) mod 64 = r" if "r < 64" for k r :: nat using that by simp
  moreover have "m * 4096 + x * 64 + y = (m * 64 + x) * 64 + y"
    "m * 262144 + x * 4096 + y * 64 + z = (m * 4096 + x * 64 + y) * 64 + z" by simp_all
  ultimately show "(m * 64 + x) mod 64 = x" "(m * 4096 + x * 64 + y) mod 64 = y" "(m * 262144 + x * 4096 + y * 64 + z) mod 64 = z"
    using assms by metis+
qed (use assms in \<open>auto intro!: div_nat_eqI\<close>)

lemma mod_64_less: "x mod 64 < 64" for x :: nat
  by simp

lemma encode_two:
  assumes "scalar_in_order 2 cp" and "cp = m * 64 + x" and "m < 32" and "x < 64"
  shows "utf8_encode cp = [192 + m, 128 + x]"
proof -
  have "0x80 \<le> cp" "cp < 0x800" using assms by (simp_all add: scalar_in_order_def utf8_mins_def)
  moreover have "cp div 64 = m" "cp mod 64 = x" unfolding assms(2) using compose_parts [of x 0 0 m] assms(4) by simp_all
  ultimately show ?thesis by (simp add: utf8_encode_def)
qed

lemma encode_three:
  assumes "scalar_in_order 3 cp" and "cp = m * 4096 + x * 64 + y" and "m < 16" and "x < 64" and "y < 64"
  shows "utf8_encode cp = [224 + m, 128 + x, 128 + y]"
proof -
  have "0x800 \<le> cp" "cp < 0x10000" using assms by (simp_all add: scalar_in_order_def utf8_mins_def)
  moreover have "cp div 4096 = m" "cp div 64 mod 64 = x" "cp mod 64 = y"
    unfolding assms(2) using compose_parts [of x y 0 m] assms(4,5) by simp_all
  ultimately show ?thesis by (simp add: utf8_encode_def)
qed

lemma encode_four:
  assumes "scalar_in_order 4 cp" and "cp = m * 262144 + x * 4096 + y * 64 + z" and "x < 64" and "y < 64" and "z < 64"
  shows "utf8_encode cp = [240 + m, 128 + x, 128 + y, 128 + z]"
proof -
  have "0x10000 \<le> cp" using assms(1) by (simp add: scalar_in_order_def utf8_mins_def)
  moreover have "cp div 262144 = m" "cp div 4096 mod 64 = x" "cp div 64 mod 64 = y" "cp mod 64 = z"
    unfolding assms(2) compose_parts [OF assms(3-5)] using compose_parts(2,5) [OF assms(3-5)] by simp_all
  ultimately show ?thesis by (simp add: utf8_encode_def)
qed

lemma decode_sound_lemma:
  assumes "utf8_decode b0 b1 b2 b3 = (n, c, 0)"
  shows "scalar_value (unat c) \<and> utf8_encode (unat c) = take n (map unat [b0, b1, b2, b3])"
proof -
  define len where "len = utf8_length b0"
  have c: "c = utf8_code len b0 b1 b2 b3" and e: "utf8_error len c b1 b2 b3 = 0" and n: "n = len + (if len = 0 then 1 else 0)"
    using assms by (auto simp: utf8_decode_def Let_def len_def)
  note tail = tail_byte_value [THEN iffD1]
  consider "unat b0 < 128" "len = Suc 0" | "192 \<le> unat b0" "unat b0 < 224" "len = 2" | "224 \<le> unat b0" "unat b0 < 240" "len = 3"
    | "240 \<le> unat b0" "unat b0 < 248" "len = 4" | "len = 0"
    by (cases "unat b0 < 128"; cases "unat b0 < 192"; cases "unat b0 < 224"; cases "unat b0 < 240"; cases "unat b0 < 248")
      (simp_all add: len_def utf8_length_eq)
  then show ?thesis
  proof cases
    case 1
    then have "unat c = unat b0" using c by (simp add: code_of_length)
    then show ?thesis using e n 1 by (auto simp: utf8_error_zero scalar_in_order utf8_encode_def)
  next
    case 2
    have o: "scalar_in_order 2 (unat c)" "tail_byte b1" using e 2 by (simp_all add: utf8_error_zero)
    have "utf8_encode (unat c) = [192 + unat b0 mod 32, 128 + unat b1 mod 64]"
      using c 2 by (intro encode_two [OF o(1)]) (simp_all add: code_of_length)
    then show ?thesis using o n 2 lead_byte(1) [OF 2(1,2)] tail [OF o(2)] by (simp add: scalar_in_order)
  next
    case 3
    have o: "scalar_in_order 3 (unat c)" "tail_byte b1" "tail_byte b2" using e 3 by (simp_all add: utf8_error_zero)
    have "utf8_encode (unat c) = [224 + unat b0 mod 16, 128 + unat b1 mod 64, 128 + unat b2 mod 64]"
      using c 3 by (intro encode_three [OF o(1)]) (simp_all add: code_of_length)
    then show ?thesis
      using o n 3 lead_byte(2) [OF 3(1,2)] tail [OF o(2)] tail [OF o(3)] by (simp add: scalar_in_order numeral_3_eq_3)
  next
    case 4
    have o: "scalar_in_order 4 (unat c)" "tail_byte b1" "tail_byte b2" "tail_byte b3" using e 4 by (simp_all add: utf8_error_zero)
    have "utf8_encode (unat c) = [240 + unat b0 mod 8, 128 + unat b1 mod 64, 128 + unat b2 mod 64, 128 + unat b3 mod 64]"
      using c 4 by (intro encode_four [OF o(1)]) (simp_all add: code_of_length)
    then show ?thesis
      using o n 4 lead_byte(3) [OF 4(1,2)] tail [OF o(2)] tail [OF o(3)] tail [OF o(4)] by (simp add: scalar_in_order)
  next
    case 5
    have "scalar_in_order 0 (unat c)" using e 5 utf8_error_zero(5) by simp
    moreover have "unat c < 4194304" using c 5 code_of_length(5) by simp
    ultimately show ?thesis by (simp add: scalar_in_order_def utf8_mins_def)
  qed
qed

section \<open>The loop over a text\<close>

text \<open>
  \<open>f\<close> is given the code point, all ones for a byte that is not part of one, where it stands and how many bytes it has; it says
  whether to go on. The text is read in blocks of four bytes; the last three are copied into a
  buffer with zeros behind them.
\<close>

definition invalid_code_point :: u32 where
  "invalid_code_point = - 1"

type_synonym 'a visitor = "u32 \<Rightarrow> nat \<Rightarrow> nat \<Rightarrow> 'a \<Rightarrow> bool \<times> 'a"

definition byte_at :: "string \<Rightarrow> nat \<Rightarrow> u8" where
  "byte_at s i = (if i < length s then of_char (s ! i) else 0)"

text \<open>The lambda \<^verbatim>\<open>decode\<close>: \<open>p\<close> is where the four bytes of \<open>buf\<close> from \<open>i\<close> on stand in the text.\<close>

definition decode_step :: "'a visitor \<Rightarrow> string \<Rightarrow> nat \<Rightarrow> nat \<Rightarrow> 'a \<Rightarrow> nat option \<times> 'a" where
  "decode_step f buf i p st =
     (let (n, cp, error) = utf8_decode (byte_at buf i) (byte_at buf (i + 1)) (byte_at buf (i + 2)) (byte_at buf (i + 3));
          (go, st1) = f (if error \<noteq> 0 then invalid_code_point else cp) p (if error \<noteq> 0 then 1 else n) st
      in (if go then Some (if error \<noteq> 0 then i + 1 else i + n) else None, st1))"

lemma utf8_decode_moves: "utf8_decode b0 b1 b2 b3 = (n, c, e) \<Longrightarrow> 1 \<le> n \<and> n \<le> 4"
  by (auto simp: utf8_decode_def Let_def utf8_length_eq split: if_splits)

lemma decode_step_moves: "decode_step f buf i p st = (Some j, st1) \<Longrightarrow> i < j \<and> j \<le> i + 4"
  using utf8_decode_moves [of "byte_at buf i" "byte_at buf (i + 1)" "byte_at buf (i + 2)" "byte_at buf (i + 3)"]
  by (force simp: decode_step_def Let_def split: prod.splits if_splits)

function block_loop :: "'a visitor \<Rightarrow> string \<Rightarrow> nat \<Rightarrow> 'a \<Rightarrow> nat option \<times> 'a" where
  "block_loop f s p st =
     (if p + 4 \<le> length s
      then (case decode_step f s p p st of
              (None, st1) \<Rightarrow> (None, st1)
            | (Some p1, st1) \<Rightarrow> block_loop f s p1 st1)
      else (Some p, st))"
  by pat_completeness auto
termination
  by (relation "measure (\<lambda>(f, s, p, st). length s - p)") (auto dest!: decode_step_moves [OF sym])

function tail_loop :: "'a visitor \<Rightarrow> string \<Rightarrow> nat \<Rightarrow> nat \<Rightarrow> nat \<Rightarrow> 'a \<Rightarrow> 'a" where
  "tail_loop f buf num_chars_left i p st =
     (case decode_step f buf i p st of
        (None, st1) \<Rightarrow> st1
      | (Some j, st1) \<Rightarrow> if j < num_chars_left then tail_loop f buf num_chars_left j (p + (j - i)) st1 else st1)"
  by pat_completeness auto
termination
  by (relation "measure (\<lambda>(f, buf, num_chars_left, i, p, st). num_chars_left - i)") (auto dest!: decode_step_moves [OF sym])

declare block_loop.simps [simp del] tail_loop.simps [simp del]

definition for_each_codepoint :: "string \<Rightarrow> 'a visitor \<Rightarrow> 'a \<Rightarrow> 'a" where
  "for_each_codepoint s f st =
     (case (if length s \<ge> 4 then block_loop f s 0 st else (Some 0, st)) of
        (None, st1) \<Rightarrow> st1
      | (Some p, st1) \<Rightarrow>
          let num_chars_left = length s - p in
          if num_chars_left = 0 then st1
          else let left = num_chars_left AND 3; buf = drop p s @ replicate (7 - left) (CHR 0x00)
            in tail_loop f buf left 0 p st1)"

text \<open>The same in one loop, the text continued with zeros.\<close>

function simple_loop :: "'a visitor \<Rightarrow> string \<Rightarrow> nat \<Rightarrow> 'a \<Rightarrow> 'a" where
  "simple_loop f s p st =
     (if p < length s
      then (case decode_step f s p p st of
              (None, st1) \<Rightarrow> st1
            | (Some p1, st1) \<Rightarrow> simple_loop f s p1 st1)
      else st)"
  by pat_completeness auto
termination
  by (relation "measure (\<lambda>(f, s, p, st). length s - p)") (auto dest!: decode_step_moves [OF sym])

declare simple_loop.simps [simp del]

lemma simple_loop_end: "length s \<le> p \<Longrightarrow> simple_loop f s p st = st"
  by (simp add: simple_loop.simps)

lemma block_loop_simple:
  "(case block_loop f s p st of (None, st1) \<Rightarrow> st1 | (Some q, st1) \<Rightarrow> simple_loop f s q st1) = simple_loop f s p st"
proof (induction f s p st rule: block_loop.induct)
  case (1 f s p st)
  show ?case
  proof (cases "p + 4 \<le> length s")
    case True
    then show ?thesis
      using 1 by (subst block_loop.simps, subst (2) simple_loop.simps) (auto split: prod.splits option.splits)
  next
    case False
    then show ?thesis by (subst block_loop.simps) simp
  qed
qed

lemma block_loop_stops: "block_loop f s p st = (Some q, st1) \<Longrightarrow> p \<le> length s \<Longrightarrow> q \<le> length s \<and> length s - q < 4"
proof (induction f s p st rule: block_loop.induct)
  case (1 f s p st)
  show ?case
  proof (cases "p + 4 \<le> length s")
    case True
    obtain r st2 where d: "decode_step f s p p st = (r, st2)" by fastforce
    then obtain p1 where r: "r = Some p1"
      using 1(2) True by (subst (asm) block_loop.simps) (auto split: option.splits)
    then have "block_loop f s p1 st2 = (Some q, st1)"
      using 1(2) d True by (subst (asm) block_loop.simps) simp
    moreover have "p1 \<le> length s" using decode_step_moves d r True by fastforce
    ultimately show ?thesis using 1(1) [OF True d [symmetric, unfolded r]] r d by simp
  next
    case False
    then show ?thesis using 1(2,3) by (subst (asm) block_loop.simps) auto
  qed
qed

text \<open>Behind the end of the text there are only zeros, which no character goes on with.\<close>

lemma decode_step_padded:
  assumes "buf = drop p s @ replicate k (CHR 0x00)" and "q = p + i"
  shows "decode_step f buf i q st = (let (r, st1) = decode_step f s q q st in (map_option (\<lambda>j. j - p) r, st1))"
proof -
  have byte: "byte_at buf (i + d) = byte_at s (q + d)" for d
    using assms by (auto simp: byte_at_def nth_append add.assoc)
  have "decode_step f buf i q st = (let (r, st1) = decode_step f s q q st in (map_option (\<lambda>j. j - p) r, st1))"
    using byte [of 0] byte [of 1] byte [of 2] byte [of 3] assms(2)
    by (simp add: decode_step_def Let_def split: prod.split)
  then show ?thesis .
qed

lemma tail_loop_simple:
  assumes "buf = drop p s @ replicate k (CHR 0x00)"
  shows "i < length s - p \<Longrightarrow> tail_loop f buf (length s - p) i (p + i) st = simple_loop f s (p + i) st"
proof (induction "length s - p - i" arbitrary: i st rule: less_induct)
  case less
  have inside: "p + i < length s" using less.prems by simp
  obtain r st1 where d: "decode_step f s (p + i) (p + i) st = (r, st1)" by fastforce
  show ?case
  proof (cases r)
    case None
    then show ?thesis
      using inside d decode_step_padded [OF assms refl, of f i st]
      by (subst tail_loop.simps, subst simple_loop.simps) simp
  next
    case (Some q)
    then have q: "p + i < q" using decode_step_moves [of f s "p + i" "p + i" st q st1] d by simp
    have step: "tail_loop f buf (length s - p) i (p + i) st =
        (if q - p < length s - p then tail_loop f buf (length s - p) (q - p) (p + (q - p)) st1 else st1)"
    proof -
      have "decode_step f buf i (p + i) st = (Some (q - p), st1)"
        using d Some decode_step_padded [OF assms refl, of f i st] by simp
      moreover have "p + i + (q - p - i) = p + (q - p)" using q by linarith
      ultimately show ?thesis by (subst tail_loop.simps) (simp only: prod.case option.case)
    qed
    show ?thesis
    proof (cases "q < length s")
      case True
      then have "q - p < length s - p" using q by simp
      then show ?thesis
        unfolding step using True less.hyps [of "q - p" st1] less.prems inside q d Some
        by (subst simple_loop.simps) simp
    next
      case False
      then have "\<not> q - p < length s - p" by simp
      then show ?thesis
        unfolding step using False inside q d Some by (subst simple_loop.simps) (simp add: simple_loop_end)
    qed
  qed
qed

lemma for_each_simple_lemma: "for_each_codepoint s f st = simple_loop f s 0 st"
proof (cases "length s \<ge> 4")
  case False
  have "length s AND 3 = length s" if "s \<noteq> []"
    using False take_bit_eq_mask [of 2 "length s"] by (simp add: mask_eq_exp_minus_1 take_bit_eq_mod numeral_3_eq_3)
  then show ?thesis
    using False tail_loop_simple [OF refl, where p = 0 and i = 0]
    by (cases "s = []") (auto simp: for_each_codepoint_def Let_def simple_loop_end)
next
  case True
  have left: "(length s - q) AND 3 = length s - q" if "length s - q < 4" for q
    using that take_bit_eq_mask [of 2 "length s - q"] by (simp add: mask_eq_exp_minus_1 take_bit_eq_mod numeral_3_eq_3)
  show ?thesis
  proof (cases "block_loop f s 0 st")
    case (Pair r st1)
    show ?thesis
    proof (cases r)
      case None
      then show ?thesis using True Pair block_loop_simple [of f s 0 st] by (simp add: for_each_codepoint_def)
    next
      case (Some q)
      then have q: "q \<le> length s" "length s - q < 4" using block_loop_stops [of f s 0 st q st1] Pair by simp_all
      have "tail_loop f (drop q s @ replicate k (CHR 0x00)) (length s - q) 0 q st1 = simple_loop f s q st1"
        if "q < length s" for k
        using tail_loop_simple [OF refl, of 0 s q f k st1] that by simp
      then show ?thesis
        using True Pair Some block_loop_simple [of f s 0 st] left [OF q(2)]
        by (cases "q < length s") (auto simp: for_each_codepoint_def Let_def simple_loop_end)
    qed
  qed
qed

section \<open>Width and position\<close>

definition wide_code_point :: "u32 \<Rightarrow> bool" where
  "wide_code_point cp \<longleftrightarrow>
     cp \<ge> 0x1100 \<and>
     (cp \<le> 0x115f \<or> cp = 0x2329 \<or> cp = 0x232a \<or> cp \<ge> 0x2e80 \<and> cp \<le> 0xa4cf \<and> cp \<noteq> 0x303f \<or>
      cp \<ge> 0xac00 \<and> cp \<le> 0xd7a3 \<or> cp \<ge> 0xf900 \<and> cp \<le> 0xfaff \<or> cp \<ge> 0xfe10 \<and> cp \<le> 0xfe19 \<or>
      cp \<ge> 0xfe30 \<and> cp \<le> 0xfe6f \<or> cp \<ge> 0xff00 \<and> cp \<le> 0xff60 \<or> cp \<ge> 0xffe0 \<and> cp \<le> 0xffe6 \<or>
      cp \<ge> 0x20000 \<and> cp \<le> 0x2fffd \<or> cp \<ge> 0x30000 \<and> cp \<le> 0x3fffd \<or> cp \<ge> 0x1f300 \<and> cp \<le> 0x1f64f \<or>
      cp \<ge> 0x1f900 \<and> cp \<le> 0x1f9ff)"

definition count_width :: "nat visitor" where
  "count_width cp p n count = (True, count + (1 + (if wide_code_point cp then 1 else 0)))"

definition compute_width :: "string \<Rightarrow> nat" where
  "compute_width s = for_each_codepoint s count_width 0"

text \<open>The state is what is left of \<open>n\<close>, and the result.\<close>

definition find_code_point :: "(nat \<times> nat) visitor" where
  "find_code_point cp p len st = (if fst st \<noteq> 0 then (True, fst st - 1, snd st) else (False, fst st, p))"

definition code_point_index :: "string \<Rightarrow> nat \<Rightarrow> nat" where
  "code_point_index s n = snd (for_each_codepoint s find_code_point (n, length s))"

text \<open>The position of a code point is never behind the end of the text.\<close>

lemma find_index_inside: "r \<le> length s \<Longrightarrow> snd (simple_loop find_code_point s p (n, r)) \<le> length s"
proof (induction "length s - p" arbitrary: p n rule: less_induct)
  case less
  show ?case
  proof (cases "p < length s")
    case True
    show ?thesis
    proof (cases n)
      case 0
      then show ?thesis
        using True less.prems by (subst simple_loop.simps) (simp add: decode_step_def Let_def find_code_point_def split: prod.split)
    next
      case (Suc m)
      obtain k cp e where "utf8_decode (byte_at s p) (byte_at s (p + 1)) (byte_at s (p + 2)) (byte_at s (p + 3)) = (k, cp, e)"
        using prod_cases3 by blast
      then obtain q where q: "decode_step find_code_point s p p (n, r) = (Some q, m, r)"
        by (simp add: decode_step_def Let_def find_code_point_def Suc)
      then have "p < q" using decode_step_moves [of find_code_point s p p "(n, r)" q] by simp
      with q show ?thesis using less True by (subst simple_loop.simps) simp
    qed
  next
    case False
    then show ?thesis using less.prems by (simp add: simple_loop_end)
  qed
qed

lemma code_point_index_inside: "code_point_index s n \<le> length s"
  by (simp add: code_point_index_def for_each_simple_lemma find_index_inside)

text \<open>In ASCII text every byte is a code point of one column.\<close>

definition ascii :: "string \<Rightarrow> bool" where
  "ascii s \<longleftrightarrow> list_all (\<lambda>c. of_char c < (128 :: nat)) s"

lemma decode_ascii:
  assumes "ascii s" and "p < length s"
  shows "decode_step f s p p st =
    (let (go, st1) = f (word_of_nat (of_char (s ! p))) p 1 st in (if go then Some (p + 1) else None, st1))"
proof -
  define cp where "cp = (of_char (s ! p) :: nat)"
  have cp: "cp < 128" using assms by (simp add: ascii_def list_all_length cp_def)
  have b: "unat (byte_at s p) = cp"
  proof -
    have "byte_at s p = word_of_nat cp" using assms(2) by (simp add: byte_at_def cp_def of_nat_of_char)
    then show ?thesis using cp by (simp add: unsigned_of_nat take_bit_nat_eq_self_iff)
  qed
  have "utf8_decode (byte_at s p) x y z = (1, word_of_nat cp, 0)" for x y z
    using decode_encode_lemma [of cp "byte_at s p" x y z] cp b by (simp add: scalar_value_def utf8_encode_def)
  then show ?thesis by (simp add: decode_step_def Let_def cp_def split: prod.split)
qed

lemma ascii_not_wide: "m < 128 \<Longrightarrow> \<not> wide_code_point (word_of_nat m)"
proof -
  assume "m < 128"
  then have "\<not> (0x1100 :: u32) \<le> word_of_nat m" using fits_32 [of m] by (simp add: word_le_nat_alt unsigned_of_nat)
  then show ?thesis by (simp add: wide_code_point_def)
qed

lemma compute_width_ascii:
  assumes "ascii s"
  shows "compute_width s = length s"
proof -
  have "p \<le> length s \<Longrightarrow> simple_loop count_width s p k = k + (length s - p)" for p k
  proof (induction "length s - p" arbitrary: p k)
    case 0
    then show ?case by (simp add: simple_loop_end)
  next
    case (Suc d)
    then have p: "p < length s" by simp
    have "of_char (s ! p) < (128 :: nat)" using assms p by (simp add: ascii_def list_all_length)
    then have "decode_step count_width s p p k = (Some (p + 1), k + 1)"
      by (simp add: decode_ascii [OF assms p] count_width_def ascii_not_wide)
    then show ?case using Suc p by (subst simple_loop.simps) simp
  qed
  then show ?thesis by (simp add: compute_width_def for_each_simple_lemma)
qed

lemma code_point_index_ascii:
  assumes "ascii s"
  shows "code_point_index s n = min n (length s)"
proof -
  have "p \<le> length s \<Longrightarrow> snd (simple_loop find_code_point s p (n, r)) = (if p + n < length s then p + n else r)" for p n r
  proof (induction "length s - p" arbitrary: p n)
    case 0
    then show ?case by (simp add: simple_loop_end)
  next
    case (Suc d)
    then have p: "p < length s" by simp
    show ?case
    proof (cases n)
      case 0
      then show ?thesis using p by (subst simple_loop.simps) (simp add: decode_ascii [OF assms p] find_code_point_def)
    next
      case (Suc m)
      have "snd (simple_loop find_code_point s (p + 1) (m, r)) = (if p + 1 + m < length s then p + 1 + m else r)"
        using Suc.hyps(2) p by (intro Suc.hyps(1)) simp_all
      then show ?thesis
        using Suc p by (subst simple_loop.simps) (simp add: decode_ascii [OF assms p] find_code_point_def)
    qed
  qed
  then show ?thesis by (simp add: code_point_index_def for_each_simple_lemma min_def)
qed

text \<open>
  C19: The decoder without branches accepts exactly UTF-8: four bytes decode to a code point, to a length and to no error if and only if the
  code point has an encoding and the bytes begin with it. Overlong forms, surrogate halves, code points
  beyond the last one, stray and missing continuation bytes are all errors.
\<close>

theorem utf8_decode_exact:
  "utf8_decode b0 b1 b2 b3 = (n, c, 0) \<longleftrightarrow>
     scalar_value (unat c) \<and> n = length (utf8_encode (unat c)) \<and> utf8_encode (unat c) = take n (map unat [b0, b1, b2, b3])"
proof
  assume d: "utf8_decode b0 b1 b2 b3 = (n, c, 0)"
  have "length (take n (map unat [b0, b1, b2, b3])) = n" using utf8_decode_moves [OF d] by simp
  then show "scalar_value (unat c) \<and> n = length (utf8_encode (unat c)) \<and> utf8_encode (unat c) = take n (map unat [b0, b1, b2, b3])"
    using decode_sound_lemma [OF d] by simp
next
  assume e: "scalar_value (unat c) \<and> n = length (utf8_encode (unat c)) \<and> utf8_encode (unat c) = take n (map unat [b0, b1, b2, b3])"
  then have code: "utf8_encode (unat c) = take n (map unat [b0, b1, b2, b3])" and n: "n = length (utf8_encode (unat c))" by blast+
  have "prefix (utf8_encode (unat c)) (map unat [b0, b1, b2, b3])" unfolding code by (rule take_is_prefix)
  from decode_encode_lemma [OF _ this] e show "utf8_decode b0 b1 b2 b3 = (n, c, 0)" unfolding n by simp
qed

end
