(* ===== verification/Fmt_Escape.thy ===== *)
theory Fmt_Escape
  imports Fmt_Digits Fmt_Utf8
begin

text \<open>
  Text in quotes (\<^verbatim>\<open>fmt/bundled/format.h\<close>, \<^verbatim>\<open>fmt/bundled/format-inl.h\<close>): which code points are printable, by tables, and
  how the others are written. A read outside of a table and a write outside of a buffer are \<open>None\<close>; the
  lemmas show that neither happens.
\<close>

section \<open>Printable code points\<close>

text \<open>An entry is the upper byte of some code points and how many lower bytes belong to it.\<close>

type_synonym singleton = "nat \<times> nat"

definition singletons0 :: "singleton list" where
  "singletons0 =
     [(0x00, 1), (0x03, 5), (0x05, 6), (0x06, 3), (0x07, 6), (0x08, 8), (0x09, 17), (0x0a, 28), (0x0b, 25),
      (0x0c, 20), (0x0d, 16), (0x0e, 13), (0x0f, 4), (0x10, 3), (0x12, 18), (0x13, 9), (0x16, 1), (0x17, 5),
      (0x18, 2), (0x19, 3), (0x1a, 7), (0x1c, 2), (0x1d, 1), (0x1f, 22), (0x20, 3), (0x2b, 3), (0x2c, 2), (0x2d, 11),
      (0x2e, 1), (0x30, 3), (0x31, 2), (0x32, 1), (0xa7, 2), (0xa9, 2), (0xaa, 4), (0xab, 8), (0xfa, 2), (0xfb, 5),
      (0xfd, 4), (0xfe, 3), (0xff, 9)]"

definition singletons0_lower :: "nat list" where
  "singletons0_lower =
     [0xad, 0x78, 0x79, 0x8b, 0x8d, 0xa2, 0x30, 0x57, 0x58, 0x8b, 0x8c, 0x90, 0x1c, 0x1d, 0xdd, 0x0e, 0x0f, 0x4b,
      0x4c, 0xfb, 0xfc, 0x2e, 0x2f, 0x3f, 0x5c, 0x5d, 0x5f, 0xb5, 0xe2, 0x84, 0x8d, 0x8e, 0x91, 0x92, 0xa9, 0xb1,
      0xba, 0xbb, 0xc5, 0xc6, 0xc9, 0xca, 0xde, 0xe4, 0xe5, 0xff, 0x00, 0x04, 0x11, 0x12, 0x29, 0x31, 0x34, 0x37,
      0x3a, 0x3b, 0x3d, 0x49, 0x4a, 0x5d, 0x84, 0x8e, 0x92, 0xa9, 0xb1, 0xb4, 0xba, 0xbb, 0xc6, 0xca, 0xce, 0xcf,
      0xe4, 0xe5, 0x00, 0x04, 0x0d, 0x0e, 0x11, 0x12, 0x29, 0x31, 0x34, 0x3a, 0x3b, 0x45, 0x46, 0x49, 0x4a, 0x5e,
      0x64, 0x65, 0x84, 0x91, 0x9b, 0x9d, 0xc9, 0xce, 0xcf, 0x0d, 0x11, 0x29, 0x45, 0x49, 0x57, 0x64, 0x65, 0x8d,
      0x91, 0xa9, 0xb4, 0xba, 0xbb, 0xc5, 0xc9, 0xdf, 0xe4, 0xe5, 0xf0, 0x0d, 0x11, 0x45, 0x49, 0x64, 0x65, 0x80,
      0x84, 0xb2, 0xbc, 0xbe, 0xbf, 0xd5, 0xd7, 0xf0, 0xf1, 0x83, 0x85, 0x8b, 0xa4, 0xa6, 0xbe, 0xbf, 0xc5, 0xc7,
      0xce, 0xcf, 0xda, 0xdb, 0x48, 0x98, 0xbd, 0xcd, 0xc6, 0xce, 0xcf, 0x49, 0x4e, 0x4f, 0x57, 0x59, 0x5e, 0x5f,
      0x89, 0x8e, 0x8f, 0xb1, 0xb6, 0xb7, 0xbf, 0xc1, 0xc6, 0xc7, 0xd7, 0x11, 0x16, 0x17, 0x5b, 0x5c, 0xf6, 0xf7,
      0xfe, 0xff, 0x80, 0x0d, 0x6d, 0x71, 0xde, 0xdf, 0x0e, 0x0f, 0x1f, 0x6e, 0x6f, 0x1c, 0x1d, 0x5f, 0x7d, 0x7e,
      0xae, 0xaf, 0xbb, 0xbc, 0xfa, 0x16, 0x17, 0x1e, 0x1f, 0x46, 0x47, 0x4e, 0x4f, 0x58, 0x5a, 0x5c, 0x5e, 0x7e,
      0x7f, 0xb5, 0xc5, 0xd4, 0xd5, 0xdc, 0xf0, 0xf1, 0xf5, 0x72, 0x73, 0x8f, 0x74, 0x75, 0x96, 0x2f, 0x5f, 0x26,
      0x2e, 0x2f, 0xa7, 0xaf, 0xb7, 0xbf, 0xc7, 0xcf, 0xd7, 0xdf, 0x9a, 0x40, 0x97, 0x98, 0x30, 0x8f, 0x1f, 0xc0,
      0xc1, 0xce, 0xff, 0x4e, 0x4f, 0x5a, 0x5b, 0x07, 0x08, 0x0f, 0x10, 0x27, 0x2f, 0xee, 0xef, 0x6e, 0x6f, 0x37,
      0x3d, 0x3f, 0x42, 0x45, 0x90, 0x91, 0xfe, 0xff, 0x53, 0x67, 0x75, 0xc8, 0xc9, 0xd0, 0xd1, 0xd8, 0xd9, 0xe7,
      0xfe, 0xff]"

definition singletons1 :: "singleton list" where
  "singletons1 =
     [(0x00, 6), (0x01, 1), (0x03, 1), (0x04, 2), (0x08, 8), (0x09, 2), (0x0a, 5), (0x0b, 2), (0x0e, 4), (0x10, 1),
      (0x11, 2), (0x12, 5), (0x13, 17), (0x14, 1), (0x15, 2), (0x17, 2), (0x19, 13), (0x1c, 5), (0x1d, 8), (0x24, 1),
      (0x6a, 3), (0x6b, 2), (0xbc, 2), (0xd1, 2), (0xd4, 12), (0xd5, 9), (0xd6, 2), (0xd7, 2), (0xda, 1), (0xe0, 5),
      (0xe1, 2), (0xe8, 2), (0xee, 32), (0xf0, 4), (0xf8, 2), (0xf9, 2), (0xfa, 2), (0xfb, 1)]"

definition singletons1_lower :: "nat list" where
  "singletons1_lower =
     [0x0c, 0x27, 0x3b, 0x3e, 0x4e, 0x4f, 0x8f, 0x9e, 0x9e, 0x9f, 0x06, 0x07, 0x09, 0x36, 0x3d, 0x3e, 0x56, 0xf3,
      0xd0, 0xd1, 0x04, 0x14, 0x18, 0x36, 0x37, 0x56, 0x57, 0x7f, 0xaa, 0xae, 0xaf, 0xbd, 0x35, 0xe0, 0x12, 0x87,
      0x89, 0x8e, 0x9e, 0x04, 0x0d, 0x0e, 0x11, 0x12, 0x29, 0x31, 0x34, 0x3a, 0x45, 0x46, 0x49, 0x4a, 0x4e, 0x4f,
      0x64, 0x65, 0x5c, 0xb6, 0xb7, 0x1b, 0x1c, 0x07, 0x08, 0x0a, 0x0b, 0x14, 0x17, 0x36, 0x39, 0x3a, 0xa8, 0xa9,
      0xd8, 0xd9, 0x09, 0x37, 0x90, 0x91, 0xa8, 0x07, 0x0a, 0x3b, 0x3e, 0x66, 0x69, 0x8f, 0x92, 0x6f, 0x5f, 0xee,
      0xef, 0x5a, 0x62, 0x9a, 0x9b, 0x27, 0x28, 0x55, 0x9d, 0xa0, 0xa1, 0xa3, 0xa4, 0xa7, 0xa8, 0xad, 0xba, 0xbc,
      0xc4, 0x06, 0x0b, 0x0c, 0x15, 0x1d, 0x3a, 0x3f, 0x45, 0x51, 0xa6, 0xa7, 0xcc, 0xcd, 0xa0, 0x07, 0x19, 0x1a,
      0x22, 0x25, 0x3e, 0x3f, 0xc5, 0xc6, 0x04, 0x20, 0x23, 0x25, 0x26, 0x28, 0x33, 0x38, 0x3a, 0x48, 0x4a, 0x4c,
      0x50, 0x53, 0x55, 0x56, 0x58, 0x5a, 0x5c, 0x5e, 0x60, 0x63, 0x65, 0x66, 0x6b, 0x73, 0x78, 0x7d, 0x7f, 0x8a,
      0xa4, 0xaa, 0xaf, 0xb0, 0xc0, 0xd0, 0xae, 0xaf, 0x79, 0xcc, 0x6e, 0x6f, 0x93]"

definition normal0 :: "nat list" where
  "normal0 =
     [0x00, 0x20, 0x5f, 0x22, 0x82, 0xdf, 0x04, 0x82, 0x44, 0x08, 0x1b, 0x04, 0x06, 0x11, 0x81, 0xac, 0x0e, 0x80,
      0xab, 0x35, 0x28, 0x0b, 0x80, 0xe0, 0x03, 0x19, 0x08, 0x01, 0x04, 0x2f, 0x04, 0x34, 0x04, 0x07, 0x03, 0x01,
      0x07, 0x06, 0x07, 0x11, 0x0a, 0x50, 0x0f, 0x12, 0x07, 0x55, 0x07, 0x03, 0x04, 0x1c, 0x0a, 0x09, 0x03, 0x08,
      0x03, 0x07, 0x03, 0x02, 0x03, 0x03, 0x03, 0x0c, 0x04, 0x05, 0x03, 0x0b, 0x06, 0x01, 0x0e, 0x15, 0x05, 0x3a,
      0x03, 0x11, 0x07, 0x06, 0x05, 0x10, 0x07, 0x57, 0x07, 0x02, 0x07, 0x15, 0x0d, 0x50, 0x04, 0x43, 0x03, 0x2d,
      0x03, 0x01, 0x04, 0x11, 0x06, 0x0f, 0x0c, 0x3a, 0x04, 0x1d, 0x25, 0x5f, 0x20, 0x6d, 0x04, 0x6a, 0x25, 0x80,
      0xc8, 0x05, 0x82, 0xb0, 0x03, 0x1a, 0x06, 0x82, 0xfd, 0x03, 0x59, 0x07, 0x15, 0x0b, 0x17, 0x09, 0x14, 0x0c,
      0x14, 0x0c, 0x6a, 0x06, 0x0a, 0x06, 0x1a, 0x06, 0x59, 0x07, 0x2b, 0x05, 0x46, 0x0a, 0x2c, 0x04, 0x0c, 0x04,
      0x01, 0x03, 0x31, 0x0b, 0x2c, 0x04, 0x1a, 0x06, 0x0b, 0x03, 0x80, 0xac, 0x06, 0x0a, 0x06, 0x21, 0x3f, 0x4c,
      0x04, 0x2d, 0x03, 0x74, 0x08, 0x3c, 0x03, 0x0f, 0x03, 0x3c, 0x07, 0x38, 0x08, 0x2b, 0x05, 0x82, 0xff, 0x11,
      0x18, 0x08, 0x2f, 0x11, 0x2d, 0x03, 0x20, 0x10, 0x21, 0x0f, 0x80, 0x8c, 0x04, 0x82, 0x97, 0x19, 0x0b, 0x15,
      0x88, 0x94, 0x05, 0x2f, 0x05, 0x3b, 0x07, 0x02, 0x0e, 0x18, 0x09, 0x80, 0xb3, 0x2d, 0x74, 0x0c, 0x80, 0xd6,
      0x1a, 0x0c, 0x05, 0x80, 0xff, 0x05, 0x80, 0xdf, 0x0c, 0xee, 0x0d, 0x03, 0x84, 0x8d, 0x03, 0x37, 0x09, 0x81,
      0x5c, 0x14, 0x80, 0xb8, 0x08, 0x80, 0xcb, 0x2a, 0x38, 0x03, 0x0a, 0x06, 0x38, 0x08, 0x46, 0x08, 0x0c, 0x06,
      0x74, 0x0b, 0x1e, 0x03, 0x5a, 0x04, 0x59, 0x09, 0x80, 0x83, 0x18, 0x1c, 0x0a, 0x16, 0x09, 0x4c, 0x04, 0x80,
      0x8a, 0x06, 0xab, 0xa4, 0x0c, 0x17, 0x04, 0x31, 0xa1, 0x04, 0x81, 0xda, 0x26, 0x07, 0x0c, 0x05, 0x05, 0x80,
      0xa5, 0x11, 0x81, 0x6d, 0x10, 0x78, 0x28, 0x2a, 0x06, 0x4c, 0x04, 0x80, 0x8d, 0x04, 0x80, 0xbe, 0x03, 0x1b,
      0x03, 0x0f, 0x0d]"

definition normal1 :: "nat list" where
  "normal1 =
     [0x5e, 0x22, 0x7b, 0x05, 0x03, 0x04, 0x2d, 0x03, 0x66, 0x03, 0x01, 0x2f, 0x2e, 0x80, 0x82, 0x1d, 0x03, 0x31,
      0x0f, 0x1c, 0x04, 0x24, 0x09, 0x1e, 0x05, 0x2b, 0x05, 0x44, 0x04, 0x0e, 0x2a, 0x80, 0xaa, 0x06, 0x24, 0x04,
      0x24, 0x04, 0x28, 0x08, 0x34, 0x0b, 0x01, 0x80, 0x90, 0x81, 0x37, 0x09, 0x16, 0x0a, 0x08, 0x80, 0x98, 0x39,
      0x03, 0x63, 0x08, 0x09, 0x30, 0x16, 0x05, 0x21, 0x03, 0x1b, 0x05, 0x01, 0x40, 0x38, 0x04, 0x4b, 0x05, 0x2f,
      0x04, 0x0a, 0x07, 0x09, 0x07, 0x40, 0x20, 0x27, 0x04, 0x0c, 0x09, 0x36, 0x03, 0x3a, 0x05, 0x1a, 0x07, 0x04,
      0x0c, 0x07, 0x50, 0x49, 0x37, 0x33, 0x0d, 0x33, 0x07, 0x2e, 0x08, 0x0a, 0x81, 0x26, 0x52, 0x4e, 0x28, 0x08,
      0x2a, 0x56, 0x1c, 0x14, 0x17, 0x09, 0x4e, 0x04, 0x1e, 0x0f, 0x43, 0x0e, 0x19, 0x07, 0x0a, 0x06, 0x48, 0x08,
      0x27, 0x09, 0x75, 0x0b, 0x3f, 0x41, 0x2a, 0x06, 0x3b, 0x05, 0x0a, 0x06, 0x51, 0x06, 0x01, 0x05, 0x10, 0x03,
      0x05, 0x80, 0x8b, 0x62, 0x1e, 0x48, 0x08, 0x0a, 0x80, 0xa6, 0x5e, 0x22, 0x45, 0x0b, 0x0a, 0x06, 0x0d, 0x13,
      0x39, 0x07, 0x0a, 0x36, 0x2c, 0x04, 0x10, 0x80, 0xc0, 0x3c, 0x64, 0x53, 0x0c, 0x48, 0x09, 0x0a, 0x46, 0x45,
      0x1b, 0x48, 0x08, 0x53, 0x1d, 0x39, 0x81, 0x07, 0x46, 0x0a, 0x1d, 0x03, 0x47, 0x49, 0x37, 0x03, 0x0e, 0x08,
      0x0a, 0x06, 0x39, 0x07, 0x0a, 0x81, 0x36, 0x19, 0x80, 0xb7, 0x01, 0x0f, 0x32, 0x0d, 0x83, 0x9b, 0x66, 0x75,
      0x0b, 0x80, 0xc4, 0x8a, 0xbc, 0x84, 0x2f, 0x8f, 0xd1, 0x82, 0x47, 0xa1, 0xb9, 0x82, 0x39, 0x07, 0x2a, 0x04,
      0x02, 0x60, 0x26, 0x0a, 0x46, 0x0a, 0x28, 0x05, 0x13, 0x82, 0xb0, 0x5b, 0x65, 0x4b, 0x04, 0x39, 0x07, 0x11,
      0x40, 0x05, 0x0b, 0x02, 0x0e, 0x97, 0xf8, 0x08, 0x84, 0xd6, 0x2a, 0x09, 0xa2, 0xf7, 0x81, 0x1f, 0x31, 0x03,
      0x11, 0x04, 0x08, 0x81, 0x8c, 0x89, 0x04, 0x6b, 0x05, 0x0d, 0x03, 0x09, 0x07, 0x10, 0x93, 0x60, 0x80, 0xf6,
      0x0a, 0x73, 0x08, 0x6e, 0x17, 0x46, 0x80, 0x9a, 0x14, 0x0c, 0x57, 0x09, 0x19, 0x80, 0x87, 0x81, 0x47, 0x03,
      0x85, 0x42, 0x0f, 0x15, 0x85, 0x50, 0x2b, 0x80, 0xd5, 0x2d, 0x03, 0x1a, 0x04, 0x02, 0x81, 0x70, 0x3a, 0x05,
      0x01, 0x85, 0x00, 0x80, 0xd7, 0x29, 0x4c, 0x04, 0x0a, 0x04, 0x02, 0x83, 0x11, 0x44, 0x4c, 0x3d, 0x80, 0xc2,
      0x3c, 0x06, 0x01, 0x04, 0x55, 0x05, 0x1b, 0x34, 0x02, 0x81, 0x0e, 0x2c, 0x04, 0x64, 0x0c, 0x56, 0x0a, 0x80,
      0xae, 0x38, 0x1d, 0x0d, 0x2c, 0x04, 0x09, 0x07, 0x02, 0x0e, 0x06, 0x80, 0x9a, 0x83, 0xd8, 0x08, 0x0d, 0x03,
      0x0d, 0x03, 0x74, 0x0c, 0x59, 0x07, 0x0c, 0x14, 0x0c, 0x04, 0x38, 0x08, 0x0a, 0x06, 0x28, 0x08, 0x22, 0x4e,
      0x81, 0x54, 0x0c, 0x15, 0x03, 0x03, 0x05, 0x07, 0x09, 0x19, 0x07, 0x07, 0x09, 0x03, 0x0d, 0x07, 0x29, 0x80,
      0xcb, 0x25, 0x0a, 0x84, 0x06]"

text \<open>The result of a search: \<open>None\<close> is a read behind the lower bytes.\<close>

fun singleton_loop :: "nat \<Rightarrow> singleton list \<Rightarrow> nat \<Rightarrow> nat list \<Rightarrow> bool option" where
  "singleton_loop x [] lower_start lowers = Some False"
| "singleton_loop x ((upper, lower_count) # ss) lower_start lowers =
     (let lower_end = lower_start + lower_count in
      if x div 256 < upper then Some False
      else if x div 256 = upper
      then (if lower_end > length lowers then None
            else if list_ex (\<lambda>j. lowers ! j = x mod 256) [lower_start..<lower_end] then Some True
            else singleton_loop x ss lower_end lowers)
      else singleton_loop x ss lower_end lowers)"

text \<open>The code points are cut into runs, printable and not in turn; a length above 127 takes two bytes.\<close>

fun normal_loop :: "int \<Rightarrow> bool \<Rightarrow> nat list \<Rightarrow> bool option" where
  "normal_loop xsigned current [] = Some current"
| "normal_loop xsigned current (v # vs) =
     (if v AND 0x80 \<noteq> 0
      then (case vs of
              [] \<Rightarrow> None
            | w # ws \<Rightarrow>
                let x1 = xsigned - int (push_bit 8 (v AND 0x7f) OR w) in
                if x1 < 0 then Some current else normal_loop x1 (\<not> current) ws)
      else (let x1 = xsigned - int v in if x1 < 0 then Some current else normal_loop x1 (\<not> current) vs))"

definition is_printable_16 :: "nat \<Rightarrow> singleton list \<Rightarrow> nat list \<Rightarrow> nat list \<Rightarrow> bool option" where
  "is_printable_16 x singletons singleton_lowers normal =
     (case singleton_loop x singletons 0 singleton_lowers of
        None \<Rightarrow> None
      | Some True \<Rightarrow> Some False
      | Some False \<Rightarrow> normal_loop (int x) True normal)"

definition is_printable :: "u32 \<Rightarrow> bool option" where
  "is_printable cp =
     (let lower = unat cp mod 65536 in
      if cp < 0x10000 then is_printable_16 lower singletons0 singletons0_lower normal0
      else if cp < 0x20000 then is_printable_16 lower singletons1 singletons1_lower normal1
      else if 0x2a6de \<le> cp \<and> cp < 0x2a700 then Some False
      else if 0x2b735 \<le> cp \<and> cp < 0x2b740 then Some False
      else if 0x2b81e \<le> cp \<and> cp < 0x2b820 then Some False
      else if 0x2cea2 \<le> cp \<and> cp < 0x2ceb0 then Some False
      else if 0x2ebe1 \<le> cp \<and> cp < 0x2f800 then Some False
      else if 0x2fa1e \<le> cp \<and> cp < 0x30000 then Some False
      else if 0x3134b \<le> cp \<and> cp < 0xe0100 then Some False
      else if 0xe01f0 \<le> cp \<and> cp < 0x110000 then Some False
      else Some (cp < 0x110000))"

definition needs_escape :: "u32 \<Rightarrow> bool option" where
  "needs_escape cp =
     (if cp < 0x20 \<or> cp = 0x7f \<or> cp = 0x22 \<or> cp = 0x5c then Some True
      else map_option Not (is_printable cp))"

subsection \<open>The tables are complete\<close>

lemma singleton_loop_inside:
  "lower_start + sum_list (map snd ss) \<le> length lowers \<Longrightarrow> singleton_loop x ss lower_start lowers \<noteq> None"
  by (induction x ss lower_start lowers rule: singleton_loop.induct) (auto simp: Let_def)

text \<open>No table of lengths ends between the two bytes of a length.\<close>

fun lengths_whole :: "nat list \<Rightarrow> bool" where
  "lengths_whole [] = True"
| "lengths_whole (v # vs) = (if v < 128 then lengths_whole vs else (case vs of [] \<Rightarrow> False | w # ws \<Rightarrow> lengths_whole ws))"

lemma high_bit: "v < 256 \<Longrightarrow> v AND 0x80 = 0 \<longleftrightarrow> v < 128" for v :: nat
proof -
  assume "v < 256"
  then have "v div 128 < 2" by (simp add: div_less_iff_less_mult)
  then have "odd (v div 128) \<longleftrightarrow> v div 128 \<noteq> 0" by (auto simp: less_2_cases_iff)
  then have "bit v 7 \<longleftrightarrow> \<not> v < 128" by (simp add: bit_iff_odd div_eq_0_iff)
  then show ?thesis using and_exp_eq_0_iff_not_bit [of v 7] by simp
qed

lemma normal_loop_inside: "lengths_whole vs \<Longrightarrow> list_all (\<lambda>v. v < 256) vs \<Longrightarrow> normal_loop x c vs \<noteq> None"
proof (induction x c vs rule: normal_loop.induct)
  case (2 x c v vs)
  show ?case
  proof (cases "v < 128")
    case True
    then have "v AND 0x80 = 0" "lengths_whole vs" "list_all (\<lambda>v. v < 256) vs" using 2(3,4) high_bit [of v] by simp_all
    then show ?thesis using 2(2) by (simp add: Let_def)
  next
    case False
    then obtain w ws where vs: "vs = w # ws" using 2(3) by (cases vs) simp_all
    then have "v AND 0x80 \<noteq> 0" "lengths_whole ws" "list_all (\<lambda>v. v < 256) ws" using False 2(3,4) high_bit [of v] by simp_all
    then show ?thesis using 2(1) vs by (simp add: Let_def)
  qed
qed simp

lemma tables_complete:
  "sum_list (map snd singletons0) = length singletons0_lower" "sum_list (map snd singletons1) = length singletons1_lower"
  "lengths_whole normal0" "lengths_whole normal1" "list_all (\<lambda>v. v < 256) normal0" "list_all (\<lambda>v. v < 256) normal1"
  by (simp_all add: singletons0_def singletons0_lower_def singletons1_def singletons1_lower_def normal0_def normal1_def)

lemma is_printable_16_inside:
  "sum_list (map snd ss) \<le> length lowers \<Longrightarrow> lengths_whole vs \<Longrightarrow> list_all (\<lambda>v. v < 256) vs \<Longrightarrow>
    is_printable_16 x ss lowers vs \<noteq> None"
  using singleton_loop_inside [of 0 ss lowers x] normal_loop_inside [of vs "int x" True]
  by (auto simp: is_printable_16_def split: option.split bool.split)

lemma if_not_None: "x \<noteq> None \<Longrightarrow> y \<noteq> None \<Longrightarrow> (if b then x else y) \<noteq> None"
  by simp

lemma is_printable_inside: "is_printable cp \<noteq> None"
  unfolding is_printable_def Let_def
  by (intro if_not_None is_printable_16_inside) (simp_all add: tables_complete)

lemma needs_escape_inside: "needs_escape cp \<noteq> None"
  unfolding needs_escape_def using is_printable_inside [of cp] by (intro if_not_None) simp_all

section \<open>Writing in quotes\<close>

text \<open>What was found: where it begins, where it ends if there is one, and its code point.\<close>

record escape_result =
  esc_begin :: nat
  esc_end :: "nat option"
  esc_cp :: u32

definition escape_visitor :: "escape_result option visitor" where
  "escape_visitor cp p n st =
     (case needs_escape cp of
        None \<Rightarrow> (False, None)
      | Some True \<Rightarrow> (False, Some \<lparr>esc_begin = p, esc_end = Some (p + n), esc_cp = cp\<rparr>)
      | Some False \<Rightarrow> (True, st))"

definition find_escape :: "string \<Rightarrow> escape_result option" where
  "find_escape s = for_each_codepoint s escape_visitor (Some \<lparr>esc_begin = length s, esc_end = None, esc_cp = 0\<rparr>)"

subsection \<open>What is found\<close>

definition plain_char :: "char \<Rightarrow> bool" where
  "plain_char c \<longleftrightarrow> 0x20 \<le> (of_char c :: nat) \<and> of_char c \<noteq> (0x7f :: nat) \<and> of_char c \<noteq> (0x22 :: nat) \<and> of_char c \<noteq> (0x5c :: nat)"

lemma encode_high_bytes: "1 < length (utf8_encode cp) \<Longrightarrow> b \<in> set (utf8_encode cp) \<Longrightarrow> 128 \<le> b"
  by (auto simp: utf8_encode_def split: if_splits)

lemma encode_single: "length (utf8_encode cp) \<le> 1 \<Longrightarrow> utf8_encode cp = [cp]"
  by (auto simp: utf8_encode_def split: if_splits)

lemma byte_at_nat: "unat (byte_at s i) = (if i < length s then of_char (s ! i) else 0)"
proof -
  have "unat (of_char c :: u8) = of_char c" for c
    using take_bit_nat_eq_self [of "of_char c" 8] by (simp add: unsigned_of_nat flip: of_nat_of_char [where 'a = "8 word"])
  then show ?thesis by (simp add: byte_at_def)
qed

text \<open>A valid character lies inside of the text, and its bytes are the code point or above 127.\<close>

lemma valid_bytes:
  assumes "utf8_decode (byte_at s p) (byte_at s (p + 1)) (byte_at s (p + 2)) (byte_at s (p + 3)) = (n, c, 0)"
    and "p < length s"
  shows "p + n \<le> length s" and "i < n \<Longrightarrow> of_char (s ! (p + i)) = unat c \<or> 128 \<le> (of_char (s ! (p + i)) :: nat)"
proof -
  have n: "1 \<le> n" "n \<le> 4" using utf8_decode_moves assms(1) by blast+
  have enc: "utf8_encode (unat c) = take n (map unat [byte_at s p, byte_at s (p + 1), byte_at s (p + 2), byte_at s (p + 3)])"
    using decode_sound_lemma [OF assms(1)] by blast
  have at: "utf8_encode (unat c) ! j = unat (byte_at s (p + j))" if "j < n" for j
  proof -
    have "j = 0 \<or> j = 1 \<or> j = 2 \<or> j = 3" using that n by linarith
    then show ?thesis unfolding enc using that by auto
  qed
  have len: "length (utf8_encode (unat c)) = n" using enc n by simp
  have high: "n \<le> 1 \<and> unat (byte_at s (p + j)) = unat c \<or> 128 \<le> unat (byte_at s (p + j))" if "j < n" for j
  proof (cases "1 < n")
    case True
    then show ?thesis using encode_high_bytes [of "unat c"] at [OF that] len that by (metis nth_mem)
  next
    case False
    then have "j = 0" using that by simp
    then show ?thesis using encode_single [of "unat c"] at [OF that] len False by simp
  qed
  have inside: "p + j < length s" if "j < n" for j
    using high [OF that] that assms(2) by (cases "j = 0") (auto simp: byte_at_nat split: if_splits)
  then show "p + n \<le> length s" using inside [of "n - 1"] n by simp
  show "of_char (s ! (p + i)) = unat c \<or> 128 \<le> (of_char (s ! (p + i)) :: nat)" if "i < n"
    using high [OF that] inside [OF that] by (auto simp: byte_at_nat)
qed

lemma invalid_escaped: "needs_escape invalid_code_point = Some True"
  by (simp add: needs_escape_def invalid_code_point_def is_printable_def)

lemma not_escaped: "needs_escape c = Some False \<Longrightarrow> 0x20 \<le> unat c \<and> unat c \<noteq> 0x7f \<and> unat c \<noteq> 0x22 \<and> unat c \<noteq> 0x5c"
  by (auto simp: needs_escape_def word_less_nat_alt not_less word_unat_eq_iff split: if_splits)

text \<open>Everything before what is found is plain, and what is found has a length.\<close>

definition found_in :: "string \<Rightarrow> nat \<Rightarrow> escape_result \<Rightarrow> bool" where
  "found_in s p r \<longleftrightarrow>
     (\<forall>i. p \<le> i \<and> i < esc_begin r \<longrightarrow> plain_char (s ! i)) \<and> esc_begin r \<le> length s \<and>
     (case esc_end r of None \<Rightarrow> True | Some e \<Rightarrow> esc_begin r < e \<and> e \<le> length s)"

lemma find_escape_loop:
  "p \<le> length s \<Longrightarrow> \<exists>r. simple_loop escape_visitor s p (Some \<lparr>esc_begin = length s, esc_end = None, esc_cp = 0\<rparr>) = Some r \<and>
     found_in s p r \<and> (p = length s \<longrightarrow> esc_end r = None)"
proof (induction "length s - p" arbitrary: p rule: less_induct)
  case less
  let ?init = "Some \<lparr>esc_begin = length s, esc_end = None, esc_cp = 0\<rparr>"
  show ?case
  proof (cases "p < length s")
    case False
    then show ?thesis using less.prems by (auto simp: simple_loop_end found_in_def)
  next
    case True
    obtain n c err where d: "utf8_decode (byte_at s p) (byte_at s (p + 1)) (byte_at s (p + 2)) (byte_at s (p + 3)) = (n, c, err)"
      using prod_cases3 by blast
    define cp where "cp = (if err \<noteq> 0 then invalid_code_point else c)"
    define m where "m = (if err \<noteq> 0 then 1 else n)"
    have m: "1 \<le> m" "p + m \<le> length s"
      using utf8_decode_moves [OF d] valid_bytes(1) [of s p n c] d True by (auto simp: m_def)
    obtain b where b: "needs_escape cp = Some b" using needs_escape_inside by blast
    have step: "decode_step escape_visitor s p p ?init =
        (if b then (None, Some \<lparr>esc_begin = p, esc_end = Some (p + m), esc_cp = cp\<rparr>) else (Some (p + m), ?init))"
      using d b by (simp add: decode_step_def escape_visitor_def cp_def m_def Let_def)
    show ?thesis
    proof (cases b)
      case True
      then show ?thesis
        using step m \<open>p < length s\<close> by (subst simple_loop.simps) (auto simp: found_in_def)
    next
      case False
      then have ok: "err = 0" "cp = c" "m = n" using b invalid_escaped by (auto simp: cp_def m_def split: if_splits)
      have plain: "plain_char (s ! (p + i))" if "i < m" for i
        using not_escaped [of c] valid_bytes(2) [of s p n c i] d b False ok True that by (auto simp: plain_char_def)
      have "length s - (p + m) < length s - p" using m True by linarith
      then obtain r where r: "simple_loop escape_visitor s (p + m) ?init = Some r" "found_in s (p + m) r"
        using less.hyps [of "p + m"] m by blast
      have "plain_char (s ! i)" if "p \<le> i" "i < esc_begin r" for i
        using plain [of "i - p"] r(2) that by (cases "i < p + m") (auto simp: found_in_def)
      then have "found_in s p r" using r(2) by (auto simp: found_in_def)
      then show ?thesis using step False r True by (subst simple_loop.simps) auto
    qed
  qed
qed

lemma find_escape_found: "\<exists>r. find_escape s = Some r \<and> found_in s 0 r \<and> (s = [] \<longrightarrow> esc_end r = None)"
  using find_escape_loop [of 0 s] by (auto simp: find_escape_def for_each_simple_lemma)

subsection \<open>Writing\<close>

definition write_codepoint :: "nat \<Rightarrow> char \<Rightarrow> nat \<Rightarrow> string option" where
  "write_codepoint width prefix_char cp =
     (case do_format_base2e 4 (replicate width (CHR ''0'')) cp width False of
        None \<Rightarrow> None
      | Some (buf, _) \<Rightarrow> Some ([CHR 0x5C, prefix_char] @ buf))"

definition append_opt :: "string option \<Rightarrow> string option \<Rightarrow> string option" where
  "append_opt a b = (case a of None \<Rightarrow> None | Some x \<Rightarrow> map_option (\<lambda>y. x @ y) b)"

definition low_byte :: "u32 \<Rightarrow> char" where
  "low_byte cp = char_of (unat cp mod 256)"

text \<open>\<open>bytes\<close> is the text of the code point; a code point that is none has its bytes written one by one.\<close>

definition write_escaped_cp :: "u32 \<Rightarrow> string \<Rightarrow> string option" where
  "write_escaped_cp cp bytes =
     (if cp = 0x0A then Some [CHR 0x5C, CHR ''n'']
      else if cp = 0x0D then Some [CHR 0x5C, CHR ''r'']
      else if cp = 0x09 then Some [CHR 0x5C, CHR ''t'']
      else if cp = 0x22 \<or> cp = 0x27 \<or> cp = 0x5C then Some [CHR 0x5C, low_byte cp]
      else if cp < 0x100 then write_codepoint 2 (CHR ''x'') (unat cp)
      else if cp < 0x10000 then write_codepoint 4 (CHR ''u'') (unat cp)
      else if cp < 0x110000 then write_codepoint 8 (CHR ''U'') (unat cp)
      else foldr (\<lambda>c r. append_opt (write_codepoint 2 (CHR ''x'') (of_char c)) r) bytes (Some []))"

lemma find_escape_end:
  "find_escape s = Some r \<Longrightarrow> esc_end r = Some e \<Longrightarrow> 0 < length s \<and> esc_begin r < e \<and> e \<le> length s"
  using find_escape_found [of s] by (cases "s = []") (auto simp: found_in_def)

function escape_loop :: "string \<Rightarrow> string option" where
  "escape_loop s =
     (case find_escape s of
        None \<Rightarrow> None
      | Some r \<Rightarrow>
          (case esc_end r of
             None \<Rightarrow> Some (take (esc_begin r) s)
           | Some e \<Rightarrow>
               append_opt (Some (take (esc_begin r) s))
                 (append_opt (write_escaped_cp (esc_cp r) (drop (esc_begin r) (take e s)))
                   (if e = length s then Some [] else escape_loop (drop e s)))))"
  by pat_completeness auto

termination
  by (relation "measure length") (auto dest: find_escape_end)

declare escape_loop.simps [simp del]

definition write_escaped_string :: "string \<Rightarrow> string option" where
  "write_escaped_string s =
     append_opt (Some [CHR 0x22]) (append_opt (escape_loop s) (Some [CHR 0x22]))"

text \<open>A \<^verbatim>\<open>char\<close> is signed: a byte above 127 becomes a number with the upper bits set.\<close>

definition char_code_point :: "char \<Rightarrow> u32" where
  "char_code_point v = scast (of_char v :: u8)"

definition write_escaped_char :: "char \<Rightarrow> string option" where
  "write_escaped_char v =
     (case needs_escape (char_code_point v) of
        None \<Rightarrow> None
      | Some b \<Rightarrow>
          append_opt (Some [CHR 0x27])
            (append_opt
              (if b \<and> v \<noteq> CHR 0x22 \<or> v = CHR 0x27 then write_escaped_cp (char_code_point v) [v] else Some [v])
              (Some [CHR 0x27])))"

subsection \<open>What is written\<close>

text \<open>A text that a terminal shows as it is: no control characters.\<close>

definition no_controls :: "string \<Rightarrow> bool" where
  "no_controls s \<longleftrightarrow> list_all (\<lambda>c. 0x20 \<le> (of_char c :: nat) \<and> of_char c \<noteq> (0x7f :: nat)) s"

definition clean :: "string option \<Rightarrow> bool" where
  "clean t \<longleftrightarrow> (\<exists>x. t = Some x \<and> no_controls x)"

lemma clean_simps [simp]: "clean (Some x) \<longleftrightarrow> no_controls x" "\<not> clean None"
  by (simp_all add: clean_def)

lemma clean_append: "clean a \<Longrightarrow> clean b \<Longrightarrow> clean (append_opt a b)"
  by (auto simp: clean_def append_opt_def no_controls_def)

lemma clean_if: "(b \<Longrightarrow> clean x) \<Longrightarrow> (\<not> b \<Longrightarrow> clean y) \<Longrightarrow> clean (if b then x else y)"
  by simp

lemma hex_digit_visible: "d < 16 \<Longrightarrow> no_controls [base_digit 4 False d]"
proof -
  have "list_all (\<lambda>d. no_controls [base_digit 4 False d]) [0..<16]" by code_simp
  then show "d < 16 \<Longrightarrow> no_controls [base_digit 4 False d]" by (simp add: list_all_iff)
qed

lemma base_text_visible: "no_controls (base_text 4 False v)"
proof (induction v rule: less_induct)
  case (less v)
  have "no_controls [base_digit 4 False (v mod 16)]" by (rule hex_digit_visible) simp
  then show ?case
    using less [of "v div 16"] by (subst base_text.simps) (auto simp: no_controls_def)
qed

lemma base_text_length: "0 < w \<Longrightarrow> v < 16 ^ w \<Longrightarrow> length (base_text 4 False v) \<le> w"
proof (induction w arbitrary: v)
  case (Suc w)
  show ?case
  proof (cases "v < 16")
    case True
    then show ?thesis by (subst base_text.simps) simp
  next
    case False
    then have "0 < w" using Suc.prems by (cases w) auto
    moreover have "v div 16 < 16 ^ w" using Suc.prems by (simp add: div_less_iff_less_mult mult.commute)
    ultimately show ?thesis using Suc.IH [of "v div 16"] False by (subst base_text.simps) simp
  qed
qed simp

lemma write_codepoint_clean:
  assumes "0 < w" and "cp < 16 ^ w" and "no_controls [p]"
  shows "clean (write_codepoint w p cp)"
proof -
  have "length (base_text 4 False cp) \<le> w" using base_text_length assms by blast
  then have "do_format_base2e 4 (replicate w (CHR ''0'')) cp w False =
      Some (take (w - length (base_text 4 False cp)) (replicate w (CHR ''0'')) @ base_text 4 False cp @ drop w (replicate w (CHR ''0'')),
            int w - int (length (base_text 4 False cp)))"
    using format_base2e_prints [of 4 False cp w "replicate w (CHR ''0'')"] by simp
  then show ?thesis
    using base_text_visible [of cp] assms(3) by (auto simp: write_codepoint_def no_controls_def list_all_iff)
qed

lemma write_escaped_cp_clean: "clean (write_escaped_cp cp bytes)"
proof -
  have bytes: "clean (foldr (\<lambda>c r. append_opt (write_codepoint 2 (CHR ''x'') (of_char c)) r) bs (Some []))" for bs
    by (induction bs) (auto intro!: clean_append write_codepoint_clean simp: no_controls_def)
  show ?thesis
    unfolding write_escaped_cp_def
    by (intro clean_if bytes write_codepoint_clean) (auto simp: no_controls_def low_byte_def word_less_nat_alt)
qed

lemma escape_loop_clean: "clean (escape_loop s)"
proof (induction s rule: escape_loop.induct)
  case (1 s)
  obtain r where r: "find_escape s = Some r" "found_in s 0 r" using find_escape_found by blast
  have "no_controls (take (esc_begin r) s)"
    using r(2) by (auto simp: no_controls_def found_in_def list_all_length plain_char_def)
  then show ?case
    using r(1) 1 [OF r(1)] by (subst escape_loop.simps) (auto intro!: clean_append write_escaped_cp_clean split: option.split simp: no_controls_def)
qed

lemma write_escaped_string_clean: "clean (write_escaped_string s)"
  unfolding write_escaped_string_def by (intro clean_append escape_loop_clean) (simp_all add: no_controls_def)

lemma write_escaped_char_clean: "clean (write_escaped_char v)"
proof -
  obtain b where b: "needs_escape (char_code_point v) = Some b" using needs_escape_inside by blast
  have "no_controls [v]" if "\<not> b"
  proof (cases "of_char v < (128 :: nat)")
    case True
    define m where "m = (of_char v :: nat)"
    have m: "m < 128" using True by (simp add: m_def)
    have "(of_char v :: u8) = word_of_nat m" by (simp add: m_def of_nat_of_char)
    then have "sint (of_char v :: u8) = int m"
      using m signed_take_bit_int_eq_self [of 7 "int m"] by (simp add: signed_of_nat)
    then have "char_code_point v = word_of_nat m"
      by (simp add: char_code_point_def scast_eq)
    then have "unat (char_code_point v) = of_char v" using m fits_32 [of m] by (simp add: unsigned_of_nat m_def)
    then show ?thesis using not_escaped [of "char_code_point v"] b that by (simp add: no_controls_def)
  qed (simp add: no_controls_def)
  moreover have "no_controls [CHR 0x22]" "no_controls [CHR 0x27]" by (simp_all add: no_controls_def)
  ultimately show ?thesis
    using b unfolding write_escaped_char_def
    by (auto intro!: clean_append clean_if write_escaped_cp_clean)
qed

text \<open>
  C20: Every text and every character can be written with escapes, whatever bytes it holds: the tables of printable characters are
  never left, the digits fit their buffers, and what is written has no control characters.
\<close>

theorem escaped_text_is_clean:
  "(\<exists>t. write_escaped_string s = Some t \<and> no_controls t) \<and> (\<exists>t. write_escaped_char v = Some t \<and> no_controls t)"
  using write_escaped_string_clean [of s] write_escaped_char_clean [of v] by (simp add: clean_def)

end
