(* ===== verification/Fmt_Write.thy ===== *)
theory Fmt_Write
  imports Fmt_Parse Fmt_Escape
begin

text \<open>
  How a value is written by its specification (\<^verbatim>\<open>fmt/bundled/format.h\<close>): padding, integers, characters, truth values, texts
  and pointers. Output goes through an iterator that only appends; here a writer returns the text it appends. What an
  exception reports is an error, and so is an access outside of a buffer; that one never happens.
\<close>

section \<open>Padding\<close>

definition fill_text :: "'a basic_specs_scheme \<Rightarrow> nat \<Rightarrow> string" where
  "fill_text sp n =
     (if length (sp_fill sp) = 1 then replicate n (hd (sp_fill sp)) else concat (replicate n (sp_fill sp)))"

text \<open>The shifts are string literals; the entry of \<^verbatim>\<open>align::numeric\<close> is their end.\<close>

definition align_shifts :: "alignment \<Rightarrow> nat list" where
  "align_shifts default_align = (if default_align = AlignLeft then [31, 31, 0, 1, 0] else [0, 31, 0, 1, 0])"

text \<open>\<open>wd\<close> is the width of the text that \<open>f\<close> writes. The size is only a hint for the buffer.\<close>

definition write_padded :: "alignment \<Rightarrow> 'a format_specs_scheme \<Rightarrow> nat \<Rightarrow> string \<Rightarrow> string" where
  "write_padded default_align sp wd f =
     (let spec_width = nat (sp_width sp);
          padding = (if spec_width > wd then spec_width - wd else 0);
          left_padding = drop_bit (align_shifts default_align ! align_num (sp_align sp)) padding;
          right_padding = padding - left_padding
      in (if left_padding \<noteq> 0 then fill_text sp left_padding else []) @ f @
         (if right_padding \<noteq> 0 then fill_text sp right_padding else []))"

definition fmt_write_bytes :: "string \<Rightarrow> 'a format_specs_scheme \<Rightarrow> string" where
  "fmt_write_bytes bytes sp = write_padded AlignLeft sp (length bytes) bytes"

section \<open>Integers\<close>

text \<open>The characters of a prefix are in the three lower bytes, the first one lowest; their number is in the fourth.\<close>

definition prefix_append :: "u32 \<Rightarrow> u32 \<Rightarrow> u32" where
  "prefix_append p v =
     (let p1 = p OR (if p \<noteq> 0 then push_bit 8 v else v) in p1 + push_bit 24 (1 + (if v > 0xff then 1 else 0)))"

lemma drop_byte_smaller: "p \<noteq> 0 \<Longrightarrow> unat (drop_bit 8 p) < unat p" for p :: u32
proof -
  assume "p \<noteq> 0"
  have "unat (drop_bit 8 p) = unat p div 256"
    using fits_32 [of "unat p"] unsigned_less [of p, where ?'a = nat]
    by (simp only: unsigned_drop_bit_eq drop_bit_eq_div [where 'a = nat]) simp
  then show ?thesis using \<open>p \<noteq> 0\<close> by (simp add: unat_gt_0)
qed

function prefix_loop :: "u32 \<Rightarrow> string" where
  "prefix_loop p = (if p \<noteq> 0 then char_of (unat (p AND 0xff)) # prefix_loop (drop_bit 8 p) else [])"
  by pat_completeness auto

termination by (relation "measure unat") (auto intro: drop_byte_smaller)

declare prefix_loop.simps [simp del]

definition prefix_text :: "u32 \<Rightarrow> string" where
  "prefix_text p = prefix_loop (p AND 0xffffff)"

definition prefix_size :: "u32 \<Rightarrow> nat" where
  "prefix_size p = unat (drop_bit 24 p)"

definition char_word :: "char \<Rightarrow> u32" where
  "char_word c = of_char c"

definition sign_prefixes :: "u32 list" where
  "sign_prefixes = [0, 0, 0x1000000 OR char_word (CHR ''+''), 0x1000000 OR char_word (CHR '' '')]"

text \<open>\<open>signed\<close> says whether the type of the value is signed; the absolute value has the unsigned type.\<close>

definition make_write_int_arg :: "bool \<Rightarrow> 'a::len word \<Rightarrow> sign_spec \<Rightarrow> 'a word \<times> u32" where
  "make_write_int_arg is_signed v s =
     (if is_signed \<and> sint v < 0 then (0 - v, 0x01000000 OR char_word (CHR ''-''))
      else (v, sign_prefixes ! sign_num s))"

definition size_padding :: "nat \<Rightarrow> u32 \<Rightarrow> 'a format_specs_scheme \<Rightarrow> nat \<times> nat" where
  "size_padding num_digits p sp =
     (let sz = prefix_size p + num_digits in
      if sp_align sp = AlignNumeric
      then (let wd = nat (sp_width sp) in if wd > sz then (wd, wd - sz) else (sz, 0))
      else if sp_precision sp > int num_digits
      then (prefix_size p + nat (sp_precision sp), nat (sp_precision sp) - num_digits)
      else (sz, 0))"

text \<open>The digits are the end of a buffer with one character for each bit.\<close>

definition buffer_end :: "(string \<times> int) option \<Rightarrow> string option" where
  "buffer_end r = (case r of None \<Rightarrow> None | Some (buf, begin) \<Rightarrow> if begin < 0 then None else Some (drop (nat begin) buf))"

definition hex_prefix :: "bool \<Rightarrow> u32" where
  "hex_prefix upper = push_bit 8 (char_word (if upper then CHR ''X'' else CHR ''x'')) OR char_word (CHR ''0'')"

definition bin_prefix :: "bool \<Rightarrow> u32" where
  "bin_prefix upper = push_bit 8 (char_word (if upper then CHR ''B'' else CHR ''b'')) OR char_word (CHR ''0'')"

text \<open>The digits and the prefix with what the presentation adds to it.\<close>

definition int_digits :: "'a::len word \<Rightarrow> u32 \<Rightarrow> 'b format_specs_scheme \<Rightarrow> (string \<times> u32) option" where
  "int_digits abs_value p sp =
     (let n = LENGTH('a); buf = replicate n (CHR 0x00); v = unat abs_value in
      case sp_type sp of
        PHex \<Rightarrow>
          map_option (\<lambda>ds. (ds, if sp_alt sp then prefix_append p (hex_prefix (sp_upper sp)) else p))
            (buffer_end (do_format_base2e 4 buf v n (sp_upper sp)))
      | POct \<Rightarrow>
          map_option (\<lambda>ds. (ds,
              if sp_alt sp \<and> sp_precision sp \<le> int (length ds) \<and> abs_value \<noteq> 0
              then prefix_append p (char_word (CHR ''0'')) else p))
            (buffer_end (do_format_base2e 3 buf v n False))
      | PBin \<Rightarrow>
          map_option (\<lambda>ds. (ds, if sp_alt sp then prefix_append p (bin_prefix (sp_upper sp)) else p))
            (buffer_end (do_format_base2e 1 buf v n False))
      | _ \<Rightarrow> map_option (\<lambda>ds. (ds, p)) (buffer_end (do_format_decimal buf v n)))"

definition opt_result :: "string option \<Rightarrow> string + string" where
  "opt_result r = (case r of None \<Rightarrow> Inl ''out of bounds'' | Some t \<Rightarrow> Inr t)"

definition write_char :: "char \<Rightarrow> 'a format_specs_scheme \<Rightarrow> string + string" where
  "write_char v sp =
     opt_result (map_option (write_padded AlignLeft sp 1)
       (if sp_type sp = PDebug then write_escaped_char v else Some [v]))"

text \<open>The presentations without digits stop the program; they are not accepted for integers.\<close>

definition fmt_write_int :: "'a::len word \<times> u32 \<Rightarrow> 'b format_specs_scheme \<Rightarrow> string + string" where
  "fmt_write_int arg sp =
     (let (abs_value, p0) = arg in
      if sp_type sp = PChr then write_char (char_of (unat abs_value)) sp
      else if sp_type sp = PDebug \<or> sp_type sp = PString then Inl ''assertion failed''
      else case int_digits abs_value p0 sp of
          None \<Rightarrow> Inl ''out of bounds''
        | Some (ds, p) \<Rightarrow>
            if sp_width sp = 0 \<and> sp_precision sp = -1 then Inr (prefix_text p @ ds)
            else let (sz, padding) = size_padding (length ds) p sp in
              Inr (write_padded AlignRight sp sz (prefix_text p @ replicate padding (CHR ''0'') @ ds)))"

subsection \<open>Digits in groups\<close>

text \<open>
  What the locale says: the sizes of the groups from the right, the last one repeating, and the separator. It comes from the C++
  library (\<^verbatim>\<open>std::numpunct\<close>) and is an argument of the writers.
\<close>

record punctuation =
  pn_grouping :: "int list"
  pn_sep :: string

definition format_facet :: "int list \<Rightarrow> char \<Rightarrow> punctuation" where
  "format_facet grouping sep = \<lparr>pn_grouping = grouping, pn_sep = (if grouping \<noteq> [] then [sep] else [])\<rparr>"

text \<open>The state is the groups that are left and the position; the result is where the next separator stands.\<close>

definition next_group :: "punctuation \<Rightarrow> int list \<times> int \<Rightarrow> int \<times> int list \<times> int" where
  "next_group loc st =
     (let (group, pos) = st in
      if pn_sep loc = [] then (INT_MAX, st)
      else case group of
          [] \<Rightarrow> (pos + List.last (pn_grouping loc), [], pos + List.last (pn_grouping loc))
        | g # gs \<Rightarrow> if g \<le> 0 \<or> g = 127 then (INT_MAX, st) else (pos + g, gs, pos + g))"

partial_function (option) count_separators_loop :: "punctuation \<Rightarrow> int \<Rightarrow> int list \<times> int \<Rightarrow> nat \<Rightarrow> nat option" where
  "count_separators_loop loc num_digits st count =
     (let (i, st1) = next_group loc st in
      if num_digits > i then count_separators_loop loc num_digits st1 (count + 1) else Some count)"

definition count_separators :: "punctuation \<Rightarrow> int \<Rightarrow> nat option" where
  "count_separators loc num_digits = count_separators_loop loc num_digits (pn_grouping loc, 0) 0"

partial_function (option) separators_loop :: "punctuation \<Rightarrow> int \<Rightarrow> int list \<times> int \<Rightarrow> int list \<Rightarrow> int list option" where
  "separators_loop loc num_digits st separators =
     (let (i, st1) = next_group loc st in
      if i = 0 then Some separators
      else if i \<ge> num_digits then Some separators
      else separators_loop loc num_digits st1 (separators @ [i]))"

declare count_separators_loop.simps [code] separators_loop.simps [code]

text \<open>The separators are used from the last one on.\<close>

fun grouping_loop :: "string \<Rightarrow> int list \<Rightarrow> string \<Rightarrow> string" where
  "grouping_loop sep separators [] = []"
| "grouping_loop sep separators (c # cs) =
     (if int (length (c # cs)) = List.last separators
      then sep @ c # grouping_loop sep (butlast separators) cs
      else c # grouping_loop sep separators cs)"

definition grouping_apply :: "punctuation \<Rightarrow> string \<Rightarrow> string option" where
  "grouping_apply loc digits =
     map_option (\<lambda>separators. grouping_loop (pn_sep loc) separators digits)
       (separators_loop loc (int (length digits)) (pn_grouping loc, 0) [0])"

definition exact_digits :: "(string \<times> int) option \<Rightarrow> string option" where
  "exact_digits r = map_option fst r"

definition format_base2e_exact :: "nat \<Rightarrow> nat \<Rightarrow> bool \<Rightarrow> string option" where
  "format_base2e_exact base_bits v upper =
     (let n = count_digits_base2 base_bits v
      in exact_digits (do_format_base2e base_bits (replicate n (CHR 0x00)) v n upper))"

definition grouped_digits :: "u64 \<Rightarrow> u32 \<Rightarrow> 'b format_specs_scheme \<Rightarrow> (string \<times> u32) option" where
  "grouped_digits value p sp =
     (let v = unat value in
      case sp_type sp of
        PHex \<Rightarrow>
          map_option (\<lambda>ds. (ds, if sp_alt sp then prefix_append p (hex_prefix (sp_upper sp)) else p))
            (format_base2e_exact 4 v (sp_upper sp))
      | POct \<Rightarrow>
          map_option (\<lambda>ds. (ds,
              if sp_alt sp \<and> sp_precision sp \<le> int (count_digits_base2 3 v) \<and> value \<noteq> 0
              then prefix_append p (char_word (CHR ''0'')) else p))
            (format_base2e_exact 3 v False)
      | PBin \<Rightarrow>
          map_option (\<lambda>ds. (ds, if sp_alt sp then prefix_append p (bin_prefix (sp_upper sp)) else p))
            (format_base2e_exact 1 v False)
      | _ \<Rightarrow>
          (let n = count_digits_64 value
           in map_option (\<lambda>ds. (ds, p)) (exact_digits (do_format_decimal (replicate n (CHR 0x00)) v n))))"

definition write_int_grouped :: "punctuation \<Rightarrow> u64 \<Rightarrow> u32 \<Rightarrow> 'b format_specs_scheme \<Rightarrow> string + string" where
  "write_int_grouped loc value p0 sp =
     (if sp_type sp = PChr then write_char (char_of (unat value)) sp
      else if sp_type sp = PDebug \<or> sp_type sp = PString then Inl ''assertion failed''
      else case grouped_digits value p0 sp of
          None \<Rightarrow> Inl ''out of bounds''
        | Some (ds, p) \<Rightarrow>
            (case (count_separators loc (int (length ds)), grouping_apply loc ds) of
               (Some k, Some t) \<Rightarrow>
                 Inr (write_padded AlignRight sp (prefix_size p + length ds + k) (prefix_text p @ t))
             | _ \<Rightarrow> Inl ''no result''))"

definition write_loc :: "punctuation \<Rightarrow> bool \<Rightarrow> 'a::len word \<Rightarrow> 'b format_specs_scheme \<Rightarrow> string + string" where
  "write_loc loc is_signed v sp =
     (let (abs_value, p) = make_write_int_arg is_signed v (sp_sign sp) in write_int_grouped loc (ucast abs_value) p sp)"

definition write_integer :: "punctuation \<Rightarrow> bool \<Rightarrow> 'a::len word \<Rightarrow> 'b format_specs_scheme \<Rightarrow> string + string" where
  "write_integer loc is_signed v sp =
     (if sp_localized sp then write_loc loc is_signed v sp
      else fmt_write_int (make_write_int_arg is_signed v (sp_sign sp)) sp)"

text \<open>Without a specification: the digits are counted first.\<close>

definition count_digits_word :: "'a::len word \<Rightarrow> nat" where
  "count_digits_word n =
     (if LENGTH('a) = 32 then nat (count_digits_32 (ucast n))
      else if LENGTH('a) = 64 then count_digits_64 (ucast n)
      else count_digits_any (unat n))"

definition write_integer_plain :: "bool \<Rightarrow> 'a::len word \<Rightarrow> string + string" where
  "write_integer_plain is_signed v =
     (let negative = is_signed \<and> sint v < 0;
          abs_value = (if negative then NOT v + 1 else v);
          num_digits = count_digits_word abs_value
      in opt_result (map_option (\<lambda>(buf, _). (if negative then ''-'' else []) @ buf)
           (do_format_decimal (replicate num_digits (CHR 0x00)) (unat abs_value) num_digits)))"

section \<open>Other values\<close>

definition check_char_specs :: "'a format_specs_scheme \<Rightarrow> string + bool" where
  "check_char_specs sp =
     (if sp_type sp \<noteq> PNone \<and> sp_type sp \<noteq> PChr \<and> sp_type sp \<noteq> PDebug then Inr False
      else if sp_align sp = AlignNumeric \<or> sp_sign sp \<noteq> SignNone \<or> sp_alt sp then Inl ''invalid format specifier for char''
      else Inr True)"

definition write_char_value :: "punctuation \<Rightarrow> char \<Rightarrow> 'a format_specs_scheme \<Rightarrow> string + string" where
  "write_char_value loc v sp =
     (case check_char_specs sp of
        Inl e \<Rightarrow> Inl e
      | Inr True \<Rightarrow> write_char v sp
      | Inr False \<Rightarrow> write_integer loc False (of_char v :: u32) sp)"

definition write_bool :: "punctuation \<Rightarrow> bool \<Rightarrow> 'a format_specs_scheme \<Rightarrow> string + string" where
  "write_bool loc v sp =
     (if sp_type sp \<noteq> PNone \<and> sp_type sp \<noteq> PString then write_integer loc True (if v then 1 else 0 :: u32) sp
      else Inr (fmt_write_bytes (if v then ''true'' else ''false'') sp))"

text \<open>With quotes the text is not cut to the precision.\<close>

definition fmt_write_string :: "string \<Rightarrow> 'a format_specs_scheme \<Rightarrow> string + string" where
  "fmt_write_string s sp =
     (let cut = (if sp_precision sp \<ge> 0 \<and> nat (sp_precision sp) < length s
                 then code_point_index s (nat (sp_precision sp)) else length s);
          is_debug = (sp_type sp = PDebug);
          quoted_text = (if is_debug then write_escaped_string s else Some [])
      in case quoted_text of
           None \<Rightarrow> Inl ''out of bounds''
         | Some q \<Rightarrow>
             let sz = (if is_debug then length q else cut);
                 wd = (if sp_width sp \<noteq> 0 then if is_debug then sz else compute_width (take sz s) else 0)
             in Inr (write_padded AlignLeft sp wd (if is_debug then q else take sz s)))"

definition write_ptr :: "u64 \<Rightarrow> 'a format_specs_scheme option \<Rightarrow> string + string" where
  "write_ptr v sp =
     (let num_digits = count_digits_base2 4 (unat v);
          f = map_option (\<lambda>(buf, _). ''0x'' @ buf)
                (do_format_base2e 4 (replicate num_digits (CHR 0x00)) (unat v) num_digits False)
      in opt_result (map_option (\<lambda>t. case sp of
           Some sp1 \<Rightarrow> write_padded AlignRight sp1 (num_digits + 2) t | None \<Rightarrow> t) f))"

text \<open>A C string is an address and the text there; the null pointer has none.\<close>

definition write_cstring :: "u64 \<Rightarrow> string \<Rightarrow> 'a format_specs_scheme \<Rightarrow> string + string" where
  "write_cstring address s sp =
     (if sp_type sp = PPointer then write_ptr address (Some sp)
      else if address = 0 then Inl ''string pointer is null''
      else fmt_write_string s sp)"

section \<open>What the writers write\<close>

subsection \<open>Padding\<close>

text \<open>The padding on the left, of \<open>padding\<close> columns in all.\<close>

definition left_share :: "alignment \<Rightarrow> alignment \<Rightarrow> nat \<Rightarrow> nat" where
  "left_share default_align a padding =
     (case a of
        AlignNone \<Rightarrow> if default_align = AlignLeft then 0 else padding
      | AlignLeft \<Rightarrow> 0
      | AlignCenter \<Rightarrow> padding div 2
      | _ \<Rightarrow> padding)"

definition padded_text :: "alignment \<Rightarrow> 'a format_specs_scheme \<Rightarrow> nat \<Rightarrow> string \<Rightarrow> string" where
  "padded_text default_align sp wd t =
     (let padding = nat (sp_width sp) - wd; l = left_share default_align (sp_align sp) padding
      in concat (replicate l (sp_fill sp)) @ t @ concat (replicate (padding - l) (sp_fill sp)))"

definition width_ok :: "'a format_specs_scheme \<Rightarrow> bool" where
  "width_ok sp \<longleftrightarrow> 0 \<le> sp_width sp \<and> sp_width sp \<le> INT_MAX"

lemma concat_replicate_single: "concat (replicate n [c]) = replicate n c"
  by (induction n) simp_all

lemma fill_text_concat: "fill_text sp n = concat (replicate n (sp_fill sp))"
proof (cases "length (sp_fill sp) = 1")
  case True
  then obtain c where "sp_fill sp = [c]" by (auto simp: length_Suc_conv)
  then show ?thesis by (simp add: fill_text_def concat_replicate_single)
qed (simp add: fill_text_def)

lemma shift_31: "n < 2147483648 \<Longrightarrow> drop_bit 31 n = 0" for n :: nat
  by (simp add: drop_bit_eq_div)

lemma write_padded_eq:
  assumes "width_ok sp"
  shows "write_padded d sp wd t = padded_text d sp wd t"
proof -
  define padding where "padding = nat (sp_width sp) - wd"
  have p: "padding < 2147483648" using assms by (auto simp: padding_def width_ok_def INT_MAX_def)
  have l: "drop_bit (align_shifts d ! align_num (sp_align sp)) padding = left_share d (sp_align sp) padding"
    using shift_31 [OF p] by (cases "sp_align sp") (simp_all add: align_shifts_def left_share_def drop_bit_Suc)
  have pad: "(if nat (sp_width sp) > wd then nat (sp_width sp) - wd else 0) = padding" by (simp add: padding_def)
  have "write_padded d sp wd t =
      (let left = left_share d (sp_align sp) padding; right = padding - left
       in (if left \<noteq> 0 then fill_text sp left else []) @ t @ (if right \<noteq> 0 then fill_text sp right else []))"
    unfolding write_padded_def Let_def pad l by (rule refl)
  then show ?thesis
    unfolding padded_text_def Let_def padding_def [symmetric] by (auto simp: fill_text_concat)
qed

lemma left_share_le: "left_share d a padding \<le> padding"
  by (cases a) (simp_all add: left_share_def)

lemma padded_length:
  assumes "length (sp_fill sp) = 1"
  shows "length (padded_text d sp (length t) t) = max (length t) (nat (sp_width sp))"
proof -
  obtain c where c: "sp_fill sp = [c]" using assms by (auto simp: length_Suc_conv)
  show ?thesis
    using left_share_le [of d "sp_align sp" "nat (sp_width sp) - length t"] left_share_le [of d "sp_align sp" 0]
    by (simp add: padded_text_def Let_def c concat_replicate_single max_def)
qed

lemma padded_zero: "sp_width sp = 0 \<Longrightarrow> padded_text d sp wd t = t"
  by (cases "sp_align sp") (simp_all add: padded_text_def Let_def left_share_def)

subsection \<open>Prefixes\<close>

definition fmt_sign_text :: "bool \<Rightarrow> sign_spec \<Rightarrow> string" where
  "fmt_sign_text negative s =
     (if negative then ''-'' else case s of SignPlus \<Rightarrow> ''+'' | SignSpace \<Rightarrow> '' '' | _ \<Rightarrow> [])"

definition sign_words :: "u32 list" where
  "sign_words = [0, 0x0100002d, 0x0100002b, 0x01000020]"

text \<open>Every sign and every prefix that is put behind it.\<close>

lemma prefixes:
  "list_all (\<lambda>p. prefix_size p = length (prefix_text p) \<and>
     list_all (\<lambda>up. prefix_text (prefix_append p (hex_prefix up)) = prefix_text p @ (if up then ''0X'' else ''0x'') \<and>
       prefix_size (prefix_append p (hex_prefix up)) = prefix_size p + 2 \<and>
       prefix_text (prefix_append p (bin_prefix up)) = prefix_text p @ (if up then ''0B'' else ''0b'') \<and>
       prefix_size (prefix_append p (bin_prefix up)) = prefix_size p + 2) [True, False] \<and>
     prefix_text (prefix_append p (char_word (CHR ''0''))) = prefix_text p @ ''0'' \<and>
     prefix_size (prefix_append p (char_word (CHR ''0''))) = prefix_size p + 1) sign_words"
  by code_simp

lemma make_arg_sign:
  "snd (make_write_int_arg sg v s) \<in> set sign_words"
  "prefix_text (snd (make_write_int_arg sg v s)) = fmt_sign_text (sg \<and> sint v < 0) s"
proof -
  have "prefix_text 0 = []" "prefix_text (0x01000000 OR char_word (CHR ''-'')) = ''-''"
    "prefix_text (0x1000000 OR char_word (CHR ''+'')) = ''+''" "prefix_text (0x1000000 OR char_word (CHR '' '')) = '' ''"
    by code_simp+
  then show "prefix_text (snd (make_write_int_arg sg v s)) = fmt_sign_text (sg \<and> sint v < 0) s"
    by (cases s) (simp_all add: make_write_int_arg_def sign_prefixes_def fmt_sign_text_def)
  have "0x01000000 OR char_word (CHR ''-'') = 0x0100002d" "0x1000000 OR char_word (CHR ''+'') = 0x0100002b"
    "0x1000000 OR char_word (CHR '' '') = 0x01000020" by code_simp+
  then show "snd (make_write_int_arg sg v s) \<in> set sign_words"
    by (cases s) (simp_all add: make_write_int_arg_def sign_prefixes_def sign_words_def)
qed

subsection \<open>Digits\<close>

lemma base_text_fits: "0 < bits \<Longrightarrow> 0 < w \<Longrightarrow> v < 2 ^ (bits * w) \<Longrightarrow> length (base_text bits up v) \<le> w"
proof (induction w arbitrary: v)
  case (Suc w)
  show ?case
  proof (cases "v < 2 ^ bits")
    case True
    then show ?thesis by (subst base_text.simps) simp
  next
    case False
    then have "0 < w" using Suc.prems by (cases w) auto
    moreover have "v div 2 ^ bits < 2 ^ (bits * w)"
      using Suc.prems by (simp add: div_less_iff_less_mult power_add mult.commute)
    ultimately show ?thesis using Suc.IH [of "v div 2 ^ bits"] Suc.prems False by (subst base_text.simps) simp
  qed
qed simp

lemma word_digits_fit:
  "length (dec (unat (v :: 'a::len word))) \<le> LENGTH('a)"
  "0 < bits \<Longrightarrow> length (base_text bits up (unat v)) \<le> LENGTH('a)"
proof -
  have v: "unat v < 2 ^ LENGTH('a)" by (rule unsigned_less)
  have "(2 :: nat) ^ LENGTH('a) \<le> 10 ^ LENGTH('a)" by (rule power_mono) simp_all
  then have "unat v < 10 ^ LENGTH('a)" using v by linarith
  then show "length (dec (unat v)) \<le> LENGTH('a)" by (subst dec_length) (simp_all add: Suc_le_eq)
  assume "0 < bits"
  then have "(2 :: nat) ^ LENGTH('a) \<le> 2 ^ (bits * LENGTH('a))" by (intro power_increasing) simp_all
  then have "unat v < 2 ^ (bits * LENGTH('a))" using v by linarith
  then show "length (base_text bits up (unat v)) \<le> LENGTH('a)" using base_text_fits [OF \<open>0 < bits\<close>] by simp
qed

lemma printed_buffer_end:
  "length t \<le> n \<Longrightarrow> buffer_end (Some (take (n - length t) (replicate n c) @ t @ drop n (replicate n c), int n - int (length t))) = Some t"
  by (simp add: buffer_end_def nat_diff_distrib)

lemma decimal_buffer: "buffer_end (do_format_decimal (replicate LENGTH('a) c) (unat v) LENGTH('a)) = Some (dec (unat v))"
  for v :: "'a::len word"
  using word_digits_fit(1) [of v] by (subst format_decimal_prints) (simp_all only: printed_buffer_end length_replicate order_refl)

lemma base_buffer:
  "0 < bits \<Longrightarrow> buffer_end (do_format_base2e bits (replicate LENGTH('a) c) (unat v) LENGTH('a) up) = Some (base_text bits up (unat v))"
  for v :: "'a::len word"
  using word_digits_fit(2) [of bits up v] by (subst format_base2e_prints) (simp_all only: printed_buffer_end length_replicate order_refl)

text \<open>The digits by the presentation, and what stands between the sign and them.\<close>

definition digits_by :: "'b format_specs_scheme \<Rightarrow> nat \<Rightarrow> string" where
  "digits_by sp n =
     (case sp_type sp of
        PHex \<Rightarrow> base_text 4 (sp_upper sp) n
      | POct \<Rightarrow> base_text 3 False n
      | PBin \<Rightarrow> base_text 1 False n
      | _ \<Rightarrow> dec n)"

definition base_prefix :: "'b format_specs_scheme \<Rightarrow> nat \<Rightarrow> string" where
  "base_prefix sp n =
     (if \<not> sp_alt sp then []
      else case sp_type sp of
          PHex \<Rightarrow> if sp_upper sp then ''0X'' else ''0x''
        | POct \<Rightarrow> if sp_precision sp \<le> int (length (digits_by sp n)) \<and> n \<noteq> 0 then ''0'' else []
        | PBin \<Rightarrow> if sp_upper sp then ''0B'' else ''0b''
        | _ \<Rightarrow> [])"

lemma prefix_appended:
  assumes "p \<in> set sign_words"
  shows "prefix_size p = length (prefix_text p)"
    "prefix_text (prefix_append p (hex_prefix up)) = prefix_text p @ (if up then ''0X'' else ''0x'')"
    "prefix_size (prefix_append p (hex_prefix up)) = length (prefix_text p) + 2"
    "prefix_text (prefix_append p (bin_prefix up)) = prefix_text p @ (if up then ''0B'' else ''0b'')"
    "prefix_size (prefix_append p (bin_prefix up)) = length (prefix_text p) + 2"
    "prefix_text (prefix_append p (char_word (CHR ''0''))) = prefix_text p @ ''0''"
    "prefix_size (prefix_append p (char_word (CHR ''0''))) = length (prefix_text p) + 1"
proof -
  show s: "prefix_size p = length (prefix_text p)" using prefixes assms by (simp add: list_all_iff)
  have "list_all (\<lambda>up. prefix_text (prefix_append p (hex_prefix up)) = prefix_text p @ (if up then ''0X'' else ''0x'') \<and>
       prefix_size (prefix_append p (hex_prefix up)) = prefix_size p + 2 \<and>
       prefix_text (prefix_append p (bin_prefix up)) = prefix_text p @ (if up then ''0B'' else ''0b'') \<and>
       prefix_size (prefix_append p (bin_prefix up)) = prefix_size p + 2) [True, False]"
    "prefix_text (prefix_append p (char_word (CHR ''0''))) = prefix_text p @ ''0''"
    "prefix_size (prefix_append p (char_word (CHR ''0''))) = prefix_size p + 1"
    using prefixes assms unfolding list_all_iff by blast+
  then show "prefix_text (prefix_append p (hex_prefix up)) = prefix_text p @ (if up then ''0X'' else ''0x'')"
    "prefix_size (prefix_append p (hex_prefix up)) = length (prefix_text p) + 2"
    "prefix_text (prefix_append p (bin_prefix up)) = prefix_text p @ (if up then ''0B'' else ''0b'')"
    "prefix_size (prefix_append p (bin_prefix up)) = length (prefix_text p) + 2"
    "prefix_text (prefix_append p (char_word (CHR ''0''))) = prefix_text p @ ''0''"
    "prefix_size (prefix_append p (char_word (CHR ''0''))) = length (prefix_text p) + 1"
    unfolding s by (cases up; simp)+
qed

definition numeric_presentation :: "presentation \<Rightarrow> bool" where
  "numeric_presentation t \<longleftrightarrow> t \<in> {PNone, PDec, PHex, POct, PBin}"

lemma int_digits_eq:
  assumes "p \<in> set sign_words" and "numeric_presentation (sp_type sp)"
  shows "\<exists>q. int_digits v p sp = Some (digits_by sp (unat v), q) \<and>
    prefix_text q = prefix_text p @ base_prefix sp (unat v) \<and> prefix_size q = length (prefix_text q)"
  using assms(2) prefix_appended [OF assms(1)]
  by (cases "sp_type sp")
    (simp_all add: numeric_presentation_def int_digits_def Let_def decimal_buffer base_buffer digits_by_def base_prefix_def unsigned_eq_0_iff)

text \<open>
  A number by its specification: the sign and the prefix, zeros, the digits, and around them the fill. Zeros are written
  for a width when the alignment is numeric, and for a precision.
\<close>

definition fmt_number_text :: "'b format_specs_scheme \<Rightarrow> int \<Rightarrow> string" where
  "fmt_number_text sp i =
     (let n = nat \<bar>i\<bar>; pre = fmt_sign_text (i < 0) (sp_sign sp) @ base_prefix sp n; ds = digits_by sp n;
          zeros = (if sp_align sp = AlignNumeric then nat (sp_width sp) - (length pre + length ds)
                   else nat (sp_precision sp) - length ds);
          body = pre @ replicate zeros (CHR ''0'') @ ds
      in padded_text AlignRight sp (length body) body)"

definition int_value :: "bool \<Rightarrow> 'a::len word \<Rightarrow> int" where
  "int_value is_signed v = (if is_signed then sint v else uint v)"

lemma abs_word:
  fixes v :: "'a::len word"
  shows
  "unat (fst (make_write_int_arg sg v s)) = nat \<bar>int_value sg v\<bar>"
proof -
  have bound: "- (2 ^ (LENGTH('a) - 1)) \<le> sint v" "sint v < 2 ^ (LENGTH('a) - 1)"
    using sint_ge [of v] sint_lt [of v] by simp_all
  have half: "(2 :: int) ^ (LENGTH('a) - 1) < 2 ^ LENGTH('a)" by (rule power_strict_increasing) simp_all
  show ?thesis
  proof (cases "sint v < 0")
    case True
    have "- v = word_of_int (- sint v)" by simp
    then have "uint (- v) = take_bit LENGTH('a) (- sint v)" by (simp only: uint_word_of_int_eq)
    also have "\<dots> = - sint v" using True bound half by (intro take_bit_int_eq_self) linarith+
    finally have "unat (- v) = nat (- sint v)" by (simp only: unat_eq_nat_uint)
    then show ?thesis using True by (cases sg) (simp_all add: make_write_int_arg_def int_value_def)
  next
    case False
    have "uint v = take_bit LENGTH('a) (sint v)" using uint_word_of_int_eq [of "sint v", where ?'a = 'a] by simp
    also have "\<dots> = sint v" using False bound half by (intro take_bit_int_eq_self) linarith+
    finally have "unat v = nat (sint v)" by (simp only: unat_eq_nat_uint)
    then show ?thesis using False by (cases sg) (simp_all add: make_write_int_arg_def int_value_def)
  qed
qed

lemma size_padding_eq:
  assumes "prefix_size q = length (prefix_text q)"
  shows "size_padding (length ds) q sp =
    (let zeros = (if sp_align sp = AlignNumeric then nat (sp_width sp) - (length (prefix_text q) + length ds)
                  else nat (sp_precision sp) - length ds)
     in (length (prefix_text q) + zeros + length ds, zeros))"
  using assms by (auto simp: size_padding_def Let_def)

lemma write_integer_text:
  assumes "width_ok sp" and "numeric_presentation (sp_type sp)" and "\<not> sp_localized sp"
  shows "write_integer loc sg v sp = Inr (fmt_number_text sp (int_value sg v))"
proof -
  obtain a p where arg: "make_write_int_arg sg v (sp_sign sp) = (a, p)" by fastforce
  have p: "p \<in> set sign_words" "prefix_text p = fmt_sign_text (sg \<and> sint v < 0) (sp_sign sp)"
    using make_arg_sign [of sg v "sp_sign sp"] arg by simp_all
  have a: "unat a = nat \<bar>int_value sg v\<bar>" using abs_word [of sg v "sp_sign sp"] arg by simp
  have neg: "sg \<and> sint v < 0 \<longleftrightarrow> int_value sg v < 0" by (simp add: int_value_def)
  obtain q where q: "int_digits a p sp = Some (digits_by sp (unat a), q)"
    "prefix_text q = prefix_text p @ base_prefix sp (unat a)" "prefix_size q = length (prefix_text q)"
    using int_digits_eq [OF p(1) assms(2)] by blast
  have t: "sp_type sp \<noteq> PChr" "sp_type sp \<noteq> PDebug" "sp_type sp \<noteq> PString"
    using assms(2) by (auto simp: numeric_presentation_def)
  let ?n = "nat \<bar>int_value sg v\<bar>"
  have pre: "prefix_text q = fmt_sign_text (int_value sg v < 0) (sp_sign sp) @ base_prefix sp ?n"
    using q(2) p(2) by (simp only: a neg)
  have body: "fmt_write_int (a, p) sp =
      (if sp_width sp = 0 \<and> sp_precision sp = -1 then Inr (prefix_text q @ digits_by sp ?n)
       else let (sz, padding) = size_padding (length (digits_by sp ?n)) q sp in
         Inr (padded_text AlignRight sp sz (prefix_text q @ replicate padding (CHR ''0'') @ digits_by sp ?n)))"
    using t q(1) by (simp add: fmt_write_int_def a write_padded_eq [OF assms(1)])
  have "fmt_write_int (a, p) sp = Inr (fmt_number_text sp (int_value sg v))"
    unfolding body size_padding_eq [OF q(3)] fmt_number_text_def pre [symmetric] Let_def prod.case
    by (simp add: padded_zero add.assoc)
  then show ?thesis using assms(3) arg by (simp add: write_integer_def)
qed

subsection \<open>Numbers without a specification\<close>

lemma unat_ucast_same: "LENGTH('a) = LENGTH('b) \<Longrightarrow> unat (ucast n :: 'b::len word) = unat n" for n :: "'a::len word"
  using unsigned_less [of n, where ?'a = nat] by (simp add: unsigned_ucast_eq take_bit_nat_eq_self_iff)

lemma count_digits_word_eq: "count_digits_word n = length (dec (unat n))" for n :: "'a::len word"
  using unat_ucast_same [where 'a = 'a and 'b = 32] unat_ucast_same [where 'a = 'a and 'b = 64]
  by (simp add: count_digits_word_def count_digits_32_correct count_digits_64_correct count_digits_any_correct)

definition int_dec :: "int \<Rightarrow> string" where
  "int_dec i = (if i < 0 then ''-'' else []) @ dec (nat \<bar>i\<bar>)"

lemma write_integer_plain_text: "write_integer_plain sg v = Inr (int_dec (int_value sg v))"
proof -
  define a where "a = (if sg \<and> sint v < 0 then NOT v + 1 else v)"
  have "a = fst (make_write_int_arg sg v SignNone)"
    by (simp add: a_def make_write_int_arg_def minus_eq_not_plus_1)
  then have a: "unat a = nat \<bar>int_value sg v\<bar>" using abs_word [of sg v SignNone] by simp
  have neg: "sg \<and> sint v < 0 \<longleftrightarrow> int_value sg v < 0" by (simp add: int_value_def)
  have "write_integer_plain sg v =
      opt_result (map_option (\<lambda>(buf, _). (if sg \<and> sint v < 0 then ''-'' else []) @ buf)
        (do_format_decimal (replicate (count_digits_word a) (CHR 0x00)) (unat a) (count_digits_word a)))"
    by (simp only: write_integer_plain_def Let_def a_def)
  also have "\<dots> = Inr (int_dec (int_value sg v))"
    unfolding count_digits_word_eq neg by (simp add: format_decimal_prints a opt_result_def int_dec_def)
  finally show ?thesis .
qed

text \<open>A number without a specification is the same as one with an empty specification.\<close>

lemma number_text_plain:
  "sp_type sp \<in> {PNone, PDec} \<Longrightarrow> sp_width sp = 0 \<Longrightarrow> sp_precision sp = -1 \<Longrightarrow> sp_sign sp = SignNone \<Longrightarrow>
    fmt_number_text sp i = int_dec i"
  by (auto simp: fmt_number_text_def Let_def padded_zero base_prefix_def digits_by_def fmt_sign_text_def int_dec_def)

subsection \<open>Texts\<close>

lemma padded_short: "nat (sp_width sp) \<le> wd \<Longrightarrow> padded_text d sp wd t = t"
  by (cases "sp_align sp") (simp_all add: padded_text_def Let_def left_share_def)

definition cut_text :: "'a format_specs_scheme \<Rightarrow> string \<Rightarrow> string" where
  "cut_text sp s = (if sp_precision sp \<ge> 0 then take (nat (sp_precision sp)) s else s)"

text \<open>ASCII text is cut to the precision and padded to the width.\<close>

lemma write_string_ascii:
  assumes "ascii s" and "width_ok sp" and "sp_type sp \<noteq> PDebug"
  shows "fmt_write_string s sp = Inr (padded_text AlignLeft sp (length (cut_text sp s)) (cut_text sp s))"
proof -
  define n where "n = nat (sp_precision sp)"
  define k where "k = (if sp_precision sp \<ge> 0 \<and> n < length s then code_point_index s n else length s)"
  have cut: "take k s = cut_text sp s"
    by (auto simp: k_def cut_text_def code_point_index_ascii [OF assms(1)] n_def)
  have "ascii (take k s)" using assms(1) by (auto simp: ascii_def list_all_iff dest: in_set_takeD)
  then have wd: "compute_width (cut_text sp s) = length (cut_text sp s)" by (simp add: compute_width_ascii cut)
  have "fmt_write_string s sp = Inr (write_padded AlignLeft sp (if sp_width sp \<noteq> 0 then length (cut_text sp s) else 0) (cut_text sp s))"
    unfolding fmt_write_string_def Let_def n_def [symmetric] k_def [symmetric] using assms(3) by (simp add: wd cut)
  then show ?thesis by (simp add: write_padded_eq [OF assms(2)] padded_zero)
qed

text \<open>Any text is written, and what is written is padded.\<close>

lemma write_string_result: "\<exists>t. fmt_write_string s sp = Inr t"
  using write_escaped_string_clean [of s] by (auto simp: fmt_write_string_def Let_def clean_def)

lemma write_char_result: "\<exists>t. write_char v sp = Inr t"
  using write_escaped_char_clean [of v] by (auto simp: write_char_def opt_result_def clean_def)

lemma write_ptr_result: "\<exists>t. write_ptr v sp = Inr t"
proof -
  have "do_format_base2e 4 (replicate (count_digits_base2 4 (unat v)) (CHR 0x00)) (unat v) (count_digits_base2 4 (unat v)) False \<noteq> None"
    by (subst format_base2e_prints) (simp_all add: count_digits_base2_correct [of 4 _ False])
  then show ?thesis by (auto simp: write_ptr_def Let_def opt_result_def)
qed

section \<open>Grouped digits\<close>

text \<open>A locale whose groups are all in order.\<close>

definition groups_ok :: "punctuation \<Rightarrow> bool" where
  "groups_ok loc \<longleftrightarrow> pn_sep loc = [] \<or> pn_grouping loc \<noteq> []"

definition group_state :: "punctuation \<Rightarrow> int list \<times> int \<Rightarrow> bool" where
  "group_state loc st \<longleftrightarrow>
     0 \<le> snd st \<and> (\<exists>done. pn_grouping loc = done @ fst st \<and> (\<forall>g\<in>set done. 0 < g))"

text \<open>The position moves on, or there is no further separator.\<close>

lemma next_group_moves:
  assumes "groups_ok loc" and "group_state loc st" and "next_group loc st = (i, st1)"
  shows "i = INT_MAX \<or> snd st < i \<and> i = snd st1 \<and> group_state loc st1"
proof -
  obtain group pos where st: "st = (group, pos)" by fastforce
  show ?thesis
  proof (cases "pn_sep loc = []")
    case True
    then show ?thesis using assms(3) by (simp add: next_group_def st)
  next
    case sep: False
    show ?thesis
    proof (cases group)
      case Nil
      then obtain g: "pn_grouping loc \<noteq> []" "\<forall>g\<in>set (pn_grouping loc). 0 < g"
        using assms(1,2) sep by (auto simp: groups_ok_def group_state_def st)
      then have "0 < List.last (pn_grouping loc)" "0 \<le> pos" using assms(2) by (simp_all add: group_state_def st)
      then have "0 \<le> pos + List.last (pn_grouping loc)" by linarith
      then show ?thesis using assms(3) sep Nil g by (auto simp: next_group_def st group_state_def)
    next
      case (Cons g gs)
      then show ?thesis
        using assms(2,3) sep
        by (auto simp: next_group_def st group_state_def split: if_splits intro!: exI [of _ "_ @ [g]"])
    qed
  qed
qed

text \<open>Both loops see the same positions, one after the other and below the number of digits.\<close>

lemma group_loops_end:
  assumes "groups_ok loc" and "n \<le> INT_MAX"
  shows "group_state loc st \<Longrightarrow> \<exists>xs. (\<forall>seps. separators_loop loc n st seps = Some (seps @ xs)) \<and>
    (\<forall>k. count_separators_loop loc n st k = Some (k + length xs)) \<and>
    sorted_wrt (<) (snd st # xs) \<and> (\<forall>x\<in>set xs. x < n)"
proof (induction "nat (n - snd st)" arbitrary: st rule: less_induct)
  case less
  obtain i st1 where g: "next_group loc st = (i, st1)" by (cases "next_group loc st") blast
  have moves: "i = INT_MAX \<or> snd st < i \<and> i = snd st1 \<and> group_state loc st1"
    by (rule next_group_moves [OF assms(1) less.prems g])
  have nonneg: "0 \<le> snd st" using less.prems by (simp add: group_state_def)
  show ?case
  proof (cases "i \<ge> n")
    case True
    then show ?thesis
      using g by (intro exI [of _ "[]"]) (simp add: separators_loop.simps [of loc n st] count_separators_loop.simps [of loc n st])
  next
    case False
    then have i: "snd st < i" "i = snd st1" "group_state loc st1" using moves assms(2) by auto
    have "nat (n - snd st1) < nat (n - snd st)" using i False by simp
    then obtain xs where xs: "\<forall>seps. separators_loop loc n st1 seps = Some (seps @ xs)"
      "\<forall>k. count_separators_loop loc n st1 k = Some (k + length xs)" "sorted_wrt (<) (snd st1 # xs)" "\<forall>x\<in>set xs. x < n"
      using less.hyps i(3) by blast
    have "i \<noteq> 0" using i(1) nonneg by simp
    then have "separators_loop loc n st seps = Some (seps @ i # xs)" for seps
      using g False xs(1) by (subst separators_loop.simps) simp
    moreover have "count_separators_loop loc n st k = Some (k + length (i # xs))" for k
      using g False xs(2) by (subst count_separators_loop.simps) simp
    ultimately show ?thesis using xs(3,4) i False by (intro exI [of _ "i # xs"]) auto
  qed
qed

lemma grouping_loop_digits: "\<forall>c\<in>set sep. c \<notin> set ds \<Longrightarrow> filter (\<lambda>c. c \<notin> set sep) (grouping_loop sep seps ds) = ds"
  by (induction sep seps ds rule: grouping_loop.induct) auto

lemma grouping_loop_length:
  "sorted_wrt (<) (0 # xs) \<Longrightarrow> \<forall>x\<in>set xs. x \<le> int (length ds) \<Longrightarrow>
    length (grouping_loop sep (0 # xs) ds) = length ds + length xs * length sep"
proof (induction ds arbitrary: xs)
  case Nil
  then have "xs = []" by (cases xs) force+
  then show ?case by simp
next
  case (Cons c cs)
  show ?case
  proof (cases xs rule: rev_cases)
    case Nil
    then show ?thesis using Cons.IH [of "[]"] by simp
  next
    case (snoc ys y)
    have sorted: "sorted_wrt (<) (0 # ys)" "\<forall>x\<in>set ys. x < y" using Cons.prems snoc by (simp_all add: sorted_wrt_append)
    show ?thesis
    proof (cases "int (length (c # cs)) = y")
      case True
      then have "\<forall>x\<in>set ys. x \<le> int (length cs)" using sorted(2) by auto
      then show ?thesis using Cons.IH [OF sorted(1)] True snoc by (simp add: butlast_append)
    next
      case False
      then have "\<forall>x\<in>set xs. x \<le> int (length cs)" using Cons.prems sorted(2) snoc by auto
      then show ?thesis using Cons.IH [OF Cons.prems(1)] False snoc by simp
    qed
  qed
qed

text \<open>The groups are written as they are counted, and the digits are still the same.\<close>

lemma grouping_apply_spec:
  assumes "groups_ok loc" and "length ds \<le> nat INT_MAX"
  obtains k t where "count_separators loc (int (length ds)) = Some k" "grouping_apply loc ds = Some t"
    "length t = length ds + k * length (pn_sep loc)"
    "\<forall>c\<in>set (pn_sep loc). c \<notin> set ds \<Longrightarrow> filter (\<lambda>c. c \<notin> set (pn_sep loc)) t = ds"
proof -
  have n: "int (length ds) \<le> INT_MAX" using assms(2) by (simp add: INT_MAX_def)
  have "group_state loc (pn_grouping loc, 0)" by (simp add: group_state_def)
  then obtain xs where xs: "\<forall>seps. separators_loop loc (int (length ds)) (pn_grouping loc, 0) seps = Some (seps @ xs)"
    "\<forall>k. count_separators_loop loc (int (length ds)) (pn_grouping loc, 0) k = Some (k + length xs)"
    "sorted_wrt (<) (0 # xs)" "\<forall>x\<in>set xs. x < int (length ds)"
    using group_loops_end [OF assms(1) n] by fastforce
  show thesis
  proof (rule that)
    show "count_separators loc (int (length ds)) = Some (length xs)" using xs(2) by (simp add: count_separators_def)
    show "grouping_apply loc ds = Some (grouping_loop (pn_sep loc) (0 # xs) ds)" using xs(1) by (simp add: grouping_apply_def)
    show "length (grouping_loop (pn_sep loc) (0 # xs) ds) = length ds + length xs * length (pn_sep loc)"
      using xs(3,4) by (intro grouping_loop_length) auto
    show "filter (\<lambda>c. c \<notin> set (pn_sep loc)) (grouping_loop (pn_sep loc) (0 # xs) ds) = ds"
      if "\<forall>c\<in>set (pn_sep loc). c \<notin> set ds"
      using that by (rule grouping_loop_digits)
  qed
qed

lemma exact_base2e: "0 < bits \<Longrightarrow> format_base2e_exact bits v up = Some (base_text bits up v)"
  unfolding format_base2e_exact_def Let_def exact_digits_def
  by (subst format_base2e_prints) (simp_all add: count_digits_base2_correct [of bits v up])

lemma exact_decimal: "exact_digits (do_format_decimal (replicate (count_digits_64 v) c) (unat v) (count_digits_64 v)) = Some (dec (unat v))"
  unfolding exact_digits_def by (subst format_decimal_prints) (simp_all add: count_digits_64_correct)

lemma grouped_digits_eq:
  assumes "p \<in> set sign_words" and "numeric_presentation (sp_type sp)"
  shows "\<exists>q. grouped_digits v p sp = Some (digits_by sp (unat v), q) \<and>
    prefix_text q = prefix_text p @ base_prefix sp (unat v) \<and> prefix_size q = length (prefix_text q)"
  using assms(2) prefix_appended [OF assms(1)] count_digits_base2_correct [of 3 "unat v" False]
  by (cases "sp_type sp")
    (simp_all add: numeric_presentation_def grouped_digits_def Let_def exact_base2e exact_decimal digits_by_def base_prefix_def
      unsigned_eq_0_iff)

lemma digits_by_short: "length (digits_by sp (unat v)) \<le> LENGTH('a)" for v :: "'a::len word"
  using word_digits_fit(1) [of v] word_digits_fit(2) [where v = v] by (simp add: digits_by_def split: presentation.split)

text \<open>A grouped number: the sign, the prefix and the digits with separators between them.\<close>

lemma write_loc_text:
  fixes v :: "'a::len word"
  assumes "groups_ok loc" and "numeric_presentation (sp_type sp)" and "LENGTH('a) \<le> 64"
  obtains k t where
    "write_loc loc sg v sp =
      (let pre = fmt_sign_text (int_value sg v < 0) (sp_sign sp) @ base_prefix sp (nat \<bar>int_value sg v\<bar>)
       in Inr (write_padded AlignRight sp (length pre + length (digits_by sp (nat \<bar>int_value sg v\<bar>)) + k) (pre @ t)))"
    "length t = length (digits_by sp (nat \<bar>int_value sg v\<bar>)) + k * length (pn_sep loc)"
    "\<forall>c\<in>set (pn_sep loc). c \<notin> set (digits_by sp (nat \<bar>int_value sg v\<bar>)) \<Longrightarrow>
      filter (\<lambda>c. c \<notin> set (pn_sep loc)) t = digits_by sp (nat \<bar>int_value sg v\<bar>)"
proof -
  obtain a p where arg: "make_write_int_arg sg v (sp_sign sp) = (a, p)" by fastforce
  have p: "p \<in> set sign_words" "prefix_text p = fmt_sign_text (int_value sg v < 0) (sp_sign sp)"
    using make_arg_sign [of sg v "sp_sign sp"] arg by (simp_all add: int_value_def)
  have "unat a < 2 ^ LENGTH('a)" "(2 :: nat) ^ LENGTH('a) \<le> 2 ^ 64"
    using assms(3) by (simp_all only: unsigned_less power_increasing numeral_One one_le_numeral)
  then have "unat a < 2 ^ 64" by linarith
  then have "unat (ucast a :: u64) = unat a" by (simp add: unsigned_ucast_eq take_bit_nat_eq_self)
  then have a: "unat (ucast a :: u64) = nat \<bar>int_value sg v\<bar>" using abs_word [of sg v "sp_sign sp"] arg by simp
  obtain q where q: "grouped_digits (ucast a) p sp = Some (digits_by sp (nat \<bar>int_value sg v\<bar>), q)"
    "prefix_text q = prefix_text p @ base_prefix sp (nat \<bar>int_value sg v\<bar>)" "prefix_size q = length (prefix_text q)"
    using grouped_digits_eq [OF p(1) assms(2), of "ucast a"] by (auto simp: a)
  have "length (digits_by sp (nat \<bar>int_value sg v\<bar>)) \<le> nat INT_MAX"
    using digits_by_short [of sp "ucast a :: u64"] by (simp add: a INT_MAX_def)
  then obtain k t where t: "count_separators loc (int (length (digits_by sp (nat \<bar>int_value sg v\<bar>)))) = Some k"
    "grouping_apply loc (digits_by sp (nat \<bar>int_value sg v\<bar>)) = Some t"
    "length t = length (digits_by sp (nat \<bar>int_value sg v\<bar>)) + k * length (pn_sep loc)"
    "\<forall>c\<in>set (pn_sep loc). c \<notin> set (digits_by sp (nat \<bar>int_value sg v\<bar>)) \<Longrightarrow>
      filter (\<lambda>c. c \<notin> set (pn_sep loc)) t = digits_by sp (nat \<bar>int_value sg v\<bar>)"
    by (rule grouping_apply_spec [OF assms(1)]) blast
  have ty: "sp_type sp \<noteq> PChr" "sp_type sp \<noteq> PDebug" "sp_type sp \<noteq> PString"
    using assms(2) by (auto simp: numeric_presentation_def)
  show thesis
  proof (rule that [OF _ t(3,4)])
    show "write_loc loc sg v sp =
      (let pre = fmt_sign_text (int_value sg v < 0) (sp_sign sp) @ base_prefix sp (nat \<bar>int_value sg v\<bar>)
       in Inr (write_padded AlignRight sp (length pre + length (digits_by sp (nat \<bar>int_value sg v\<bar>)) + k) (pre @ t)))"
      using ty q t(1,2) p(2) by (simp add: write_loc_def arg write_int_grouped_def Let_def)
  qed
qed

text \<open>
  C23: Grouping ends. For every locale and every number of digits, the loop that counts separators and the loop that places them end, after
  the same number of separators; the digits keep their order between them. A group of size 0, of negative size or of
  size \<^verbatim>\<open>CHAR_MAX\<close> ends the grouping.
\<close>

theorem grouping_ends:
  assumes "length ds \<le> nat INT_MAX"
  shows "\<exists>k t. count_separators (format_facet grouping sep) (int (length ds)) = Some k \<and>
    grouping_apply (format_facet grouping sep) ds = Some t \<and>
    length t = length ds + k * length (pn_sep (format_facet grouping sep)) \<and>
    (sep \<notin> set ds \<longrightarrow> filter (\<lambda>c. c \<notin> set (pn_sep (format_facet grouping sep))) t = ds)"
proof -
  have ok: "groups_ok (format_facet grouping sep)" by (simp add: groups_ok_def format_facet_def)
  obtain k t where t: "count_separators (format_facet grouping sep) (int (length ds)) = Some k"
    "grouping_apply (format_facet grouping sep) ds = Some t"
    "length t = length ds + k * length (pn_sep (format_facet grouping sep))"
    "\<forall>c\<in>set (pn_sep (format_facet grouping sep)). c \<notin> set ds \<Longrightarrow>
      filter (\<lambda>c. c \<notin> set (pn_sep (format_facet grouping sep))) t = ds"
    by (rule grouping_apply_spec [OF ok assms]) blast
  have "\<forall>c\<in>set (pn_sep (format_facet grouping sep)). c \<notin> set ds" if "sep \<notin> set ds"
    using that by (simp add: format_facet_def)
  then show ?thesis using t by blast
qed

lemma grouping_ends_witness:
  "\<exists>k t. count_separators (format_facet [3, 2] (CHR '','')) 8 = Some k \<and> grouping_apply (format_facet [3, 2] (CHR '','')) ''12345678'' = Some t \<and>
    length t = length ''12345678'' + k \<and> filter (\<lambda>c. c \<noteq> CHR '','') t = ''12345678''"
  using grouping_ends [of "''12345678''" "[3, 2]" "CHR '',''"] by (simp add: INT_MAX_def format_facet_def)



end
