(* ===== verification/Fmt_Format.thy ===== *)
theory Fmt_Format
  imports Fmt_Write
begin

text \<open>
  Formatting (\<^verbatim>\<open>fmt/bundled/base.h\<close>, \<^verbatim>\<open>fmt/bundled/format.h\<close>): the arguments, the handler that writes them as the format
  string says, and the handler that checks a format string when the program is compiled. Arguments of
  floating-point and of 128-bit types are left out. The formatter of a class is what reads its specification, here without
  arguments of its own for widths, and what writes the value by it.
\<close>

section \<open>Arguments\<close>

datatype fmt_arg =
    FInt u32 | FUInt u32 | FLongLong u64 | FULongLong u64 | FBool bool | FChar char
  | FCString u64 string | FString string | FPointer u64 | FCustom "string \<Rightarrow> string + nat" "string \<Rightarrow> string + string"

primrec arg_type :: "fmt_arg \<Rightarrow> fmt_type" where
  "arg_type (FInt v) = IntType" | "arg_type (FUInt v) = UIntType" | "arg_type (FLongLong v) = LongLongType"
| "arg_type (FULongLong v) = ULongLongType" | "arg_type (FBool b) = BoolType" | "arg_type (FChar c) = CharType"
| "arg_type (FCString a s) = CStringType" | "arg_type (FString s) = StringType" | "arg_type (FPointer a) = PointerType"
| "arg_type (FCustom p w) = CustomType"

text \<open>The arguments of a call, the names of some of them, and the locale.\<close>

record fmt_call =
  fc_args :: "fmt_arg list"
  fc_names :: "(string \<times> int) list"
  fc_grouping :: "int list"
  fc_thousands_sep :: char

definition fc_locale :: "fmt_call \<Rightarrow> punctuation" where
  "fc_locale call = format_facet (fc_grouping call) (fc_thousands_sep call)"

definition get_arg :: "fmt_call \<Rightarrow> int \<Rightarrow> fmt_arg option" where
  "get_arg call i = (if 0 \<le> i \<and> i < int (length (fc_args call)) then Some (fc_args call ! nat i) else None)"

text \<open>The index of a name, -1 when there is none.\<close>

definition get_id :: "fmt_call \<Rightarrow> string \<Rightarrow> int" where
  "get_id call n = (case map_of (fc_names call) n of None \<Rightarrow> -1 | Some i \<Rightarrow> i)"

definition get_named :: "fmt_call \<Rightarrow> string \<Rightarrow> fmt_arg option" where
  "get_named call n = (let i = get_id call n in if i \<ge> 0 then get_arg call i else None)"

section \<open>Widths and precisions from arguments\<close>

definition dynamic_value :: "bool \<Rightarrow> 'a::len word \<Rightarrow> u64" where
  "dynamic_value is_signed v = (if is_signed \<and> sint v < 0 then NOT 0 else if is_signed then scast v else ucast v)"

definition dynamic_spec_getter :: "fmt_arg \<Rightarrow> string + u64" where
  "dynamic_spec_getter arg =
     (case arg of
        FInt v \<Rightarrow> Inr (dynamic_value True v)
      | FUInt v \<Rightarrow> Inr (dynamic_value False v)
      | FLongLong v \<Rightarrow> Inr (dynamic_value True v)
      | FULongLong v \<Rightarrow> Inr (dynamic_value False v)
      | _ \<Rightarrow> Inl ''width/precision is not integer'')"

definition get_dynamic_spec :: "fmt_call \<Rightarrow> arg_ref \<Rightarrow> string + int" where
  "get_dynamic_spec call r =
     (case (case r of RefIndex i \<Rightarrow> get_arg call i | RefName n \<Rightarrow> get_named call n) of
        None \<Rightarrow> Inl ''argument not found''
      | Some arg \<Rightarrow>
          (case dynamic_spec_getter arg of
             Inl e \<Rightarrow> Inl e
           | Inr v \<Rightarrow> if uint v > INT_MAX then Inl ''width/precision is out of range'' else Inr (uint v)))"

definition handle_dynamic_spec :: "fmt_call \<Rightarrow> arg_id_kind \<Rightarrow> int \<Rightarrow> arg_ref \<Rightarrow> string + int" where
  "handle_dynamic_spec call kind old r = (if kind \<noteq> KindNone then get_dynamic_spec call r else Inr old)"

definition resolve_specs :: "fmt_call \<Rightarrow> dynamic_format_specs \<Rightarrow> string + dynamic_format_specs" where
  "resolve_specs call sp =
     (if specs_dynamic sp
      then (case handle_dynamic_spec call (sp_dynamic_width sp) (sp_width sp) (sp_width_ref sp) of
              Inl e \<Rightarrow> Inl e
            | Inr w \<Rightarrow>
                (case handle_dynamic_spec call (sp_dynamic_precision sp) (sp_precision sp) (sp_precision_ref sp) of
                   Inl e \<Rightarrow> Inl e
                 | Inr p \<Rightarrow> Inr (sp\<lparr>sp_width := w, sp_precision := p\<rparr>)))
      else Inr sp)"

section \<open>Writing an argument\<close>

definition default_arg_formatter :: "fmt_arg option \<Rightarrow> string + string" where
  "default_arg_formatter arg =
     (case arg of
        None \<Rightarrow> Inl ''argument not found''
      | Some (FInt v) \<Rightarrow> write_integer_plain True v
      | Some (FUInt v) \<Rightarrow> write_integer_plain False v
      | Some (FLongLong v) \<Rightarrow> write_integer_plain True v
      | Some (FULongLong v) \<Rightarrow> write_integer_plain False v
      | Some (FBool b) \<Rightarrow> Inr (fmt_write_bytes (if b then ''true'' else ''false'') mk_specs)
      | Some (FChar c) \<Rightarrow> Inr [c]
      | Some (FCString a s) \<Rightarrow> if a \<noteq> 0 then Inr s else Inl ''string pointer is null''
      | Some (FString s) \<Rightarrow> Inr s
      | Some (FPointer a) \<Rightarrow> write_ptr a (Some mk_specs)
      | Some (FCustom p w) \<Rightarrow>
          (case p [] of Inl e \<Rightarrow> Inl e | Inr n \<Rightarrow> w []))"

definition arg_formatter :: "punctuation \<Rightarrow> dynamic_format_specs \<Rightarrow> fmt_arg \<Rightarrow> string + string" where
  "arg_formatter loc sp arg =
     (case arg of
        FInt v \<Rightarrow> write_integer loc True v sp
      | FUInt v \<Rightarrow> write_integer loc False v sp
      | FLongLong v \<Rightarrow> write_integer loc True v sp
      | FULongLong v \<Rightarrow> write_integer loc False v sp
      | FBool b \<Rightarrow> write_bool loc b sp
      | FChar c \<Rightarrow> write_char_value loc c sp
      | FCString a s \<Rightarrow> write_cstring a s sp
      | FString s \<Rightarrow> fmt_write_string s sp
      | FPointer a \<Rightarrow> write_ptr a (Some sp)
      | FCustom p w \<Rightarrow> Inr [])"

section \<open>The handler that formats\<close>

record fmt_state =
  fs_ctx :: parse_context
  fs_out :: string

definition fh_text :: "string \<Rightarrow> fmt_state \<Rightarrow> fmt_state" where
  "fh_text t st = st\<lparr>fs_out := fs_out st @ t\<rparr>"

definition fh_auto_id :: "fmt_state \<Rightarrow> string + int \<times> fmt_state" where
  "fh_auto_id st = (case next_arg_id (fs_ctx st) of Inl e \<Rightarrow> Inl e | Inr (i, ctx) \<Rightarrow> Inr (i, st\<lparr>fs_ctx := ctx\<rparr>))"

definition fh_index :: "int \<Rightarrow> fmt_state \<Rightarrow> string + int \<times> fmt_state" where
  "fh_index i st = (case check_arg_id i (fs_ctx st) of Inl e \<Rightarrow> Inl e | Inr ctx \<Rightarrow> Inr (i, st\<lparr>fs_ctx := ctx\<rparr>))"

definition fh_name :: "fmt_call \<Rightarrow> string \<Rightarrow> fmt_state \<Rightarrow> string + int \<times> fmt_state" where
  "fh_name call n st =
     (let st1 = st\<lparr>fs_ctx := check_arg_name (fs_ctx st)\<rparr>; i = get_id call n
      in if i < 0 then Inl ''argument not found'' else Inr (i, st1))"

definition fh_field :: "fmt_call \<Rightarrow> int \<Rightarrow> fmt_state \<Rightarrow> string + fmt_state" where
  "fh_field call i st = (case default_arg_formatter (get_arg call i) of Inl e \<Rightarrow> Inl e | Inr t \<Rightarrow> Inr (fh_text t st))"

definition fh_specs :: "fmt_call \<Rightarrow> int \<Rightarrow> string \<Rightarrow> fmt_state \<Rightarrow> string + nat \<times> fmt_state" where
  "fh_specs call i s st =
     (case get_arg call i of
        None \<Rightarrow> Inl ''argument not found''
      | Some (FCustom p w) \<Rightarrow>
          (case p s of
             Inl e \<Rightarrow> Inl e
           | Inr n \<Rightarrow> (case w (take n s) of Inl e \<Rightarrow> Inl e | Inr t \<Rightarrow> Inr (n, fh_text t st)))
      | Some arg \<Rightarrow>
          (case parse_format_specs (arg_type arg) mk_specs (fs_ctx st) s of
             Inl e \<Rightarrow> Inl e
           | Inr (sp, ctx, rest) \<Rightarrow>
               (case resolve_specs call sp of
                  Inl e \<Rightarrow> Inl e
                | Inr sp1 \<Rightarrow>
                    (case arg_formatter (fc_locale call) sp1 arg of
                       Inl e \<Rightarrow> Inl e
                     | Inr t \<Rightarrow> Inr (length s - length rest, fh_text t (st\<lparr>fs_ctx := ctx\<rparr>))))))"

definition format_handler :: "fmt_call \<Rightarrow> fmt_state fmt_handler" where
  "format_handler call =
     \<lparr>on_text = fh_text, on_auto_id = fh_auto_id, on_index = fh_index, on_name = fh_name call, on_field = fh_field call,
      on_specs = fh_specs call\<rparr>"

text \<open>A format string that is one plain field is not parsed.\<close>

definition parsed_format :: "string \<Rightarrow> string \<Rightarrow> fmt_call \<Rightarrow> string + string" where
  "parsed_format buf fmt call =
     (case parse_format_string (format_handler call) fmt \<lparr>fs_ctx = mk_parse_context None, fs_out = buf\<rparr> of
        Inl e \<Rightarrow> Inl e
      | Inr st \<Rightarrow> Inr (fs_out st))"

definition vformat_to :: "string \<Rightarrow> string \<Rightarrow> fmt_call \<Rightarrow> string + string" where
  "vformat_to buf fmt call =
     (if fmt = ''{}''
      then (case default_arg_formatter (get_arg call 0) of Inl e \<Rightarrow> Inl e | Inr t \<Rightarrow> Inr (buf @ t))
      else parsed_format buf fmt call)"

lemma format_handler_simps [simp]:
  "on_text (format_handler call) = fh_text" "on_auto_id (format_handler call) = fh_auto_id"
  "on_index (format_handler call) = fh_index" "on_name (format_handler call) = fh_name call"
  "on_field (format_handler call) = fh_field call" "on_specs (format_handler call) = fh_specs call"
  by (simp_all add: format_handler_def)

text \<open>The short cut makes no difference.\<close>

lemma vformat_parsed: "vformat_to buf fmt call = parsed_format buf fmt call"
proof (cases "fmt = ''{}''")
  case True
  then show ?thesis
    by (simp add: vformat_to_def parsed_format_def parse_format_string_def parse_fields.simps parse_replacement_field_def
        plain_field_def fh_auto_id_def next_arg_id_def do_check_arg_id_def mk_parse_context_def fh_field_def fh_text_def
        split: sum.split)
qed (simp add: vformat_to_def)

section \<open>The handler that checks\<close>

text \<open>The formatter of a native type reads a specification only when there is one.\<close>

type_synonym spec_parser = "string \<Rightarrow> parse_context \<Rightarrow> string + nat \<times> parse_context"

definition native_parse :: "fmt_type \<Rightarrow> spec_parser" where
  "native_parse t s ctx =
     (if s = [] \<or> hd s = CHR ''}'' then Inr (0, ctx)
      else case parse_format_specs t mk_specs ctx s of
          Inl e \<Rightarrow> Inl e
        | Inr (sp, ctx1, rest) \<Rightarrow>
            (case (if t = CharType then check_char_specs sp else Inr True) of
               Inl e \<Rightarrow> Inl e
             | Inr _ \<Rightarrow> Inr (length s - length rest, ctx1)))"

record fmt_check =
  ck_parsers :: "spec_parser list"
  ck_names :: "(string \<times> int) list"
  ck_dynamic_names :: bool

definition ck_name :: "fmt_check \<Rightarrow> string \<Rightarrow> parse_context \<Rightarrow> string + int \<times> parse_context" where
  "ck_name ck n ctx =
     (case map_of (ck_names ck) n of
        Some i \<Rightarrow> Inr (i, ctx)
      | None \<Rightarrow> if \<not> ck_dynamic_names ck then Inl ''argument not found'' else Inr (-1, ctx))"

text \<open>A specification of an unknown type is skipped, with the braces inside of it.\<close>

fun skip_specs :: "nat \<Rightarrow> int \<Rightarrow> string \<Rightarrow> nat" where
  "skip_specs n bracket_count [] = n"
| "skip_specs n bracket_count (c # cs) =
     (if bracket_count > 0 \<or> c \<noteq> CHR ''}''
      then skip_specs (Suc n) (if c = CHR ''{'' then bracket_count + 1 else if c = CHR ''}'' then bracket_count - 1 else bracket_count) cs
      else n)"

definition ck_specs :: "fmt_check \<Rightarrow> int \<Rightarrow> string \<Rightarrow> parse_context \<Rightarrow> string + nat \<times> parse_context" where
  "ck_specs ck i s ctx =
     (if 0 \<le> i \<and> i < int (length (ck_parsers ck)) then (ck_parsers ck ! nat i) s ctx
      else Inr (skip_specs 0 0 s, ctx))"

text \<open>A field without a specification is checked at its closing brace.\<close>

definition ck_field :: "fmt_check \<Rightarrow> int \<Rightarrow> parse_context \<Rightarrow> string + parse_context" where
  "ck_field ck i ctx = (case ck_specs ck i ''}'' ctx of Inl e \<Rightarrow> Inl e | Inr (_, ctx1) \<Rightarrow> Inr ctx1)"

definition ck_index :: "int \<Rightarrow> parse_context \<Rightarrow> string + int \<times> parse_context" where
  "ck_index i ctx = (case check_arg_id i ctx of Inl e \<Rightarrow> Inl e | Inr ctx1 \<Rightarrow> Inr (i, ctx1))"

definition format_string_checker :: "fmt_check \<Rightarrow> parse_context fmt_handler" where
  "format_string_checker ck =
     \<lparr>on_text = (\<lambda>t ctx. ctx), on_auto_id = next_arg_id, on_index = ck_index, on_name = ck_name ck,
      on_field = ck_field ck, on_specs = ck_specs ck\<rparr>"

definition check_format_string :: "fmt_type list \<Rightarrow> fmt_check \<Rightarrow> string \<Rightarrow> string + unit" where
  "check_format_string types ck fmt =
     (case parse_format_string (format_string_checker ck) fmt (mk_parse_context (Some types)) of
        Inl e \<Rightarrow> Inl e
      | Inr _ \<Rightarrow> Inr ())"

end
