(* ===== verification/Fmt_Checked.thy ===== *)
theory Fmt_Checked
  imports Fmt_Format
begin

text \<open>
  A format string that was accepted at compile time does not go wrong at run time: the handler that formats follows
  the handler that checks, and the only errors left are those the check cannot see. Text with plain fields
  is written as it reads.
\<close>

section \<open>One handler follows another\<close>

text \<open>\<open>E\<close> are the errors that the second handler may have where the first one has none.\<close>

definition follows :: "('a \<Rightarrow> 'b \<Rightarrow> bool) \<Rightarrow> string set \<Rightarrow> 'x \<times> 'a \<Rightarrow> string + 'x \<times> 'b \<Rightarrow> bool" where
  "follows R E r1 r2 \<longleftrightarrow>
     (case r2 of Inl e \<Rightarrow> e \<in> E | Inr (x, b) \<Rightarrow> x = fst r1 \<and> R (snd r1) b)"

definition follows_state :: "('a \<Rightarrow> 'b \<Rightarrow> bool) \<Rightarrow> string set \<Rightarrow> 'a \<Rightarrow> string + 'b \<Rightarrow> bool" where
  "follows_state R E a r2 \<longleftrightarrow> (case r2 of Inl e \<Rightarrow> e \<in> E | Inr b \<Rightarrow> R a b)"

lemma follows_simps [simp]:
  "follows R E r1 (Inl e) \<longleftrightarrow> e \<in> E" "follows R E r1 (Inr (x, b)) \<longleftrightarrow> x = fst r1 \<and> R (snd r1) b"
  "follows_state R E a (Inl e) \<longleftrightarrow> e \<in> E" "follows_state R E a (Inr b) \<longleftrightarrow> R a b"
  by (simp_all add: follows_def follows_state_def)

locale fmt_simulation =
  fixes h1 :: "'a fmt_handler" and h2 :: "'b fmt_handler" and R :: "'a \<Rightarrow> 'b \<Rightarrow> bool" and E :: "string set"
  assumes text_follows: "R a b \<Longrightarrow> R (on_text h1 t a) (on_text h2 t b)"
    and auto_follows: "R a b \<Longrightarrow> on_auto_id h1 a = Inr r \<Longrightarrow> follows R E r (on_auto_id h2 b)"
    and index_follows: "R a b \<Longrightarrow> on_index h1 i a = Inr r \<Longrightarrow> follows R E r (on_index h2 i b)"
    and name_follows: "R a b \<Longrightarrow> on_name h1 n a = Inr r \<Longrightarrow> follows R E r (on_name h2 n b)"
    and field_follows: "R a b \<Longrightarrow> on_field h1 i a = Inr a1 \<Longrightarrow> follows_state R E a1 (on_field h2 i b)"
    and specs_follow: "R a b \<Longrightarrow> on_specs h1 i s a = Inr m \<Longrightarrow> follows R E m (on_specs h2 i s b)"
begin

lemma plain_field_follows:
  "R a b \<Longrightarrow> plain_field h1 i rest a = Inr r \<Longrightarrow> follows R E r (plain_field h2 i rest b)"
  using field_follows [of a b i] by (auto simp: plain_field_def split: sum.splits)

lemma finish_field_follows:
  "R a b \<Longrightarrow> finish_field h1 i s a = Inr r \<Longrightarrow> follows R E r (finish_field h2 i s b)"
  using specs_follow [of a b i s] by (fastforce simp: finish_field_def split: sum.splits if_splits)

lemma arg_ref_follows: "R a b \<Longrightarrow> on_arg_ref h1 x a = Inr r \<Longrightarrow> follows R E r (on_arg_ref h2 x b)"
  using index_follows name_follows by (cases x) (simp_all add: on_arg_ref_def)

text \<open>Going on after a step that follows.\<close>

lemma then_follows:
  assumes "follows R E (x, a1) r2" and "\<And>b1. R a1 b1 \<Longrightarrow> follows R E r (f x b1)"
  shows "follows R E r (case r2 of Inl e \<Rightarrow> Inl e | Inr (y, b1) \<Rightarrow> f y b1)"
  using assms by (auto split: sum.split)

lemma replacement_field_follows:
  assumes "R a b" and "parse_replacement_field h1 s a = Inr r"
  shows "follows R E r (parse_replacement_field h2 s b)"
proof (cases "s = [] \<or> hd s = CHR ''}'' \<or> hd s = CHR ''{'' \<or> hd s = CHR '':''")
  case True
  then consider "s = []" | "s \<noteq> []" "hd s = CHR ''}''" | "s \<noteq> []" "hd s = CHR ''{''" | "s \<noteq> []" "hd s = CHR '':''" by blast
  then show ?thesis
  proof cases
    case 2
    then obtain i a1 where r: "on_auto_id h1 a = Inr (i, a1)" "plain_field h1 i (tl s) a1 = Inr r"
      using assms(2) by (auto simp: parse_replacement_field_def split: sum.splits)
    have "follows R E r (case on_auto_id h2 b of Inl e \<Rightarrow> Inl e | Inr (i, b1) \<Rightarrow> plain_field h2 i (tl s) b1)"
      by (rule then_follows [OF auto_follows [OF assms(1) r(1)]]) (rule plain_field_follows [OF _ r(2)])
    then show ?thesis using 2 by (simp add: parse_replacement_field_def)
  next
    case 4
    then obtain i a1 where r: "on_auto_id h1 a = Inr (i, a1)" "finish_field h1 i (tl s) a1 = Inr r"
      using assms(2) by (auto simp: parse_replacement_field_def split: sum.splits)
    have "follows R E r (case on_auto_id h2 b of Inl e \<Rightarrow> Inl e | Inr (i, b1) \<Rightarrow> finish_field h2 i (tl s) b1)"
      by (rule then_follows [OF auto_follows [OF assms(1) r(1)]]) (rule finish_field_follows [OF _ r(2)])
    then show ?thesis using 4 by (simp add: parse_replacement_field_def)
  qed (use assms text_follows in \<open>auto simp: parse_replacement_field_def\<close>)
next
  case False
  then obtain x rest where x: "parse_arg_id s = Inr (x, rest)"
    using assms(2) by (auto simp: parse_replacement_field_def split: sum.splits)
  obtain i a1 where i: "on_arg_ref h1 x a = Inr (i, a1)"
    using False x assms(2) by (auto simp: parse_replacement_field_def split: sum.splits)
  note step = then_follows [OF arg_ref_follows [OF assms(1) i]]
  show ?thesis
  proof (cases "rest \<noteq> [] \<and> hd rest = CHR ''}''")
    case True
    then have r: "plain_field h1 i (tl rest) a1 = Inr r" using False x i assms(2) by (simp add: parse_replacement_field_def)
    have "follows R E r (case on_arg_ref h2 x b of Inl e \<Rightarrow> Inl e | Inr (i, b1) \<Rightarrow> plain_field h2 i (tl rest) b1)"
      by (rule step) (rule plain_field_follows [OF _ r])
    then show ?thesis using False True x by (cases "on_arg_ref h2 x b") (auto simp: parse_replacement_field_def)
  next
    case no: False
    then have colon: "rest \<noteq> []" "hd rest = CHR '':''"
      using False x i assms(2) by (auto simp: parse_replacement_field_def split: if_splits)
    then have r: "finish_field h1 i (tl rest) a1 = Inr r" using False x i assms(2) by (simp add: parse_replacement_field_def)
    have "follows R E r (case on_arg_ref h2 x b of Inl e \<Rightarrow> Inl e | Inr (i, b1) \<Rightarrow> finish_field h2 i (tl rest) b1)"
      by (rule step) (rule finish_field_follows [OF _ r])
    then show ?thesis using False colon x by (cases "on_arg_ref h2 x b") (auto simp: parse_replacement_field_def)
  qed
qed

lemma fields_follow: "parse_fields h1 start s a = Inr a1 \<Longrightarrow> R a b \<Longrightarrow> follows_state R E a1 (parse_fields h2 start s b)"
proof (induction "length s" arbitrary: start s a b rule: less_induct)
  case less
  show ?case
  proof (cases s)
    case Nil
    then show ?thesis using less.prems text_follows by auto
  next
    case (Cons c p)
    consider "c = CHR ''{''" | "c = CHR ''}''" | "c \<noteq> CHR ''{''" "c \<noteq> CHR ''}''" by blast
    then show ?thesis
    proof cases
      case 1
      then obtain rest a2 where r: "parse_replacement_field h1 p (on_text h1 start a) = Inr (rest, a2)"
        "parse_fields h1 [] rest a2 = Inr a1"
        using less.prems(1) Cons by (auto simp: parse_fields.simps split: sum.splits)
      have f: "follows R E (rest, a2) (parse_replacement_field h2 p (on_text h2 start b))"
        by (rule replacement_field_follows [OF text_follows [OF less.prems(2)] r(1)])
      have "length rest < length s" using parse_replacement_field_shorter [OF r(1)] Cons by simp
      then have "R a2 b2 \<Longrightarrow> follows_state R E a1 (parse_fields h2 [] rest b2)" for b2
        using less.hyps r(2) by blast
      then show ?thesis using f 1 Cons by (auto simp: parse_fields.simps split: sum.split)
    next
      case 2
      then show ?thesis
        using less Cons text_follows [OF less.prems(2), of "start @ [c]"] by (auto simp: parse_fields.simps split: if_splits)
    next
      case 3
      then show ?thesis using less Cons by (simp add: parse_fields.simps)
    qed
  qed
qed

lemma format_follows:
  "parse_format_string h1 fmt a = Inr a1 \<Longrightarrow> R a b \<Longrightarrow> follows_state R E a1 (parse_format_string h2 fmt b)"
  unfolding parse_format_string_def by (rule fields_follow)

end

section \<open>Specifications at compile time and at run time\<close>

text \<open>
  The context at run time has no types, and after an argument by its name it is in the mode of given indices while the one at
  compile time may not be.
\<close>

definition ctx_rel :: "bool \<Rightarrow> parse_context \<Rightarrow> parse_context \<Rightarrow> bool" where
  "ctx_rel named a b \<longleftrightarrow> pc_types b = None \<and> (pc_next b = pc_next a \<or> named \<and> pc_next b = -1)"

definition switch_errors :: "bool \<Rightarrow> string set" where
  "switch_errors named = (if named then {''cannot switch from manual to automatic argument indexing''} else {})"

lemma next_arg_id_follows:
  "ctx_rel named a b \<Longrightarrow> next_arg_id a = Inr r \<Longrightarrow> follows (ctx_rel named) (switch_errors named) r (next_arg_id b)"
  by (auto simp: next_arg_id_def do_check_arg_id_def ctx_rel_def switch_errors_def Let_def split: if_splits sum.splits option.splits)

lemma check_arg_id_follows:
  "ctx_rel named a b \<Longrightarrow> check_arg_id i a = Inr a1 \<Longrightarrow> follows_state (ctx_rel named) (switch_errors named) a1 (check_arg_id i b)"
  by (auto simp: check_arg_id_def do_check_arg_id_def ctx_rel_def split: if_splits sum.splits option.splits)

lemma check_dynamic_spec_follows: "ctx_rel named a b \<Longrightarrow> check_dynamic_spec i b = Inr ()"
  by (simp add: ctx_rel_def check_dynamic_spec_def)

text \<open>What is read does not depend on the context.\<close>

definition dynamic_follows :: "bool \<Rightarrow> string + dynamic_spec \<times> string \<times> parse_context \<Rightarrow> string + dynamic_spec \<times> string \<times> parse_context \<Rightarrow> bool" where
  "dynamic_follows named r1 r2 \<longleftrightarrow>
     (case r1 of Inl _ \<Rightarrow> True
      | Inr (d, rest, a) \<Rightarrow> follows (ctx_rel named) (switch_errors named) ((d, rest), a)
          (case r2 of Inl e \<Rightarrow> Inl e | Inr (d2, rest2, b) \<Rightarrow> Inr ((d2, rest2), b)))"

definition specs_read_follow :: "bool \<Rightarrow> string + 'x \<times> parse_context \<times> string \<Rightarrow> string + 'x \<times> parse_context \<times> string \<Rightarrow> bool" where
  "specs_read_follow named r1 r2 \<longleftrightarrow>
     (case r1 of Inl _ \<Rightarrow> True
      | Inr (sp, a, rest) \<Rightarrow> follows (ctx_rel named) (switch_errors named) ((sp, rest), a)
          (case r2 of Inl e \<Rightarrow> Inl e | Inr (sp2, b, rest2) \<Rightarrow> Inr ((sp2, rest2), b)))"

fun turn_follows :: "bool \<Rightarrow> string + turn_result \<Rightarrow> string + turn_result \<Rightarrow> bool" where
  "turn_follows named (Inl _) r2 = True"
| "turn_follows named (Inr t) (Inl e) = (e \<in> switch_errors named)"
| "turn_follows named (Inr (SpecNext st sp a rest)) (Inr (SpecNext st2 sp2 b rest2)) =
     (st2 = st \<and> sp2 = sp \<and> rest2 = rest \<and> ctx_rel named a b)"
| "turn_follows named (Inr (SpecDone sp a rest)) (Inr (SpecDone sp2 b rest2)) = (sp2 = sp \<and> rest2 = rest \<and> ctx_rel named a b)"
| "turn_follows named (Inr _) (Inr _) = False"

lemma dynamic_follows_simps [simp]:
  "dynamic_follows named (Inl e) r2" "dynamic_follows named (Inr (d, rest, a)) (Inl e) \<longleftrightarrow> e \<in> switch_errors named"
  "dynamic_follows named (Inr (d, rest, a)) (Inr (d2, rest2, b)) \<longleftrightarrow> d2 = d \<and> rest2 = rest \<and> ctx_rel named a b"
  by (auto simp: dynamic_follows_def)

lemma specs_read_follow_simps [simp]:
  "specs_read_follow named (Inl e) r2" "specs_read_follow named (Inr (d, a, rest)) (Inl e) \<longleftrightarrow> e \<in> switch_errors named"
  "specs_read_follow named (Inr (d, a, rest)) (Inr (d2, b, rest2)) \<longleftrightarrow> d2 = d \<and> rest2 = rest \<and> ctx_rel named a b"
  by (auto simp: specs_read_follow_def)

lemma check_arg_name_follows: "ctx_rel named a b \<Longrightarrow> ctx_rel named (check_arg_name a) (check_arg_name b)"
  by (simp add: ctx_rel_def check_arg_name_def)

lemma dynamic_on_index_follows:
  assumes "ctx_rel named a b" and "dynamic_on_index i a = Inr a1"
  shows "follows_state (ctx_rel named) (switch_errors named) a1 (dynamic_on_index i b)"
proof -
  have "check_arg_id i a = Inr a1" using assms(2) by (auto simp: dynamic_on_index_def split: sum.splits)
  from check_arg_id_follows [OF assms(1) this] show ?thesis
    by (cases "check_arg_id i b") (auto simp: dynamic_on_index_def check_dynamic_spec_follows)
qed

lemma parse_dynamic_ref_follows:
  assumes "ctx_rel named a b"
  shows "dynamic_follows named (parse_dynamic_ref s a) (parse_dynamic_ref s b)"
proof (cases "hd s = CHR ''}'' \<or> hd s = CHR '':''")
  case True
  show ?thesis
  proof (cases "next_arg_id a")
    case (Inr r)
    obtain i a1 where r: "r = (i, a1)" by fastforce
    show ?thesis
      using next_arg_id_follows [OF assms Inr] True Inr r
      by (cases "next_arg_id b") (auto simp: parse_dynamic_ref_def check_dynamic_spec_follows split: sum.split)
  qed (use True in \<open>simp add: parse_dynamic_ref_def\<close>)
next
  case False
  show ?thesis
  proof (cases "parse_arg_id s")
    case (Inr r)
    obtain ref rest where r: "r = (ref, rest)" by fastforce
    show ?thesis
    proof (cases ref)
      case (RefIndex i)
      show ?thesis
      proof (cases "dynamic_on_index i a")
        case o: (Inr a1)
        show ?thesis
          using dynamic_on_index_follows [OF assms o] False Inr r RefIndex o
          by (cases "dynamic_on_index i b") (simp_all add: parse_dynamic_ref_def)
      qed (use False Inr r RefIndex in \<open>simp add: parse_dynamic_ref_def\<close>)
    next
      case (RefName n)
      then show ?thesis using False Inr r check_arg_name_follows [OF assms] by (simp add: parse_dynamic_ref_def)
    qed
  qed (use False in \<open>simp add: parse_dynamic_ref_def\<close>)
qed

lemma parse_dynamic_spec_follows:
  assumes "ctx_rel named a b"
  shows "dynamic_follows named (parse_dynamic_spec s a) (parse_dynamic_spec s b)"
  using parse_dynamic_ref_follows [OF assms, of "tl s"] assms
  by (cases "parse_dynamic_ref (tl s) a"; cases "parse_dynamic_ref (tl s) b")
    (auto simp: parse_dynamic_spec_def Let_def split: prod.split)

lemma parse_width_follows:
  assumes "ctx_rel named a b"
  shows "specs_read_follow named (parse_width s sp a) (parse_width s sp b)"
  using parse_dynamic_spec_follows [OF assms, of s]
  by (cases "parse_dynamic_spec s a"; cases "parse_dynamic_spec s b") (auto simp: parse_width_def)

lemma parse_precision_follows:
  assumes "ctx_rel named a b"
  shows "specs_read_follow named (parse_precision s sp a) (parse_precision s sp b)"
  using parse_dynamic_spec_follows [OF assms, of "tl s"]
  by (cases "parse_dynamic_spec (tl s) a"; cases "parse_dynamic_spec (tl s) b") (auto simp: parse_precision_def)

lemma turn_follows_if:
  "turn_follows named x1 x2 \<Longrightarrow> turn_follows named y1 y2 \<Longrightarrow> turn_follows named (if b then x1 else y1) (if b then x2 else y2)"
  by simp

lemma turn_follows_enter:
  "(\<And>st1. turn_follows named (f1 st1) (f2 st1)) \<Longrightarrow>
    turn_follows named (case enter_state state valid st of Inl e \<Rightarrow> Inl e | Inr st1 \<Rightarrow> f1 st1)
      (case enter_state state valid st of Inl e \<Rightarrow> Inl e | Inr st1 \<Rightarrow> f2 st1)"
  by (simp add: enter_state_def)

lemma turn_follows_read:
  "specs_read_follow named r1 r2 \<Longrightarrow>
    turn_follows named (case r1 of Inl e \<Rightarrow> Inl e | Inr (sp1, ctx1, rest) \<Rightarrow> Inr (SpecNext st1 sp1 ctx1 rest))
      (case r2 of Inl e \<Rightarrow> Inl e | Inr (sp1, ctx1, rest) \<Rightarrow> Inr (SpecNext st1 sp1 ctx1 rest))"
  by (cases r1; cases r2) auto

lemma parse_fill_follows: "ctx_rel named a b \<Longrightarrow> turn_follows named (parse_fill st sp a s) (parse_fill st sp b s)"
  by (simp add: parse_fill_def Let_def enter_state_def)

lemma presentation_follows:
  "ctx_rel named a b \<Longrightarrow> turn_follows named (presentation_type t pres allowed sp a s) (presentation_type t pres allowed sp b s)"
  by (simp add: presentation_type_def)

lemma spec_turn_follows:
  assumes "ctx_rel named a b"
  shows "turn_follows named (spec_turn t st sp a c s) (spec_turn t st sp b c s)"
proof -
  have letter: "turn_follows named
      (case letter_presentation c of
          Some (up, pres, allowed) \<Rightarrow>
            if c = CHR ''c'' \<and> t = BoolType then Inl ''invalid format specifier''
            else presentation_type t pres allowed (upper_if up sp) a s
        | None \<Rightarrow> if c = CHR ''}'' then Inr (SpecDone sp a s) else parse_fill st sp a s)
      (case letter_presentation c of
          Some (up, pres, allowed) \<Rightarrow>
            if c = CHR ''c'' \<and> t = BoolType then Inl ''invalid format specifier''
            else presentation_type t pres allowed (upper_if up sp) b s
        | None \<Rightarrow> if c = CHR ''}'' then Inr (SpecDone sp b s) else parse_fill st sp b s)"
    using parse_fill_follows [OF assms] presentation_follows [OF assms] assms
    by (cases "letter_presentation c") (auto split: prod.split)
  show ?thesis
    unfolding spec_turn_def Let_def
    by (intro turn_follows_if turn_follows_enter letter turn_follows_read parse_width_follows parse_precision_follows assms)
      (simp_all add: assms)
qed

lemma parse_specs_loop_follows:
  "ctx_rel named a b \<Longrightarrow> specs_read_follow named (parse_specs_loop t st sp a c s) (parse_specs_loop t st sp b c s)"
proof (induction "length s" arbitrary: st sp a b c s rule: less_induct)
  case less
  show ?case
  proof (cases "s = []")
    case True
    then show ?thesis using less.prems by (simp add: parse_specs_loop.simps)
  next
    case ne: False
    note turn = spec_turn_follows [OF less.prems, of t st sp c s]
    show ?thesis
    proof (cases "spec_turn t st sp a c s")
      case (Inr r1)
      show ?thesis
      proof (cases "spec_turn t st sp b c s")
        case (Inl e)
        then have "e \<in> switch_errors named" using turn Inr by simp
        then show ?thesis
          using Inl by (subst (2) parse_specs_loop.simps) (simp add: ne specs_read_follow_def split: sum.split)
      next
        case r2: (Inr r2)
        show ?thesis
        proof (cases r1)
          case (SpecNext st1 sp1 a1 rest)
          then obtain b1 where b1: "r2 = SpecNext st1 sp1 b1 rest" "ctx_rel named a1 b1"
            using turn Inr r2 by (cases r2) auto
          have "length rest < length s" using spec_turn_shorter(1) Inr SpecNext ne by blast
          then show ?thesis
            using less.hyps b1 Inr r2 SpecNext ne
            by (simp add: parse_specs_loop.simps [of t st sp _ c s])
        next
          case (SpecDone sp1 a1 rest)
          then obtain b1 where b1: "r2 = SpecDone sp1 b1 rest" "ctx_rel named a1 b1"
            using turn Inr r2 by (cases r2) auto
          then show ?thesis using Inr r2 SpecDone ne by (simp add: parse_specs_loop.simps [of t st sp _ c s])
        qed
      qed
    qed (simp add: ne parse_specs_loop.simps [of t st sp a c s])
  qed
qed

lemma parse_format_specs_follows:
  "ctx_rel named a b \<Longrightarrow> specs_read_follow named (parse_format_specs t sp a s) (parse_format_specs t sp b s)"
  using parse_specs_loop_follows by (simp add: parse_format_specs_def Let_def)

text \<open>At a closing brace nothing is read.\<close>

lemma parse_format_specs_brace:
  assumes "s = [] \<or> hd s = CHR ''}''"
  shows "parse_format_specs t sp ctx s = Inr (sp, ctx, s)"
proof (cases "s = []")
  case False
  then have s: "hd s = CHR ''}''" using assms by simp
  have "spec_turn t AtStart sp ctx c s = Inr (SpecDone sp ctx s)" if "c = CHR ''}'' \<or> c = CHR 0x00" for c
  proof -
    have "letter_presentation c = None" "\<not> is_digit c"
      using that by (elim disjE; simp add: letter_presentation_def is_digit_def)+
    then show ?thesis using that s by (elim disjE; simp add: spec_turn_def parse_fill_def)
  qed
  then have "parse_specs_loop t AtStart sp ctx c s = Inr (sp, ctx, s)" if "c = CHR ''}'' \<or> c = CHR 0x00" for c
    using that False by (subst parse_specs_loop.simps) (simp only: if_False sum.case turn_result.case)
  then show ?thesis using False s by (simp add: parse_format_specs_def Let_def)
qed (simp add: parse_format_specs_def)

section \<open>The presentation fits the type of the argument\<close>

definition presentation_ok :: "fmt_type \<Rightarrow> presentation \<Rightarrow> bool" where
  "presentation_ok t p \<longleftrightarrow>
     (if t \<in> set (sint_set @ uint_set) then numeric_presentation p \<or> p = PChr
      else if t = BoolType then numeric_presentation p \<or> p = PString
      else if t = CharType then numeric_presentation p \<or> p = PChr \<or> p = PDebug
      else True)"

lemma presentation_ok_none: "presentation_ok t PNone"
  by (simp add: presentation_ok_def numeric_presentation_def)

lemma letter_ok:
  assumes "letter_presentation c = Some (up, p, allowed)" and "t \<in> set allowed" and "\<not> (c = CHR ''c'' \<and> t = BoolType)"
  shows "presentation_ok t p"
  using assms
  by (auto simp: letter_presentation_def presentation_ok_def numeric_presentation_def set_defs split: if_splits)

fun turn_type_ok :: "fmt_type \<Rightarrow> presentation \<Rightarrow> string + turn_result \<Rightarrow> bool" where
  "turn_type_ok t p (Inl e) = True"
| "turn_type_ok t p (Inr (SpecNext st sp ctx rest)) = (sp_type sp = p)"
| "turn_type_ok t p (Inr (SpecDone sp ctx rest)) = (sp_type sp = p \<or> presentation_ok t (sp_type sp))"

lemma turn_type_if: "turn_type_ok t p x \<Longrightarrow> turn_type_ok t p y \<Longrightarrow> turn_type_ok t p (if b then x else y)"
  by simp

lemma turn_type_enter:
  "(\<And>st1. turn_type_ok t p (f st1)) \<Longrightarrow> turn_type_ok t p (case enter_state state valid st of Inl e \<Rightarrow> Inl e | Inr st1 \<Rightarrow> f st1)"
  by (simp add: enter_state_def)

lemma turn_type_width:
  "turn_type_ok t (sp_type sp) (case parse_width s sp ctx of Inl e \<Rightarrow> Inl e | Inr (sp1, ctx1, rest) \<Rightarrow> Inr (SpecNext st1 sp1 ctx1 rest))"
  by (auto simp: parse_width_def split: sum.split)

lemma turn_type_precision:
  "turn_type_ok t (sp_type sp) (case parse_precision s sp ctx of Inl e \<Rightarrow> Inl e | Inr (sp1, ctx1, rest) \<Rightarrow> Inr (SpecNext st1 sp1 ctx1 rest))"
  by (auto simp: parse_precision_def split: sum.split)

lemma turn_type_fill: "turn_type_ok t (sp_type sp) (parse_fill st sp ctx s)"
  by (simp add: parse_fill_def Let_def enter_state_def)

lemma spec_turn_type: "turn_type_ok t (sp_type sp) (spec_turn t st sp ctx c s)"
proof -
  have letter: "turn_type_ok t (sp_type sp)
      (case letter_presentation c of
          Some (up, pres, allowed) \<Rightarrow>
            if c = CHR ''c'' \<and> t = BoolType then Inl ''invalid format specifier''
            else presentation_type t pres allowed (upper_if up sp) ctx s
        | None \<Rightarrow> if c = CHR ''}'' then Inr (SpecDone sp ctx s) else parse_fill st sp ctx s)"
    using letter_ok [of c _ _ _ t] turn_type_fill
    by (cases "letter_presentation c") (auto simp: presentation_type_def split: prod.split)
  show ?thesis
    unfolding spec_turn_def Let_def
    by (intro turn_type_if turn_type_enter letter turn_type_width turn_type_precision) simp_all
qed

lemma parse_specs_loop_type:
  "parse_specs_loop t st sp ctx c s = Inr (sp1, ctx1, rest) \<Longrightarrow> presentation_ok t (sp_type sp) \<Longrightarrow> presentation_ok t (sp_type sp1)"
proof (induction "length s" arbitrary: st sp ctx c s rule: less_induct)
  case less
  note loop = parse_specs_loop.simps [of t st sp ctx c s]
  show ?case
  proof (cases "s = []")
    case True
    then show ?thesis using less.prems loop by simp
  next
    case ne: False
    then obtain r where r: "spec_turn t st sp ctx c s = Inr r" using less.prems(1) loop by (auto split: sum.splits)
    note ty = spec_turn_type [of t sp st ctx c s, unfolded r]
    show ?thesis
    proof (cases r)
      case (SpecNext st2 sp2 ctx2 rest2)
      then have "length rest2 < length s" using spec_turn_shorter(1) r ne by blast
      then show ?thesis using less loop ty r SpecNext ne by (auto split: if_splits)
    next
      case (SpecDone sp2 ctx2 rest2)
      then show ?thesis using less.prems loop ty r ne by auto
    qed
  qed
qed

lemma parse_format_specs_type:
  "parse_format_specs t mk_specs ctx s = Inr (sp, ctx1, rest) \<Longrightarrow> presentation_ok t (sp_type sp)"
  using parse_specs_loop_type presentation_ok_none
  by (auto simp: parse_format_specs_def Let_def mk_specs_def split: if_splits)

section \<open>Every accepted value is written\<close>

definition writes :: "string + string \<Rightarrow> bool" where
  "writes r \<longleftrightarrow> (\<exists>t. r = Inr t)"

lemma text_writers [simp]: "writes (fmt_write_string s sp)" "writes (write_char c sp)" "writes (write_ptr a sp1)" "writes (Inr t)"
  using write_string_result write_char_result write_ptr_result by (simp_all add: writes_def)

lemma facet_ok: "groups_ok (format_facet grouping sep)"
  by (simp add: groups_ok_def format_facet_def)

lemma write_integer_result:
  fixes v :: "'a::len word"
  assumes "numeric_presentation (sp_type sp) \<or> sp_type sp = PChr" and "LENGTH('a) \<le> 64" and "groups_ok loc"
  shows "writes (write_integer loc sg v sp)"
proof (cases "sp_type sp = PChr")
  case True
  then show ?thesis
    by (auto simp: write_integer_def write_loc_def fmt_write_int_def write_int_grouped_def split: prod.split)
next
  case False
  then have num: "numeric_presentation (sp_type sp)" using assms(1) by simp
  show ?thesis
  proof (cases "sp_localized sp")
    case True
    show ?thesis
      by (rule write_loc_text [OF assms(3) num assms(2), of sg v]) (simp add: writes_def write_integer_def True Let_def)
  next
    case no: False
    obtain a p where arg: "make_write_int_arg sg v (sp_sign sp) = (a, p)" by fastforce
    have p: "p \<in> set sign_words" using make_arg_sign(1) [of sg v "sp_sign sp"] arg by simp
    obtain q where q: "int_digits a p sp = Some (digits_by sp (unat a), q)" using int_digits_eq [OF p num] by blast
    have "sp_type sp \<noteq> PDebug" "sp_type sp \<noteq> PString" using num by (auto simp: numeric_presentation_def)
    then show ?thesis
      using False no arg q by (simp add: writes_def write_integer_def fmt_write_int_def split: prod.split)
  qed
qed

lemma write_bool_result: "presentation_ok BoolType (sp_type sp) \<Longrightarrow> groups_ok loc \<Longrightarrow> writes (write_bool loc b sp)"
  using write_integer_result [of sp loc True "if b then 1 else 0 :: u32"]
  by (auto simp: write_bool_def presentation_ok_def set_defs writes_def)

lemma write_char_value_result:
  assumes "presentation_ok CharType (sp_type sp)" and "check_char_specs sp = Inr r" and "groups_ok loc"
  shows "writes (write_char_value loc c sp)"
proof (cases r)
  case True
  then show ?thesis using assms(2) by (simp add: write_char_value_def)
next
  case False
  then have "sp_type sp \<noteq> PNone \<and> sp_type sp \<noteq> PChr \<and> sp_type sp \<noteq> PDebug"
    using assms(2) by (auto simp: check_char_specs_def split: if_splits)
  then have "numeric_presentation (sp_type sp)" using assms(1) by (simp add: presentation_ok_def set_defs)
  then have "writes (write_integer loc False (of_char c :: u32) sp)" by (intro write_integer_result assms(3)) simp_all
  then show ?thesis using assms(2) False by (simp add: write_char_value_def)
qed

lemma write_cstring_result: "writes (write_cstring a s sp) \<or> write_cstring a s sp = Inl ''string pointer is null''"
  by (simp add: write_cstring_def)

definition char_specs_ok :: "fmt_arg \<Rightarrow> 'a format_specs_scheme \<Rightarrow> bool" where
  "char_specs_ok arg sp \<longleftrightarrow> (arg_type arg = CharType \<longrightarrow> (\<exists>r. check_char_specs sp = Inr r))"

lemma arg_formatter_result:
  assumes "presentation_ok (arg_type arg) (sp_type sp)" and "char_specs_ok arg sp" and "groups_ok loc"
  shows "writes (arg_formatter loc sp arg) \<or> arg_formatter loc sp arg = Inl ''string pointer is null''"
proof -
  have int: "writes (write_integer loc sg v sp)" "writes (write_integer loc sg v2 sp)" if "arg_type arg \<in> set (sint_set @ uint_set)"
    for sg and v :: u32 and v2 :: u64
    using that assms(1) by (auto simp: presentation_ok_def intro!: write_integer_result assms(3))
  show ?thesis
  proof (cases arg)
    case (FBool b)
    then have "writes (write_bool loc b sp)" using assms(1,3) by (intro write_bool_result) simp_all
    then show ?thesis using FBool by (simp add: arg_formatter_def)
  next
    case (FChar c)
    then obtain r where "check_char_specs sp = Inr r" using assms(2) by (auto simp: char_specs_ok_def)
    then have "writes (write_char_value loc c sp)" using assms(1,3) FChar by (intro write_char_value_result) simp_all
    then show ?thesis using FChar by (simp add: arg_formatter_def)
  next
    case (FCString a s)
    then show ?thesis using write_cstring_result by (simp add: arg_formatter_def)
  next
    case (FString s)
    then show ?thesis by (simp add: arg_formatter_def)
  next
    case (FPointer a)
    then show ?thesis by (simp add: arg_formatter_def)
  qed (use int in \<open>simp_all add: arg_formatter_def set_defs\<close>)
qed

lemma default_formatter_result:
  assumes "\<And>p w. arg \<noteq> FCustom p w"
  shows "writes (default_arg_formatter (Some arg)) \<or> default_arg_formatter (Some arg) = Inl ''string pointer is null''"
  using assms by (cases arg) (auto simp: default_arg_formatter_def write_integer_plain_text)

lemma resolve_specs_keeps:
  assumes "resolve_specs call sp = Inr sp1"
  shows "sp_type sp1 = sp_type sp" "check_char_specs sp1 = check_char_specs sp"
  using assms by (auto simp: resolve_specs_def check_char_specs_def split: if_splits sum.splits)

section \<open>The handler that formats follows the handler that checks\<close>

text \<open>What can still go wrong: these errors depend on the values.\<close>

definition custom_errors :: "fmt_call \<Rightarrow> string set" where
  "custom_errors call = {e. \<exists>p w s. FCustom p w \<in> set (fc_args call) \<and> (p s = Inl e \<or> w s = Inl e)}"

definition value_errors :: "fmt_call \<Rightarrow> string set" where
  "value_errors call =
     {''argument not found'', ''width/precision is not integer'', ''width/precision is out of range'', ''string pointer is null''}
     \<union> switch_errors (fc_names call \<noteq> []) \<union> custom_errors call"

lemma resolve_specs_errors:
  "resolve_specs call sp = Inl e \<Longrightarrow>
    e \<in> {''argument not found'', ''width/precision is not integer'', ''width/precision is out of range''}"
  by (auto simp: resolve_specs_def handle_dynamic_spec_def get_dynamic_spec_def dynamic_spec_getter_def
      split: if_splits sum.splits option.splits fmt_arg.splits)

text \<open>The checker of a call: it knows the types, the names, and the parsers of the classes.\<close>

definition parser_of :: "fmt_arg \<Rightarrow> spec_parser" where
  "parser_of arg =
     (case arg of
        FCustom p w \<Rightarrow> (\<lambda>s ctx. case p s of Inl e \<Rightarrow> Inl e | Inr n \<Rightarrow> Inr (n, ctx))
      | _ \<Rightarrow> native_parse (arg_type arg))"

definition checker_of :: "fmt_call \<Rightarrow> fmt_check" where
  "checker_of call = \<lparr>ck_parsers = map parser_of (fc_args call), ck_names = fc_names call, ck_dynamic_names = False\<rparr>"

definition same_turn :: "fmt_call \<Rightarrow> string \<Rightarrow> parse_context \<Rightarrow> fmt_state \<Rightarrow> bool" where
  "same_turn call buf a st \<longleftrightarrow> ctx_rel (fc_names call \<noteq> []) a (fs_ctx st) \<and> prefix buf (fs_out st)"

lemma same_turn_text: "same_turn call buf a st \<Longrightarrow> same_turn call buf a (fh_text t st)"
  by (auto simp: same_turn_def fh_text_def intro: prefix_prefix)

lemma follows_mono: "follows R E r1 r2 \<Longrightarrow> E \<subseteq> F \<Longrightarrow> follows R F r1 r2"
  by (auto simp: follows_def split: sum.splits)

lemma fh_auto_follows:
  assumes "same_turn call buf a st" and "next_arg_id a = Inr r"
  shows "follows (same_turn call buf) (value_errors call) r (fh_auto_id st)"
  using next_arg_id_follows [of "fc_names call \<noteq> []" a "fs_ctx st" r] assms
  by (cases "next_arg_id (fs_ctx st)") (auto simp: fh_auto_id_def same_turn_def value_errors_def)

lemma fh_index_follows:
  assumes "same_turn call buf a st" and "ck_index i a = Inr r"
  shows "follows (same_turn call buf) (value_errors call) r (fh_index i st)"
proof -
  obtain a1 where a1: "check_arg_id i a = Inr a1" "r = (i, a1)" using assms(2) by (auto simp: ck_index_def split: sum.splits)
  show ?thesis
    using check_arg_id_follows [of "fc_names call \<noteq> []" a "fs_ctx st" i a1] assms(1) a1
    by (cases "check_arg_id i (fs_ctx st)") (auto simp: fh_index_def same_turn_def value_errors_def)
qed

lemma fh_name_follows:
  assumes "same_turn call buf a st" and "ck_name (checker_of call) n a = Inr r"
  shows "follows (same_turn call buf) (value_errors call) r (fh_name call n st)"
proof -
  obtain i where i: "map_of (fc_names call) n = Some i" "r = (i, a)"
    using assms(2) by (auto simp: ck_name_def checker_of_def split: option.splits)
  then have "fc_names call \<noteq> []" by auto
  then show ?thesis
    using i assms(1) by (simp add: fh_name_def get_id_def same_turn_def ctx_rel_def check_arg_name_def value_errors_def Let_def)
qed

lemma checker_simps [simp]:
  "on_text (format_string_checker ck) = (\<lambda>t ctx. ctx)" "on_auto_id (format_string_checker ck) = next_arg_id"
  "on_index (format_string_checker ck) = ck_index" "on_name (format_string_checker ck) = ck_name ck"
  "on_field (format_string_checker ck) = ck_field ck" "on_specs (format_string_checker ck) = ck_specs ck"
  by (simp_all add: format_string_checker_def)

lemma custom_error:
  assumes "get_arg call i = Some (FCustom p w)"
  shows "p s = Inl e \<Longrightarrow> e \<in> value_errors call" "w s = Inl e \<Longrightarrow> e \<in> value_errors call"
proof -
  have "nat i < length (fc_args call)" "fc_args call ! nat i = FCustom p w" using assms by (auto simp: get_arg_def split: if_splits)
  then have "FCustom p w \<in> set (fc_args call)" using nth_mem [of "nat i" "fc_args call"] by simp
  then show "p s = Inl e \<Longrightarrow> e \<in> value_errors call" "w s = Inl e \<Longrightarrow> e \<in> value_errors call"
    by (auto simp: value_errors_def custom_errors_def)
qed

lemma ck_specs_unknown: "get_arg call i = None \<Longrightarrow> ck_specs (checker_of call) i s a = Inr (skip_specs 0 0 s, a)"
  by (auto simp: get_arg_def ck_specs_def checker_of_def split: if_splits)

lemma ck_specs_known:
  "get_arg call i = Some arg \<Longrightarrow> ck_specs (checker_of call) i s a = parser_of arg s a"
  by (auto simp: get_arg_def ck_specs_def checker_of_def nat_less_iff split: if_splits)

lemma parser_of_native: "(\<And>p w. arg \<noteq> FCustom p w) \<Longrightarrow> parser_of arg = native_parse (arg_type arg)"
  by (cases arg) (auto simp: parser_of_def)

lemma fh_field_follows:
  assumes "same_turn call buf a st" and "ck_field (checker_of call) i a = Inr a1"
  shows "follows_state (same_turn call buf) (value_errors call) a1 (fh_field call i st)"
proof (cases "get_arg call i")
  case None
  then show ?thesis by (simp add: fh_field_def default_arg_formatter_def value_errors_def)
next
  case (Some arg)
  then have parsed: "\<exists>n. parser_of arg ''}'' a = Inr (n, a1)"
    using assms(2) ck_specs_known [OF Some] by (auto simp: ck_field_def split: sum.splits)
  show ?thesis
  proof (cases "\<exists>p w. arg = FCustom p w")
    case True
    then obtain p w where arg: "arg = FCustom p w" by blast
    have "a1 = a" using parsed arg by (auto simp: parser_of_def split: sum.splits)
    then show ?thesis
      using custom_error [of call i p w] Some arg same_turn_text [OF assms(1)]
      by (auto simp: fh_field_def default_arg_formatter_def split: sum.split)
  next
    case False
    then have "a1 = a" using parsed by (simp add: parser_of_native native_parse_def)
    then show ?thesis
      using default_formatter_result [of arg] False Some same_turn_text [OF assms(1)]
      by (auto simp: fh_field_def writes_def value_errors_def split: sum.split)
  qed
qed

lemma native_parse_specs:
  assumes "native_parse t s a = Inr (n, a1)"
  obtains sp rest where "parse_format_specs t mk_specs a s = Inr (sp, a1, rest)" "n = length s - length rest"
    "t = CharType \<longrightarrow> (\<exists>r. check_char_specs sp = Inr r)"
proof (cases "s = [] \<or> hd s = CHR ''}''")
  case True
  then have "n = 0" "a1 = a" using assms by (auto simp: native_parse_def)
  moreover have "check_char_specs mk_specs = Inr True" by (simp add: check_char_specs_def mk_specs_def)
  ultimately show thesis using that [of mk_specs s] parse_format_specs_brace [OF True, of t mk_specs a] by (metis diff_self_eq_0)
next
  case False
  then show thesis using that assms by (auto simp: native_parse_def split: sum.splits if_splits)
qed

lemma fh_specs_follow:
  assumes "same_turn call buf a st" and "ck_specs (checker_of call) i s a = Inr r"
  shows "follows (same_turn call buf) (value_errors call) r (fh_specs call i s st)"
proof (cases "get_arg call i")
  case None
  then show ?thesis by (simp add: fh_specs_def value_errors_def)
next
  case (Some arg)
  obtain n a1 where r: "r = (n, a1)" by fastforce
  have parsed: "parser_of arg s a = Inr (n, a1)" using assms(2) ck_specs_known [OF Some] r by simp
  show ?thesis
  proof (cases "\<exists>p w. arg = FCustom p w")
    case True
    then obtain p w where arg: "arg = FCustom p w" by blast
    have "p s = Inr n" "a1 = a" using parsed arg by (auto simp: parser_of_def split: sum.splits)
    then show ?thesis
      using custom_error(2) [of call i p w] Some arg same_turn_text [OF assms(1)] r
      by (auto simp: fh_specs_def split: sum.split)
  next
    case False
    then have "native_parse (arg_type arg) s a = Inr (n, a1)" using parsed by (simp add: parser_of_native)
    then obtain sp rest where sp: "parse_format_specs (arg_type arg) mk_specs a s = Inr (sp, a1, rest)" "n = length s - length rest"
      "arg_type arg = CharType \<longrightarrow> (\<exists>r. check_char_specs sp = Inr r)"
      by (rule native_parse_specs)
    have specs: "fh_specs call i s st =
      (case parse_format_specs (arg_type arg) mk_specs (fs_ctx st) s of
             Inl e \<Rightarrow> Inl e
           | Inr (sp, ctx, rest) \<Rightarrow>
               (case resolve_specs call sp of
                  Inl e \<Rightarrow> Inl e
                | Inr sp1 \<Rightarrow>
                    (case arg_formatter (fc_locale call) sp1 arg of
                       Inl e \<Rightarrow> Inl e
                     | Inr t \<Rightarrow> Inr (length s - length rest, fh_text t (st\<lparr>fs_ctx := ctx\<rparr>)))))"
      using False Some by (cases arg) (auto simp: fh_specs_def)
    let ?named = "fc_names call \<noteq> []"
    have rel: "ctx_rel ?named a (fs_ctx st)" using assms(1) by (simp add: same_turn_def)
    note read = parse_format_specs_follows [OF rel, of "arg_type arg" mk_specs s, unfolded sp(1)]
    show ?thesis
    proof (cases "parse_format_specs (arg_type arg) mk_specs (fs_ctx st) s")
      case (Inl e)
      then show ?thesis using read specs by (simp add: value_errors_def)
    next
      case (Inr x)
      then obtain b1 where b1: "x = (sp, b1, rest)" "ctx_rel ?named a1 b1" using read by (cases x) auto
      have turn: "same_turn call buf a1 (fh_text t (st\<lparr>fs_ctx := b1\<rparr>))" for t
        using assms(1) b1(2) by (intro same_turn_text) (simp add: same_turn_def)
      show ?thesis
      proof (cases "resolve_specs call sp")
        case re: (Inl e)
        then show ?thesis using specs Inr b1 resolve_specs_errors [OF re] by (auto simp: value_errors_def)
      next
        case re: (Inr sp1)
        note keeps = resolve_specs_keeps [OF re]
        have "presentation_ok (arg_type arg) (sp_type sp1)" using parse_format_specs_type [OF sp(1)] keeps by simp
        moreover have "char_specs_ok arg sp1" using sp(3) keeps by (simp add: char_specs_ok_def)
        ultimately have "writes (arg_formatter (fc_locale call) sp1 arg) \<or>
            arg_formatter (fc_locale call) sp1 arg = Inl ''string pointer is null''"
          unfolding fc_locale_def by (rule arg_formatter_result [OF _ _ facet_ok])
        then show ?thesis
          using specs Inr b1(1) re turn r sp(2) by (auto simp: writes_def value_errors_def)
      qed
    qed
  qed
qed

interpretation checked: fmt_simulation "format_string_checker (checker_of call)" "format_handler call" "same_turn call buf" "value_errors call"
  for call buf
  by unfold_locales
    (simp_all add: same_turn_text fh_auto_follows fh_index_follows fh_name_follows fh_field_follows fh_specs_follow)

text \<open>
  A call whose format string was accepted at compile time writes its text behind what the buffer holds, or it stops with an error
  about a value: never with an error about the format string, an assertion or an access outside of a buffer.
\<close>

lemma checked_format_lemma:
  assumes "check_format_string (map arg_type (fc_args call)) (checker_of call) fmt = Inr ()"
  shows "(\<exists>t. vformat_to buf fmt call = Inr (buf @ t)) \<or> (\<exists>e\<in>value_errors call. vformat_to buf fmt call = Inl e)"
proof -
  let ?a = "mk_parse_context (Some (map arg_type (fc_args call)))"
  let ?st = "\<lparr>fs_ctx = mk_parse_context None, fs_out = buf\<rparr>"
  obtain a1 where a1: "parse_format_string (format_string_checker (checker_of call)) fmt ?a = Inr a1"
    using assms by (auto simp: check_format_string_def split: sum.splits)
  have "same_turn call buf ?a ?st" by (simp add: same_turn_def ctx_rel_def mk_parse_context_def)
  from checked.format_follows [OF a1 this]
  show ?thesis
    by (cases "parse_format_string (format_handler call) fmt ?st")
      (auto simp: vformat_parsed parsed_format_def same_turn_def prefix_def)
qed


definition example_call :: fmt_call where
  "example_call = \<lparr>fc_args = [FString ''ab'', FInt 5, FUInt 255], fc_names = [], fc_grouping = [], fc_thousands_sep = CHR '',''\<rparr>"


section \<open>What the check lets pass\<close>

text \<open>
  Three format strings that are accepted at compile time and fail at run time: a truth value as a width, an automatic
  argument behind a named one, and a width of a name that no argument has.
\<close>

definition named_call :: fmt_call where
  "named_call = \<lparr>fc_args = [FString ''ab'', FBool True], fc_names = [(''n'', 0)], fc_grouping = [], fc_thousands_sep = CHR '',''\<rparr>"

lemma bool_width_fails:
  "check_format_string (map arg_type (fc_args named_call)) (checker_of named_call) ''{:{}}'' = Inr ()"
  "vformat_to [] ''{:{}}'' named_call = Inl ''width/precision is not integer''"
  by code_simp+

lemma automatic_after_named_fails:
  "check_format_string (map arg_type (fc_args named_call)) (checker_of named_call) ''{n}{}'' = Inr ()"
  "vformat_to [] ''{n}{}'' named_call = Inl ''cannot switch from manual to automatic argument indexing''"
  by code_simp+

lemma unknown_width_fails:
  "check_format_string (map arg_type (fc_args named_call)) (checker_of named_call) ''{:{w}}'' = Inr ()"
  "vformat_to [] ''{:{w}}'' named_call = Inl ''argument not found''"
  by code_simp+

text \<open>With a locale, the zeros of a number come before its sign.\<close>

lemma grouped_zeros_before_sign:
  "write_integer (format_facet [3] (CHR '','')) True (-1234 :: u32)
     (mk_specs\<lparr>sp_localized := True, sp_align := AlignNumeric, sp_fill := ''0'', sp_width := 10\<rparr>) = Inr ''0000-1,234''"
  by code_simp

end
