(* ===== verification/Fmt_Plain.thy ===== *)
theory Fmt_Plain
  imports Fmt_Checked
begin

text \<open>
  Format strings whose fields are all plain: they are accepted when the program is compiled, and
  the fields are filled with the arguments in their order.
\<close>

text \<open>A format string with \<open>n\<close> fields, none of them with an argument id or a specification, and without escaped braces.\<close>

fun plain_fields :: "nat \<Rightarrow> string \<Rightarrow> bool" where
  "plain_fields n [] \<longleftrightarrow> n = 0"
| "plain_fields n (c # cs) \<longleftrightarrow>
     (if c = CHR ''{'' then 0 < n \<and> cs \<noteq> [] \<and> hd cs = CHR ''}'' \<and> plain_fields (n - 1) (tl cs)
      else c \<noteq> CHR ''}'' \<and> plain_fields n cs)"

fun fill_fields :: "string list \<Rightarrow> string \<Rightarrow> string" where
  "fill_fields ts [] = []"
| "fill_fields ts (c # cs) =
     (if c = CHR ''{'' then hd ts @ fill_fields (tl ts) (tl cs) else c # fill_fields ts cs)"

text \<open>The texts of the arguments.\<close>

definition arg_texts :: "fmt_arg list \<Rightarrow> string list \<Rightarrow> bool" where
  "arg_texts args ts \<longleftrightarrow> list_all2 (\<lambda>a t. default_arg_formatter (Some a) = Inr t) args ts"

lemma next_plain:
  assumes "pc_next ctx = int i" and "\<And>types. pc_types ctx = Some types \<Longrightarrow> i < length types"
  shows "next_arg_id ctx = Inr (int i, ctx\<lparr>pc_next := int (Suc i)\<rparr>)"
  using assms by (cases "pc_types ctx") (simp_all add: next_arg_id_def do_check_arg_id_def Let_def add.commute)

lemma plain_field_written:
  assumes "arg_texts (drop i (fc_args call)) (t # ts)" and "pc_next (fs_ctx st) = int i" and "pc_types (fs_ctx st) = None"
  shows "parse_replacement_field (format_handler call) (CHR ''}'' # rest) st =
    Inr (rest, fh_text t (st\<lparr>fs_ctx := (fs_ctx st)\<lparr>pc_next := int (Suc i)\<rparr>\<rparr>))"
    and "arg_texts (drop (Suc i) (fc_args call)) ts"
proof -
  obtain a as where a: "drop i (fc_args call) = a # as" "default_arg_formatter (Some a) = Inr t" "arg_texts as ts"
    using assms(1) by (auto simp: arg_texts_def list_all2_Cons2)
  then have i: "i < length (fc_args call)" "fc_args call ! i = a" "drop (Suc i) (fc_args call) = as"
    by (metis drop_eq_Nil leI list.discI, metis nth_via_drop, metis drop_Suc list.sel(3) tl_drop)
  show "arg_texts (drop (Suc i) (fc_args call)) ts" using a(3) i(3) by simp
  have "get_arg call (int i) = Some a" using i by (simp add: get_arg_def)
  moreover have "next_arg_id (fs_ctx st) = Inr (int i, (fs_ctx st)\<lparr>pc_next := int (Suc i)\<rparr>)"
    using assms(3) by (intro next_plain assms(2)) simp
  ultimately show "parse_replacement_field (format_handler call) (CHR ''}'' # rest) st =
    Inr (rest, fh_text t (st\<lparr>fs_ctx := (fs_ctx st)\<lparr>pc_next := int (Suc i)\<rparr>\<rparr>))"
    using a(2) by (simp add: parse_replacement_field_def plain_field_def fh_auto_id_def fh_field_def)
qed

lemma plain_written:
  "plain_fields (length ts) s \<Longrightarrow> arg_texts (drop i (fc_args call)) ts \<Longrightarrow> pc_next (fs_ctx st) = int i \<Longrightarrow> pc_types (fs_ctx st) = None \<Longrightarrow>
    \<exists>st1. parse_fields (format_handler call) start s st = Inr st1 \<and> fs_out st1 = fs_out st @ start @ fill_fields ts s"
proof (induction "length s" arbitrary: s ts i st start rule: less_induct)
  case less
  show ?case
  proof (cases s)
    case Nil
    then show ?thesis by (simp add: fh_text_def)
  next
    case (Cons c cs)
    show ?thesis
    proof (cases "c = CHR ''{''")
      case False
      then have "plain_fields (length ts) cs" "c \<noteq> CHR ''}''" using less.prems(1) Cons by simp_all
      then show ?thesis
        using less.hyps [of cs ts i st "start @ [c]"] less.prems(2-4) Cons False by (simp add: parse_fields.simps(2))
    next
      case True
      then obtain t ts1 rest where s: "ts = t # ts1" "cs = CHR ''}'' # rest" "plain_fields (length ts1) rest"
        using less.prems(1) Cons by (cases ts; cases cs) auto
      let ?st = "fh_text t ((fh_text start st)\<lparr>fs_ctx := (fs_ctx st)\<lparr>pc_next := int (Suc i)\<rparr>\<rparr>)"
      have st: "pc_next (fs_ctx (fh_text start st)) = int i" "pc_types (fs_ctx (fh_text start st)) = None"
        using less.prems(3,4) by (simp_all add: fh_text_def)
      note field = plain_field_written [OF less.prems(2) [unfolded s(1)] st]
      have step: "parse_fields (format_handler call) start s st = parse_fields (format_handler call) [] rest ?st"
        using field(1) True s(2) Cons by (simp add: parse_fields.simps(2)) (simp add: fh_text_def)
      have "pc_next (fs_ctx ?st) = int (Suc i)" "pc_types (fs_ctx ?st) = None" using less.prems(4) by (simp_all add: fh_text_def)
      moreover have "length rest < length s" using Cons s(2) by simp
      ultimately obtain st1 where "parse_fields (format_handler call) [] rest ?st = Inr st1"
        "fs_out st1 = fs_out ?st @ [] @ fill_fields ts1 rest"
        using less.hyps [OF _ s(3) field(2)] by blast
      then show ?thesis using step True s Cons by (simp add: fh_text_def)
    qed
  qed
qed

text \<open>Every parser accepts an empty specification; those of the native types do.\<close>

definition accepts_plain :: "fmt_arg \<Rightarrow> bool" where
  "accepts_plain arg \<longleftrightarrow> (case arg of FCustom p w \<Rightarrow> (\<exists>n. p ''}'' = Inr n) | _ \<Rightarrow> True)"

lemma accepts_parser: "accepts_plain arg \<Longrightarrow> \<exists>n. parser_of arg ''}'' ctx = Inr (n, ctx)"
  by (cases arg) (auto simp: accepts_plain_def parser_of_def native_parse_def)

lemma plain_field_checked:
  assumes "list_all accepts_plain (fc_args call)" and "pc_next ctx = int i" and "i < length (fc_args call)"
    and "pc_types ctx = Some (map arg_type (fc_args call))"
  shows "parse_replacement_field (format_string_checker (checker_of call)) (CHR ''}'' # rest) ctx =
    Inr (rest, ctx\<lparr>pc_next := int (Suc i)\<rparr>)"
proof -
  have arg: "get_arg call (int i) = Some (fc_args call ! i)" using assms(3) by (simp add: get_arg_def)
  have "accepts_plain (fc_args call ! i)" using assms(1,3) by (simp add: list_all_length)
  then obtain n where "parser_of (fc_args call ! i) ''}'' (ctx\<lparr>pc_next := int (Suc i)\<rparr>) = Inr (n, ctx\<lparr>pc_next := int (Suc i)\<rparr>)"
    using accepts_parser by blast
  moreover have "next_arg_id ctx = Inr (int i, ctx\<lparr>pc_next := int (Suc i)\<rparr>)"
    using assms(3,4) by (intro next_plain assms(2)) simp
  ultimately show ?thesis
    using ck_specs_known [OF arg, of "''}''" "ctx\<lparr>pc_next := int (Suc i)\<rparr>"]
    by (simp add: parse_replacement_field_def plain_field_def ck_field_def)
qed

lemma plain_checked:
  "plain_fields n s \<Longrightarrow> i + n = length (fc_args call) \<Longrightarrow> list_all accepts_plain (fc_args call) \<Longrightarrow> pc_next ctx = int i \<Longrightarrow>
    pc_types ctx = Some (map arg_type (fc_args call)) \<Longrightarrow>
    \<exists>ctx1. parse_fields (format_string_checker (checker_of call)) start s ctx = Inr ctx1"
proof (induction "length s" arbitrary: s n i ctx start rule: less_induct)
  case less
  show ?case
  proof (cases s)
    case (Cons c cs)
    show ?thesis
    proof (cases "c = CHR ''{''")
      case False
      then show ?thesis
        using less.hyps [of cs n i ctx "start @ [c]"] less.prems Cons by (simp add: parse_fields.simps(2))
    next
      case True
      then obtain m rest where s: "n = Suc m" "cs = CHR ''}'' # rest" "plain_fields m rest"
        using less.prems(1) Cons by (cases n; cases cs) auto
      have "i < length (fc_args call)" using less.prems(2) s(1) by simp
      note field = plain_field_checked [OF less.prems(3,4) this less.prems(5), of rest]
      then show ?thesis
        using less.hyps [of rest m "Suc i" "ctx\<lparr>pc_next := int (Suc i)\<rparr>" "[]"] less.prems True s Cons
        by (simp add: parse_fields.simps(2))
    qed
  qed simp
qed

lemma plain_fields_lemma:
  assumes "plain_fields (length ts) fmt" and "arg_texts (fc_args call) ts" and "list_all accepts_plain (fc_args call)"
  shows "check_format_string (map arg_type (fc_args call)) (checker_of call) fmt = Inr ()"
    and "vformat_to buf fmt call = Inr (buf @ fill_fields ts fmt)"
proof -
  have n: "length (fc_args call) = length ts" using assms(2) by (simp add: arg_texts_def list_all2_lengthD)
  show "check_format_string (map arg_type (fc_args call)) (checker_of call) fmt = Inr ()"
    using plain_checked [OF assms(1), of 0 call "mk_parse_context (Some (map arg_type (fc_args call)))" "[]"] n assms(3)
    by (auto simp: check_format_string_def parse_format_string_def mk_parse_context_def)
  show "vformat_to buf fmt call = Inr (buf @ fill_fields ts fmt)"
    using plain_written [OF assms(1), of 0 call "\<lparr>fs_ctx = mk_parse_context None, fs_out = buf\<rparr>" "[]"] assms(2)
    by (auto simp: vformat_parsed parsed_format_def parse_format_string_def mk_parse_context_def)
qed

end
