(* ===== verification/App_Messages.thy ===== *)
theory App_Messages
  imports Fmt_Plain Account_Repository Log_Core
begin

text \<open>
  What the program logs: every call on spdlog in the program's own files, with its level, its format string and its
  arguments. Texts of exceptions are C strings; those of \<^verbatim>\<open>boost::system::error_code\<close> and addresses are strings. Ports and
  versions have 16 bits and are promoted. Times are seconds with the formatter of \<^verbatim>\<open>fmt/bundled/chrono.h\<close>, of which only the
  case without a specification is modelled.
\<close>

section \<open>Seconds\<close>

text \<open>The unit is fixed by the type; the specification of a time and the formatting by it are parameters.\<close>

definition duration_parse :: "(string \<Rightarrow> string + nat) \<Rightarrow> string \<Rightarrow> string + nat" where
  "duration_parse parse_chrono s = (if s = [] \<or> hd s = CHR ''}'' then Inr 0 else parse_chrono s)"

definition duration_format :: "(string \<Rightarrow> string + string) \<Rightarrow> u64 \<Rightarrow> string \<Rightarrow> string + string" where
  "duration_format format_chrono count s =
     (if s = [] \<or> hd s = CHR ''}''
      then (case write_integer_plain True count of
              Inl e \<Rightarrow> Inl e
            | Inr t \<Rightarrow> fmt_write_string (t @ ''s'') mk_specs)
      else format_chrono s)"

definition seconds_arg :: "(string \<Rightarrow> string + nat) \<Rightarrow> (string \<Rightarrow> string + string) \<Rightarrow> u64 \<Rightarrow> fmt_arg" where
  "seconds_arg parse_chrono format_chrono count = FCustom (duration_parse parse_chrono) (duration_format format_chrono count)"

section \<open>The calls\<close>

text \<open>A C string is its address and its text.\<close>

type_synonym what_text = "u64 \<times> string"

text \<open>The level of a call, its format string and its arguments.\<close>

type_synonym log_call = "log_level \<times> string \<times> fmt_arg list"

definition what_arg :: "what_text \<Rightarrow> fmt_arg" where
  "what_arg e = FCString (fst e) (snd e)"

definition promoted :: "u16 \<Rightarrow> fmt_arg" where
  "promoted v = FUInt (ucast v)"

datatype server_message =
    AcceptFail what_text | AcceptSuccess string u16 | AcceptRetry string | ServerStarted string u16 u32
  | RunIosFailed what_text | ServerClosed | ServerCloseFailed what_text

primrec server_log :: "server_message \<Rightarrow> log_call" where
  "server_log (AcceptFail e) = (L_err, ''Accept fail, Error: {}'', [what_arg e])"
| "server_log (AcceptSuccess peer num) = (L_info, ''Accept success! Address: {} / Port: {}'', [FString peer, promoted num])"
| "server_log (AcceptRetry e) = (L_err, ''Accept failed, Try again after 1 sec, Error: {}'', [FString e])"
| "server_log (ServerStarted local num n) =
     (L_info, ''Server started!, Address: {}, Port: {}, Thread num: {}'', [FString local, promoted num, FUInt n])"
| "server_log (RunIosFailed e) = (L_err, ''Exception occurs on running ios, Error: {}'', [what_arg e])"
| "server_log ServerClosed = (L_info, ''Server closed!'', [])"
| "server_log (ServerCloseFailed e) = (L_err, ''Exception occurs on closing the server, Error: {}'', [what_arg e])"

definition unhandled_log :: log_call where
  "unhandled_log = (L_warn, ''Unhandled service type'', [])"

text \<open>\<open>secs\<close> is the argument for a time.\<close>

datatype session_message =
    ReadLoopCrashed what_text | HeartbeatCrashed what_text | ReadHeaderFailed string | HeaderReceived u32 u32 u16
  | UnknownServiceType u32 | UnsupportedVersion u32 u16 | PingDataSize u32 | InvalidDataSize u32 | ReadBodyFailed string
  | HandlerFailed what_text | HeartbeatTerminated | IdleExceeded u64 | IdleAfterPingExceeded u64 | SendingPing | SendingPong
  | SessionShutdown

primrec session_log :: "(u64 \<Rightarrow> fmt_arg) \<Rightarrow> session_message \<Rightarrow> log_call" where
  "session_log secs (ReadLoopCrashed e) = (L_err, ''ReadLoop crashed: {}'', [what_arg e])"
| "session_log secs (HeartbeatCrashed e) = (L_err, ''Heartbeat crashed: {}'', [what_arg e])"
| "session_log secs (ReadHeaderFailed e) = (L_err, ''ReadLoop fail on reading header, Error: {}'', [FString e])"
| "session_log secs (HeaderReceived service data_size version) =
     (L_debug, ''Header received, Service type: {} / Data size: {} / Api version: {}'', [FUInt service, FUInt data_size, promoted version])"
| "session_log secs (UnknownServiceType service) = (L_err, ''Unknown service type, Service Type: {}'', [FUInt service])"
| "session_log secs (UnsupportedVersion service version) =
     (L_err, ''Unsupported api version for service type, Service type: {} / Api version: {}'', [FUInt service, promoted version])"
| "session_log secs (PingDataSize n) = (L_err, ''Data size should be zero on the ping/pong, Data size: {}'', [FUInt n])"
| "session_log secs (InvalidDataSize n) = (L_err, ''Invalid data size, Data size: {}'', [FUInt n])"
| "session_log secs (ReadBodyFailed e) = (L_err, ''ReadLoop fail on reading body, Error: {}'', [FString e])"
| "session_log secs (HandlerFailed e) = (L_err, ''ReadLoop fail on executing handler, Error: {}'', [what_arg e])"
| "session_log secs HeartbeatTerminated = (L_info, ''Heartbeat terminated'', [])"
| "session_log secs (IdleExceeded idle) = (L_info, ''Idle time exceeds hard idle limit, Heartbeat terminated, Idle: {}'', [secs idle])"
| "session_log secs (IdleAfterPingExceeded idle) =
     (L_info, ''Idle time after exceeds hard idle limit, Heartbeat terminated, Idle: {}'', [secs idle])"
| "session_log secs SendingPing = (L_debug, ''Send ping signal!'', [])"
| "session_log secs SendingPong = (L_debug, ''Send pong signal!'', [])"
| "session_log secs SessionShutdown = (L_info, ''Session shutdown!'', [])"

datatype login_message =
    LoginNotConfigured | LoginPayloadNull | LoginPayloadInvalid u16 | LoginEncodeFailed u16 | LoginConnectionNull

primrec login_log :: "login_message \<Rightarrow> log_call" where
  "login_log LoginNotConfigured = (L_err, ''LoginUseCase is not configured.'', [])"
| "login_log LoginPayloadNull = (L_err, ''Invalid login payload (null).'', [])"
| "login_log (LoginPayloadInvalid version) = (L_err, ''Invalid login payload. Api version: {}'', [promoted version])"
| "login_log (LoginEncodeFailed version) = (L_err, ''Failed to encode login response. Api version: {}'', [promoted version])"
| "login_log LoginConnectionNull = (L_err, ''Connection is null. Cannot send login response.'', [])"

datatype account_message = LeaseTimedOut | GetPasswordFailed what_text

primrec account_log :: "account_message \<Rightarrow> log_call" where
  "account_log LeaseTimedOut = (L_err, ''DB pool lease timeout ({} ms).'', [FInt (of_nat lease_timeout_ms)])"
| "account_log (GetPasswordFailed e) = (L_err, ''DB error on GetPassword: {}'', [what_arg e])"

datatype main_message = SystemError what_text | DbError what_text | UnknownError what_text

primrec main_log :: "main_message \<Rightarrow> log_call" where
  "main_log (SystemError e) = (L_err, ''Error occured! Error: {}'', [what_arg e])"
| "main_log (DbError e) = (L_err, ''DB error occured! Error: {}'', [what_arg e])"
| "main_log (UnknownError e) = (L_err, ''Unknown error occured! Error: {}'', [what_arg e])"

datatype app_message =
    ServerMessage server_message | UnhandledMessage | SessionMessage session_message | LoginMessage login_message
  | AccountMessage account_message | MainMessage main_message

primrec app_log :: "(u64 \<Rightarrow> fmt_arg) \<Rightarrow> app_message \<Rightarrow> log_call" where
  "app_log secs (ServerMessage m) = server_log m"
| "app_log secs UnhandledMessage = unhandled_log"
| "app_log secs (SessionMessage m) = session_log secs m"
| "app_log secs (LoginMessage m) = login_log m"
| "app_log secs (AccountMessage m) = account_log m"
| "app_log secs (MainMessage m) = main_log m"

text \<open>Without arguments the text is logged as it is, and with arguments it is formatted, in the locale of a C program.\<close>

definition plain_call :: "fmt_arg list \<Rightarrow> fmt_call" where
  "plain_call args = \<lparr>fc_args = args, fc_names = [], fc_grouping = [], fc_thousands_sep = CHR '',''\<rparr>"

definition payload :: "log_call \<Rightarrow> string + string" where
  "payload call = (case call of (lvl, fmt, args) \<Rightarrow> if args = [] then Inr fmt else vformat_to [] fmt (plain_call args))"

section \<open>What is written\<close>

text \<open>The text of an argument, without the formatter: numbers in decimal, texts as they are.\<close>

primrec arg_text :: "fmt_arg \<Rightarrow> string" where
  "arg_text (FInt v) = int_dec (sint v)" | "arg_text (FUInt v) = dec (unat v)" | "arg_text (FLongLong v) = int_dec (sint v)"
| "arg_text (FULongLong v) = dec (unat v)" | "arg_text (FBool b) = (if b then ''true'' else ''false'')" | "arg_text (FChar c) = [c]"
| "arg_text (FCString a s) = s" | "arg_text (FString s) = s" | "arg_text (FPointer a) = ''0x'' @ base_text 4 False (unat a)"
| "arg_text (FCustom p w) = (case w [] of Inl e \<Rightarrow> [] | Inr t \<Rightarrow> t)"

text \<open>An argument that can be written: C strings are there, and the formatters of classes work.\<close>

definition writable :: "fmt_arg \<Rightarrow> bool" where
  "writable arg \<longleftrightarrow>
     (case arg of
        FCString a s \<Rightarrow> a \<noteq> 0
      | FCustom p w \<Rightarrow> (\<exists>n. p [] = Inr n) \<and> (\<exists>n. p ''}'' = Inr n) \<and> (\<exists>t. w [] = Inr t)
      | _ \<Rightarrow> True)"

lemma write_ptr_text: "sp_width sp = 0 \<Longrightarrow> write_ptr v (Some sp) = Inr (''0x'' @ base_text 4 False (unat v))"
  unfolding write_ptr_def Let_def
  by (subst format_base2e_prints) (simp_all add: count_digits_base2_correct [of 4 _ False] opt_result_def write_padded_def)

lemma writable_text: "writable arg \<Longrightarrow> default_arg_formatter (Some arg) = Inr (arg_text arg)"
proof (cases arg)
  case (FPointer a)
  then show ?thesis using write_ptr_text [of mk_specs a] by (simp add: default_arg_formatter_def mk_specs_def)
qed (auto simp: writable_def default_arg_formatter_def write_integer_plain_text int_value_def int_dec_def fmt_write_bytes_def
  write_padded_def mk_specs_def)

lemma writable_accepts: "writable arg \<Longrightarrow> accepts_plain arg"
  by (cases arg) (auto simp: writable_def accepts_plain_def)

lemma writable_texts: "list_all writable args \<Longrightarrow> arg_texts args (map arg_text args)"
  by (induction args) (simp_all add: arg_texts_def writable_text)

lemma fill_no_fields: "plain_fields 0 s \<Longrightarrow> fill_fields [] s = s"
  by (induction s) (auto split: if_splits)

definition plain_log_call :: "log_call \<Rightarrow> bool" where
  "plain_log_call call \<longleftrightarrow> (case call of (lvl, fmt, args) \<Rightarrow> plain_fields (length args) fmt \<and> list_all writable args)"

text \<open>A call with plain fields, as many as it has arguments, is accepted and written.\<close>

lemma plain_call_written:
  assumes "plain_log_call (lvl, fmt, args)"
  shows "check_format_string (map arg_type args) (checker_of (plain_call args)) fmt = Inr ()"
    and "payload (lvl, fmt, args) = Inr (fill_fields (map arg_text args) fmt)"
proof -
  have args: "fc_args (plain_call args) = args" by (simp add: plain_call_def)
  have fmt: "plain_fields (length (map arg_text args)) fmt" and writable: "list_all writable args"
    using assms by (simp_all add: plain_log_call_def)
  have "arg_texts (fc_args (plain_call args)) (map arg_text args)" using writable_texts [OF writable] by (simp add: args)
  moreover have "list_all accepts_plain (fc_args (plain_call args))"
    using writable writable_accepts by (auto simp: args list_all_iff)
  ultimately show "check_format_string (map arg_type args) (checker_of (plain_call args)) fmt = Inr ()"
    "payload (lvl, fmt, args) = Inr (fill_fields (map arg_text args) fmt)"
    using plain_fields_lemma [OF fmt, of "plain_call args"] fmt by (auto simp: args payload_def fill_no_fields)
qed

lemma write_string_plain: "fmt_write_string s mk_specs = Inr s"
  by (simp add: fmt_write_string_def Let_def mk_specs_def write_padded_def)

lemma seconds_writable [simp]: "writable (seconds_arg parse_chrono format_chrono d)"
  by (simp add: writable_def seconds_arg_def duration_parse_def duration_format_def write_integer_plain_text write_string_plain)

lemma seconds_text [simp]: "arg_text (seconds_arg parse_chrono format_chrono d) = int_dec (sint d) @ ''s''"
  by (simp add: seconds_arg_def duration_format_def write_integer_plain_text write_string_plain int_value_def)

text \<open>The exceptions and their texts are there.\<close>

definition what_present :: "app_message \<Rightarrow> bool" where
  "what_present m \<longleftrightarrow> list_all (\<lambda>arg. case arg of FCString a s \<Rightarrow> a \<noteq> 0 | _ \<Rightarrow> True) (snd (snd (app_log FULongLong m)))"

lemma simple_writable [simp]: "writable (promoted v)" "writable (FString s)" "writable (FUInt w)" "writable (FInt x)"
  by (simp_all add: writable_def promoted_def)

lemma what_writable [simp]: "writable (FCString a s) \<longleftrightarrow> a \<noteq> 0"
  by (simp add: writable_def)

lemma app_log_plain:
  assumes "what_present m"
  shows "plain_log_call (app_log (seconds_arg parse_chrono format_chrono) m)"
proof (cases m)
  case (ServerMessage x)
  then show ?thesis using assms by (cases x) (simp_all add: what_present_def plain_log_call_def what_arg_def)
next
  case UnhandledMessage
  then show ?thesis by (simp add: plain_log_call_def unhandled_log_def)
next
  case (SessionMessage x)
  then show ?thesis using assms by (cases x) (simp_all add: what_present_def plain_log_call_def what_arg_def)
next
  case (LoginMessage x)
  then show ?thesis by (cases x) (simp_all add: plain_log_call_def)
next
  case (AccountMessage x)
  then show ?thesis using assms by (cases x) (simp_all add: what_present_def plain_log_call_def what_arg_def)
next
  case (MainMessage x)
  then show ?thesis using assms by (cases x) (simp_all add: what_present_def plain_log_call_def what_arg_def)
qed



end
