(* ===== verification/Fmt_Chrono.thy ===== *)
theory Fmt_Chrono
  imports Fmt_Format Log_Fmt "HOL-Library.Signed_Division"
begin

text \<open>
  Dates and times by a format string (\<^verbatim>\<open>fmt/bundled/chrono.h\<close>): the parser of specifications like \<^verbatim>\<open>%F %T\<close>, which calls a
  handler for each item; the handlers that check a specification at compile time; the writer of broken-down times;
  and the formatter of \<^verbatim>\<open>std::tm\<close>. A failing assertion is an error of the model. What the C++ library writes in a locale
  other than the classic one is a parameter.
\<close>

section \<open>Results\<close>

definition andthen :: "string + 'a \<Rightarrow> ('a \<Rightarrow> string + 'b) \<Rightarrow> string + 'b" where
  "andthen r f = (case r of Inl e \<Rightarrow> Inl e | Inr x \<Rightarrow> f x)"

lemma andthen_simps [simp]: "andthen (Inl e) f = Inl e" "andthen (Inr x) f = f x"
  by (simp_all add: andthen_def)

text \<open>The texts of several writers behind each other.\<close>

fun texts :: "(string + string) list \<Rightarrow> string + string" where
  "texts [] = Inr []"
| "texts (r # rs) = andthen r (\<lambda>t. andthen (texts rs) (\<lambda>ts. Inr (t @ ts)))"

definition asserted :: "bool \<Rightarrow> 'a \<Rightarrow> string + 'a" where
  "asserted b x = (if b then Inr x else Inl ''assertion failed'')"

section \<open>Items of a specification\<close>

datatype numeric_system = NsStandard | NsAlternative

datatype pad_type = PadZero | PadNone | PadSpace

text \<open>The functions of a handler, with their arguments.\<close>

datatype chrono_item =
    OnText string
  | OnYear numeric_system pad_type | OnShortYear numeric_system | OnOffsetYear | OnCentury numeric_system
  | OnIsoWeekBasedYear | OnIsoWeekBasedShortYear
  | OnAbbrWeekday | OnFullWeekday | OnDec0Weekday numeric_system | OnDec1Weekday numeric_system
  | OnAbbrMonth | OnFullMonth | OnDecMonth numeric_system pad_type
  | OnDec0WeekOfYear numeric_system pad_type | OnDec1WeekOfYear numeric_system pad_type
  | OnIsoWeekOfYear numeric_system pad_type | OnDayOfYear pad_type | OnDayOfMonth numeric_system pad_type
  | On24Hour numeric_system pad_type | On12Hour numeric_system pad_type | OnMinute numeric_system pad_type
  | OnSecond numeric_system pad_type | OnDatetime numeric_system | OnLocDate numeric_system | OnLocTime numeric_system
  | OnUsDate | OnIsoDate | On12HourTime | On24HourTime | OnIsoTime | OnAmPm | OnDurationValue | OnDurationUnit
  | OnUtcOffset numeric_system | OnTzName

definition write_padding :: "pad_type \<Rightarrow> int \<Rightarrow> string" where
  "write_padding pad width = (if pad = PadNone then [] else replicate (nat width) (if pad = PadSpace then CHR '' '' else CHR ''0''))"

text \<open>The item a letter stands for.\<close>

definition chrono_letter :: "char \<Rightarrow> pad_type \<Rightarrow> chrono_item option" where
  "chrono_letter c pad = map_of
     [(CHR ''%'', OnText ''%''), (CHR ''n'', OnText [CHR 0x0A]), (CHR ''t'', OnText [CHR 0x09]),
      (CHR ''Y'', OnYear NsStandard pad), (CHR ''y'', OnShortYear NsStandard), (CHR ''C'', OnCentury NsStandard),
      (CHR ''G'', OnIsoWeekBasedYear), (CHR ''g'', OnIsoWeekBasedShortYear),
      (CHR ''a'', OnAbbrWeekday), (CHR ''A'', OnFullWeekday), (CHR ''w'', OnDec0Weekday NsStandard), (CHR ''u'', OnDec1Weekday NsStandard),
      (CHR ''b'', OnAbbrMonth), (CHR ''h'', OnAbbrMonth), (CHR ''B'', OnFullMonth), (CHR ''m'', OnDecMonth NsStandard pad),
      (CHR ''U'', OnDec0WeekOfYear NsStandard pad), (CHR ''W'', OnDec1WeekOfYear NsStandard pad), (CHR ''V'', OnIsoWeekOfYear NsStandard pad),
      (CHR ''j'', OnDayOfYear pad), (CHR ''d'', OnDayOfMonth NsStandard pad), (CHR ''e'', OnDayOfMonth NsStandard PadSpace),
      (CHR ''H'', On24Hour NsStandard pad), (CHR ''I'', On12Hour NsStandard pad), (CHR ''M'', OnMinute NsStandard pad), (CHR ''S'', OnSecond NsStandard pad),
      (CHR ''c'', OnDatetime NsStandard), (CHR ''x'', OnLocDate NsStandard), (CHR ''X'', OnLocTime NsStandard),
      (CHR ''D'', OnUsDate), (CHR ''F'', OnIsoDate), (CHR ''r'', On12HourTime), (CHR ''R'', On24HourTime), (CHR ''T'', OnIsoTime),
      (CHR ''p'', OnAmPm), (CHR ''Q'', OnDurationValue), (CHR ''q'', OnDurationUnit), (CHR ''z'', OnUtcOffset NsStandard), (CHR ''Z'', OnTzName)] c"

definition chrono_letter_E :: "char \<Rightarrow> pad_type \<Rightarrow> chrono_item option" where
  "chrono_letter_E c pad = map_of
     [(CHR ''Y'', OnYear NsAlternative pad), (CHR ''y'', OnOffsetYear), (CHR ''C'', OnCentury NsAlternative),
      (CHR ''c'', OnDatetime NsAlternative), (CHR ''x'', OnLocDate NsAlternative), (CHR ''X'', OnLocTime NsAlternative),
      (CHR ''z'', OnUtcOffset NsAlternative)] c"

definition chrono_letter_O :: "char \<Rightarrow> pad_type \<Rightarrow> chrono_item option" where
  "chrono_letter_O c pad = map_of
     [(CHR ''y'', OnShortYear NsAlternative), (CHR ''m'', OnDecMonth NsAlternative pad),
      (CHR ''U'', OnDec0WeekOfYear NsAlternative pad), (CHR ''W'', OnDec1WeekOfYear NsAlternative pad),
      (CHR ''V'', OnIsoWeekOfYear NsAlternative pad), (CHR ''d'', OnDayOfMonth NsAlternative pad),
      (CHR ''e'', OnDayOfMonth NsAlternative PadSpace), (CHR ''w'', OnDec0Weekday NsAlternative), (CHR ''u'', OnDec1Weekday NsAlternative),
      (CHR ''H'', On24Hour NsAlternative pad), (CHR ''I'', On12Hour NsAlternative pad), (CHR ''M'', OnMinute NsAlternative pad),
      (CHR ''S'', OnSecond NsAlternative pad), (CHR ''z'', OnUtcOffset NsAlternative)] c"

section \<open>Parsing\<close>

text \<open>\<open>s\<close> starts behind the percent sign.\<close>

definition take_pad :: "string \<Rightarrow> pad_type \<times> string" where
  "take_pad s = (if hd s = CHR ''_'' then (PadSpace, tl s) else if hd s = CHR ''-'' then (PadNone, tl s) else (PadZero, s))"

definition take_letter :: "(char \<Rightarrow> pad_type \<Rightarrow> chrono_item option) \<Rightarrow> pad_type \<Rightarrow> string \<Rightarrow> string + chrono_item \<times> string" where
  "take_letter letters pad s =
     (if s = [] then Inl ''invalid format''
      else case letters (hd s) pad of None \<Rightarrow> Inl ''invalid format'' | Some item \<Rightarrow> Inr (item, tl s))"

definition parse_chrono_item :: "string \<Rightarrow> string + chrono_item \<times> string" where
  "parse_chrono_item s =
     (if s = [] then Inl ''invalid format''
      else let (pad, s1) = take_pad s in
        if s1 = [] then Inl ''invalid format''
        else if hd s1 = CHR ''E'' then take_letter chrono_letter_E pad (tl s1)
        else if hd s1 = CHR ''O'' then take_letter chrono_letter_O pad (tl s1)
        else take_letter chrono_letter pad s1)"

lemma parse_chrono_item_shorter: "parse_chrono_item s = Inr (item, rest) \<Longrightarrow> length rest < length s"
  by (cases s; cases "tl s"; cases "tl (tl s)") (auto simp: parse_chrono_item_def take_pad_def take_letter_def split: if_splits option.splits)

text \<open>A handler takes an item; \<open>start\<close> is the text since the last item.\<close>

type_synonym 'h chrono_handler = "chrono_item \<Rightarrow> 'h \<Rightarrow> string + 'h"

definition flush_text :: "'h chrono_handler \<Rightarrow> string \<Rightarrow> 'h \<Rightarrow> string + 'h" where
  "flush_text h start st = (if start \<noteq> [] then h (OnText start) st else Inr st)"

function chrono_loop :: "'h chrono_handler \<Rightarrow> string \<Rightarrow> string \<Rightarrow> 'h \<Rightarrow> string + string \<times> 'h" where
  "chrono_loop h start s st =
     (if s = [] \<or> hd s = CHR ''}'' then andthen (flush_text h start st) (\<lambda>st1. Inr (s, st1))
      else if hd s \<noteq> CHR ''%'' then chrono_loop h (start @ [hd s]) (tl s) st
      else case flush_text h start st of
          Inl e \<Rightarrow> Inl e
        | Inr st1 \<Rightarrow>
            (case parse_chrono_item (tl s) of
               Inl e \<Rightarrow> Inl e
             | Inr (item, rest) \<Rightarrow> (case h item st1 of Inl e \<Rightarrow> Inl e | Inr st2 \<Rightarrow> chrono_loop h [] rest st2)))"
  by pat_completeness auto
termination
  by (relation "measure (\<lambda>(h, start, s, st). length s)") (auto dest!: parse_chrono_item_shorter simp: Suc_le_eq)

declare chrono_loop.simps [simp del]

definition parse_chrono_format :: "'h chrono_handler \<Rightarrow> string \<Rightarrow> 'h \<Rightarrow> string + string \<times> 'h" where
  "parse_chrono_format h s st =
     (if s = [] \<or> hd s = CHR ''}'' then Inr (s, st)
      else if hd s \<noteq> CHR ''%'' then Inl ''invalid format''
      else chrono_loop h [] s st)"

section \<open>The handlers that check\<close>

fun tm_format_checker :: "bool \<Rightarrow> unit chrono_handler" where
  "tm_format_checker has_timezone (OnUtcOffset ns) st = (if has_timezone then Inr st else Inl ''no timezone'')"
| "tm_format_checker has_timezone OnTzName st = (if has_timezone then Inr st else Inl ''no timezone'')"
| "tm_format_checker has_timezone OnDurationValue st = Inl ''no format''"
| "tm_format_checker has_timezone OnDurationUnit st = Inl ''no format''"
| "tm_format_checker has_timezone item st = Inr st"

fun chrono_format_checker :: "bool \<Rightarrow> unit chrono_handler" where
  "chrono_format_checker has_precision_integral (OnText t) st = Inr st"
| "chrono_format_checker has_precision_integral (OnDayOfYear pad) st = Inr st"
| "chrono_format_checker has_precision_integral (On24Hour ns pad) st = Inr st"
| "chrono_format_checker has_precision_integral (On12Hour ns pad) st = Inr st"
| "chrono_format_checker has_precision_integral (OnMinute ns pad) st = Inr st"
| "chrono_format_checker has_precision_integral (OnSecond ns pad) st = Inr st"
| "chrono_format_checker has_precision_integral On12HourTime st = Inr st"
| "chrono_format_checker has_precision_integral On24HourTime st = Inr st"
| "chrono_format_checker has_precision_integral OnIsoTime st = Inr st"
| "chrono_format_checker has_precision_integral OnAmPm st = Inr st"
| "chrono_format_checker has_precision_integral OnDurationValue st =
     (if has_precision_integral then Inl ''precision not allowed for this argument type'' else Inr st)"
| "chrono_format_checker has_precision_integral OnDurationUnit st = Inr st"
| "chrono_format_checker has_precision_integral item st = Inl ''no date''"

section \<open>Numbers of two digits\<close>

text \<open>Three of them at once, with a separator between them; the bytes of the result from the lowest on.\<close>

definition write_digit2_separated :: "u32 \<Rightarrow> u32 \<Rightarrow> u32 \<Rightarrow> char \<Rightarrow> string" where
  "write_digit2_separated a b c sep =
     (let d0 = (ucast (a OR push_bit 24 b) :: u64) OR push_bit 48 (ucast c);
          d1 = d0 + (drop_bit 11 (d0 * 205) AND 0x000f00000f00000f) * 6;
          d2 = drop_bit 4 (d1 AND 0x00f00000f00000f0) OR push_bit 8 (d1 AND 0x000f00000f00000f);
          usep = (scast (of_char sep :: 8 word) :: u64);
          d3 = d2 OR (0x3030003030003030 OR push_bit 16 usep OR push_bit 40 usep)
      in map (\<lambda>i. char_of (unat (drop_bit (8 * i) d3))) [0..<8])"

definition to_unsigned :: "int \<Rightarrow> string + nat" where
  "to_unsigned v = asserted (v \<ge> 0) (nat v)"

definition write1 :: "int \<Rightarrow> string + string" where
  "write1 v = andthen (to_unsigned v) (\<lambda>n. Inr [char_of (48 + n mod 10)])"

definition write2 :: "int \<Rightarrow> string + string" where
  "write2 v = andthen (to_unsigned v) (\<lambda>n. Inr (take 2 (digits2 (n mod 100))))"

definition write2_pad :: "int \<Rightarrow> pad_type \<Rightarrow> string + string" where
  "write2_pad v pad =
     andthen (to_unsigned v) (\<lambda>n.
       let m = n mod 100 in
       Inr (if m \<ge> 10 then take 2 (digits2 m) else write_padding pad 1 @ [char_of (48 + m)]))"

definition decimal_text :: "nat \<Rightarrow> nat \<Rightarrow> string + string" where
  "decimal_text n num_digits = opt_result (map_option fst (do_format_decimal (replicate num_digits (CHR 0x00)) n num_digits))"

section \<open>Durations\<close>

text \<open>
  A period is the ratio of a tick to a second. The counts have 64 bits, signed or unsigned; a conversion that would
  overflow is an error.
\<close>

type_synonym period = "nat \<times> nat"

definition rep_min :: "bool \<Rightarrow> int" where
  "rep_min is_signed = (if is_signed then - (2 ^ 63) else 0)"

definition rep_max :: "bool \<Rightarrow> int" where
  "rep_max is_signed = (if is_signed then 2 ^ 63 - 1 else 2 ^ 64 - 1)"

definition lossless :: "bool \<Rightarrow> int \<Rightarrow> string + int" where
  "lossless is_signed v = (if v < rep_min is_signed \<or> v > rep_max is_signed then Inl ''cannot format duration'' else Inr v)"

definition period_factor :: "period \<Rightarrow> period \<Rightarrow> period" where
  "period_factor p q =
     (let n = fst p * snd q; d = snd p * fst q; g = gcd n d in (n div g, d div g))"

text \<open>From a signed or unsigned count of one period to one of another; the computation is signed when both are.\<close>

definition checked_cast :: "bool \<Rightarrow> bool \<Rightarrow> period \<Rightarrow> period \<Rightarrow> int \<Rightarrow> string + int" where
  "checked_cast from_signed to_signed p q v =
     (let common = (from_signed \<and> to_signed); (num, den) = period_factor p q in
      andthen (lossless common v) (\<lambda>cnt.
        if num \<noteq> 1 \<and> (cnt > rep_max common sdiv int num \<or> common \<and> cnt < rep_min common sdiv int num)
        then Inl ''cannot format duration''
        else let cnt1 = (if num \<noteq> 1 then cnt * int num else cnt);
                 cnt2 = (if den \<noteq> 1 then cnt1 sdiv int den else cnt1)
          in lossless to_signed cnt2))"

function fractional_digits :: "nat \<Rightarrow> nat \<Rightarrow> nat \<Rightarrow> nat" where
  "fractional_digits num den n =
     (if n < 19 \<and> num \<le> (2 ^ 63 - 1) div 10
      then (if num mod den = 0 then n else fractional_digits (num * 10) den (n + 1))
      else if num mod den = 0 then n else 6)"
  by pat_completeness auto
termination by (relation "measure (\<lambda>(num, den, n). 19 - n)") auto

declare fractional_digits.simps [simp del]

text \<open>The digits of a fraction of a second, with a point in front; \<open>precision\<close> below zero is as many as there are.\<close>

definition fraction_text :: "nat \<Rightarrow> nat \<Rightarrow> int \<Rightarrow> string + string" where
  "fraction_text num_fractional_digits n precision =
     (let num_digits = count_digits_64 (of_nat n); leading_zeroes = num_fractional_digits - num_digits in
      if precision < 0
      then (if num_fractional_digits > 0
            then texts [Inr ''.'', Inr (replicate leading_zeroes (CHR ''0'')), decimal_text n num_digits]
            else Inr [])
      else if precision > 0
      then (let leading = min leading_zeroes (nat precision); remaining = nat precision - leading in
            if remaining < num_digits
            then (let n1 = n div 10 ^ (num_digits - remaining)
                  in texts [Inr ''.'', Inr (replicate leading (CHR ''0'')), if n1 \<noteq> 0 then decimal_text n1 remaining else Inr []])
            else texts [Inr ''.'', Inr (replicate leading (CHR ''0'')),
                        if n \<noteq> 0 then decimal_text n num_digits else Inr [],
                        Inr (replicate (if n \<noteq> 0 then remaining - num_digits else remaining) (CHR ''0''))])
      else Inr [])"

text \<open>The ticks that are left when the whole seconds are taken off; a negative number of them is taken for an unsigned one.\<close>

definition write_fractional_seconds :: "bool \<Rightarrow> period \<Rightarrow> int \<Rightarrow> int \<Rightarrow> string + string" where
  "write_fractional_seconds is_signed p v precision =
     (let num_fractional_digits = fractional_digits (fst p) (snd p) 0 in
      andthen (checked_cast is_signed True p (1, 1) v) (\<lambda>secs.
        let fractional = v * int (fst p) - secs * int (snd p) in
        andthen (checked_cast is_signed is_signed (1, snd p) (1, 10 ^ num_fractional_digits) fractional) (\<lambda>subseconds.
          fraction_text num_fractional_digits (unat (of_int subseconds :: u64)) precision)))"

section \<open>The writer of broken-down times\<close>

text \<open>
  What the writer is made with: whether the locale is the classic one, what \<^verbatim>\<open>time_put\<close> writes by a format and a modifier
  in that locale, the name of the time zone as it is encoded, and the fraction of a second.
\<close>

record tm_env =
  te_classic :: bool
  te_put :: "tm \<Rightarrow> char \<Rightarrow> char \<Rightarrow> string + string"
  te_zone :: "string + string"
  te_subsecs :: "(period \<times> int) option"

text \<open>The fields, as they are asserted.\<close>

definition tw_sec :: "tm \<Rightarrow> string + int" where "tw_sec t = asserted (tm_sec t \<ge> 0 \<and> tm_sec t \<le> 61) (tm_sec t)"
definition tw_min :: "tm \<Rightarrow> string + int" where "tw_min t = asserted (tm_min t \<ge> 0 \<and> tm_min t \<le> 59) (tm_min t)"
definition tw_hour :: "tm \<Rightarrow> string + int" where "tw_hour t = asserted (tm_hour t \<ge> 0 \<and> tm_hour t \<le> 23) (tm_hour t)"
definition tw_mday :: "tm \<Rightarrow> string + int" where "tw_mday t = asserted (tm_mday t \<ge> 1 \<and> tm_mday t \<le> 31) (tm_mday t)"
definition tw_mon :: "tm \<Rightarrow> string + int" where "tw_mon t = asserted (tm_mon t \<ge> 0 \<and> tm_mon t \<le> 11) (tm_mon t)"
definition tw_year :: "tm \<Rightarrow> int" where "tw_year t = 1900 + tm_year t"
definition tw_wday :: "tm \<Rightarrow> string + int" where "tw_wday t = asserted (tm_wday t \<ge> 0 \<and> tm_wday t \<le> 6) (tm_wday t)"
definition tw_yday :: "tm \<Rightarrow> string + int" where "tw_yday t = asserted (tm_yday t \<ge> 0 \<and> tm_yday t \<le> 365) (tm_yday t)"

definition tw_hour12 :: "tm \<Rightarrow> string + int" where
  "tw_hour12 t = andthen (tw_hour t) (\<lambda>h. let z = (if h < 12 then h else h - 12) in Inr (if z = 0 then 12 else z))"

definition split_year_lower :: "int \<Rightarrow> int" where
  "split_year_lower year = (let l = year smod 100 in if l < 0 then - l else l)"

definition iso_year_weeks :: "int \<Rightarrow> int" where
  "iso_year_weeks curr_year =
     (let prev_year = curr_year - 1;
          curr_p = (curr_year + curr_year sdiv 4 - curr_year sdiv 100 + curr_year sdiv 400) smod 7;
          prev_p = (prev_year + prev_year sdiv 4 - prev_year sdiv 100 + prev_year sdiv 400) smod 7
      in 52 + (if curr_p = 4 \<or> prev_p = 3 then 1 else 0))"

definition iso_week_num :: "int \<Rightarrow> int \<Rightarrow> int" where
  "iso_week_num yday wday = (yday + 11 - (if wday = 0 then 7 else wday)) sdiv 7"

definition iso_week_year :: "int \<Rightarrow> int \<Rightarrow> int \<Rightarrow> int" where
  "iso_week_year year yday wday =
     (let w = iso_week_num yday wday in if w < 1 then year - 1 else if w > iso_year_weeks year then year + 1 else year)"

definition iso_week_of_year :: "int \<Rightarrow> int \<Rightarrow> int \<Rightarrow> int" where
  "iso_week_of_year year yday wday =
     (let w = iso_week_num yday wday in if w < 1 then iso_year_weeks (year - 1) else if w > iso_year_weeks year then 1 else w)"

definition write_year_extended :: "int \<Rightarrow> pad_type \<Rightarrow> string + string" where
  "write_year_extended year pad =
     (let negative = (year < 0); width = (if negative then 3 else 4); n = nat (if negative then 0 - year else year);
          num_digits = count_digits_64 (of_nat n)
      in texts
        [Inr (if negative \<and> pad = PadZero then ''-'' else []),
         Inr (if width > num_digits then write_padding pad (int (width - num_digits)) else []),
         Inr (if negative \<and> pad \<noteq> PadZero then ''-'' else []),
         decimal_text n num_digits])"

definition write_utc_offset :: "int \<Rightarrow> numeric_system \<Rightarrow> string + string" where
  "write_utc_offset offset ns =
     (let off = \<bar>offset\<bar> div 60
      in texts [Inr (if offset < 0 then ''-'' else ''+''), write2 (signed_take_bit 31 (off div 60)),
                Inr (if ns \<noteq> NsStandard then '':'' else []), write2 (off mod 60)])"

text \<open>The names, in English.\<close>

definition tm_wday_full_name :: "int \<Rightarrow> string" where
  "tm_wday_full_name wday =
     (if wday \<ge> 0 \<and> wday \<le> 6
      then [''Sunday'', ''Monday'', ''Tuesday'', ''Wednesday'', ''Thursday'', ''Friday'', ''Saturday''] ! nat wday else ''?'')"

definition tm_wday_short_name :: "int \<Rightarrow> string" where
  "tm_wday_short_name wday =
     (if wday \<ge> 0 \<and> wday \<le> 6 then [''Sun'', ''Mon'', ''Tue'', ''Wed'', ''Thu'', ''Fri'', ''Sat''] ! nat wday else ''???'')"

definition tm_mon_full_name :: "int \<Rightarrow> string" where
  "tm_mon_full_name mon =
     (if mon \<ge> 0 \<and> mon \<le> 11
      then [''January'', ''February'', ''March'', ''April'', ''May'', ''June'', ''July'', ''August'', ''September'', ''October'',
            ''November'', ''December''] ! nat mon
      else ''?'')"

definition tm_mon_short_name :: "int \<Rightarrow> string" where
  "tm_mon_short_name mon =
     (if mon \<ge> 0 \<and> mon \<le> 11
      then [''Jan'', ''Feb'', ''Mar'', ''Apr'', ''May'', ''Jun'', ''Jul'', ''Aug'', ''Sep'', ''Oct'', ''Nov'', ''Dec''] ! nat mon
      else ''???'')"

text \<open>In a locale that is not the classic one, some items are left to it. NUL is no modifier.\<close>

definition or_localized :: "tm_env \<Rightarrow> tm \<Rightarrow> bool \<Rightarrow> char \<Rightarrow> char \<Rightarrow> string + string \<Rightarrow> string + string" where
  "or_localized env t classic format modifier r = (if classic then r else te_put env t format modifier)"

definition plain_or_classic :: "tm_env \<Rightarrow> numeric_system \<Rightarrow> bool" where
  "plain_or_classic env ns \<longleftrightarrow> te_classic env \<or> ns = NsStandard"

definition era_modifier :: "numeric_system \<Rightarrow> char" where
  "era_modifier ns = (if ns = NsStandard then CHR 0x00 else CHR ''E'')"

definition on_abbr_weekday :: "tm_env \<Rightarrow> tm \<Rightarrow> string + string" where
  "on_abbr_weekday env t =
     or_localized env t (te_classic env) (CHR ''a'') (CHR 0x00) (andthen (tw_wday t) (\<lambda>d. Inr (tm_wday_short_name d)))"

definition on_abbr_month :: "tm_env \<Rightarrow> tm \<Rightarrow> string + string" where
  "on_abbr_month env t =
     or_localized env t (te_classic env) (CHR ''b'') (CHR 0x00) (andthen (tw_mon t) (\<lambda>m. Inr (tm_mon_short_name m)))"

definition on_day_of_month :: "tm_env \<Rightarrow> tm \<Rightarrow> numeric_system \<Rightarrow> pad_type \<Rightarrow> string + string" where
  "on_day_of_month env t ns pad =
     or_localized env t (plain_or_classic env ns) (CHR ''d'') (CHR ''O'') (andthen (tw_mday t) (\<lambda>d. write2_pad d pad))"

definition on_year :: "tm_env \<Rightarrow> tm \<Rightarrow> numeric_system \<Rightarrow> pad_type \<Rightarrow> string + string" where
  "on_year env t ns pad =
     or_localized env t (plain_or_classic env ns) (CHR ''Y'') (CHR ''E'') (write_year_extended (tw_year t) pad)"

definition on_second :: "tm_env \<Rightarrow> tm \<Rightarrow> numeric_system \<Rightarrow> pad_type \<Rightarrow> string + string" where
  "on_second env t ns pad =
     or_localized env t (plain_or_classic env ns) (CHR ''S'') (CHR ''O'')
       (texts [andthen (tw_sec t) (\<lambda>s. write2_pad s pad),
               case te_subsecs env of None \<Rightarrow> Inr [] | Some (p, v) \<Rightarrow> write_fractional_seconds True p v (-1)])"

definition on_24_hour_time :: "tm \<Rightarrow> string + string" where
  "on_24_hour_time t = texts [andthen (tw_hour t) write2, Inr '':'', andthen (tw_min t) write2]"

definition on_iso_time :: "tm_env \<Rightarrow> tm \<Rightarrow> string + string" where
  "on_iso_time env t = texts [on_24_hour_time t, Inr '':'', on_second env t NsStandard PadZero]"

definition on_am_pm :: "tm_env \<Rightarrow> tm \<Rightarrow> string + string" where
  "on_am_pm env t =
     or_localized env t (te_classic env) (CHR ''p'') (CHR 0x00)
       (andthen (tw_hour t) (\<lambda>h. Inr (if h < 12 then ''AM'' else ''PM'')))"

definition digit2_texts :: "string + int \<Rightarrow> string + int \<Rightarrow> string + int \<Rightarrow> char \<Rightarrow> string + string" where
  "digit2_texts a b c sep =
     andthen (andthen a to_unsigned) (\<lambda>x. andthen (andthen b to_unsigned) (\<lambda>y. andthen (andthen c to_unsigned) (\<lambda>z.
       Inr (write_digit2_separated (of_nat x) (of_nat y) (of_nat z) sep))))"

definition on_us_date :: "tm \<Rightarrow> string + string" where
  "on_us_date t =
     digit2_texts (andthen (tw_mon t) (\<lambda>m. Inr (m + 1))) (tw_mday t) (Inr (split_year_lower (tw_year t))) (CHR ''/'')"

text \<open>The first two digits of a year of four go before the rest; another year is written in front of it.\<close>

definition on_iso_date :: "tm \<Rightarrow> string + string" where
  "on_iso_date t =
     (let year = tw_year t; short = (year \<ge> 0 \<and> year < 10000); year1 = (if short then year else 0) in
      texts
       [if short then Inr (take 2 (digits2 (nat (year div 100)))) else write_year_extended year PadZero,
        andthen (digit2_texts (Inr (year1 mod 100)) (andthen (tw_mon t) (\<lambda>m. Inr (m + 1))) (tw_mday t) (CHR ''-''))
          (\<lambda>buf. Inr (if short then buf else drop 2 buf))])"

definition on_12_hour_time :: "tm_env \<Rightarrow> tm \<Rightarrow> string + string" where
  "on_12_hour_time env t =
     or_localized env t (te_classic env) (CHR ''r'') (CHR 0x00)
       (texts [digit2_texts (tw_hour12 t) (tw_min t) (tw_sec t) (CHR '':''), Inr '' '', on_am_pm env t])"

definition on_datetime :: "tm_env \<Rightarrow> tm \<Rightarrow> numeric_system \<Rightarrow> string + string" where
  "on_datetime env t ns =
     or_localized env t (te_classic env) (CHR ''c'') (era_modifier ns)
       (texts [on_abbr_weekday env t, Inr '' '', on_abbr_month env t, Inr '' '', on_day_of_month env t NsStandard PadSpace, Inr '' '',
               on_iso_time env t, Inr '' '', on_year env t NsStandard PadSpace])"

definition on_century :: "tm_env \<Rightarrow> tm \<Rightarrow> numeric_system \<Rightarrow> string + string" where
  "on_century env t ns =
     or_localized env t (plain_or_classic env ns) (CHR ''C'') (CHR ''E'')
       (let year = tw_year t; upper = year sdiv 100 in
        if year \<ge> -99 \<and> year < 0 then Inr ''-0''
        else if upper \<ge> 0 \<and> upper < 100 then write2 upper
        else write_integer_plain True (of_int upper :: u64))"

definition on_dec0_week_of_year :: "tm_env \<Rightarrow> tm \<Rightarrow> numeric_system \<Rightarrow> pad_type \<Rightarrow> string + string" where
  "on_dec0_week_of_year env t ns pad =
     or_localized env t (plain_or_classic env ns) (CHR ''U'') (CHR ''O'')
       (andthen (tw_yday t) (\<lambda>yday. andthen (tw_wday t) (\<lambda>wday. write2_pad ((yday + 7 - wday) sdiv 7) pad)))"

definition on_dec1_week_of_year :: "tm_env \<Rightarrow> tm \<Rightarrow> numeric_system \<Rightarrow> pad_type \<Rightarrow> string + string" where
  "on_dec1_week_of_year env t ns pad =
     or_localized env t (plain_or_classic env ns) (CHR ''W'') (CHR ''O'')
       (andthen (tw_wday t) (\<lambda>wday. andthen (tw_yday t) (\<lambda>yday.
          write2_pad ((yday + 7 - (if wday = 0 then 6 else wday - 1)) sdiv 7) pad)))"

definition with_iso :: "(int \<Rightarrow> int \<Rightarrow> int \<Rightarrow> int) \<Rightarrow> tm \<Rightarrow> string + int" where
  "with_iso f t = andthen (tw_yday t) (\<lambda>yday. andthen (tw_wday t) (\<lambda>wday. Inr (f (tw_year t) yday wday)))"

definition on_day_of_year :: "tm \<Rightarrow> pad_type \<Rightarrow> string + string" where
  "on_day_of_year t pad =
     andthen (tw_yday t) (\<lambda>d.
       let yday = d + 1; digit1 = yday div 100
       in texts [if digit1 \<noteq> 0 then write1 digit1 else Inr (write_padding pad 1), write2_pad (yday mod 100) pad])"

fun tm_item :: "tm_env \<Rightarrow> tm \<Rightarrow> chrono_item \<Rightarrow> string + string" where
  "tm_item env t (OnText s) = Inr s"
| "tm_item env t (OnYear ns pad) = on_year env t ns pad"
| "tm_item env t (OnShortYear ns) =
     or_localized env t (plain_or_classic env ns) (CHR ''y'') (CHR ''O'') (write2 (split_year_lower (tw_year t)))"
| "tm_item env t OnOffsetYear =
     or_localized env t (te_classic env) (CHR ''y'') (CHR ''E'') (write2 (split_year_lower (tw_year t)))"
| "tm_item env t (OnCentury ns) = on_century env t ns"
| "tm_item env t OnIsoWeekBasedYear = andthen (with_iso iso_week_year t) (\<lambda>y. write_year_extended y PadZero)"
| "tm_item env t OnIsoWeekBasedShortYear = andthen (with_iso iso_week_year t) (\<lambda>y. write2 (split_year_lower y))"
| "tm_item env t OnAbbrWeekday = on_abbr_weekday env t"
| "tm_item env t OnFullWeekday =
     or_localized env t (te_classic env) (CHR ''A'') (CHR 0x00) (andthen (tw_wday t) (\<lambda>d. Inr (tm_wday_full_name d)))"
| "tm_item env t (OnDec0Weekday ns) =
     or_localized env t (plain_or_classic env ns) (CHR ''w'') (CHR ''O'') (andthen (tw_wday t) write1)"
| "tm_item env t (OnDec1Weekday ns) =
     or_localized env t (plain_or_classic env ns) (CHR ''u'') (CHR ''O'')
       (andthen (tw_wday t) (\<lambda>d. write1 (if d = 0 then 7 else d)))"
| "tm_item env t OnAbbrMonth = on_abbr_month env t"
| "tm_item env t OnFullMonth =
     or_localized env t (te_classic env) (CHR ''B'') (CHR 0x00) (andthen (tw_mon t) (\<lambda>m. Inr (tm_mon_full_name m)))"
| "tm_item env t (OnDecMonth ns pad) =
     or_localized env t (plain_or_classic env ns) (CHR ''m'') (CHR ''O'') (andthen (tw_mon t) (\<lambda>m. write2_pad (m + 1) pad))"
| "tm_item env t (OnDec0WeekOfYear ns pad) = on_dec0_week_of_year env t ns pad"
| "tm_item env t (OnDec1WeekOfYear ns pad) = on_dec1_week_of_year env t ns pad"
| "tm_item env t (OnIsoWeekOfYear ns pad) =
     or_localized env t (plain_or_classic env ns) (CHR ''V'') (CHR ''O'')
       (andthen (with_iso iso_week_of_year t) (\<lambda>w. write2_pad w pad))"
| "tm_item env t (OnDayOfYear pad) = on_day_of_year t pad"
| "tm_item env t (OnDayOfMonth ns pad) = on_day_of_month env t ns pad"
| "tm_item env t (On24Hour ns pad) =
     or_localized env t (plain_or_classic env ns) (CHR ''H'') (CHR ''O'') (andthen (tw_hour t) (\<lambda>h. write2_pad h pad))"
| "tm_item env t (On12Hour ns pad) =
     or_localized env t (plain_or_classic env ns) (CHR ''I'') (CHR ''O'') (andthen (tw_hour12 t) (\<lambda>h. write2_pad h pad))"
| "tm_item env t (OnMinute ns pad) =
     or_localized env t (plain_or_classic env ns) (CHR ''M'') (CHR ''O'') (andthen (tw_min t) (\<lambda>m. write2_pad m pad))"
| "tm_item env t (OnSecond ns pad) = on_second env t ns pad"
| "tm_item env t (OnDatetime ns) = on_datetime env t ns"
| "tm_item env t (OnLocDate ns) = or_localized env t (te_classic env) (CHR ''x'') (era_modifier ns) (on_us_date t)"
| "tm_item env t (OnLocTime ns) = or_localized env t (te_classic env) (CHR ''X'') (era_modifier ns) (on_iso_time env t)"
| "tm_item env t OnUsDate = on_us_date t"
| "tm_item env t OnIsoDate = on_iso_date t"
| "tm_item env t On12HourTime = on_12_hour_time env t"
| "tm_item env t On24HourTime = on_24_hour_time t"
| "tm_item env t OnIsoTime = on_iso_time env t"
| "tm_item env t OnAmPm = on_am_pm env t"
| "tm_item env t OnDurationValue = Inr []"
| "tm_item env t OnDurationUnit = Inr []"
| "tm_item env t (OnUtcOffset ns) = write_utc_offset (tm_gmtoff t) ns"
| "tm_item env t OnTzName = te_zone env"

definition tm_writer :: "tm_env \<Rightarrow> tm \<Rightarrow> string chrono_handler" where
  "tm_writer env t item out = andthen (tm_item env t item) (\<lambda>s. Inr (out @ s))"

section \<open>The formatter of broken-down times\<close>

text \<open>Alignment and fill of a specification that starts with them.\<close>

definition parse_align_spec :: "string \<Rightarrow> dynamic_format_specs \<Rightarrow> string + dynamic_format_specs \<times> string" where
  "parse_align_spec s sp =
     (let n = code_point_length (hd s) in
      if n < length s \<and> parse_align (s ! n) \<noteq> AlignNone
      then (if hd s = CHR ''}'' then Inr (sp, s)
            else if hd s = CHR ''{'' then Inl (''invalid fill character '' @ quoted (CHR ''{''))
            else Inr (sp\<lparr>sp_fill := take n s, sp_align := parse_align (s ! n)\<rparr>, drop (Suc n) s))
      else if parse_align (hd s) \<noteq> AlignNone then Inr (sp\<lparr>sp_align := parse_align (hd s)\<rparr>, tl s)
      else Inr (sp\<lparr>sp_align := AlignNone\<rparr>, s))"

record chrono_formatter =
  cf_specs :: dynamic_format_specs
  cf_fmt :: string

definition mk_tm_formatter :: chrono_formatter where
  "mk_tm_formatter = \<lparr>cf_specs = mk_specs, cf_fmt = ''%F %T''\<rparr>"

definition take_width :: "string \<Rightarrow> dynamic_format_specs \<Rightarrow> parse_context \<Rightarrow> string + dynamic_format_specs \<times> parse_context \<times> string" where
  "take_width s sp ctx = (if is_digit (hd s) \<or> hd s = CHR ''{'' then parse_width s sp ctx else Inr (sp, ctx, s))"

text \<open>The rest of the format string behind the specification, and the formatter.\<close>

definition tm_do_parse :: "bool \<Rightarrow> chrono_formatter \<Rightarrow> string \<Rightarrow> parse_context \<Rightarrow> string + chrono_formatter \<times> parse_context \<times> string" where
  "tm_do_parse has_timezone f s ctx =
     (if s = [] \<or> hd s = CHR ''}'' then Inr (f, ctx, s)
      else andthen (parse_align_spec s (cf_specs f)) (\<lambda>(sp, s1).
        if s1 = [] then Inr (f\<lparr>cf_specs := sp\<rparr>, ctx, s1)
        else andthen (take_width s1 sp ctx) (\<lambda>(sp1, ctx1, s2).
          if s2 = [] then Inr (f\<lparr>cf_specs := sp1\<rparr>, ctx1, s2)
          else let (sp2, s3) = (if hd s2 = CHR ''L'' then (sp1\<lparr>sp_localized := True\<rparr>, tl s2) else (sp1, s2)) in
            andthen (parse_chrono_format (tm_format_checker has_timezone) s3 ()) (\<lambda>(rest, _).
              let spec = take (length s3 - length rest) s3
              in Inr (f\<lparr>cf_specs := sp2, cf_fmt := (if spec \<noteq> [] then spec else cf_fmt f)\<rparr>, ctx1, rest)))))"

text \<open>\<open>env\<close> is for the locale of the call when the specification asks for it, the classic one otherwise.\<close>

definition tm_do_format :: "fmt_call \<Rightarrow> (bool \<Rightarrow> tm_env) \<Rightarrow> chrono_formatter \<Rightarrow> tm \<Rightarrow> string + string" where
  "tm_do_format call env f t =
     andthen (handle_dynamic_spec call (sp_dynamic_width (cf_specs f)) (sp_width (cf_specs f)) (sp_width_ref (cf_specs f))) (\<lambda>wd.
       andthen (parse_chrono_format (tm_writer (env (sp_localized (cf_specs f))) t) (cf_fmt f) []) (\<lambda>(_, buf).
         fmt_write_string buf ((cf_specs f)\<lparr>sp_width := wd\<rparr>)))"

end
