(* ===== verification/Fmt_Chrono_Spec.thy ===== *)
theory Fmt_Chrono_Spec
  imports Fmt_Chrono
begin

text \<open>
  What the writer of dates and times shows: the numbers of two digits that are computed three at a time.
\<close>

section \<open>Three numbers at once\<close>

definition two_digits :: "nat \<Rightarrow> string" where
  "two_digits v = [digit_char (v div 10), digit_char (v mod 10)]"

text \<open>The low bits of a number and the others.\<close>

lemma low_or: "x < 2 ^ k \<Longrightarrow> x + 2 ^ k * y = x OR push_bit k y" for x y :: nat
proof -
  assume "x < 2 ^ k"
  then have "take_bit k x = x" by (simp add: take_bit_nat_eq_self)
  then have "\<not> bit x n \<or> \<not> bit (push_bit k y) n" for n by (metis bit_push_bit_iff_nat bit_take_bit_iff not_le)
  then show ?thesis by (simp add: disjunctive_add push_bit_eq_mult mult.commute)
qed

lemma bits_below: "x < 2 ^ k \<Longrightarrow> bit x n \<Longrightarrow> n < k" for x :: nat
  by (metis bit_take_bit_iff take_bit_nat_eq_self)

lemma split_and:
  fixes x x' w w' :: nat
  assumes "x < 2 ^ k" and "x' < 2 ^ k"
  shows "(x + 2 ^ k * w) AND (x' + 2 ^ k * w') = (x AND x') + 2 ^ k * (w AND w')"
proof -
  have "x AND x' < 2 ^ k" using assms by (metis take_bit_nat_eq_self_iff take_bit_and)
  then show ?thesis
    unfolding low_or [OF assms(1)] low_or [OF assms(2)] by (subst low_or) (auto simp: bit_eq_iff bit_simps dest: bits_below [OF assms(1)] bits_below [OF assms(2)])
qed

lemma split_or:
  fixes x x' w w' :: nat
  assumes "x < 2 ^ k" and "x' < 2 ^ k"
  shows "(x + 2 ^ k * w) OR (x' + 2 ^ k * w') = (x OR x') + 2 ^ k * (w OR w')"
proof -
  have "x OR x' < 2 ^ k" using assms by (metis take_bit_nat_eq_self_iff take_bit_or)
  then show ?thesis
    unfolding low_or [OF assms(1)] low_or [OF assms(2)] by (subst low_or) (auto simp: bit_eq_iff bit_simps)
qed

text \<open>Three fields, 24 bits apart.\<close>

abbreviation fields3 :: "nat \<Rightarrow> nat \<Rightarrow> nat \<Rightarrow> nat" where
  "fields3 a b c \<equiv> a + 2 ^ 24 * (b + 2 ^ 24 * c)"

lemma fields3_and:
  "a < 2 ^ 24 \<Longrightarrow> b < 2 ^ 24 \<Longrightarrow> a' < 2 ^ 24 \<Longrightarrow> b' < 2 ^ 24 \<Longrightarrow>
    fields3 a b c AND fields3 a' b' c' = fields3 (a AND a') (b AND b') (c AND c')"
  by (simp only: split_and)

lemma fields3_or:
  "a < 2 ^ 24 \<Longrightarrow> b < 2 ^ 24 \<Longrightarrow> a' < 2 ^ 24 \<Longrightarrow> b' < 2 ^ 24 \<Longrightarrow>
    fields3 a b c OR fields3 a' b' c' = fields3 (a OR a') (b OR b') (c OR c')"
  by (simp only: split_or)

text \<open>The bytes of a number, the lowest first.\<close>

primrec from_bytes :: "nat list \<Rightarrow> nat" where
  "from_bytes [] = 0"
| "from_bytes (b # bs) = b + 256 * from_bytes bs"

lemma nth_byte: "list_all (\<lambda>b. b < 256) bs \<Longrightarrow> i < length bs \<Longrightarrow> from_bytes bs div 2 ^ (8 * i) mod 256 = bs ! i"
proof (induction bs arbitrary: i)
  case (Cons b bs)
  have "(b + 256 * from_bytes bs) div 256 = from_bytes bs" using Cons.prems(1) by simp
  then have "(b + 256 * from_bytes bs) div 2 ^ (8 * Suc j) = from_bytes bs div 2 ^ (8 * j)" for j
    by (simp add: power_add div_mult2_eq)
  then show ?case using Cons by (cases i) auto
qed simp

definition bcd :: "nat \<Rightarrow> nat" where
  "bcd x = 16 * (x div 10) + x mod 10"

lemma and_low:
  fixes u :: nat
  shows "u < 16 \<Longrightarrow> u AND 15 = u"
  using take_bit_eq_mask [of 4 u] take_bit_nat_eq_self [of u 4] by (simp add: mask_numeral)

lemma bcd_tables:
  assumes "x < 100"
  shows "x + 6 * (x * 205 div 2 ^ 11 AND 15) = bcd x" "bcd x AND 240 = 16 * (x div 10)" "bcd x AND 15 = x mod 10" "bcd x < 256"
    and "x * 205 div 2 ^ 11 < 16"
proof -
  define t u where "t = x div 10" and "u = x mod 10"
  have x: "x = 10 * t + u" "t < 10" "u < 10" using assms by (simp_all add: t_def u_def)
  have "x * 205 = 2048 * t + (2 * t + 205 * u)" using x(1) by simp
  moreover have "2 * t + 205 * u < 2048" using x(2,3) by simp
  ultimately have q: "x * 205 div 2 ^ 11 = t" by simp
  have bcd: "bcd x = u + 2 ^ 4 * t" by (simp add: bcd_def t_def u_def)
  have "bcd x AND 240 = 16 * (t AND 15)" unfolding bcd using split_and [of u 4 0 t 15] x(3) by simp
  moreover have "bcd x AND 15 = u AND 15" unfolding bcd using split_and [of u 4 15 t 0] x(3) by simp
  ultimately show "bcd x AND 240 = 16 * (x div 10)" "bcd x AND 15 = x mod 10"
    using x(2,3) by (simp_all add: and_low t_def u_def)
  show "x + 6 * (x * 205 div 2 ^ 11 AND 15) = bcd x" "bcd x < 256" "x * 205 div 2 ^ 11 < 16"
    unfolding q bcd using x by (simp_all add: and_low)
qed

text \<open>The digit of the tens, from a product that does not disturb the fields above it.\<close>

lemma fields3_tens:
  assumes "a < 100" and "b < 100" and "c < 100"
  shows "fields3 a b c * 205 div 2 ^ 11 AND 0x000f00000f00000f = fields3 (a * 205 div 2 ^ 11 AND 15) (b * 205 div 2 ^ 11 AND 15) (c * 205 div 2 ^ 11 AND 15)"
proof -
  define q where "q = (\<lambda>x :: nat. x * 205 div 2 ^ 11)"
  define r where "r = (\<lambda>x :: nat. x * 205 mod 2 ^ 11)"
  have x: "x * 205 = 2 ^ 11 * q x + r x" "r x < 2 ^ 11" for x by (simp_all add: q_def r_def)
  have q: "x < 100 \<Longrightarrow> q x < 16" for x using bcd_tables(5) by (simp add: q_def)
  have "fields3 a b c * 205 = 2 ^ 11 * (q a + 2 ^ 13 * (b * 205 + 2 ^ 24 * (c * 205))) + r a"
    using x(1) [of a] by (simp add: algebra_simps)
  then have "fields3 a b c * 205 div 2 ^ 11 = q a + 2 ^ 13 * (b * 205 + 2 ^ 24 * (c * 205))"
    using x(2) [of a] by simp
  also have "\<dots> = fields3 (q a + 2 ^ 13 * r b) (q b + 2 ^ 13 * r c) (q c)"
    using x(1) [of b] x(1) [of c] by (simp add: algebra_simps)
  finally have y: "fields3 a b c * 205 div 2 ^ 11 = fields3 (q a + 2 ^ 13 * r b) (q b + 2 ^ 13 * r c) (q c)" .
  have and15: "(u + 2 ^ 13 * v) AND 15 = u AND 15" if "u < 16" for u v :: nat
    using split_and [of u 13 15 v 0] that by simp
  have bounds: "q a + 2 ^ 13 * r b < 2 ^ 24" "q b + 2 ^ 13 * r c < 2 ^ 24"
    using q [OF assms(1)] q [OF assms(2)] x(2) [of b] x(2) [of c] by simp_all
  have m: "(0x000f00000f00000f :: nat) = fields3 15 15 15" by simp
  have "fields3 a b c * 205 div 2 ^ 11 AND 0x000f00000f00000f = fields3 (q a AND 15) (q b AND 15) (q c AND 15)"
    unfolding y m by (subst fields3_and [OF bounds]) (simp_all only: and15 [OF q [OF assms(1)]] and15 [OF q [OF assms(2)]], simp_all)
  then show ?thesis by (simp only: q_def)
qed

lemma unat_push_bit: "unat w * 2 ^ k < 2 ^ LENGTH('a) \<Longrightarrow> unat (push_bit k w) = unat w * 2 ^ k" for w :: "'a::len word"
  unfolding unsigned_push_bit_eq push_bit_eq_mult [of k "unat w"] by (rule take_bit_nat_eq_self)

lemma unat_drop: "unat (drop_bit k w) = unat w div 2 ^ k" for w :: "'a::len word"
  unfolding unsigned_drop_bit_eq drop_bit_eq_div [of k "take_bit LENGTH('a) (unat w)"] by (subst take_bit_nat_eq_self) simp_all

lemma unat_plus: "unat x + unat y < 2 ^ LENGTH('a) \<Longrightarrow> unat (x + y) = unat x + unat y" for x y :: "'a::len word"
  by (simp add: unat_word_ariths)

lemma unat_times: "unat x * unat y < 2 ^ LENGTH('a) \<Longrightarrow> unat (x * y) = unat x * unat y" for x y :: "'a::len word"
  by (simp add: unat_word_ariths)

lemma digit2_word:
  assumes "a < 100" and "b < 100" and "c < 100"
  shows "unat ((ucast ((of_nat a :: u32) OR push_bit 24 (of_nat b)) :: u64) OR push_bit 48 (ucast (of_nat c :: u32))) = fields3 a b c"
proof -
  have s: "unat (of_nat x :: u32) = x" if "x < 100" for x using that by (simp add: unat_of_nat)
  have "unat (push_bit 24 (of_nat b :: u32)) = b * 2 ^ 24"
    using assms(2) s [OF assms(2)] by (subst unat_push_bit) simp_all
  then have "unat ((of_nat a :: u32) OR push_bit 24 (of_nat b)) = a OR push_bit 24 b"
    unfolding push_bit_eq_mult [of 24 b] by (subst unsigned_or_eq) (simp only: s [OF assms(1)])
  also have "\<dots> = a + 2 ^ 24 * b" by (rule low_or [symmetric]) (use assms(1) in simp)
  finally have e: "unat ((of_nat a :: u32) OR push_bit 24 (of_nat b)) = a + 2 ^ 24 * b" .
  have low: "unat (ucast ((of_nat a :: u32) OR push_bit 24 (of_nat b)) :: u64) = a + 2 ^ 24 * b"
    unfolding unsigned_ucast_eq e using assms by (intro take_bit_nat_eq_self) simp
  have c: "unat (ucast (of_nat c :: u32) :: u64) = c"
    unfolding unsigned_ucast_eq s [OF assms(3)] using assms(3) by (intro take_bit_nat_eq_self) simp
  have "unat (push_bit 48 (ucast (of_nat c :: u32)) :: u64) = c * 2 ^ 48"
    using assms(3) c by (subst unat_push_bit) simp_all
  then have "unat ((ucast ((of_nat a :: u32) OR push_bit 24 (of_nat b)) :: u64) OR push_bit 48 (ucast (of_nat c :: u32))) = (a + 2 ^ 24 * b) OR push_bit 48 c"
    unfolding push_bit_eq_mult [of 48 c] by (subst unsigned_or_eq) (simp only: low)
  also have "\<dots> = (a + 2 ^ 24 * b) + 2 ^ 48 * c" by (rule low_or [symmetric]) (use assms in simp)
  finally show ?thesis by simp
qed

lemma ascii_digit: "d < 10 \<Longrightarrow> d OR 48 = d + 48 \<and> char_of (d + 48) = digit_char d" for d :: nat
proof -
  assume d: "d < 10"
  have "d OR push_bit 4 3 = d + 2 ^ 4 * 3" using low_or [of d 4 3] d by simp
  then show ?thesis by (simp add: push_bit_eq_mult digit_char_def add.commute)
qed

lemma two_bytes:
  fixes t u :: nat
  assumes "t < 10" and "u < 10"
  shows "(t + 256 * u) OR 0x3030 = (t + 48) + 256 * (u + 48)"
  using split_or [of t 8 48 u 48] assms ascii_digit [of t] ascii_digit [of u] by simp

lemma three_bytes:
  fixes t u s :: nat
  assumes "t < 10" and "u < 10" and "s < 256"
  shows "(t + 256 * u) OR (0x3030 OR push_bit 16 s) = (t + 48) + 256 * ((u + 48) + 256 * s)"
proof -
  have "(t + 256 * u) OR (0x3030 OR push_bit 16 s) = ((t + 256 * u) OR 0x3030) OR push_bit 16 s" by (simp only: or.assoc)
  also have "\<dots> = (t + 48) + 256 * (u + 48) + 2 ^ 16 * s"
    unfolding two_bytes [OF assms(1,2)] by (rule low_or [symmetric]) (use assms in simp)
  finally show ?thesis by simp
qed

text \<open>The steps of the computation.\<close>

lemma digit2_bcd:
  assumes "a < 100" and "b < 100" and "c < 100" and d0: "unat d0 = fields3 a b c"
  shows "unat (d0 + (drop_bit 11 (d0 * 205) AND 0x000f00000f00000f) * 6 :: u64) = fields3 (bcd a) (bcd b) (bcd c)"
proof -
  define q where "q = (\<lambda>x :: nat. x * 205 div 2 ^ 11 AND 15)"
  have q: "x < 100 \<Longrightarrow> x + 6 * q x = bcd x" "x < 100 \<Longrightarrow> bcd x < 256" for x using bcd_tables by (simp_all add: q_def)
  have "unat (d0 * 205) = fields3 a b c * 205"
    using unat_times [of d0 205] assms by (simp add: d0)
  then have "unat (drop_bit 11 (d0 * 205) AND 0x000f00000f00000f) = fields3 a b c * 205 div 2 ^ 11 AND 0x000f00000f00000f"
    by (subst unsigned_and_eq, subst unat_drop) (simp only: unat_numeral, simp)
  then have "unat (drop_bit 11 (d0 * 205) AND 0x000f00000f00000f) = fields3 (q a) (q b) (q c)"
    unfolding q_def fields3_tens [OF assms(1-3)] .
  then have "unat ((drop_bit 11 (d0 * 205) AND 0x000f00000f00000f) * 6) = fields3 (q a) (q b) (q c) * 6"
    using unat_times [of "drop_bit 11 (d0 * 205) AND 0x000f00000f00000f" 6] q(1) [OF assms(1)] q(1) [OF assms(2)] q(1) [OF assms(3)]
      q(2) [OF assms(1)] q(2) [OF assms(2)] q(2) [OF assms(3)] by simp
  moreover have "fields3 a b c + fields3 (q a) (q b) (q c) * 6 = fields3 (bcd a) (bcd b) (bcd c)"
    unfolding q(1) [OF assms(1), symmetric] q(1) [OF assms(2), symmetric] q(1) [OF assms(3), symmetric] by (simp add: algebra_simps)
  ultimately show ?thesis
    using unat_plus [of d0 "(drop_bit 11 (d0 * 205) AND 0x000f00000f00000f) * 6"] q(2) [OF assms(1)] q(2) [OF assms(2)] q(2) [OF assms(3)]
    by (simp add: d0)
qed

definition digit_bytes :: "nat \<Rightarrow> nat" where
  "digit_bytes x = x div 10 + 256 * (x mod 10)"

lemma bcd_masked:
  assumes "a < 100" and "b < 100" and "c < 100"
  shows "fields3 (bcd a) (bcd b) (bcd c) AND fields3 240 240 240 = fields3 (16 * (a div 10)) (16 * (b div 10)) (16 * (c div 10))"
    and "fields3 (bcd a) (bcd b) (bcd c) AND fields3 15 15 15 = fields3 (a mod 10) (b mod 10) (c mod 10)"
proof -
  have b: "x < 100 \<Longrightarrow> bcd x < 2 ^ 24" for x using bcd_tables(4) [of x] by simp
  show "fields3 (bcd a) (bcd b) (bcd c) AND fields3 240 240 240 = fields3 (16 * (a div 10)) (16 * (b div 10)) (16 * (c div 10))"
    by (subst fields3_and [OF b b]) (simp_all only: assms bcd_tables(2), simp_all)
  show "fields3 (bcd a) (bcd b) (bcd c) AND fields3 15 15 15 = fields3 (a mod 10) (b mod 10) (c mod 10)"
    by (subst fields3_and [OF b b]) (simp_all only: assms bcd_tables(3), simp_all)
qed

lemma digit2_nibbles:
  assumes "a < 100" and "b < 100" and "c < 100" and d1: "unat d1 = fields3 (bcd a) (bcd b) (bcd c)"
  shows "unat (drop_bit 4 (d1 AND 0x00f00000f00000f0) OR push_bit 8 (d1 AND 0x000f00000f00000f) :: u64)
    = fields3 (digit_bytes a) (digit_bytes b) (digit_bytes c)"
proof -
  have f: "a div 10 < 10" "b div 10 < 10" "c div 10 < 10" using assms by simp_all
  have "unat (d1 AND 0x00f00000f00000f0) = fields3 (bcd a) (bcd b) (bcd c) AND fields3 240 240 240"
    by (subst unsigned_and_eq) (simp only: d1 unat_numeral, simp)
  then have hi: "unat (drop_bit 4 (d1 AND 0x00f00000f00000f0)) = fields3 (a div 10) (b div 10) (c div 10)"
    unfolding unat_drop bcd_masked(1) [OF assms(1-3)] by simp
  have "unat (d1 AND 0x000f00000f00000f) = fields3 (bcd a) (bcd b) (bcd c) AND fields3 15 15 15"
    by (subst unsigned_and_eq) (simp only: d1 unat_numeral, simp)
  then have lo: "unat (d1 AND 0x000f00000f00000f) = fields3 (a mod 10) (b mod 10) (c mod 10)"
    unfolding bcd_masked(2) [OF assms(1-3)] .
  have "unat (push_bit 8 (d1 AND 0x000f00000f00000f)) = fields3 (256 * (a mod 10)) (256 * (b mod 10)) (256 * (c mod 10))"
  proof -
    have "a mod 10 < 10" "b mod 10 < 10" "c mod 10 < 10" by simp_all
    then have "unat (d1 AND 0x000f00000f00000f) * 2 ^ 8 < 2 ^ LENGTH(64)" unfolding lo by simp
    from unat_push_bit [OF this] show ?thesis unfolding lo by (simp add: add_mult_distrib)
  qed
  then have "unat (drop_bit 4 (d1 AND 0x00f00000f00000f0) OR push_bit 8 (d1 AND 0x000f00000f00000f))
      = fields3 (a div 10) (b div 10) (c div 10) OR fields3 (256 * (a mod 10)) (256 * (b mod 10)) (256 * (c mod 10))"
    by (subst unsigned_or_eq) (simp only: hi)
  also have "\<dots> = fields3 (a div 10 OR 256 * (a mod 10)) (b div 10 OR 256 * (b mod 10)) (c div 10 OR 256 * (c mod 10))"
    using f by (intro fields3_or) simp_all
  also have "\<dots> = fields3 (digit_bytes a) (digit_bytes b) (digit_bytes c)"
  proof -
    have "x OR 256 * y = x + 256 * y" if "x < 10" for x y :: nat
      using low_or [of x 8 y] that by (simp add: push_bit_eq_mult mult.commute)
    then show ?thesis using f by (simp add: digit_bytes_def)
  qed
  finally show ?thesis .
qed

lemma separators:
  assumes "s < 256" and "unat u = s"
  shows "unat (0x3030003030003030 OR push_bit 16 u OR push_bit 40 u :: u64) = fields3 (0x3030 OR push_bit 16 s) (0x3030 OR push_bit 16 s) 0x3030"
proof -
  have "unat (push_bit 16 u) = s * 2 ^ 16" "unat (push_bit 40 u) = s * 2 ^ 40"
    using assms by (subst unat_push_bit; simp)+
  then have "unat (0x3030003030003030 OR push_bit 16 u OR push_bit 40 u) =
      fields3 0x3030 0x3030 0x3030 OR fields3 (push_bit 16 s) 0 0 OR fields3 0 (push_bit 16 s) 0"
    by (simp add: unsigned_or_eq push_bit_eq_mult [of _ s] mult.commute)
  moreover have p: "push_bit 16 s < 2 ^ 24" using assms(1) by (simp add: push_bit_eq_mult)
  moreover have "fields3 (push_bit 16 s) 0 0 OR fields3 0 (push_bit 16 s) 0 = fields3 (push_bit 16 s) (push_bit 16 s) 0"
    using fields3_or [of "push_bit 16 s" 0 0 "push_bit 16 s" 0 0] p by simp
  ultimately show ?thesis
    using fields3_or [of "0x3030" "0x3030" "push_bit 16 s" "push_bit 16 s" "0x3030" 0] p by (simp only:) simp
qed

lemma digit2_ascii:
  assumes "a < 100" and "b < 100" and "c < 100" and "s < 256"
  shows "fields3 (digit_bytes a) (digit_bytes b) (digit_bytes c) OR fields3 (0x3030 OR push_bit 16 s) (0x3030 OR push_bit 16 s) 0x3030 =
    from_bytes [a div 10 + 48, a mod 10 + 48, s, b div 10 + 48, b mod 10 + 48, s, c div 10 + 48, c mod 10 + 48]"
proof -
  have f: "a div 10 < 10" "b div 10 < 10" "c div 10 < 10" "a mod 10 < 10" "b mod 10 < 10" "c mod 10 < 10" using assms by simp_all
  have x: "x + 256 * y < 2 ^ 24" if "x < 10" "y < 10" for x y :: nat using that by simp
  have "0x3030 OR push_bit 16 s = 0x3030 + 2 ^ 16 * s" by (rule low_or [symmetric]) simp
  then have k: "0x3030 OR push_bit 16 s < 2 ^ 24" using assms(4) by simp
  show ?thesis
    unfolding digit_bytes_def
    by (subst fields3_or [OF x [OF f(1) f(4)] x [OF f(2) f(5)] k k])
      (simp only: three_bytes [OF f(1) f(4) assms(4)] three_bytes [OF f(2) f(5) assms(4)] two_bytes [OF f(3) f(6)] from_bytes.simps, simp)
qed

theorem digit2_separated:
  assumes "a < 100" and "b < 100" and "c < 100" and "of_char sep < (128 :: nat)"
  shows "write_digit2_separated (of_nat a) (of_nat b) (of_nat c) sep = two_digits a @ [sep] @ two_digits b @ [sep] @ two_digits c"
proof -
  define d0 :: u64 where "d0 = (ucast ((of_nat a :: u32) OR push_bit 24 (of_nat b))) OR push_bit 48 (ucast (of_nat c :: u32))"
  define d1 where "d1 = d0 + (drop_bit 11 (d0 * 205) AND 0x000f00000f00000f) * 6"
  define d2 where "d2 = drop_bit 4 (d1 AND 0x00f00000f00000f0) OR push_bit 8 (d1 AND 0x000f00000f00000f)"
  define u :: u64 where "u = scast (of_char sep :: 8 word)"
  define d3 where "d3 = d2 OR (0x3030003030003030 OR push_bit 16 u OR push_bit 40 u)"
  define s where "s = (of_char sep :: nat)"
  define bs where "bs = [a div 10 + 48, a mod 10 + 48, s, b div 10 + 48, b mod 10 + 48, s, c div 10 + 48, c mod 10 + 48]"
  have s: "s < 256" "unat u = s"
  proof -
    show "s < 256" by (simp add: s_def)
    have w: "unat (of_char sep :: 8 word) = s"
      using assms(4) by (simp add: s_def unsigned_of_nat take_bit_nat_eq_self flip: of_nat_of_char [where 'a = "8 word"])
    then have "sint (of_char sep :: 8 word) = int s"
      unfolding sint_uint uint_nat w using assms(4) by (intro signed_take_bit_int_eq_self) (simp_all flip: s_def)
    then have "u = of_nat s" by (simp add: u_def scast_eq)
    then show "unat u = s" using assms(4) by (simp add: unsigned_of_nat take_bit_nat_eq_self flip: s_def)
  qed
  have "unat d0 = fields3 a b c" unfolding d0_def by (rule digit2_word [OF assms(1-3)])
  then have "unat d1 = fields3 (bcd a) (bcd b) (bcd c)" unfolding d1_def by (rule digit2_bcd [OF assms(1-3)])
  then have d2: "unat d2 = fields3 (digit_bytes a) (digit_bytes b) (digit_bytes c)" unfolding d2_def by (rule digit2_nibbles [OF assms(1-3)])
  have d3: "unat d3 = from_bytes bs"
    unfolding d3_def bs_def by (subst unsigned_or_eq) (simp only: d2 separators [OF s] digit2_ascii [OF assms(1-3) s(1)])
  have f: "a div 10 < 10" "b div 10 < 10" "c div 10 < 10" "a mod 10 < 10" "b mod 10 < 10" "c mod 10 < 10" using assms by simp_all
  have bytes: "list_all (\<lambda>b. b < 256) bs" "length bs = 8"
  proof -
    have "x mod 10 < 208" for x :: nat by (rule less_trans [of _ 10]) simp_all
    then show "list_all (\<lambda>b. b < 256) bs" "length bs = 8" using f s(1) by (simp_all add: bs_def)
  qed
  have byte: "char_of (unat (drop_bit (8 * i) d3)) = (char_of (bs ! i) :: char)" if "i < 8" for i
    using nth_byte [of bs i] bytes that unfolding unat_drop d3 by (metis char_of_mod_256)
  have "write_digit2_separated (of_nat a) (of_nat b) (of_nat c) sep = map (\<lambda>i. char_of (unat (drop_bit (8 * i) d3))) [0..<8]"
    by (simp only: write_digit2_separated_def Let_def d3_def d2_def d1_def d0_def u_def)
  also have "\<dots> = map (\<lambda>i. char_of (bs ! i)) [0..<8]" by (intro map_cong refl byte) simp
  also have "\<dots> = map char_of bs" by (simp add: upt_conv_Cons bs_def)
  also have "\<dots> = two_digits a @ [sep] @ two_digits b @ [sep] @ two_digits c"
    using f ascii_digit by (simp add: bs_def two_digits_def s_def)
  finally show ?thesis .
qed

end
