(* ===== verification/Log_Daily.thy ===== *)
theory Log_Daily
  imports Log_File Log_Fmt Log_Queue
begin

text \<open>
  The sinks that start a new file every day or every hour (\<^verbatim>\<open>sinks/daily_file_sink.h\<close>,
  \<^verbatim>\<open>sinks/hourly_file_sink.h\<close>) and delete the oldest of the files they know of. \<open>local\<close> and \<open>mktime\<close> are the
  calendar functions of the system, in seconds; times are nanoseconds, and every reading of the clock is an argument.
\<close>

section \<open>File names\<close>

text \<open>The format \<^verbatim>\<open>{:0wd}\<close>; a sign counts for the width.\<close>

definition zero_padded :: "nat \<Rightarrow> int \<Rightarrow> string" where
  "zero_padded w n = (if n < 0 then ''-'' @ zpad (w - 1) (nat (- n)) else zpad w (nat n))"

definition date_part :: "tm \<Rightarrow> string" where
  "date_part t = zero_padded 4 (tm_year t + 1900) @ ''-'' @ zero_padded 2 (tm_mon t + 1) @ ''-'' @ zero_padded 2 (tm_mday t)"

definition daily_filename :: "string \<Rightarrow> tm \<Rightarrow> string" where
  "daily_filename fname now_tm =
     (case split_by_extension fname of (basename, ext) \<Rightarrow> basename @ ''_'' @ date_part now_tm @ ext)"

definition hourly_filename :: "string \<Rightarrow> tm \<Rightarrow> string" where
  "hourly_filename fname now_tm =
     (case split_by_extension fname of (basename, ext) \<Rightarrow>
        basename @ ''_'' @ date_part now_tm @ ''_'' @ zero_padded 2 (tm_hour now_tm) @ ext)"

definition tm_of :: "(int \<Rightarrow> tm) \<Rightarrow> int \<Rightarrow> tm" where
  "tm_of local tp = local (duration_cast one_second tp)"

section \<open>The files that are known\<close>

text \<open>\<open>back\<close> is the time between two files; the newest file is found first.\<close>

fun known_files :: "nat \<Rightarrow> (int \<Rightarrow> string) \<Rightarrow> int \<Rightarrow> int \<Rightarrow> os \<Rightarrow> string list \<times> os" where
  "known_files 0 file_at back now s = ([], s)"
| "known_files (Suc n) file_at back now s =
     (case path_exists (file_at now) s of
        (False, s1) \<Rightarrow> ([], s1)
      | (True, s1) \<Rightarrow>
          (case known_files n file_at back (now - back) s1 of (fs, s2) \<Rightarrow> (file_at now # fs, s2)))"

definition init_filenames :: "u16 \<Rightarrow> (int \<Rightarrow> string) \<Rightarrow> int \<Rightarrow> int \<Rightarrow> os \<Rightarrow> string circular_q \<times> os" where
  "init_filenames max_files file_at back now s =
     (case known_files (unat max_files) file_at back now s of
        (filenames, s1) \<Rightarrow> (fold cq_push_back (rev filenames) (mk_circular_q [] (ucast max_files)), s1))"

definition delete_old :: "string \<Rightarrow> string circular_q \<Rightarrow> os \<Rightarrow> file_error option \<times> string circular_q \<times> os" where
  "delete_old current_file q s =
     (if cq_full q
      then let old_filename = cq_front q;
               q1 = cq_pop_front q
           in case remove_if_exists old_filename s of
                (r, s1) \<Rightarrow>
                  (if r = 0 then None else Some (RemoveFailed old_filename), cq_push_back current_file q1, s1)
      else (None, cq_push_back current_file q, s))"

section \<open>The daily sink\<close>

record 'f daily_sink =
  dl_formatter :: 'f
  dl_base :: string
  dl_rotation_h :: int
  dl_rotation_m :: int
  dl_rotation_tp :: int
  dl_helper :: file_helper
  dl_truncate :: bool
  dl_max_files :: u16
  dl_filenames :: "string circular_q"

definition one_hour :: int where
  "one_hour = 3600 * one_second"

definition daily_next_rotation :: "(int \<Rightarrow> tm) \<Rightarrow> (tm \<Rightarrow> int) \<Rightarrow> int \<Rightarrow> int \<Rightarrow> int \<Rightarrow> int" where
  "daily_next_rotation local mktime rotation_h rotation_m now =
     (let date = (tm_of local now)\<lparr>tm_hour := rotation_h, tm_min := rotation_m, tm_sec := 0\<rparr>;
          rotation_time = mktime date * one_second
      in if rotation_time > now then rotation_time else rotation_time + 24 * one_hour)"

definition daily_file_at :: "(int \<Rightarrow> tm) \<Rightarrow> string \<Rightarrow> int \<Rightarrow> string" where
  "daily_file_at local base tp = daily_filename base (tm_of local tp)"

text \<open>\<open>now\<close>, \<open>now2\<close> and \<open>now3\<close> are the readings of the clock by the constructor and what it calls.\<close>

definition mk_daily_sink ::
  "(int \<Rightarrow> tm) \<Rightarrow> (tm \<Rightarrow> int) \<Rightarrow> 'f \<Rightarrow> string \<Rightarrow> int \<Rightarrow> int \<Rightarrow> bool \<Rightarrow> u16 \<Rightarrow> callback list
     \<Rightarrow> int \<Rightarrow> int \<Rightarrow> int \<Rightarrow> os \<Rightarrow> (file_error + 'f daily_sink) \<times> os" where
  "mk_daily_sink local mktime formatter base_filename rotation_hour rotation_minute trunc max_files event_handlers
      now now2 now3 s =
     (if rotation_hour < 0 \<or> rotation_hour > 23 \<or> rotation_minute < 0 \<or> rotation_minute > 59
      then (Inl BadRotationTime, s)
      else
        case file_open (daily_file_at local base_filename now) trunc (mk_file_helper event_handlers) s of
          (Some e, h, s1) \<Rightarrow> (Inl e, snd (file_close h s1))
        | (None, h, s1) \<Rightarrow>
            (let k = \<lparr>dl_formatter = formatter, dl_base = base_filename, dl_rotation_h = rotation_hour,
                      dl_rotation_m = rotation_minute,
                      dl_rotation_tp = daily_next_rotation local mktime rotation_hour rotation_minute now2,
                      dl_helper = h, dl_truncate = trunc, dl_max_files = max_files, dl_filenames = cq_disabled\<rparr>
             in if max_files > 0
                then (case init_filenames max_files (daily_file_at local base_filename) (24 * one_hour) now3 s1 of
                        (q, s2) \<Rightarrow> (Inr (k\<lparr>dl_filenames := q\<rparr>), s2))
                else (Inr k, s1)))"

definition daily_write :: "bool \<Rightarrow> string \<Rightarrow> 'f daily_sink \<Rightarrow> os \<Rightarrow> file_error option \<times> 'f daily_sink \<times> os" where
  "daily_write should_rotate formatted k s =
     (case file_write formatted (dl_helper k) s of
        (Some e, s1) \<Rightarrow> (Some e, k, s1)
      | (None, s1) \<Rightarrow>
          if should_rotate \<and> dl_max_files k > 0
          then (case delete_old (fh_filename (dl_helper k)) (dl_filenames k) s1 of
                  (e, q, s2) \<Rightarrow> (e, k\<lparr>dl_filenames := q\<rparr>, s2))
          else (None, k, s1))"

definition daily_sink_it ::
  "(int \<Rightarrow> tm) \<Rightarrow> (tm \<Rightarrow> int) \<Rightarrow> ('m \<Rightarrow> 'f \<Rightarrow> string \<times> 'f) \<Rightarrow> ('m \<Rightarrow> int) \<Rightarrow> int \<Rightarrow> 'm
     \<Rightarrow> 'f daily_sink \<Rightarrow> os \<Rightarrow> file_error option \<times> 'f daily_sink \<times> os" where
  "daily_sink_it local mktime format_msg msg_time now m k s =
     (let time = msg_time m;
          should_rotate = time \<ge> dl_rotation_tp k;
          rotated =
            (if should_rotate
             then case file_open (daily_file_at local (dl_base k) time) (dl_truncate k) (dl_helper k) s of
                    (Some e, h, s1) \<Rightarrow> (Some e, k\<lparr>dl_helper := h\<rparr>, s1)
                  | (None, h, s1) \<Rightarrow>
                      (None, k\<lparr>dl_helper := h,
                               dl_rotation_tp := daily_next_rotation local mktime (dl_rotation_h k) (dl_rotation_m k) now\<rparr>, s1)
             else (None, k, s))
      in case rotated of
           (Some e, k1, s1) \<Rightarrow> (Some e, k1, s1)
         | (None, k1, s1) \<Rightarrow>
             (case format_msg m (dl_formatter k1) of
                (formatted, f) \<Rightarrow> daily_write should_rotate formatted (k1\<lparr>dl_formatter := f\<rparr>) s1))"

section \<open>The hourly sink\<close>

record 'f hourly_sink =
  hl_formatter :: 'f
  hl_base :: string
  hl_rotation_tp :: int
  hl_helper :: file_helper
  hl_truncate :: bool
  hl_max_files :: u16
  hl_filenames :: "string circular_q"
  hl_remove_init_file :: bool

definition hourly_next_rotation :: "(int \<Rightarrow> tm) \<Rightarrow> (tm \<Rightarrow> int) \<Rightarrow> int \<Rightarrow> int" where
  "hourly_next_rotation local mktime now =
     (let date = (tm_of local now)\<lparr>tm_min := 0, tm_sec := 0\<rparr>;
          rotation_time = mktime date * one_second
      in if rotation_time > now then rotation_time else rotation_time + one_hour)"

definition hourly_file_at :: "(int \<Rightarrow> tm) \<Rightarrow> string \<Rightarrow> int \<Rightarrow> string" where
  "hourly_file_at local base tp = hourly_filename base (tm_of local tp)"

definition mk_hourly_sink ::
  "(int \<Rightarrow> tm) \<Rightarrow> (tm \<Rightarrow> int) \<Rightarrow> 'f \<Rightarrow> string \<Rightarrow> bool \<Rightarrow> u16 \<Rightarrow> callback list
     \<Rightarrow> int \<Rightarrow> int \<Rightarrow> int \<Rightarrow> os \<Rightarrow> (file_error + 'f hourly_sink) \<times> os" where
  "mk_hourly_sink local mktime formatter base_filename trunc max_files event_handlers now now2 now3 s =
     (case file_open (hourly_file_at local base_filename now) trunc (mk_file_helper event_handlers) s of
        (Some e, h, s1) \<Rightarrow> (Inl e, snd (file_close h s1))
      | (None, h, s1) \<Rightarrow>
          (case helper_size h s1 of
             (Inl e, s2) \<Rightarrow> (Inl e, snd (file_close h s2))
           | (Inr sz, s2) \<Rightarrow>
               (let k = \<lparr>hl_formatter = formatter, hl_base = base_filename,
                         hl_rotation_tp = hourly_next_rotation local mktime now2, hl_helper = h, hl_truncate = trunc,
                         hl_max_files = max_files, hl_filenames = cq_disabled, hl_remove_init_file = (sz = 0)\<rparr>
                in if max_files > 0
                   then (case init_filenames max_files (hourly_file_at local base_filename) one_hour now3 s2 of
                           (q, s3) \<Rightarrow> (Inr (k\<lparr>hl_filenames := q\<rparr>), s3))
                   else (Inr k, s2))))"

definition drop_init_file :: "'f hourly_sink \<Rightarrow> os \<Rightarrow> 'f hourly_sink \<times> os" where
  "drop_init_file k s =
     (if hl_remove_init_file k
      then case file_close (hl_helper k) s of
             (h, s1) \<Rightarrow> (k\<lparr>hl_helper := h\<rparr>, snd (os_remove (fh_filename h) s1))
      else (k, s))"

definition hourly_write :: "bool \<Rightarrow> string \<Rightarrow> 'f hourly_sink \<Rightarrow> os \<Rightarrow> file_error option \<times> 'f hourly_sink \<times> os" where
  "hourly_write should_rotate formatted k s =
     (case file_write formatted (hl_helper k) s of
        (Some e, s1) \<Rightarrow> (Some e, k, s1)
      | (None, s1) \<Rightarrow>
          if should_rotate \<and> hl_max_files k > 0
          then (case delete_old (fh_filename (hl_helper k)) (hl_filenames k) s1 of
                  (e, q, s2) \<Rightarrow> (e, k\<lparr>hl_filenames := q\<rparr>, s2))
          else (None, k, s1))"

definition hourly_sink_it ::
  "(int \<Rightarrow> tm) \<Rightarrow> (tm \<Rightarrow> int) \<Rightarrow> ('m \<Rightarrow> 'f \<Rightarrow> string \<times> 'f) \<Rightarrow> ('m \<Rightarrow> int) \<Rightarrow> int \<Rightarrow> 'm
     \<Rightarrow> 'f hourly_sink \<Rightarrow> os \<Rightarrow> file_error option \<times> 'f hourly_sink \<times> os" where
  "hourly_sink_it local mktime format_msg msg_time now m k s =
     (let time = msg_time m;
          should_rotate = time \<ge> hl_rotation_tp k;
          rotated =
            (if should_rotate
             then case drop_init_file k s of
                    (k0, s0) \<Rightarrow>
                      (case file_open (hourly_file_at local (hl_base k0) time) (hl_truncate k0) (hl_helper k0) s0 of
                         (Some e, h, s1) \<Rightarrow> (Some e, k0\<lparr>hl_helper := h\<rparr>, s1)
                       | (None, h, s1) \<Rightarrow>
                           (None, k0\<lparr>hl_helper := h, hl_rotation_tp := hourly_next_rotation local mktime now\<rparr>, s1))
             else (None, k, s))
      in case rotated of
           (Some e, k1, s1) \<Rightarrow> (Some e, k1, s1)
         | (None, k1, s1) \<Rightarrow>
             (let k2 = k1\<lparr>hl_remove_init_file := False\<rparr> in
              case format_msg m (hl_formatter k2) of
                (formatted, f) \<Rightarrow> hourly_write should_rotate formatted (k2\<lparr>hl_formatter := f\<rparr>) s1))"

end
