(* ===== verification/Log_Daily_Spec.thy ===== *)
theory Log_Daily_Spec
  imports Log_Daily Log_Pattern_Spec
begin

text \<open>
  What the daily sink keeps on the disk: with a new name at every rotation exactly the last files it
  opened; but a start before the time of rotation makes it open its file twice, and delete it.
\<close>

section \<open>Names of days\<close>

lemma zpad_inject: "zpad w m = zpad w n \<longleftrightarrow> m = n"
proof -
  have "dec_value (zpad w n) = n" for n
  proof -
    have "dec_value (CHR ''0'' # ds) = dec_value ds" for ds
      by (simp add: dec_value_def digit_value_def)
    then have "dec_value (replicate k (CHR ''0'') @ dec n) = n" for k
      by (induction k) simp_all
    then show ?thesis by (simp add: zpad_def)
  qed
  then show ?thesis by metis
qed

lemma zero_padded_nat: "0 \<le> n \<Longrightarrow> zero_padded w n = zpadi w n"
  by (simp add: zero_padded_def zpadi_def)

lemma zpadi_inject: "0 \<le> m \<Longrightarrow> 0 \<le> n \<Longrightarrow> zpadi w m = zpadi w n \<longleftrightarrow> m = n"
  by (auto simp: zpadi_def zpad_inject)

lemma date_part_ok:
  assumes "tm_ok t"
  shows "date_part t = zpadi 4 (tm_year t + 1900) @ ''-'' @ zpadi 2 (tm_mon t + 1) @ ''-'' @ zpadi 2 (tm_mday t)"
    and "0 \<le> tm_year t + 1900" "0 \<le> tm_mon t + 1" "0 \<le> tm_mday t"
  using assms by (simp_all add: date_part_def zero_padded_nat tm_ok_def)

text \<open>One file for each day: two times have the same file exactly on the same date.\<close>

theorem daily_filename_inject:
  assumes "tm_ok t" and "tm_ok u"
  shows "daily_filename fname t = daily_filename fname u \<longleftrightarrow>
    tm_year t = tm_year u \<and> tm_mon t = tm_mon u \<and> tm_mday t = tm_mday u"
proof -
  have two: "length (zpadi 2 (tm_mon x + 1)) = 2" "length (zpadi 2 (tm_mday x)) = 2" if "tm_ok x" for x
    using that by (auto simp: tm_ok_def zpadi_def length_zpad)
  have "daily_filename fname t = daily_filename fname u \<longleftrightarrow> date_part t = date_part u"
    by (simp add: daily_filename_def split: prod.split)
  also have "\<dots> \<longleftrightarrow> tm_year t = tm_year u \<and> tm_mon t = tm_mon u \<and> tm_mday t = tm_mday u"
    using date_part_ok [OF assms(1)] date_part_ok [OF assms(2)] two [OF assms(1)] two [OF assms(2)]
    by (auto simp: append_eq_append_conv zpadi_inject)
  finally show ?thesis .
qed


text \<open>The names are in the directory of the base name.\<close>

lemma zpad_no_separator: "CHR ''/'' \<notin> set (zpad w n)"
  using dec_no_separator [of n] by (simp add: zpad_def)

lemma zero_padded_no_separator: "CHR ''/'' \<notin> set (zero_padded w n)"
  using zpad_no_separator by (simp add: zero_padded_def)

lemma date_no_separator: "CHR ''/'' \<notin> set (date_part t)"
  using zero_padded_no_separator by (simp add: date_part_def)

lemma dir_name_daily: "dir_name (daily_filename fname t) = dir_name fname"
  using dir_name_between [of "''_'' @ date_part t" fname] date_no_separator [of t]
  by (auto simp: daily_filename_def case_prod_beta)

lemma dir_name_hourly: "dir_name (hourly_filename fname t) = dir_name fname"
  using dir_name_between [of "''_'' @ date_part t @ ''_'' @ zero_padded 2 (tm_hour t)" fname] date_no_separator [of t]
    zero_padded_no_separator [of 2 "tm_hour t"]
  by (auto simp: hourly_filename_def case_prod_beta)

definition daily_name :: "(int \<Rightarrow> tm) \<Rightarrow> string \<Rightarrow> string \<Rightarrow> bool" where
  "daily_name local base f \<longleftrightarrow> (\<exists>t. f = daily_file_at local base t)"

definition hourly_name :: "(int \<Rightarrow> tm) \<Rightarrow> string \<Rightarrow> string \<Rightarrow> bool" where
  "hourly_name local base f \<longleftrightarrow> (\<exists>t. f = hourly_file_at local base t)"

interpretation daily_dir: log_dir "dir_name base" "daily_name local base" for local base
  by unfold_locales (auto simp: daily_name_def daily_file_at_def dir_name_daily, simp add: daily_filename_def split: prod.splits)

interpretation hourly_dir: log_dir "dir_name base" "hourly_name local base" for local base
  by unfold_locales (auto simp: hourly_name_def hourly_file_at_def dir_name_hourly, simp add: hourly_filename_def split: prod.splits)

abbreviation daily_ready :: "(int \<Rightarrow> tm) \<Rightarrow> string \<Rightarrow> os \<Rightarrow> bool" where
  "daily_ready local base s \<equiv> ready (dir_name base) (daily_name local base) s"

abbreviation hourly_ready :: "(int \<Rightarrow> tm) \<Rightarrow> string \<Rightarrow> os \<Rightarrow> bool" where
  "hourly_ready local base s \<equiv> ready (dir_name base) (hourly_name local base) s"

lemma daily_names [simp]: "daily_name local base (daily_file_at local base t)"
  "hourly_name local base (hourly_file_at local base t)"
  by (auto simp: daily_name_def hourly_name_def)


section \<open>One message\<close>

text \<open>The sink writes to the last of the files it knows.\<close>

definition knows :: "(int \<Rightarrow> tm) \<Rightarrow> 'f daily_sink \<Rightarrow> os \<Rightarrow> string list \<Rightarrow> bool" where
  "knows local k s names \<longleftrightarrow>
     daily_ready local (dl_base k) s \<and> (\<forall>f \<in> set names. daily_name local (dl_base k) f) \<and> fh_open (dl_helper k) \<and> dl_max_files k > 0 \<and> cq_inv (dl_filenames k)
     \<and> cq_cap (dl_filenames k) = unat (dl_max_files k) \<and> cq_list (dl_filenames k) = names
     \<and> names \<noteq> [] \<and> fh_filename (dl_helper k) = last names"

definition same_setting :: "'f daily_sink \<Rightarrow> 'f daily_sink \<Rightarrow> bool" where
  "same_setting k k' \<longleftrightarrow> dl_base k' = dl_base k \<and> dl_rotation_h k' = dl_rotation_h k \<and> dl_rotation_m k' = dl_rotation_m k
     \<and> dl_max_files k' = dl_max_files k"

lemma ready_delete_old:
  assumes "daily_ready local base s" and "\<forall>f \<in> set (cq_list q). daily_name local base f" and "cq_inv q" and "cq_cap q > 0"
  shows "\<exists>q' s'. delete_old cur q s = (None, q', s') \<and> daily_ready local base s' \<and> cq_inv q' \<and> cq_cap q' = cq_cap q
    \<and> cq_list q' = last_n (cq_cap q) (cq_list q @ [cur])
    \<and> os_files s' = (if cq_size q = cq_cap q then (os_files s)(hd (cq_list q) := None) else os_files s)"
proof -
  have pos: "cq_max q > 0" using assms(4) by (simp add: cq_cap_def)
  show ?thesis
  proof (cases "cq_full q")
    case False
    then show ?thesis
      using assms ring.push_ok [OF assms(3), of cur] ring.push_elems [OF assms(3), of cur] cq_full_iff [OF assms(3) pos] by (simp add: delete_old_def)
  next
    case True
    then have size: "cq_size q = cq_cap q" using cq_full_iff [OF assms(3) pos] by simp
    then have ne: "cq_list q \<noteq> []" using assms(4) by (metis cq_list_length length_greater_0_conv)
    note pop = ring.pop_ok [OF assms(3) ne] ring.pop_elems [OF assms(3) ne]
    have len: "length (tl (cq_list q)) < cq_cap q" using size assms(4) by simp
    obtain x xs where q: "cq_list q = x # xs" using ne by (cases "cq_list q") auto
    have front: "cq_front q = x" using ring.front_elem [OF assms(3) ne] q by simp
    have "length xs < cq_cap q" using len q by simp
    then have list: "cq_list (cq_push_back cur (cq_pop_front q)) = xs @ [cur]"
      using pop ring.push_elems [of "cq_pop_front q" cur] q by simp
    have "Suc (length xs) = cq_cap q" using size q by (metis cq_list_length length_Cons)
    then have "last_n (cq_cap q) (cq_list q @ [cur]) = xs @ [cur]" using q by (simp add: last_n_def)
    moreover have name: "daily_name local base x" using assms(2) q by simp
    obtain s1 where e: "path_exists x s = (os_files s x \<noteq> None, s1)" "daily_ready local base s1" "os_files s1 = os_files s"
      using daily_dir.ready_exists [OF assms(1) name] by blast
    obtain s2 where "remove_if_exists x s = (0, s2)" "daily_ready local base s2" "os_files s2 = (os_files s)(x := None)"
    proof (cases "os_files s x")
      case None
      then show ?thesis using that [of s1] e by (simp add: remove_if_exists_def fun_upd_idem)
    next
      case (Some c)
      then have "fst (os_remove x s1) = 0" using e(3) ready_calm [OF e(2)] by (simp add: os_remove_def calm_tick)
      then show ?thesis using that [of "snd (os_remove x s1)"] Some e daily_dir.ready_remove [OF e(2), of x]
        by (simp add: remove_if_exists_def prod_eq_iff)
    qed
    ultimately show ?thesis
      using True size front list pop ring.push_ok [of "cq_pop_front q" cur] q by (simp add: delete_old_def)
  qed
qed

lemma last_last_n: "0 < n \<Longrightarrow> last (last_n n (xs @ [x])) = x"
  by (simp add: last_n_def)

lemma last_n_ne: "0 < n \<Longrightarrow> xs \<noteq> [] \<Longrightarrow> last_n n xs \<noteq> []"
  by (cases xs) (auto simp: last_n_def)

lemma quiet_step:
  assumes "knows local k s names" and "msg_time m < dl_rotation_tp k"
  shows "\<exists>k' s' t. daily_sink_it local mktime format_msg msg_time now m k s = (None, k', s') \<and> knows local k' s' names
    \<and> same_setting k k' \<and> dl_rotation_tp k' = dl_rotation_tp k
    \<and> os_files s' = (os_files s)(last names := map_option (\<lambda>c. c @ t) (os_files s (last names)))"
proof -
  have k: "daily_ready local (dl_base k) s" "daily_name local (dl_base k) (fh_filename (dl_helper k))" "fh_open (dl_helper k)"
    "fh_filename (dl_helper k) = last names"
    using assms(1) by (auto simp: knows_def)
  then have "daily_ready local (dl_base k) (append_to (last names) t (s\<lparr>os_calls := Suc (os_calls s)\<rparr>))" for t
    using daily_dir.ready_file [of "dl_base k" local "s\<lparr>os_calls := Suc (os_calls s)\<rparr>" "last names"] by (simp add: append_to_def)
  moreover obtain t f where "format_msg m (dl_formatter k) = (t, f)" by fastforce
  ultimately show ?thesis
    using assms k ready_calm [OF k(1)]
    by (auto simp: daily_sink_it_def daily_write_def knows_def same_setting_def file_write_def fwrite_bytes_def calm_tick)
      (auto simp: append_to_def)
qed

lemma rotating_step:
  fixes k :: "'f daily_sink"
  defines "n \<equiv> unat (dl_max_files k)"
  assumes "knows local k s names" and "msg_time m \<ge> dl_rotation_tp k"
    and "f = daily_file_at local (dl_base k) (msg_time m)"
  shows "\<exists>k' s' c. daily_sink_it local mktime format_msg msg_time now m k s = (None, k', s')
    \<and> knows local k' s' (last_n n (names @ [f])) \<and> same_setting k k'
    \<and> dl_rotation_tp k' = daily_next_rotation local mktime (dl_rotation_h k) (dl_rotation_m k) now
    \<and> os_files s' = (if length names = n then ((os_files s)(f \<mapsto> c))(hd names := None) else (os_files s)(f \<mapsto> c))"
proof -
  let ?q = "dl_filenames k"
  let ?ready = "daily_ready local (dl_base k)" and ?name = "daily_name local (dl_base k)"
  have k: "?ready s" "cq_inv ?q" "cq_cap ?q = n" "n > 0" "cq_list ?q = names" "\<forall>f \<in> set (cq_list ?q). ?name f" "?name f"
    using assms by (simp_all add: knows_def word_less_nat_alt)
  have size: "cq_size ?q = length names" using k(5) by auto
  obtain h s1 c where o: "file_open f (dl_truncate k) (dl_helper k) s = (None, h, s1)" "?ready s1" "fh_open h"
      "fh_filename h = f" "os_files s1 = (os_files s)(f \<mapsto> c)"
    using daily_dir.ready_open [OF k(1,7)] by blast
  obtain t g where t: "format_msg m (dl_formatter k) = (t, g)" by fastforce
  let ?s2 = "append_to f t (s1\<lparr>os_calls := Suc (os_calls s1)\<rparr>)"
  have s2: "file_write t h s1 = (None, ?s2)" "?ready ?s2" "os_files ?s2 = (os_files s)(f \<mapsto> c @ t)"
    using o ready_calm [OF o(2)] daily_dir.ready_file [of "dl_base k" local "s1\<lparr>os_calls := Suc (os_calls s1)\<rparr>" f] k(7)
    by (simp_all add: file_write_def fwrite_bytes_def calm_tick append_to_def)
  obtain q s3 where d: "delete_old f ?q ?s2 = (None, q, s3)" "?ready s3" "cq_inv q" "cq_cap q = n"
      "cq_list q = last_n n (names @ [f])"
      "os_files s3 = (if length names = n then (os_files ?s2)(hd names := None) else os_files ?s2)"
    using ready_delete_old [OF s2(2) k(6,2), of f] k size by auto
  have last_names: "\<forall>x \<in> set (last_n n (names @ [f])). ?name x"
    using k(5-7) by (auto simp: last_n_def dest: in_set_dropD)
  show ?thesis
    using assms(2,3) o t s2 d k(4) last_names last_last_n [OF k(4), of names f] last_n_ne [OF k(4), of "names @ [f]"]
    by (intro exI [of _ "k\<lparr>dl_helper := h,
          dl_rotation_tp := daily_next_rotation local mktime (dl_rotation_h k) (dl_rotation_m k) now,
          dl_formatter := g, dl_filenames := q\<rparr>"] exI [of _ s3] exI [of _ "c @ t"])
      (simp add: daily_sink_it_def assms(4) [symmetric] daily_write_def knows_def same_setting_def n_def word_less_nat_alt)
qed

section \<open>A sequence of messages\<close>

fun daily_all ::
  "(int \<Rightarrow> tm) \<Rightarrow> (tm \<Rightarrow> int) \<Rightarrow> ('m \<Rightarrow> 'f \<Rightarrow> string \<times> 'f) \<Rightarrow> ('m \<Rightarrow> int) \<Rightarrow> (int \<times> 'm) list
     \<Rightarrow> 'f daily_sink \<Rightarrow> os \<Rightarrow> file_error list \<times> 'f daily_sink \<times> os" where
  "daily_all local mktime format_msg msg_time [] k s = ([], k, s)"
| "daily_all local mktime format_msg msg_time ((now, m) # ms) k s =
     (case daily_sink_it local mktime format_msg msg_time now m k s of
        (e, k1, s1) \<Rightarrow>
          (case daily_all local mktime format_msg msg_time ms k1 s1 of
             (es, k2, s2) \<Rightarrow> ((case e of None \<Rightarrow> es | Some x \<Rightarrow> x # es), k2, s2)))"

text \<open>The files the rotations open; \<open>tp\<close> is the time of the next one.\<close>

fun opened :: "(int \<Rightarrow> tm) \<Rightarrow> (tm \<Rightarrow> int) \<Rightarrow> ('m \<Rightarrow> int) \<Rightarrow> string \<Rightarrow> int \<Rightarrow> int \<Rightarrow> int \<Rightarrow> (int \<times> 'm) list \<Rightarrow> string list" where
  "opened local mktime msg_time base h mi tp [] = []"
| "opened local mktime msg_time base h mi tp ((now, m) # ms) =
     (if msg_time m \<ge> tp
      then daily_file_at local base (msg_time m)
             # opened local mktime msg_time base h mi (daily_next_rotation local mktime h mi now) ms
      else opened local mktime msg_time base h mi tp ms)"

abbreviation opened_by :: "(int \<Rightarrow> tm) \<Rightarrow> (tm \<Rightarrow> int) \<Rightarrow> ('m \<Rightarrow> int) \<Rightarrow> 'f daily_sink \<Rightarrow> (int \<times> 'm) list \<Rightarrow> string list" where
  "opened_by local mktime msg_time k ms \<equiv>
     opened local mktime msg_time (dl_base k) (dl_rotation_h k) (dl_rotation_m k) (dl_rotation_tp k) ms"

text \<open>Of the files \<open>all\<close> exactly the last \<open>n\<close> are there.\<close>

definition last_there :: "nat \<Rightarrow> string list \<Rightarrow> (string \<rightharpoonup> string) \<Rightarrow> bool" where
  "last_there n all fs \<longleftrightarrow> (\<forall>f \<in> set all. fs f \<noteq> None \<longleftrightarrow> f \<in> set (last_n n all))"

lemma last_there_new:
  assumes "last_there n all fs" and "distinct (all @ [f])" and "0 < n" and "all \<noteq> []"
  shows "last_there n (all @ [f])
    (if length (last_n n all) = n then (fs(f \<mapsto> c))(hd (last_n n all) := None) else fs(f \<mapsto> c))"
proof (cases "n \<le> length all")
  case True
  let ?d = "length all - n"
  have "last_n n all = all ! ?d # drop (Suc ?d) all"
    using True assms(3) by (simp add: last_n_def Cons_nth_drop_Suc)
  moreover have "last_n n (all @ [f]) = drop (Suc ?d) all @ [f]"
    using True assms(3) by (simp add: last_n_def Suc_diff_le)
  moreover have at: "?d < length all" using True assms(3,4) by simp
  moreover have "all ! ?d \<notin> set (drop (Suc ?d) all)"
    using assms(2) at by (auto simp: in_set_conv_nth nth_eq_iff_index_eq)
  moreover have "all ! ?d \<in> set all" "all ! ?d \<noteq> f" using assms(2) nth_mem [OF at] by auto
  moreover have "f \<notin> set (drop (Suc ?d) all)" using assms(2) by (auto dest: in_set_dropD)
  ultimately show ?thesis
    using assms(1,2) True by (auto simp: last_there_def)
next
  case False
  then show ?thesis using assms(1,2) by (auto simp: last_there_def)
qed

lemma daily_run:
  "knows local k s (last_n (unat (dl_max_files k)) all) \<Longrightarrow> last_there (unat (dl_max_files k)) all (os_files s) \<Longrightarrow> all \<noteq> [] \<Longrightarrow>
    distinct (all @ opened_by local mktime msg_time k ms) \<Longrightarrow>
    \<exists>k' s'. daily_all local mktime format_msg msg_time ms k s = ([], k', s') \<and> same_setting k k'
      \<and> knows local k' s' (last_n (unat (dl_max_files k)) (all @ opened_by local mktime msg_time k ms))
      \<and> last_there (unat (dl_max_files k)) (all @ opened_by local mktime msg_time k ms) (os_files s')"
proof (induction ms arbitrary: k s all)
  case Nil
  then show ?case by (simp add: same_setting_def)
next
  case (Cons x ms)
  obtain now m where x: "x = (now, m)" by (cases x)
  let ?n = "unat (dl_max_files k)"
  have n: "0 < ?n" using Cons.prems(1) by (simp add: knows_def word_less_nat_alt)
  show ?case
  proof (cases "msg_time m \<ge> dl_rotation_tp k")
    case False
    then have quiet: "msg_time m < dl_rotation_tp k" by simp
    obtain k1 s1 t where 1: "daily_sink_it local mktime format_msg msg_time now m k s = (None, k1, s1)"
        "knows local k1 s1 (last_n ?n all)" "same_setting k k1" "dl_rotation_tp k1 = dl_rotation_tp k"
        "os_files s1 = (os_files s)(last (last_n ?n all) := map_option (\<lambda>c. c @ t) (os_files s (last (last_n ?n all))))"
      using quiet_step [where msg_time = msg_time and m = m, OF Cons.prems(1) quiet, of mktime format_msg now] by (elim exE conjE)
    have same: "dl_max_files k1 = dl_max_files k" "opened_by local mktime msg_time k1 ms = opened_by local mktime msg_time k (x # ms)"
      using 1(3,4) False by (simp_all add: same_setting_def x)
    have "last_there ?n all (os_files s1)" using Cons.prems(2) 1(5) by (simp add: last_there_def)
    then obtain k2 s2 where "daily_all local mktime format_msg msg_time ms k1 s1 = ([], k2, s2)" "same_setting k1 k2"
        "knows local k2 s2 (last_n ?n (all @ opened_by local mktime msg_time k (x # ms)))"
        "last_there ?n (all @ opened_by local mktime msg_time k (x # ms)) (os_files s2)"
      using Cons.IH [of k1 s1 all] 1(2) Cons.prems(3,4) unfolding same by auto
    then show ?thesis using 1(1,3) by (auto simp: x same_setting_def)
  next
    case True
    let ?f = "daily_file_at local (dl_base k) (msg_time m)"
    obtain k1 s1 c where 1: "daily_sink_it local mktime format_msg msg_time now m k s = (None, k1, s1)"
        "knows local k1 s1 (last_n ?n (last_n ?n all @ [?f]))" "same_setting k k1"
        "dl_rotation_tp k1 = daily_next_rotation local mktime (dl_rotation_h k) (dl_rotation_m k) now"
        "os_files s1 = (if length (last_n ?n all) = ?n then ((os_files s)(?f \<mapsto> c))(hd (last_n ?n all) := None)
           else (os_files s)(?f \<mapsto> c))"
      using rotating_step [where msg_time = msg_time and m = m, OF Cons.prems(1) True refl, of mktime format_msg now] by (elim exE conjE)
    have same: "dl_max_files k1 = dl_max_files k"
      "all @ opened_by local mktime msg_time k (x # ms) = (all @ [?f]) @ opened_by local mktime msg_time k1 ms"
      using 1(3,4) True by (simp_all add: same_setting_def x)
    have "distinct (all @ [?f])" using Cons.prems(4) unfolding same by simp
    then have "last_there ?n (all @ [?f]) (os_files s1)"
      unfolding 1(5) by (rule last_there_new [OF Cons.prems(2) _ n Cons.prems(3)])
    moreover have "knows local k1 s1 (last_n ?n (all @ [?f]))" using 1(2) by (simp add: last_n_append)
    ultimately obtain k2 s2 where "daily_all local mktime format_msg msg_time ms k1 s1 = ([], k2, s2)" "same_setting k1 k2"
        "knows local k2 s2 (last_n ?n (all @ opened_by local mktime msg_time k (x # ms)))"
        "last_there ?n (all @ opened_by local mktime msg_time k (x # ms)) (os_files s2)"
      using Cons.IH [of k1 s1 "all @ [?f]"] Cons.prems(4) same by auto
    then show ?thesis using 1(1,3) by (auto simp: x same_setting_def)
  qed
qed

section \<open>From the start\<close>

lemma daily_made:
  assumes "daily_ready local base s" and "0 \<le> h" "h \<le> 23" "0 \<le> mi" "mi \<le> 59" and "max_files > 0"
    and same: "daily_file_at local base now3 = daily_file_at local base now"
    and only: "max_files = 1 \<or> daily_file_at local base (now3 - 24 * one_hour) \<noteq> daily_file_at local base now
        \<and> os_files s (daily_file_at local base (now3 - 24 * one_hour)) = None"
  shows "\<exists>k s0 c. mk_daily_sink local mktime formatter base h mi trunc max_files handlers now now2 now3 s = (Inr k, s0)
    \<and> knows local k s0 [daily_file_at local base now] \<and> dl_base k = base \<and> dl_rotation_h k = h \<and> dl_rotation_m k = mi
    \<and> dl_max_files k = max_files \<and> dl_rotation_tp k = daily_next_rotation local mktime h mi now2
    \<and> os_files s0 = (os_files s)(daily_file_at local base now \<mapsto> c)"
proof -
  let ?f = "daily_file_at local base now" and ?before = "daily_file_at local base (now3 - 24 * one_hour)"
  obtain fh s1 c where o: "file_open ?f trunc (mk_file_helper handlers) s = (None, fh, s1)" "daily_ready local base s1" "fh_open fh"
      "fh_filename fh = ?f" "os_files s1 = (os_files s)(?f \<mapsto> c)"
    using daily_dir.ready_open [OF assms(1) daily_names(1)] by blast
  obtain n where n: "unat max_files = Suc n" using assms(6) by (cases "unat max_files") (simp_all add: word_less_nat_alt)
  have "n = 0 \<or> os_files s1 ?before = None"
    using only n o(5) by auto
  then obtain s2 where known: "known_files (unat max_files) (daily_file_at local base) (24 * one_hour) now3 s1 = ([?f], s2)"
      "daily_ready local base s2" "os_files s2 = os_files s1"
  proof -
    obtain s2 where e: "path_exists (daily_file_at local base now3) s1 = (True, s2)" "daily_ready local base s2" "os_files s2 = os_files s1"
      using daily_dir.ready_exists [OF o(2), of ?f] o(5) same by auto
    obtain s3 where "path_exists ?before s2 = (os_files s2 ?before \<noteq> None, s3)" "daily_ready local base s3" "os_files s3 = os_files s2"
      using daily_dir.ready_exists [OF e(2) daily_names(1)] by blast
    then show ?thesis using that e same \<open>n = 0 \<or> os_files s1 ?before = None\<close> by (cases n) (auto simp: n)
  qed
  let ?q = "cq_push_back ?f (mk_circular_q [] (ucast max_files))"
  have "unat max_files < 2 ^ LENGTH(16)" by (rule unsigned_less)
  then have small: "unat max_files < 2 ^ 16" by simp
  then have wide: "unat (ucast max_files :: size_t) = unat max_files"
    by (subst ucast_of_nat_unat) (rule unat_of_nat_size, simp)
  have "ucast max_files \<noteq> (- 1 :: size_t)"
  proof
    assume "ucast max_files = (- 1 :: size_t)"
    moreover have "(- 1 :: size_t) = 18446744073709551615" by simp
    ultimately have "unat max_files = unat (18446744073709551615 :: size_t)" using wide by metis
    then show False using small by simp
  qed
  then have cap: "cq_cap (mk_circular_q [] (ucast max_files)) = unat max_files"
    using wide by (simp add: mk_circular_q_ok)
  note inv = mk_circular_q_ok(1) [of "[]" "ucast max_files"]
  have q: "cq_inv ?q" "cq_cap ?q = unat max_files" "cq_list ?q = [?f]"
    using ring.push_ok [OF inv, of ?f] ring.push_elems [OF inv, of ?f] cap n by (simp_all add: mk_circular_q_ok)
  show ?thesis
    using o known q assms(2-6)
    by (simp add: mk_daily_sink_def init_filenames_def Let_def knows_def) blast
qed

text \<open>
  What the daily sink keeps. Started on a disk without the file of the day before, and with a new name at
  every rotation, it raises no error, and of the files it ever opened exactly the last \<open>max_files\<close> are
  on the disk.
\<close>

theorem daily_keeps_last:
  fixes local mktime msg_time base h mi now now2 ms
  defines "files \<equiv> daily_file_at local base now
     # opened local mktime msg_time base h mi (daily_next_rotation local mktime h mi now2) ms"
  assumes "daily_ready local base s" and "0 \<le> h" "h \<le> 23" "0 \<le> mi" "mi \<le> 59" and "max_files > 0"
    and "daily_file_at local base now3 = daily_file_at local base now"
    and "daily_file_at local base (now3 - 24 * one_hour) \<noteq> daily_file_at local base now"
    and "os_files s (daily_file_at local base (now3 - 24 * one_hour)) = None"
    and "distinct files"
  shows "\<exists>k s0 k' s'. mk_daily_sink local mktime formatter base h mi trunc max_files handlers now now2 now3 s = (Inr k, s0)
    \<and> daily_all local mktime format_msg msg_time ms k s0 = ([], k', s')
    \<and> last_there (unat max_files) files (os_files s')"
proof -
  let ?f = "daily_file_at local base now"
  obtain k s0 c where k: "mk_daily_sink local mktime formatter base h mi trunc max_files handlers now now2 now3 s = (Inr k, s0)"
      "knows local k s0 [?f]" "dl_base k = base" "dl_rotation_h k = h" "dl_rotation_m k = mi" "dl_max_files k = max_files"
      "dl_rotation_tp k = daily_next_rotation local mktime h mi now2" "os_files s0 = (os_files s)(?f \<mapsto> c)"
    using daily_made [OF assms(2-8) disjI2, OF conjI, OF assms(9,10), of mktime formatter trunc handlers now2]
    by (elim exE conjE)
  have n: "0 < unat max_files" using assms(7) by (simp add: word_less_nat_alt)
  have all: "last_n (unat (dl_max_files k)) [?f] = [?f]" using n k(6) by simp
  have "files = [?f] @ opened_by local mktime msg_time k ms" using k(3-7) by (simp add: files_def)
  moreover have "last_there (unat (dl_max_files k)) [?f] (os_files s0)" using all k(8) by (simp add: last_there_def)
  ultimately obtain k' s' where "daily_all local mktime format_msg msg_time ms k s0 = ([], k', s')"
      "last_there (unat max_files) files (os_files s')"
    using daily_run [where local = local and mktime = mktime and k = k and s = s0 and all = "[?f]" and msg_time = msg_time and ms = ms and format_msg = format_msg] k(2,6) all assms(11) by auto
  then show ?thesis using k(1) by blast
qed

definition example_local :: "int \<Rightarrow> tm" where
  "example_local t = zero_tm\<lparr>tm_mday := 10 + t div 86400, tm_hour := t mod 86400 div 3600\<rparr>"

definition example_mktime :: "tm \<Rightarrow> int" where
  "example_mktime t = (tm_mday t - 10) * 86400 + tm_hour t * 3600 + tm_min t * 60 + tm_sec t"

lemma example_digits:
  "digit_char 0 = CHR ''0''" "digit_char (Suc 0) = CHR ''1''" "digit_char 9 = CHR ''9''"
  by code_simp+

lemma example_numbers: "dec 1900 = ''1900''" "dec (Suc 0) = ''1''" "dec 9 = ''9''" "dec 10 = ''10''" "dec 11 = ''11''"
  by (simp_all add: dec.simps example_digits)

lemma example_dates:
  "date_part (zero_tm\<lparr>tm_mday := 9, tm_hour := h\<rparr>) = ''1900-01-09''"
  "date_part (zero_tm\<lparr>tm_mday := 10, tm_hour := h\<rparr>) = ''1900-01-10''"
  "date_part (zero_tm\<lparr>tm_mday := 11, tm_hour := h\<rparr>) = ''1900-01-11''"
  by (simp_all add: date_part_def zero_padded_def zpad_def zero_tm_def example_numbers numeral_2_eq_2)

lemma example_base: "split_by_extension ''a.txt'' = (''a'', ''.txt'')"
  by code_simp

lemmas example_defs = daily_file_at_def daily_filename_def example_base tm_of_def example_local_def duration_cast_def
  one_hour_def example_dates

theorem daily_keeps_last_witness:
  "\<exists>k s0 k' s'. mk_daily_sink example_local example_mktime (0 :: nat) ''a.txt'' 0 0 False 1 [] 1 1 1
      \<lparr>os_files = Map.empty, os_dirs = {}, os_calls = 0, os_outcome = (\<lambda>n. None), os_events = []\<rparr> = (Inr k, s0)
    \<and> daily_all example_local example_mktime (\<lambda>m f. (''x'', Suc f)) id [(86400 * one_second + 5, 86400 * one_second + 3)] k s0
        = ([], k', s')
    \<and> last_there (unat (1 :: u16)) [''a_1900-01-10.txt'', ''a_1900-01-11.txt''] (os_files s')"
proof -
  have names: "daily_file_at example_local ''a.txt'' 1 = ''a_1900-01-10.txt''"
      "daily_file_at example_local ''a.txt'' (1 - 24 * one_hour) = ''a_1900-01-09.txt''"
      "daily_file_at example_local ''a.txt'' 86400000000003 = ''a_1900-01-11.txt''"
    by (simp_all add: example_defs)
  have "daily_next_rotation example_local example_mktime 0 0 1 = 86400000000000"
    by (simp add: daily_next_rotation_def example_mktime_def example_defs zero_tm_def)
  then have opened: "opened example_local example_mktime id ''a.txt'' 0 0 (daily_next_rotation example_local example_mktime 0 0 1)
      [(86400 * one_second + 5, 86400 * one_second + 3)] = [''a_1900-01-11.txt'']"
    by (simp add: names)
  show ?thesis
    unfolding names(1) [symmetric] opened [symmetric]
  proof (rule daily_keeps_last)
    show "distinct (daily_file_at example_local ''a.txt'' 1 # opened example_local example_mktime id ''a.txt'' 0 0
        (daily_next_rotation example_local example_mktime 0 0 1) [(86400 * one_second + 5, 86400 * one_second + 3)])"
      unfolding opened names by simp
  qed (simp_all add: names ready_no_dirs calm_def)
qed


lemma quiet_run:
  "knows local k s names \<Longrightarrow> os_files s (last names) = None \<Longrightarrow> \<forall>(now, m) \<in> set ms. msg_time m < dl_rotation_tp k \<Longrightarrow>
    \<exists>k' s'. daily_all local mktime format_msg msg_time ms k s = ([], k', s') \<and> os_files s' (last names) = None"
proof (induction ms arbitrary: k s)
  case (Cons x ms)
  obtain now m where x: "x = (now, m)" by (cases x)
  then have early: "msg_time m < dl_rotation_tp k" using Cons.prems(3) by simp
  obtain k1 s1 t where 1: "daily_sink_it local mktime format_msg msg_time now m k s = (None, k1, s1)"
      "knows local k1 s1 names" "dl_rotation_tp k1 = dl_rotation_tp k"
      "os_files s1 = (os_files s)(last names := map_option (\<lambda>c. c @ t) (os_files s (last names)))"
    using quiet_step [where msg_time = msg_time and m = m, OF Cons.prems(1) early, of mktime format_msg now]
    by (elim exE conjE)
  have "os_files s1 (last names) = None" using 1(4) Cons.prems(2) by simp
  then show ?case using Cons.IH [OF 1(2)] Cons.prems(3) 1(1,3) by (auto simp: x)
qed simp

text \<open>
  The start before the time of rotation. When the sink is started earlier in the day than its
  rotation time, the first rotation has the name of the file that is open: the sink opens it again, counts it
  as a second file, and with \<open>max_files\<close> 1 deletes it. No error is raised, and whatever is logged
  until the next rotation is not on the disk.
\<close>

theorem same_day_rotation_deletes:
  assumes "daily_ready local base s" and "0 \<le> h" "h \<le> 23" "0 \<le> mi" "mi \<le> 59"
    and "daily_file_at local base now3 = daily_file_at local base now"
    and "msg_time m \<ge> daily_next_rotation local mktime h mi now2"
    and "daily_file_at local base (msg_time m) = daily_file_at local base now"
    and "\<forall>(t, m) \<in> set ms. msg_time m < daily_next_rotation local mktime h mi now4"
  shows "\<exists>k s0 k' s'. mk_daily_sink local mktime formatter base h mi trunc 1 handlers now now2 now3 s = (Inr k, s0)
    \<and> daily_all local mktime format_msg msg_time ((now4, m) # ms) k s0 = ([], k', s')
    \<and> os_files s' (daily_file_at local base now) = None"
proof -
  let ?f = "daily_file_at local base now"
  obtain k s0 c where k: "mk_daily_sink local mktime formatter base h mi trunc 1 handlers now now2 now3 s = (Inr k, s0)"
      "knows local k s0 [?f]" "dl_base k = base" "dl_rotation_h k = h" "dl_rotation_m k = mi" "dl_max_files k = 1"
      "dl_rotation_tp k = daily_next_rotation local mktime h mi now2" "os_files s0 = (os_files s)(?f \<mapsto> c)"
    using daily_made [OF assms(1-5) _ assms(6) disjI1, of 1 mktime formatter trunc handlers now2] by auto
  have late: "msg_time m \<ge> dl_rotation_tp k" using assms(7) k(7) by simp
  have name: "?f = daily_file_at local (dl_base k) (msg_time m)" using assms(8) k(3) by simp
  obtain k1 s1 c1 where 1: "daily_sink_it local mktime format_msg msg_time now4 m k s0 = (None, k1, s1)"
      "knows local k1 s1 (last_n 1 ([?f] @ [?f]))" "dl_rotation_tp k1 = daily_next_rotation local mktime h mi now4"
      "os_files s1 = ((os_files s0)(?f \<mapsto> c1))(?f := None)"
    using rotating_step [where msg_time = msg_time and m = m, OF k(2) late name, of mktime format_msg now4] k(4-6) by auto
  have "knows local k1 s1 [?f]" using 1(2) by (simp add: last_n_def)
  moreover have "os_files s1 (last [?f]) = None" using 1(4) by simp
  moreover have "\<forall>(t, m) \<in> set ms. msg_time m < dl_rotation_tp k1" using assms(9) 1(3) by simp
  ultimately obtain k' s' where "daily_all local mktime format_msg msg_time ms k1 s1 = ([], k', s')"
      "os_files s' (last [?f]) = None"
    using quiet_run by blast
  then show ?thesis using k(1) 1(1) by auto
qed

theorem same_day_rotation_deletes_witness:
  "\<exists>k s0 k' s'. mk_daily_sink example_local example_mktime (0 :: nat) ''a.txt'' 2 30 False 1 [] 1 1 1
      \<lparr>os_files = Map.empty, os_dirs = {}, os_calls = 0, os_outcome = (\<lambda>n. None), os_events = []\<rparr> = (Inr k, s0)
    \<and> daily_all example_local example_mktime (\<lambda>m f. (''x'', Suc f)) id
        ((4 * one_hour, 3 * one_hour) # [(5 * one_hour, 5 * one_hour)]) k s0 = ([], k', s')
    \<and> os_files s' (daily_file_at example_local ''a.txt'' 1) = None"
proof (rule same_day_rotation_deletes)
  have next_ones: "daily_next_rotation example_local example_mktime 2 30 1 = 9000 * one_second"
      "daily_next_rotation example_local example_mktime 2 30 (4 * one_hour) = 95400 * one_second"
    by (simp_all add: daily_next_rotation_def example_mktime_def example_defs zero_tm_def)
  show "daily_next_rotation example_local example_mktime 2 30 1 \<le> id (3 * one_hour)"
    by (simp add: next_ones one_hour_def)
  show "\<forall>(t, m) \<in> set [(5 * one_hour, 5 * one_hour)]. id m < daily_next_rotation example_local example_mktime 2 30 (4 * one_hour)"
    unfolding next_ones by (simp add: one_hour_def)
  show "daily_file_at example_local ''a.txt'' (id (3 * one_hour)) = daily_file_at example_local ''a.txt'' 1"
    by (simp add: example_defs)
qed (simp_all add: ready_no_dirs calm_def)

section \<open>The first file of the hourly sink\<close>

text \<open>
  The hourly sink removes its first file at the first rotation exactly if it was empty when it was opened
  and nothing has been logged since; any other file is left as it is, and the new one holds the message.
\<close>

theorem hourly_first_file:
  assumes "hourly_ready local (hl_base k) s" and "hl_max_files k = 0" and "msg_time m \<ge> hl_rotation_tp k"
    and "hourly_file_at local (hl_base k) (msg_time m) \<noteq> fh_filename (hl_helper k)"
  shows "\<exists>k' s' c. hourly_sink_it local mktime format_msg msg_time now m k s = (None, k', s')
    \<and> os_files s' = (os_files s)
        (fh_filename (hl_helper k) := (if hl_remove_init_file k then None else os_files s (fh_filename (hl_helper k))),
         hourly_file_at local (hl_base k) (msg_time m) \<mapsto> c @ fst (format_msg m (hl_formatter k)))
    \<and> \<not> hl_remove_init_file k' \<and> fh_filename (hl_helper k') = hourly_file_at local (hl_base k) (msg_time m)"
proof -
  let ?f = "hourly_file_at local (hl_base k) (msg_time m)" and ?old = "fh_filename (hl_helper k)"
  let ?ready = "hourly_ready local (hl_base k)"
  obtain h0 s0 where c: "file_close (hl_helper k) s = (h0, s0)" by fastforce
  then have c0: "?ready s0" "os_files s0 = os_files s" "fh_filename h0 = ?old"
    using file_close_frame [of "hl_helper k" s] hourly_dir.ready_close [OF assms(1), of "hl_helper k"] by simp_all
  obtain h1 s1 where d: "drop_init_file k s = (k\<lparr>hl_helper := h1\<rparr>, s1)" "?ready s1" "fh_filename h1 = ?old"
      "os_files s1 = (os_files s)(?old := (if hl_remove_init_file k then None else os_files s ?old))"
  proof (cases "hl_remove_init_file k")
    case True
    then show ?thesis using that [of h0 "snd (os_remove ?old s0)"] c c0 hourly_dir.ready_remove [OF c0(1), of ?old]
      by (simp add: drop_init_file_def)
  next
    case False
    then show ?thesis using that [of "hl_helper k" s] assms(1) by (simp add: drop_init_file_def)
  qed
  obtain h2 s2 a where o: "file_open ?f (hl_truncate k) h1 s1 = (None, h2, s2)" "?ready s2" "fh_open h2" "fh_filename h2 = ?f"
      "os_files s2 = (os_files s1)(?f \<mapsto> a)"
    using hourly_dir.ready_open [OF d(2) daily_names(2)] by blast
  obtain t g where t: "format_msg m (hl_formatter k) = (t, g)" by fastforce
  show ?thesis
    using assms(2,3) d o t ready_calm [OF o(2)]
    by (simp add: hourly_sink_it_def hourly_write_def file_write_def fwrite_bytes_def calm_tick append_to_def) blast
qed

end
