(* ===== verification/Log_Hex.thy ===== *)
theory Log_Hex
  imports Fmt_Format
begin

text \<open>
  Binary data in hexadecimal (\<^verbatim>\<open>fmt/bin_to_hex.h\<close>): the flags of its format specification and the loop that writes
  the bytes, with the offsets in front of the lines and the printable characters behind them. The loop is shown
  to write one text per line, and the bytes can be read back from what it writes.
\<close>

section \<open>The flags\<close>

record hex_formatter =
  hx_delimiter :: char
  hx_put_newlines :: bool
  hx_put_delimiters :: bool
  hx_use_uppercase :: bool
  hx_put_positions :: bool
  hx_show_ascii :: bool

definition mk_hex_formatter :: hex_formatter where
  "mk_hex_formatter =
     \<lparr>hx_delimiter = CHR '' '', hx_put_newlines = True, hx_put_delimiters = True, hx_use_uppercase = False,
      hx_put_positions = True, hx_show_ascii = False\<rparr>"

definition hex_flag :: "char \<Rightarrow> hex_formatter \<Rightarrow> hex_formatter" where
  "hex_flag c f =
     (if c = CHR ''X'' then f\<lparr>hx_use_uppercase := True\<rparr>
      else if c = CHR ''s'' then f\<lparr>hx_put_delimiters := False\<rparr>
      else if c = CHR ''p'' then f\<lparr>hx_put_positions := False\<rparr>
      else if c = CHR ''n'' then f\<lparr>hx_put_newlines := False, hx_show_ascii := False\<rparr>
      else if c = CHR ''a'' then (if hx_put_newlines f then f\<lparr>hx_show_ascii := True\<rparr> else f)
      else f)"

text \<open>The rest of the format string, from the closing brace on, and the formatter.\<close>

fun hex_parse :: "string \<Rightarrow> hex_formatter \<Rightarrow> string \<times> hex_formatter" where
  "hex_parse [] f = ([], f)"
| "hex_parse (c # cs) f = (if c = CHR ''}'' then (c # cs, f) else hex_parse cs (hex_flag c f))"

section \<open>Writing the bytes\<close>

text \<open>The bytes and the number of them on a line.\<close>

record dump_info =
  di_bytes :: string
  di_size_per_line :: size_t

definition hex_pair :: "bool \<Rightarrow> char \<Rightarrow> string" where
  "hex_pair upper c =
     (let hex_chars = (if upper then ''0123456789ABCDEF'' else ''0123456789abcdef''); ch = (of_char c :: u8)
      in [hex_chars ! unat (drop_bit 4 ch AND 0x0f), hex_chars ! unat (ch AND 0x0f)])"

text \<open>\<^verbatim>\<open>isprint\<close> in the locale a C program starts with.\<close>

definition isprint :: "char \<Rightarrow> bool" where
  "isprint c \<longleftrightarrow> 32 \<le> (of_char c :: nat) \<and> (of_char c :: nat) < 127"

definition ascii_text :: "string \<Rightarrow> string" where
  "ascii_text bs = map (\<lambda>c. if isprint c then c else CHR ''.'') bs"

definition position_call :: "nat \<Rightarrow> fmt_call" where
  "position_call pos =
     \<lparr>fc_args = [FULongLong (of_nat pos)], fc_names = [], fc_grouping = [], fc_thousands_sep = CHR '',''\<rparr>"

definition put_newline :: "hex_formatter \<Rightarrow> nat \<Rightarrow> string \<Rightarrow> string + string" where
  "put_newline f pos out =
     (let out1 = out @ [CHR 0x0A]
      in if hx_put_positions f then vformat_to out1 ''{:04X}: '' (position_call pos) else Inr out1)"

text \<open>The iterator \<open>i\<close> and \<open>start_of_line\<close> are offsets of the range.\<close>

fun hex_loop :: "hex_formatter \<Rightarrow> int \<Rightarrow> string \<Rightarrow> nat \<Rightarrow> string \<Rightarrow> nat \<Rightarrow> string \<Rightarrow> string + string \<times> nat" where
  "hex_loop f size_per_line bytes i [] start out = Inr (out, start)"
| "hex_loop f size_per_line bytes i (c # cs) start out =
     (if hx_put_newlines f \<and> (i = 0 \<or> int i - int start \<ge> size_per_line)
      then let out1 = (if hx_show_ascii f \<and> i \<noteq> 0
                       then out @ [hx_delimiter f, hx_delimiter f] @ ascii_text (take (i - start) (drop start bytes))
                       else out)
           in case put_newline f i out1 of
                Inl e \<Rightarrow> Inl e
              | Inr out2 \<Rightarrow> hex_loop f size_per_line bytes (Suc i) cs i (out2 @ hex_pair (hx_use_uppercase f) c)
      else hex_loop f size_per_line bytes (Suc i) cs start
             (out @ (if hx_put_delimiters f \<and> i \<noteq> 0 then [hx_delimiter f] else []) @ hex_pair (hx_use_uppercase f) c))"

definition hex_blanks :: "hex_formatter \<Rightarrow> int \<Rightarrow> string" where
  "hex_blanks f blank_num =
     concat (replicate (nat blank_num) ([hx_delimiter f, hx_delimiter f] @ (if hx_put_delimiters f then [hx_delimiter f] else [])))"

definition line_size :: "size_t \<Rightarrow> int" where
  "line_size n = sint (ucast n :: 32 word)"

definition hex_format :: "hex_formatter \<Rightarrow> dump_info \<Rightarrow> string + string" where
  "hex_format f d =
     (let size_per_line = line_size (di_size_per_line d); bytes = di_bytes d; total = length bytes
      in case hex_loop f size_per_line bytes 0 bytes 0 [] of
           Inl e \<Rightarrow> Inl e
         | Inr (out, start) \<Rightarrow>
             Inr (if hx_show_ascii f
                  then out @ (if int total > size_per_line then hex_blanks f (size_per_line - (int total - int start)) else [])
                    @ [hx_delimiter f, hx_delimiter f] @ ascii_text (drop start bytes)
                  else out))"

text \<open>\<^verbatim>\<open>to_hex\<close> with its default width, as an argument of a formatting call.\<close>

definition to_hex :: "string \<Rightarrow> size_t \<Rightarrow> dump_info" where
  "to_hex bs size_per_line = \<lparr>di_bytes = bs, di_size_per_line = size_per_line\<rparr>"

definition hex_arg :: "dump_info \<Rightarrow> fmt_arg" where
  "hex_arg d =
     FCustom (\<lambda>s. Inr (length s - length (fst (hex_parse s mk_hex_formatter))))
       (\<lambda>s. hex_format (snd (hex_parse s mk_hex_formatter)) d)"

section \<open>The offset of a line\<close>

definition position_text :: "nat \<Rightarrow> string" where
  "position_text pos = (let t = base_text 4 True pos in replicate (4 - length t) (CHR ''0'') @ t)"

definition position_specs :: dynamic_format_specs where
  "position_specs = mk_specs\<lparr>sp_type := PHex, sp_align := AlignNumeric, sp_fill := ''0'', sp_upper := True, sp_width := 4\<rparr>"

lemma position_parsed:
  "parse_format_specs ULongLongType mk_specs ((mk_parse_context None)\<lparr>pc_next := 1\<rparr>) ''04X}: ''
     = Inr (position_specs, (mk_parse_context None)\<lparr>pc_next := 1\<rparr>, ''}: '')"
  by code_simp

lemma position_number:
  assumes "pos < 2 ^ 64"
  shows "write_integer loc False (of_nat pos :: u64) position_specs = Inr (position_text pos)"
proof -
  have v: "int_value False (of_nat pos :: u64) = int pos"
    using assms by (simp add: int_value_def uint_nat unat_of_nat)
  have "write_integer loc False (of_nat pos :: u64) position_specs = Inr (fmt_number_text position_specs (int_value False (of_nat pos :: u64)))"
    by (rule write_integer_text) (simp_all add: position_specs_def mk_specs_def width_ok_def numeric_presentation_def INT_MAX_def)
  also have "fmt_number_text position_specs (int_value False (of_nat pos :: u64)) = position_text pos"
    unfolding v by (simp add: fmt_number_text_def position_specs_def mk_specs_def Let_def position_text_def digits_by_def base_prefix_def fmt_sign_text_def padded_text_def left_share_def)
  finally show ?thesis .
qed

lemma position_written:
  assumes "pos < 2 ^ 64"
  shows "vformat_to out ''{:04X}: '' (position_call pos) = Inr (out @ position_text pos @ '': '')"
proof -
  have arg: "get_arg (position_call pos) 0 = Some (FULongLong (of_nat pos))" by (simp add: get_arg_def position_call_def)
  have id: "fh_auto_id \<lparr>fs_ctx = mk_parse_context None, fs_out = out\<rparr>
      = Inr (0, \<lparr>fs_ctx = (mk_parse_context None)\<lparr>pc_next := 1\<rparr>, fs_out = out\<rparr>)"
    by (simp add: fh_auto_id_def next_arg_id_def do_check_arg_id_def mk_parse_context_def)
  have specs: "resolve_specs (position_call pos) position_specs = Inr position_specs"
    by (simp add: resolve_specs_def specs_dynamic_def position_specs_def mk_specs_def)
  have "fh_specs (position_call pos) 0 ''04X}: '' \<lparr>fs_ctx = (mk_parse_context None)\<lparr>pc_next := 1\<rparr>, fs_out = out\<rparr>
      = Inr (3, \<lparr>fs_ctx = (mk_parse_context None)\<lparr>pc_next := 1\<rparr>, fs_out = out @ position_text pos\<rparr>)"
    by (simp add: fh_specs_def arg position_parsed specs arg_formatter_def position_number [OF assms] fh_text_def)
  then have "parse_replacement_field (format_handler (position_call pos)) '':04X}: '' \<lparr>fs_ctx = mk_parse_context None, fs_out = out\<rparr>
      = Inr ('': '', \<lparr>fs_ctx = (mk_parse_context None)\<lparr>pc_next := 1\<rparr>, fs_out = out @ position_text pos\<rparr>)"
    by (simp add: parse_replacement_field_def id finish_field_def)
  then show ?thesis
    by (simp add: vformat_parsed parsed_format_def parse_format_string_def parse_fields.simps(2) fh_text_def)
qed

section \<open>The lines\<close>

text \<open>
  What the loop writes for a line: the bytes with the delimiter between them, and behind them the printable
  characters, which in a dump of more than one line stand below each other.
\<close>

definition hex_sep :: "hex_formatter \<Rightarrow> string" where
  "hex_sep f = (if hx_put_delimiters f then [hx_delimiter f] else [])"

definition hex_row :: "hex_formatter \<Rightarrow> string \<Rightarrow> string" where
  "hex_row f row =
     (case row of [] \<Rightarrow> [] | c # cs \<Rightarrow> hex_pair (hx_use_uppercase f) c @ concat (map (\<lambda>c. hex_sep f @ hex_pair (hx_use_uppercase f) c) cs))"

definition row_ascii :: "hex_formatter \<Rightarrow> nat \<Rightarrow> bool \<Rightarrow> string \<Rightarrow> string" where
  "row_ascii f w several row =
     (if hx_show_ascii f
      then hex_blanks f (if several then int w - int (length row) else 0) @ [hx_delimiter f, hx_delimiter f] @ ascii_text row
      else [])"

definition row_start :: "hex_formatter \<Rightarrow> nat \<Rightarrow> string" where
  "row_start f pos = CHR 0x0A # (if hx_put_positions f then position_text pos @ '': '' else [])"

function hex_rows :: "hex_formatter \<Rightarrow> nat \<Rightarrow> bool \<Rightarrow> nat \<Rightarrow> string \<Rightarrow> string" where
  "hex_rows f w several pos bytes =
     (if bytes = [] \<or> w = 0 then []
      else row_start f pos @ hex_row f (take w bytes) @ row_ascii f w several (take w bytes)
        @ hex_rows f w several (pos + w) (drop w bytes))"
  by pat_completeness auto
termination by (relation "measure (\<lambda>(f, w, several, pos, bytes). length bytes)") auto

declare hex_rows.simps [simp del]

lemma hex_blanks_none [simp]: "k \<le> 0 \<Longrightarrow> hex_blanks f k = []"
  by (simp add: hex_blanks_def)

lemma put_newline_written: "pos < 2 ^ 64 \<Longrightarrow> put_newline f pos out = Inr (out @ row_start f pos)"
  by (simp add: put_newline_def row_start_def position_written)

lemma hex_line_start:
  assumes "hx_put_newlines f" and "i = 0 \<or> int i - int start \<ge> n" and "i < 2 ^ 64"
  shows "hex_loop f n bytes i (c # cs) start out =
    hex_loop f n bytes (Suc i) cs i
      ((if hx_show_ascii f \<and> i \<noteq> 0 then out @ [hx_delimiter f, hx_delimiter f] @ ascii_text (take (i - start) (drop start bytes)) else out)
       @ row_start f i @ hex_pair (hx_use_uppercase f) c)"
  using assms by (simp add: put_newline_written)

lemma hex_in_row:
  assumes "xs = [] \<or> int (i + length xs) - int start \<le> n" and "0 < i"
  shows "hex_loop f n bytes i (xs @ ys) start out =
    hex_loop f n bytes (i + length xs) ys start (out @ concat (map (\<lambda>c. hex_sep f @ hex_pair (hx_use_uppercase f) c) xs))"
  using assms by (induction xs arbitrary: i out) (auto simp: hex_sep_def)

definition hex_finish :: "hex_formatter \<Rightarrow> int \<Rightarrow> string \<Rightarrow> string + string \<times> nat \<Rightarrow> string + string" where
  "hex_finish f n bytes r =
     (case r of
        Inl e \<Rightarrow> Inl e
      | Inr (out, start) \<Rightarrow>
          Inr (if hx_show_ascii f
               then out @ (if int (length bytes) > n then hex_blanks f (n - (int (length bytes) - int start)) else [])
                 @ [hx_delimiter f, hx_delimiter f] @ ascii_text (drop start bytes)
               else out))"

lemma hex_finish_last:
  assumes "hex_blanks f (n - int (length (drop i bytes))) = hex_blanks f (int w - int (length (drop i bytes)))" and "i \<le> length bytes"
  shows "hex_finish f n bytes (Inr (out, i)) = Inr (out @ row_ascii f w (int (length bytes) > n) (drop i bytes))"
proof -
  have e: "int (length bytes) - int i = int (length (drop i bytes))" using assms(2) by simp
  show ?thesis unfolding hex_finish_def row_ascii_def sum.case prod.case e assms(1) by (simp only: append_Nil append_assoc hex_blanks_none split: if_split) simp
qed

lemma hex_format_finish:
  "hex_format f d = hex_finish f (line_size (di_size_per_line d)) (di_bytes d)
     (hex_loop f (line_size (di_size_per_line d)) (di_bytes d) 0 (di_bytes d) 0 [])"
  by (simp add: hex_format_def hex_finish_def Let_def)

lemma hex_loop_rows:
  assumes "hx_put_newlines f" and "length bytes < 2 ^ 64" and "drop i bytes \<noteq> []"
    and "w = nat (max 1 n)" and "i = 0 \<or> start + w = i"
  shows "hex_finish f n bytes (hex_loop f n bytes i (drop i bytes) start out) =
    Inr (out @ (if i = 0 then [] else row_ascii f w (int (length bytes) > n) (take w (drop start bytes)))
      @ hex_rows f w (int (length bytes) > n) i (drop i bytes))"
  using assms(3,5)
proof (induction "length bytes - i" arbitrary: i start out rule: less_induct)
  case less
  let ?m = "int (length bytes) > n" and ?rest = "drop i bytes"
  have w: "0 < w" "n \<le> int w" "n \<le> 0 \<Longrightarrow> w = 1" using assms(4) by auto
  obtain c row where row: "take w ?rest = c # row" using less.prems(1) w(1) by (cases ?rest; cases w) auto
  have i: "i < length bytes" "i < 2 ^ 64" using less.prems(1) assms(2) by auto
  have split: "?rest = c # row @ drop w ?rest" using row by (metis append_Cons append_take_drop_id)
  have turn: "i = 0 \<or> int i - int start \<ge> n" using less.prems(2) w(2) by auto
  define out1 where "out1 = out @ (if i = 0 then [] else row_ascii f w ?m (take w (drop start bytes)))"
  have full: "i \<noteq> 0 \<Longrightarrow> length (take w (drop start bytes)) = w" "i \<noteq> 0 \<Longrightarrow> i - start = w" using less.prems(2) i by auto
  have o1: "(if hx_show_ascii f \<and> i \<noteq> 0 then out @ [hx_delimiter f, hx_delimiter f] @ ascii_text (take (i - start) (drop start bytes)) else out) = out1"
    using full by (auto simp: out1_def row_ascii_def)
  have len: "length row < w" using row by (metis length_Cons length_take less_eq_Suc_le min.cobounded2 min.commute)
  have inner: "row = [] \<or> int (Suc i + length row) - int i \<le> n" using len w(3) assms(4) by (cases "n \<le> 0") auto
  define out2 where "out2 = out1 @ row_start f i @ hex_row f (take w ?rest)"
  have "hex_loop f n bytes i ?rest start out = hex_loop f n bytes (Suc i) (row @ drop w ?rest) i (out1 @ row_start f i @ hex_pair (hx_use_uppercase f) c)"
    by (subst split, subst hex_line_start [OF assms(1) turn i(2)]) (simp only: o1)
  also have "\<dots> = hex_loop f n bytes (i + Suc (length row)) (drop w ?rest) i out2"
    by (subst hex_in_row [OF inner]) (simp_all add: out2_def row hex_row_def)
  finally have step: "hex_loop f n bytes i ?rest start out = hex_loop f n bytes (i + Suc (length row)) (drop w ?rest) i out2" .
  have rows: "hex_rows f w ?m i ?rest = row_start f i @ hex_row f (take w ?rest) @ row_ascii f w ?m (take w ?rest) @ hex_rows f w ?m (i + w) (drop w ?rest)"
    using less.prems(1) w(1) by (subst hex_rows.simps) simp
  show ?case
  proof (cases "drop w ?rest = []")
    case True
    then have all: "take w ?rest = ?rest" by (metis append.right_neutral append_take_drop_id)
    have "n - int (length ?rest) = int w - int (length ?rest) \<or> (n - int (length ?rest) \<le> 0 \<and> int w - int (length ?rest) \<le> 0)"
      using w(3) i(1) assms(4) by (cases "n \<le> 0") auto
    then have blanks: "hex_blanks f (n - int (length ?rest)) = hex_blanks f (int w - int (length ?rest))" by auto
    have "hex_finish f n bytes (Inr (out2, i)) = Inr (out2 @ row_ascii f w ?m (take w ?rest))"
      unfolding all using i(1) by (intro hex_finish_last blanks less_imp_le)
    then show ?thesis unfolding step rows True by (simp add: out2_def out1_def hex_rows.simps [of f w ?m _ "[]"])
  next
    case False
    then have "length (take w ?rest) = w" by auto
    then have s: "Suc (length row) = w" "drop w ?rest = drop (i + w) bytes" using row by (simp_all add: add.commute)
    have "hex_finish f n bytes (hex_loop f n bytes (i + w) (drop (i + w) bytes) i out2) =
      Inr (out2 @ row_ascii f w ?m (take w ?rest) @ hex_rows f w ?m (i + w) (drop (i + w) bytes))"
      using less.hyps [of "i + w" i out2] False w(1) i(1) by (simp add: s(2))
    then show ?thesis unfolding step rows unfolding s by (simp add: out2_def out1_def)
  qed
qed

text \<open>A width above \<^verbatim>\<open>INT_MAX\<close> is one byte per line.\<close>

definition row_size :: "size_t \<Rightarrow> nat" where
  "row_size n = nat (max 1 (line_size n))"

theorem hex_dump_by_lines:
  assumes "hx_put_newlines f" and "bs \<noteq> []" and "length bs < 2 ^ 64"
  shows "hex_format f (to_hex bs n) = Inr (hex_rows f (row_size n) (int (length bs) > line_size n) 0 bs)"
  using hex_loop_rows [OF assms(1,3), of 0 _ _ 0] assms(2)
  by (simp add: hex_format_finish to_hex_def row_size_def)

lemma hex_dump_by_lines_witness:
  "hex_format (snd (hex_parse ''a}'' mk_hex_formatter)) (to_hex ''Hello!'' 4) =
     Inr (''
0000: 48 65 6c 6c  Hell
0004: 6f 21        o!'')"
proof -
  let ?f = "snd (hex_parse ''a}'' mk_hex_formatter)"
  have "hx_put_newlines ?f" by code_simp
  note lines = hex_dump_by_lines [OF this, of "''Hello!''" 4]
  have "hex_rows ?f (row_size 4) (int (length ''Hello!'') > line_size 4) 0 ''Hello!'' = ''
0000: 48 65 6c 6c  Hell
0004: 6f 21        o!''"
    by code_simp
  then show ?thesis using lines by simp
qed

text \<open>The printable characters of a dump of several lines start in the same column on every line.\<close>

lemma length_hex_row: "row \<noteq> [] \<Longrightarrow> length (hex_row f row) = 2 * length row + (length row - 1) * length (hex_sep f)"
  by (cases row) (simp_all add: hex_row_def hex_pair_def Let_def length_concat comp_def sum_list_triv algebra_simps)

lemma length_hex_blanks: "length (hex_blanks f (int w - int k)) = (w - k) * (2 + length (hex_sep f))"
proof -
  have "nat (int w - int k) = w - k" by simp
  then show ?thesis by (simp add: hex_blanks_def hex_sep_def length_concat sum_list_replicate)
qed

theorem ascii_column_aligned:
  assumes "row \<noteq> []" and "length row \<le> w"
  shows "length (hex_row f row @ hex_blanks f (int w - int (length row))) = 2 * w + (w - 1) * length (hex_sep f)"
proof -
  obtain k where "w = length row + k" using assms(2) le_Suc_ex by blast
  moreover obtain j where "length row = Suc j" using assms(1) by (cases row) auto
  ultimately show ?thesis
    by (simp add: length_hex_row [OF assms(1)] length_hex_blanks algebra_simps del: of_nat_add of_nat_Suc)
qed

text \<open>A width that does not fit \<^verbatim>\<open>int\<close> is taken for a negative one.\<close>

lemma wide_lines_lost: "row_size 2147483648 = 1"
  by code_simp

section \<open>Reading a dump back\<close>

definition nibble_value :: "char \<Rightarrow> nat" where
  "nibble_value c =
     (let v = of_char c in if v < 58 then v - 48 else if v < 71 then v - 55 else v - 87)"

fun hex_read :: "string \<Rightarrow> string" where
  "hex_read (a # b # cs) = char_of (16 * nibble_value a + nibble_value b) # hex_read cs"
| "hex_read _ = []"

definition is_hex :: "char \<Rightarrow> bool" where
  "is_hex c \<longleftrightarrow> c \<in> set ''0123456789ABCDEFabcdef''"

lemma nibbles:
  "d < 16 \<Longrightarrow> nibble_value (''0123456789ABCDEF'' ! d) = d \<and> is_hex (''0123456789ABCDEF'' ! d)"
  "d < 16 \<Longrightarrow> nibble_value (''0123456789abcdef'' ! d) = d \<and> is_hex (''0123456789abcdef'' ! d)"
proof -
  have "list_all (\<lambda>d. nibble_value (''0123456789ABCDEF'' ! d) = d \<and> is_hex (''0123456789ABCDEF'' ! d)) [0..<16]"
    "list_all (\<lambda>d. nibble_value (''0123456789abcdef'' ! d) = d \<and> is_hex (''0123456789abcdef'' ! d)) [0..<16]"
    by code_simp+
  then show "d < 16 \<Longrightarrow> nibble_value (''0123456789ABCDEF'' ! d) = d \<and> is_hex (''0123456789ABCDEF'' ! d)"
    "d < 16 \<Longrightarrow> nibble_value (''0123456789abcdef'' ! d) = d \<and> is_hex (''0123456789abcdef'' ! d)"
    unfolding list_all_iff by (metis atLeastLessThan_iff set_upt zero_le)+
qed

lemma hex_pair_read:
  "hex_read (hex_pair up c @ cs) = c # hex_read cs" "list_all is_hex (hex_pair up c)"
proof -
  have m: "(of_char c :: nat) < 2 ^ 8" using nat_of_char_less_256 [of c] by simp
  have ch: "unat (of_char c :: u8) = of_char c"
    using m by (simp add: unsigned_of_nat take_bit_nat_eq_self flip: of_nat_of_char [where 'a = "8 word"])
  have low: "v AND 0x0f = take_bit 4 v" for v :: u8 by (simp add: take_bit_eq_mask mask_numeral)
  have v: "unat (drop_bit 4 v AND 0x0f) = unat v div 16" "unat (v AND 0x0f) = unat v mod 16" for v :: u8
  proof -
    have "unat v div 16 < 16" by (rule less_mult_imp_div_less) simp
    then show "unat (drop_bit 4 v AND 0x0f) = unat v div 16" "unat (v AND 0x0f) = unat v mod 16"
      by (simp_all only: low unsigned_take_bit_eq unsigned_drop_bit_eq) (simp_all add: drop_bit_eq_div take_bit_eq_mod)
  qed
  have hi: "unat (drop_bit 4 (of_char c :: u8) AND 0x0f) = of_char c div 16" by (simp only: v(1) ch)
  have lo: "unat ((of_char c :: u8) AND 0x0f) = of_char c mod 16" by (simp only: v(2) ch)
  have "(of_char c :: nat) div 16 < 16" "(of_char c :: nat) mod 16 < 16" by (rule less_mult_imp_div_less) (use m in simp_all)
  note n = nibbles [OF this(1)] nibbles [OF this(2)]
  show "hex_read (hex_pair up c @ cs) = c # hex_read cs" "list_all is_hex (hex_pair up c)"
    using n by (simp_all add: hex_pair_def Let_def hi lo)
qed

lemma hex_pairs_read:
  "hex_read (concat (map (hex_pair up) cs)) = cs" "list_all is_hex (concat (map (hex_pair up) cs))"
proof -
  show "hex_read (concat (map (hex_pair up) cs)) = cs" by (induction cs) (simp_all add: hex_pair_read)
  show "list_all is_hex (concat (map (hex_pair up) cs))" by (induction cs) (simp_all add: hex_pair_read)
qed

lemma pair_visible: "filter is_hex (hex_pair up c) = hex_pair up c"
  using hex_pair_read(2) by (simp add: filter_id_conv list_all_iff)

lemma hex_loop_visible:
  assumes "\<not> hx_put_positions f" and "\<not> hx_show_ascii f" and "\<not> is_hex (hx_delimiter f)"
  shows "\<exists>out' start'. hex_loop f n bytes i cs start out = Inr (out', start') \<and>
    filter is_hex out' = filter is_hex out @ concat (map (hex_pair (hx_use_uppercase f)) cs)"
proof (induction cs arbitrary: i start out)
  case Nil
  then show ?case by simp
next
  case (Cons c cs)
  have "\<not> is_hex (CHR 0x0A)" by code_simp
  then show ?case
    using assms Cons [of "Suc i" i "out @ [CHR 0x0A] @ hex_pair (hx_use_uppercase f) c"]
      Cons [of "Suc i" start "out @ (if hx_put_delimiters f \<and> i \<noteq> 0 then [hx_delimiter f] else []) @ hex_pair (hx_use_uppercase f) c"]
    by (simp add: put_newline_def Let_def pair_visible split: if_split_asm)
qed

text \<open>What the flags leave as it was.\<close>

lemma hex_flag_keeps [simp]:
  "hx_delimiter (hex_flag c f) = hx_delimiter f"
  "hx_put_positions (hex_flag c f) \<longleftrightarrow> hx_put_positions f \<and> c \<noteq> CHR ''p''"
  "hx_show_ascii (hex_flag c f) \<longleftrightarrow> (if c = CHR ''a'' then hx_show_ascii f \<or> hx_put_newlines f else hx_show_ascii f \<and> c \<noteq> CHR ''n'')"
  "hx_put_newlines (hex_flag c f) \<longleftrightarrow> hx_put_newlines f \<and> c \<noteq> CHR ''n''"
  by (auto simp: hex_flag_def)

lemma hex_parse_keeps:
  "hx_delimiter (snd (hex_parse s f)) = hx_delimiter f"
  "\<not> hx_put_positions f \<Longrightarrow> \<not> hx_put_positions (snd (hex_parse s f))"
  "CHR ''a'' \<notin> set s \<Longrightarrow> \<not> hx_show_ascii f \<Longrightarrow> \<not> hx_show_ascii (snd (hex_parse s f))"
  "(hx_show_ascii f \<longrightarrow> hx_put_newlines f) \<Longrightarrow> hx_show_ascii (snd (hex_parse s f)) \<longrightarrow> hx_put_newlines (snd (hex_parse s f))"
  by (induction s f rule: hex_parse.induct) (auto split: if_splits)

lemma hex_parse_positions:
  "CHR ''p'' \<in> set (takeWhile (\<lambda>c. c \<noteq> CHR ''}'') s) \<Longrightarrow> \<not> hx_put_positions (snd (hex_parse s f))"
proof (induction s f rule: hex_parse.induct)
  case (2 c cs f)
  then show ?case using hex_parse_keeps(2) [of "hex_flag c f" cs] by (auto split: if_splits)
qed simp

theorem hex_dump_reads_back:
  assumes "CHR ''p'' \<in> set (takeWhile (\<lambda>c. c \<noteq> CHR ''}'') spec)" and "CHR ''a'' \<notin> set spec"
  shows "\<exists>t. hex_format (snd (hex_parse spec mk_hex_formatter)) (to_hex bs n) = Inr t \<and> hex_read (filter is_hex t) = bs"
proof -
  let ?f = "snd (hex_parse spec mk_hex_formatter)"
  have f: "\<not> hx_put_positions ?f" "\<not> hx_show_ascii ?f" "hx_delimiter ?f = CHR '' ''"
    using hex_parse_positions [OF assms(1)] hex_parse_keeps(1,3) assms(2) by (simp_all add: mk_hex_formatter_def)
  have "\<not> is_hex (hx_delimiter ?f)" unfolding f(3) by code_simp
  from hex_loop_visible [OF f(1,2) this, of "line_size n" bs 0 bs 0 "[]"]
  obtain out start where "hex_loop ?f (line_size n) bs 0 bs 0 [] = Inr (out, start)"
    "filter is_hex out = concat (map (hex_pair (hx_use_uppercase ?f)) bs)" by auto
  then show ?thesis using f(2) by (simp add: hex_format_def to_hex_def hex_pairs_read(1))
qed

lemma hex_dump_reads_back_witness:
  "\<exists>t. hex_format (snd (hex_parse ''Xp}'' mk_hex_formatter)) (to_hex ''dump'' 3) = Inr t \<and> hex_read (filter is_hex t) = ''dump''"
  by (rule hex_dump_reads_back) simp_all

end
