(* ===== verification/Log_Line_Sinks.thy ===== *)
theory Log_Line_Sinks
  imports Log_File Log_Core
begin

text \<open>
  Sinks that write every message as it is formatted to one target: the base classes of the sinks (\<^verbatim>\<open>sinks/sink-inl.h\<close>,
  \<^verbatim>\<open>sinks/base_sink-inl.h\<close>), the plain file (\<^verbatim>\<open>sinks/basic_file_sink-inl.h\<close>), the standard streams
  (\<^verbatim>\<open>sinks/stdout_sinks-inl.h\<close>), a C++ stream (\<^verbatim>\<open>sinks/ostream_sink.h\<close>) and the system log (\<^verbatim>\<open>sinks/syslog_sink.h\<close>).
  \<open>format_msg\<close> is the \<^verbatim>\<open>format\<close> of the formatter. What they have in common is an interface: the lines of the messages
  stand behind each other in the target.
\<close>

section \<open>The base classes\<close>

record 'f base_sink =
  bs_level :: log_level
  bs_formatter :: 'f

definition sink_should_log :: "log_level \<Rightarrow> ('f, 'z) base_sink_scheme \<Rightarrow> bool" where
  "sink_should_log msg_level k \<longleftrightarrow> level_num msg_level \<ge> level_num (bs_level k)"

definition sink_set_level :: "log_level \<Rightarrow> ('f, 'z) base_sink_scheme \<Rightarrow> ('f, 'z) base_sink_scheme" where
  "sink_set_level log_level k = k\<lparr>bs_level := log_level\<rparr>"

definition sink_level :: "('f, 'z) base_sink_scheme \<Rightarrow> log_level" where
  "sink_level k = bs_level k"

definition bs_set_formatter :: "'f \<Rightarrow> ('f, 'z) base_sink_scheme \<Rightarrow> ('f, 'z) base_sink_scheme" where
  "bs_set_formatter sink_formatter k = k\<lparr>bs_formatter := sink_formatter\<rparr>"

text \<open>\<open>make_formatter\<close> is the constructor of the pattern formatter.\<close>

definition bs_set_pattern :: "(string \<Rightarrow> 'f) \<Rightarrow> string \<Rightarrow> ('f, 'z) base_sink_scheme \<Rightarrow> ('f, 'z) base_sink_scheme" where
  "bs_set_pattern make_formatter pattern k = bs_set_formatter (make_formatter pattern) k"

definition mk_base_sink :: "'f \<Rightarrow> 'f base_sink" where
  "mk_base_sink formatter = \<lparr>bs_level = L_trace, bs_formatter = formatter\<rparr>"

section \<open>The plain file\<close>

record 'f basic_file_sink = "'f base_sink" +
  bf_helper :: file_helper

definition mk_basic_file_sink ::
  "'f \<Rightarrow> string \<Rightarrow> bool \<Rightarrow> callback list \<Rightarrow> os \<Rightarrow> (file_error + 'f basic_file_sink) \<times> os" where
  "mk_basic_file_sink formatter fname trunc event_handlers s =
     (case file_open fname trunc (mk_file_helper event_handlers) s of
        (Some e, h, s1) \<Rightarrow> (Inl e, s1)
      | (None, h, s1) \<Rightarrow> (Inr (base_sink.extend (mk_base_sink formatter) \<lparr>bf_helper = h\<rparr>), s1))"

definition bf_filename :: "'f basic_file_sink \<Rightarrow> string" where
  "bf_filename k = fh_filename (bf_helper k)"

definition bf_truncate :: "'f basic_file_sink \<Rightarrow> os \<Rightarrow> file_error option \<times> 'f basic_file_sink \<times> os" where
  "bf_truncate k s = (let (e, h, s1) = file_reopen True (bf_helper k) s in (e, k\<lparr>bf_helper := h\<rparr>, s1))"

definition bf_sink_it ::
  "('m \<Rightarrow> 'f \<Rightarrow> string \<times> 'f) \<Rightarrow> 'm \<Rightarrow> 'f basic_file_sink \<Rightarrow> os \<Rightarrow> file_error option \<times> 'f basic_file_sink \<times> os" where
  "bf_sink_it format_msg m k s =
     (let (formatted, f) = format_msg m (bs_formatter k); (e, s1) = file_write formatted (bf_helper k) s
      in (e, k\<lparr>bs_formatter := f\<rparr>, s1))"

definition bf_flush :: "'f basic_file_sink \<Rightarrow> os \<Rightarrow> file_error option \<times> os" where
  "bf_flush k s = file_flush (bf_helper k) s"

section \<open>The standard streams\<close>

text \<open>
  A stream of the C library: what it holds back and what the device has got. As for files the outcome of the
  n-th call is an arbitrary function of n.
\<close>

record c_stream =
  cs_buffer :: string
  cs_device :: string
  cs_calls :: nat
  cs_outcome :: "nat \<Rightarrow> nat option"

definition stream_fwrite :: "string \<Rightarrow> c_stream \<Rightarrow> bool \<times> c_stream" where
  "stream_fwrite data s =
     (let s1 = s\<lparr>cs_calls := Suc (cs_calls s)\<rparr> in
      case cs_outcome s (cs_calls s) of
        None \<Rightarrow> (True, s1\<lparr>cs_buffer := cs_buffer s1 @ data\<rparr>)
      | Some k \<Rightarrow> (False, s1\<lparr>cs_buffer := cs_buffer s1 @ take k data\<rparr>))"

definition stream_fflush :: "c_stream \<Rightarrow> c_stream" where
  "stream_fflush s =
     (let s1 = s\<lparr>cs_calls := Suc (cs_calls s)\<rparr>;
          n = (case cs_outcome s (cs_calls s) of None \<Rightarrow> length (cs_buffer s) | Some k \<Rightarrow> k)
      in s1\<lparr>cs_device := cs_device s @ take n (cs_buffer s), cs_buffer := drop n (cs_buffer s)\<rparr>)"

definition mk_stdout_sink :: "'f \<Rightarrow> 'f base_sink" where
  "mk_stdout_sink formatter = mk_base_sink formatter"

text \<open>Whether the bytes could be written is not looked at.\<close>

definition so_log :: "('m \<Rightarrow> 'f \<Rightarrow> string \<times> 'f) \<Rightarrow> 'm \<Rightarrow> 'f base_sink \<Rightarrow> c_stream \<Rightarrow> 'f base_sink \<times> c_stream" where
  "so_log format_msg m k s =
     (let (formatted, f) = format_msg m (bs_formatter k)
      in (k\<lparr>bs_formatter := f\<rparr>, stream_fflush (snd (stream_fwrite formatted s))))"

definition so_flush :: "'f base_sink \<Rightarrow> c_stream \<Rightarrow> c_stream" where
  "so_flush k s = stream_fflush s"

definition so_set_formatter :: "'f \<Rightarrow> 'f base_sink \<Rightarrow> 'f base_sink" where
  "so_set_formatter sink_formatter k = k\<lparr>bs_formatter := sink_formatter\<rparr>"

definition so_set_pattern :: "(string \<Rightarrow> 'f) \<Rightarrow> string \<Rightarrow> 'f base_sink \<Rightarrow> 'f base_sink" where
  "so_set_pattern make_formatter pattern k = k\<lparr>bs_formatter := make_formatter pattern\<rparr>"

section \<open>A C++ stream\<close>

text \<open>A stream that failed once takes nothing any more; it does not throw.\<close>

record cpp_stream = c_stream +
  os_good :: bool

definition ostream_write :: "string \<Rightarrow> cpp_stream \<Rightarrow> cpp_stream" where
  "ostream_write data s =
     (if \<not> os_good s then s
      else let (ok, s1) = (case cs_outcome s (cs_calls s) of
                             None \<Rightarrow> (True, s\<lparr>cs_buffer := cs_buffer s @ data\<rparr>)
                           | Some k \<Rightarrow> (False, s\<lparr>cs_buffer := cs_buffer s @ take k data\<rparr>))
        in s1\<lparr>cs_calls := Suc (cs_calls s), os_good := ok\<rparr>)"

definition ostream_flush :: "cpp_stream \<Rightarrow> cpp_stream" where
  "ostream_flush s =
     (if \<not> os_good s then s
      else let n = (case cs_outcome s (cs_calls s) of None \<Rightarrow> length (cs_buffer s) | Some k \<Rightarrow> k)
        in s\<lparr>cs_device := cs_device s @ take n (cs_buffer s), cs_buffer := drop n (cs_buffer s), cs_calls := Suc (cs_calls s),
             os_good := (cs_outcome s (cs_calls s) = None)\<rparr>)"

record 'f ostream_sink = "'f base_sink" +
  oo_force_flush :: bool

definition mk_ostream_sink :: "'f \<Rightarrow> bool \<Rightarrow> 'f ostream_sink" where
  "mk_ostream_sink formatter force_flush = base_sink.extend (mk_base_sink formatter) \<lparr>oo_force_flush = force_flush\<rparr>"

definition oo_sink_it ::
  "('m \<Rightarrow> 'f \<Rightarrow> string \<times> 'f) \<Rightarrow> 'm \<Rightarrow> 'f ostream_sink \<Rightarrow> cpp_stream \<Rightarrow> 'f ostream_sink \<times> cpp_stream" where
  "oo_sink_it format_msg m k s =
     (let (formatted, f) = format_msg m (bs_formatter k); s1 = ostream_write formatted s
      in (k\<lparr>bs_formatter := f\<rparr>, if oo_force_flush k then ostream_flush s1 else s1))"

definition oo_flush :: "'f ostream_sink \<Rightarrow> cpp_stream \<Rightarrow> cpp_stream" where
  "oo_flush k s = ostream_flush s"

section \<open>The system log\<close>

text \<open>The priorities of \<^verbatim>\<open>syslog.h\<close>; the log is the entries made with the name of the program.\<close>

definition LOG_CRIT :: int where "LOG_CRIT = 2"
definition LOG_ERR :: int where "LOG_ERR = 3"
definition LOG_WARNING :: int where "LOG_WARNING = 4"
definition LOG_INFO :: int where "LOG_INFO = 6"
definition LOG_DEBUG :: int where "LOG_DEBUG = 7"

record sys_log =
  sl_ident :: "string option"
  sl_entries :: "(int \<times> string) list"

record 'f syslog_sink = "'f base_sink" +
  sy_enable_formatting :: bool
  sy_levels :: "int list"
  sy_ident :: string

definition mk_syslog_sink :: "'f \<Rightarrow> string \<Rightarrow> bool \<Rightarrow> sys_log \<Rightarrow> 'f syslog_sink \<times> sys_log" where
  "mk_syslog_sink formatter ident enable_formatting s =
     (base_sink.extend (mk_base_sink formatter)
        \<lparr>sy_enable_formatting = enable_formatting,
         sy_levels = [LOG_DEBUG, LOG_DEBUG, LOG_INFO, LOG_WARNING, LOG_ERR, LOG_CRIT, LOG_INFO], sy_ident = ident\<rparr>,
      s\<lparr>sl_ident := (if ident = [] then None else Some ident)\<rparr>)"

text \<open>\<^verbatim>\<open>at\<close> throws when the index is out of range.\<close>

definition sy_prio_from_level :: "'f syslog_sink \<Rightarrow> log_msg \<Rightarrow> int option" where
  "sy_prio_from_level k m =
     (if level_num (lm_level m) < length (sy_levels k) then Some (sy_levels k ! level_num (lm_level m)) else None)"

text \<open>With \<^verbatim>\<open>%.*s\<close> a text ends at its first NUL, and after as many bytes as the precision says.\<close>

definition percent_s :: "nat \<Rightarrow> string \<Rightarrow> string" where
  "percent_s precision t = takeWhile (\<lambda>c. c \<noteq> CHR 0x00) (take precision t)"

definition syslog_limit :: "size_t \<Rightarrow> size_t" where
  "syslog_limit n = (if n > 2147483647 then 2147483647 else n)"

definition sy_sink_it ::
  "(log_msg \<Rightarrow> 'f \<Rightarrow> string \<times> 'f) \<Rightarrow> log_msg \<Rightarrow> 'f syslog_sink \<Rightarrow> sys_log \<Rightarrow> bool \<times> 'f syslog_sink \<times> sys_log" where
  "sy_sink_it format_msg m k s =
     (let (payload, k1) = (if sy_enable_formatting k
                           then (let (formatted, f) = format_msg m (bs_formatter k) in (formatted, k\<lparr>bs_formatter := f\<rparr>))
                           else (lm_payload m, k));
          len = syslog_limit (of_nat (length payload))
      in case sy_prio_from_level k1 m of
           None \<Rightarrow> (False, k1, s)
         | Some prio \<Rightarrow> (True, k1, s\<lparr>sl_entries := sl_entries s @ [(prio, percent_s (unat len) payload)]\<rparr>))"

section \<open>Sinks of lines\<close>

text \<open>The lines of a sequence of messages; the formatter changes from one to the next.\<close>

fun line_texts :: "('m \<Rightarrow> 'f \<Rightarrow> string \<times> 'f) \<Rightarrow> 'm list \<Rightarrow> 'f \<Rightarrow> string list" where
  "line_texts format_msg [] f = []"
| "line_texts format_msg (m # ms) f = (let (t, f1) = format_msg m f in t # line_texts format_msg ms f1)"

fun put_all :: "('m \<Rightarrow> 'k \<Rightarrow> 's \<Rightarrow> 'k \<times> 's) \<Rightarrow> 'm list \<Rightarrow> 'k \<Rightarrow> 's \<Rightarrow> 'k \<times> 's" where
  "put_all put [] k s = (k, s)"
| "put_all put (m # ms) k s = (let (k1, s1) = put m k s in put_all put ms k1 s1)"

locale line_sink =
  fixes format_msg :: "'m \<Rightarrow> 'f \<Rightarrow> string \<times> 'f"
    and put :: "'m \<Rightarrow> 'k \<Rightarrow> 's \<Rightarrow> 'k \<times> 's"
    and formatter :: "'k \<Rightarrow> 'f"
    and target :: "'k \<Rightarrow> 's \<Rightarrow> string"
    and ok :: "'k \<Rightarrow> 's \<Rightarrow> bool"
  assumes put_line: "ok k s \<Longrightarrow> put m k s = (k1, s1) \<Longrightarrow> format_msg m (formatter k) = (t, f) \<Longrightarrow>
    ok k1 s1 \<and> formatter k1 = f \<and> target k1 s1 = target k s @ t"
begin

lemma put_lines:
  "ok k s \<Longrightarrow> put_all put ms k s = (k1, s1) \<Longrightarrow> ok k1 s1 \<and> target k1 s1 = target k s @ concat (line_texts format_msg ms (formatter k))"
proof (induction ms arbitrary: k s)
  case (Cons m ms)
  obtain t f where t: "format_msg m (formatter k) = (t, f)" by fastforce
  obtain k2 s2 where a: "put m k s = (k2, s2)" by fastforce
  note step = put_line [OF Cons.prems(1) a t]
  have "put_all put ms k2 s2 = (k1, s1)" using Cons.prems(2) a by simp
  then show ?case using Cons.IH [of k2 s2] step t by simp
qed simp

lemma put_more:
  assumes "ok k s" and "put_all put (ms1 @ ms2) k s = (k2, s2)" and "put_all put ms1 k s = (k1, s1)"
  shows "prefix (target k1 s1) (target k2 s2)"
proof -
  have "put_all put (ms1 @ ms2) k s = (case put_all put ms1 k s of (k1, s1) \<Rightarrow> put_all put ms2 k1 s1)"
    by (induction ms1 arbitrary: k s) (auto split: prod.splits)
  then have "put_all put ms2 k1 s1 = (k2, s2)" using assms(2,3) by simp
  then show ?thesis using put_lines [OF assms(1,3)] put_lines [of k1 s1 ms2 k2 s2] by auto
qed

end

text \<open>A file that is open, on a disk whose calls succeed.\<close>

definition bf_put :: "('m \<Rightarrow> 'f \<Rightarrow> string \<times> 'f) \<Rightarrow> 'm \<Rightarrow> 'f basic_file_sink \<Rightarrow> os \<Rightarrow> 'f basic_file_sink \<times> os" where
  "bf_put format_msg m k s = snd (bf_sink_it format_msg m k s)"

definition bf_target :: "'f basic_file_sink \<Rightarrow> os \<Rightarrow> string" where
  "bf_target k s = (case os_files s (bf_filename k) of None \<Rightarrow> [] | Some c \<Rightarrow> c)"

definition bf_ok :: "'f basic_file_sink \<Rightarrow> os \<Rightarrow> bool" where
  "bf_ok k s \<longleftrightarrow> calm s \<and> fh_open (bf_helper k) \<and> os_files s (bf_filename k) \<noteq> None"

interpretation basic_file: line_sink format_msg "bf_put format_msg" bs_formatter bf_target bf_ok for format_msg
proof
  fix k :: "'b basic_file_sink" and s m k1 s1 t f
  assume ok: "bf_ok k s" and put: "bf_put format_msg m k s = (k1, s1)" and t: "format_msg m (bs_formatter k) = (t, f)"
  obtain c where c: "os_files s (fh_filename (bf_helper k)) = Some c" using ok by (auto simp: bf_ok_def bf_filename_def)
  have "k1 = k\<lparr>bs_formatter := f\<rparr>" "s1 = append_to (fh_filename (bf_helper k)) t (s\<lparr>os_calls := Suc (os_calls s)\<rparr>)"
    using ok put t by (auto simp: bf_put_def bf_sink_it_def bf_ok_def file_write_def fwrite_bytes_def calm_tick)
  then show "bf_ok k1 s1 \<and> bs_formatter k1 = f \<and> bf_target k1 s1 = bf_target k s @ t"
    using ok c by (simp add: bf_ok_def bf_target_def bf_filename_def append_to_def)
qed

text \<open>A stream whose calls succeed, and that holds nothing back.\<close>

definition so_ok :: "'f base_sink \<Rightarrow> c_stream \<Rightarrow> bool" where
  "so_ok k s \<longleftrightarrow> (\<forall>n. cs_outcome s n = None) \<and> cs_buffer s = []"

interpretation stdout_lines: line_sink format_msg "so_log format_msg" bs_formatter "\<lambda>k. cs_device" so_ok for format_msg
  by unfold_locales (auto simp: so_ok_def so_log_def stream_fwrite_def stream_fflush_def Let_def)

text \<open>A C++ stream has the lines in its buffer at least.\<close>

definition oo_ok :: "'f ostream_sink \<Rightarrow> cpp_stream \<Rightarrow> bool" where
  "oo_ok k s \<longleftrightarrow> (\<forall>n. cs_outcome s n = None) \<and> os_good s"

interpretation ostream_lines: line_sink format_msg "oo_sink_it format_msg" bs_formatter "\<lambda>k s. cs_device s @ cs_buffer s" oo_ok for format_msg
  by unfold_locales (auto simp: oo_ok_def oo_sink_it_def ostream_write_def ostream_flush_def Let_def split: if_splits)

section \<open>What the sinks show\<close>

lemma bf_put_all_helper: "put_all (bf_put format_msg) ms k s = (k1, s1) \<Longrightarrow> bf_helper k1 = bf_helper k"
proof (induction ms arbitrary: k s)
  case (Cons m ms)
  obtain k2 s2 where a: "bf_put format_msg m k s = (k2, s2)" by fastforce
  then have "bf_helper k2 = bf_helper k" by (auto simp: bf_put_def bf_sink_it_def split: prod.splits)
  then show ?case using Cons.IH [of k2 s2] Cons.prems a by simp
qed simp

theorem basic_file_holds_lines:
  assumes "ready (dir_name fname) ((=) fname) s" and "fname \<noteq> []" and "mk_basic_file_sink formatter fname trunc handlers s = (r, s1)"
  shows "\<exists>k. r = Inr k \<and> (\<forall>ms k1 s2. put_all (bf_put format_msg) ms k s1 = (k1, s2) \<longrightarrow>
    os_files s2 fname = Some ((if trunc then [] else case os_files s fname of None \<Rightarrow> [] | Some c \<Rightarrow> c)
      @ concat (line_texts format_msg ms formatter)))"
proof -
  have dir: "log_dir (dir_name fname) ((=) fname)" using assms(2) by unfold_locales auto
  obtain h s' where o: "file_open fname trunc (mk_file_helper handlers) s = (None, h, s')" "ready (dir_name fname) ((=) fname) s'"
    "fh_open h" "fh_filename h = fname"
    "os_files s' = (os_files s)(fname \<mapsto> (if trunc then [] else case os_files s fname of None \<Rightarrow> [] | Some c \<Rightarrow> c))"
    using log_dir.ready_open [OF dir assms(1) refl, of trunc "mk_file_helper handlers"] by blast
  let ?k = "base_sink.extend (mk_base_sink formatter) \<lparr>bf_helper = h\<rparr>"
  have r: "r = Inr ?k" "s1 = s'" using assms(3) o(1) by (simp_all add: mk_basic_file_sink_def)
  have k: "bs_formatter ?k = formatter" "bf_helper ?k = h" by (simp_all add: base_sink.defs mk_base_sink_def)
  have ok: "bf_ok ?k s1" using o ready_calm r(2) by (auto simp: bf_ok_def bf_filename_def k)
  have "os_files s2 fname = Some (bf_target ?k s1 @ concat (line_texts format_msg ms formatter))"
    if run: "put_all (bf_put format_msg) ms ?k s1 = (k1, s2)" for ms k1 s2
  proof -
    have "bf_ok k1 s2" "bf_target k1 s2 = bf_target ?k s1 @ concat (line_texts format_msg ms formatter)"
      using basic_file.put_lines [OF ok run] k(1) by simp_all
    moreover have "bf_helper k1 = h" using bf_put_all_helper [OF run] by (simp only: k)
    ultimately show ?thesis using o(4) by (auto simp: bf_ok_def bf_target_def bf_filename_def)
  qed
  then show ?thesis unfolding r(1) using o(5) by (auto simp: bf_target_def bf_filename_def k o(4) r(2))
qed

text \<open>Emptying the file keeps it open, whatever it held.\<close>

theorem basic_file_truncated:
  assumes "ready (dir_name (bf_filename k)) ((=) (bf_filename k)) s" and "bf_filename k \<noteq> []" and "bf_truncate k s = (e, k1, s1)"
  shows "e = None \<and> bf_ok k1 s1 \<and> bf_target k1 s1 = []"
proof -
  have dir: "log_dir (dir_name (bf_filename k)) ((=) (bf_filename k))" using assms(2) by unfold_locales auto
  obtain h s' where "file_open (bf_filename k) True (bf_helper k) s = (None, h, s')" "ready (dir_name (bf_filename k)) ((=) (bf_filename k)) s'"
    "fh_open h" "fh_filename h = bf_filename k" "os_files s' = (os_files s)(bf_filename k \<mapsto> [])"
    using log_dir.ready_open [OF dir assms(1) refl, of True "bf_helper k"] by auto
  then show ?thesis
    using assms(2,3) ready_calm by (auto simp: bf_truncate_def file_reopen_def bf_ok_def bf_target_def bf_filename_def)
qed

text \<open>A C++ stream that failed once gets nothing of the messages that follow, and nobody is told.\<close>

theorem ostream_failure_silent:
  "\<not> os_good s \<Longrightarrow> snd (put_all (oo_sink_it format_msg) ms k s) = s"
  by (induction ms arbitrary: k) (auto simp: oo_sink_it_def ostream_write_def ostream_flush_def split: prod.splits)

text \<open>
  The entries of the system log: there is a priority for every level, a more severe level has one at least as urgent, and
  text without NUL bytes that is not too long is logged as it is.
\<close>

lemma syslog_priorities:
  assumes "mk_syslog_sink formatter ident en s = (k, s1)"
  shows "sy_prio_from_level k m = Some (case lm_level m of
      L_trace \<Rightarrow> LOG_DEBUG | L_debug \<Rightarrow> LOG_DEBUG | L_info \<Rightarrow> LOG_INFO | L_warn \<Rightarrow> LOG_WARNING | L_err \<Rightarrow> LOG_ERR
    | L_critical \<Rightarrow> LOG_CRIT | L_off \<Rightarrow> LOG_INFO)"
  using assms by (cases "lm_level m") (auto simp: mk_syslog_sink_def sy_prio_from_level_def base_sink.defs)

lemma percent_s_plain: "CHR 0x00 \<notin> set t \<Longrightarrow> length t \<le> n \<Longrightarrow> percent_s n t = t"
  by (simp add: percent_s_def) (metis takeWhile_eq_all_conv)

theorem syslog_entry:
  assumes "mk_syslog_sink formatter ident en s0 = (k, s)" and "sy_sink_it format_msg m k s = (ok, k1, s1)"
    and "t = (if en then fst (format_msg m formatter) else lm_payload m)" and "CHR 0x00 \<notin> set t" and "length t < 2 ^ 31"
  shows "\<exists>prio. ok \<and> sl_entries s1 = sl_entries s @ [(prio, t)] \<and> sy_prio_from_level k m = Some prio"
proof -
  obtain prio where prio: "sy_prio_from_level k m = Some prio" using syslog_priorities [OF assms(1)] by simp
  have k: "sy_enable_formatting k = en" "bs_formatter k = formatter"
    using assms(1) by (auto simp: mk_syslog_sink_def base_sink.defs mk_base_sink_def)
  have k1: "sy_prio_from_level (k\<lparr>bs_formatter := f\<rparr>) m = Some prio" for f using prio by (simp add: sy_prio_from_level_def split: if_splits)
  have "unat (of_nat (length t) :: size_t) = length t" using assms(5) by (simp add: unat_of_nat)
  then have "unat (syslog_limit (of_nat (length t))) = length t"
    using assms(5) by (simp add: syslog_limit_def word_less_nat_alt)
  then have "percent_s (unat (syslog_limit (of_nat (length t)))) t = t" by (simp add: percent_s_plain assms(4))
  then show ?thesis
    using assms(2,3) k prio k1 by (cases en) (auto simp: sy_sink_it_def Let_def split: prod.splits)
qed

theorem syslog_severity:
  assumes "mk_syslog_sink formatter ident en s = (k, s1)" and "level_num (lm_level m1) \<le> level_num (lm_level m2)" and "lm_level m2 \<noteq> L_off"
  shows "the (sy_prio_from_level k m2) \<le> the (sy_prio_from_level k m1)"
  using assms(2,3) unfolding syslog_priorities [OF assms(1)]
  by (cases "lm_level m1"; cases "lm_level m2") (simp_all add: LOG_CRIT_def LOG_ERR_def LOG_WARNING_def LOG_INFO_def LOG_DEBUG_def)

text \<open>A message with a NUL byte in it is cut there.\<close>

lemma syslog_cut_at_nul: "percent_s 10 (''ab'' @ [CHR 0x00] @ ''cd'') = ''ab''"
  by code_simp

end
