(* ===== verification/Log_Net.thy ===== *)
theory Log_Net
  imports Log_Line_Sinks
begin

text \<open>
  Log lines sent over the network: the clients \<^verbatim>\<open>details/tcp_client.h\<close> and \<^verbatim>\<open>details/udp_client.h\<close> and the sinks
  \<^verbatim>\<open>sinks/tcp_sink.h\<close> and \<^verbatim>\<open>sinks/udp_sink.h\<close> on them. The outcome of the n-th call of the system is an arbitrary
  function of n: how many bytes it takes, or the error it reports. What the peers have been sent is kept per
  connection. \<^verbatim>\<open>getaddrinfo\<close> is a function of the host and the port: a list of
  addresses, or an error other than zero.
\<close>

section \<open>The system\<close>

text \<open>
  \<open>net_fds\<close> are the open sockets, each with what was sent on it since it is connected; \<open>net_closed\<close> is what was sent on the
  connections that were closed, and \<open>net_lists\<close> counts the address lists that were not freed. A call that succeeds
  takes a number: the descriptor of a new socket, or how many bytes were taken.
\<close>

datatype net_outcome = Fails int | Takes nat

record net =
  net_calls :: nat
  net_outcome :: "nat \<Rightarrow> net_outcome"
  net_fds :: "int \<rightharpoonup> string option"
  net_closed :: "string list"
  net_lists :: nat
  net_datagrams :: "string list"

definition net_tick :: "net \<Rightarrow> net_outcome \<times> net" where
  "net_tick s = (net_outcome s (net_calls s), s\<lparr>net_calls := Suc (net_calls s)\<rparr>)"

text \<open>\<^verbatim>\<open>socket\<close>: a descriptor that was not open, or -1 and the error.\<close>

definition net_socket :: "net \<Rightarrow> int \<times> int \<times> net" where
  "net_socket s =
     (case net_tick s of
        (Fails e, s1) \<Rightarrow> (-1, e, s1)
      | (Takes k, s1) \<Rightarrow>
          if net_fds s1 (int k) \<noteq> None then (-1, 24, s1)
          else (int k, 0, s1\<lparr>net_fds := (net_fds s1)(int k \<mapsto> None)\<rparr>))"

definition net_close :: "int \<Rightarrow> net \<Rightarrow> net" where
  "net_close fd s =
     s\<lparr>net_fds := (net_fds s)(fd := None),
       net_closed := net_closed s @ (case net_fds s fd of Some (Some sent) \<Rightarrow> [sent] | _ \<Rightarrow> [])\<rparr>"

text \<open>\<^verbatim>\<open>connect\<close> and \<^verbatim>\<open>setsockopt\<close>: zero, or -1 and the error.\<close>

definition net_connect :: "int \<Rightarrow> 'addr \<Rightarrow> net \<Rightarrow> int \<times> int \<times> net" where
  "net_connect fd addr s =
     (case net_tick s of
        (Fails e, s1) \<Rightarrow> (-1, e, s1)
      | (Takes _, s1) \<Rightarrow> (0, 0, s1\<lparr>net_fds := (net_fds s1)(fd \<mapsto> Some [])\<rparr>))"

definition net_setsockopt :: "int \<Rightarrow> net \<Rightarrow> int \<times> net" where
  "net_setsockopt fd s = (case net_tick s of (Fails e, s1) \<Rightarrow> (-1, s1) | (Takes _, s1) \<Rightarrow> (0, s1))"

text \<open>\<^verbatim>\<open>send\<close> takes a part of the bytes from their front; a socket that is not connected is an error.\<close>

definition net_send :: "int \<Rightarrow> string \<Rightarrow> net \<Rightarrow> int \<times> int \<times> net" where
  "net_send fd data s =
     (case net_tick s of
        (Fails e, s1) \<Rightarrow> (-1, e, s1)
      | (Takes k, s1) \<Rightarrow>
          (case net_fds s1 fd of
             Some (Some sent) \<Rightarrow>
               let n = min k (length data)
               in (int n, 0, s1\<lparr>net_fds := (net_fds s1)(fd \<mapsto> Some (sent @ take n data))\<rparr>)
           | Some None \<Rightarrow> (-1, 107, s1)
           | None \<Rightarrow> (-1, 9, s1)))"

text \<open>\<^verbatim>\<open>sendto\<close> on a datagram socket takes all or fails.\<close>

definition net_sendto :: "int \<Rightarrow> string \<Rightarrow> net \<Rightarrow> int \<times> int \<times> net" where
  "net_sendto fd data s =
     (case net_tick s of
        (Fails e, s1) \<Rightarrow> (-1, e, s1)
      | (Takes _, s1) \<Rightarrow>
          if net_fds s1 fd = None then (-1, 9, s1)
          else (int (length data), 0, s1\<lparr>net_datagrams := net_datagrams s1 @ [data]\<rparr>))"

section \<open>The TCP client\<close>

datatype net_error =
    ResolveFailed int | ConnectFailed int | SendFailed int | CreateSocketFailed | SetSndBufFailed | InvalidAddress
  | SendtoFailed int

record tcp_client =
  tc_socket :: int

definition mk_tcp_client :: tcp_client where
  "mk_tcp_client = \<lparr>tc_socket = -1\<rparr>"

definition tc_is_connected :: "tcp_client \<Rightarrow> bool" where
  "tc_is_connected c \<longleftrightarrow> tc_socket c \<noteq> -1"

definition tc_close :: "tcp_client \<Rightarrow> net \<Rightarrow> tcp_client \<times> net" where
  "tc_close c s = (if tc_is_connected c then (c\<lparr>tc_socket := -1\<rparr>, net_close (tc_socket c) s) else (c, s))"

text \<open>Each address is tried until one connects; \<open>last_errno\<close> is what the last failure said.\<close>

fun tc_try :: "'addr list \<Rightarrow> int \<Rightarrow> tcp_client \<Rightarrow> net \<Rightarrow> int \<times> tcp_client \<times> net" where
  "tc_try [] last_errno c s = (last_errno, c, s)"
| "tc_try (rp # rps) last_errno c s =
     (case net_socket s of
        (fd, e, s1) \<Rightarrow>
          if fd = -1 then tc_try rps e (c\<lparr>tc_socket := fd\<rparr>) s1
          else (case net_connect fd rp s1 of
                  (rv, e1, s2) \<Rightarrow>
                    if rv = 0 then (last_errno, c\<lparr>tc_socket := fd\<rparr>, s2)
                    else tc_try rps e1 (c\<lparr>tc_socket := -1\<rparr>) (net_close fd s2)))"

definition tc_connect ::
  "(string \<Rightarrow> int \<Rightarrow> int + 'addr list) \<Rightarrow> string \<Rightarrow> int \<Rightarrow> tcp_client \<Rightarrow> net \<Rightarrow> net_error option \<times> tcp_client \<times> net" where
  "tc_connect resolve host port c0 s0 =
     (let (c, s) = tc_close c0 s0 in
      case resolve host port of
        Inl rv \<Rightarrow> (Some (ResolveFailed rv), c, s)
      | Inr addrs \<Rightarrow>
          let (last_errno, c1, s1) = tc_try addrs 0 c (s\<lparr>net_lists := Suc (net_lists s)\<rparr>);
              s2 = s1\<lparr>net_lists := net_lists s1 - 1\<rparr>
          in if tc_socket c1 = -1 then (Some (ConnectFailed last_errno), c1, s2)
             else (None, c1, snd (net_setsockopt (tc_socket c1) s2)))"

text \<open>A call that takes nothing ends the loop without an error.\<close>

function tc_send_loop :: "string \<Rightarrow> tcp_client \<Rightarrow> net \<Rightarrow> net_error option \<times> tcp_client \<times> net" where
  "tc_send_loop data c s =
     (if data = [] then (None, c, s)
      else case net_send (tc_socket c) data s of
        (write_result, e, s1) \<Rightarrow>
          if write_result < 0 then (let (c1, s2) = tc_close c s1 in (Some (SendFailed e), c1, s2))
          else if write_result = 0 then (None, c, s1)
          else tc_send_loop (drop (nat write_result) data) c s1)"
  by pat_completeness auto
termination by (relation "measure (\<lambda>(data, c, s). length data)") auto

declare tc_send_loop.simps [simp del]

definition tc_send :: "string \<Rightarrow> tcp_client \<Rightarrow> net \<Rightarrow> net_error option \<times> tcp_client \<times> net" where
  "tc_send data c s = tc_send_loop data c s"

section \<open>The TCP sink\<close>

record tcp_sink_config =
  tcf_server_host :: string
  tcf_server_port :: int
  tcf_lazy_connect :: bool

definition mk_tcp_sink_config :: "string \<Rightarrow> int \<Rightarrow> tcp_sink_config" where
  "mk_tcp_sink_config host port = \<lparr>tcf_server_host = host, tcf_server_port = port, tcf_lazy_connect = False\<rparr>"

record 'f tcp_sink =
  ts_formatter :: 'f
  ts_config :: tcp_sink_config
  ts_client :: tcp_client

text \<open>A constructor that throws runs the destructor of the client.\<close>

definition mk_tcp_sink ::
  "(string \<Rightarrow> int \<Rightarrow> int + 'addr list) \<Rightarrow> 'f \<Rightarrow> tcp_sink_config \<Rightarrow> net \<Rightarrow> (net_error + 'f tcp_sink) \<times> net" where
  "mk_tcp_sink resolve formatter sink_config s =
     (let k = \<lparr>ts_formatter = formatter, ts_config = sink_config, ts_client = mk_tcp_client\<rparr> in
      if \<not> tcf_lazy_connect sink_config
      then (case tc_connect resolve (tcf_server_host sink_config) (tcf_server_port sink_config) mk_tcp_client s of
              (None, c, s1) \<Rightarrow> (Inr (k\<lparr>ts_client := c\<rparr>), s1)
            | (Some e, c, s1) \<Rightarrow> (Inl e, snd (tc_close c s1)))
      else (Inr k, s))"

definition ts_destroy :: "'f tcp_sink \<Rightarrow> net \<Rightarrow> net" where
  "ts_destroy k s = snd (tc_close (ts_client k) s)"

definition ts_sink_it ::
  "('m \<Rightarrow> 'f \<Rightarrow> string \<times> 'f) \<Rightarrow> (string \<Rightarrow> int \<Rightarrow> int + 'addr list) \<Rightarrow> 'm \<Rightarrow> 'f tcp_sink \<Rightarrow> net
     \<Rightarrow> net_error option \<times> 'f tcp_sink \<times> net" where
  "ts_sink_it format_msg resolve m k0 s =
     (let (formatted, f) = format_msg m (ts_formatter k0);
          k = k0\<lparr>ts_formatter := f\<rparr>;
          (err, c, s1) = (if \<not> tc_is_connected (ts_client k)
                          then tc_connect resolve (tcf_server_host (ts_config k)) (tcf_server_port (ts_config k)) (ts_client k) s
                          else (None, ts_client k, s))
      in case err of
           Some e \<Rightarrow> (Some e, k\<lparr>ts_client := c\<rparr>, s1)
         | None \<Rightarrow> let (err1, c1, s2) = tc_send formatted c s1 in (err1, k\<lparr>ts_client := c1\<rparr>, s2))"

text \<open>A sequence of messages; the logger reports an exception of the sink and goes on.\<close>

fun ts_all ::
  "('m \<Rightarrow> 'f \<Rightarrow> string \<times> 'f) \<Rightarrow> (string \<Rightarrow> int \<Rightarrow> int + 'addr list) \<Rightarrow> 'm list \<Rightarrow> 'f tcp_sink \<Rightarrow> net
     \<Rightarrow> net_error option list \<times> 'f tcp_sink \<times> net" where
  "ts_all format_msg resolve [] k s = ([], k, s)"
| "ts_all format_msg resolve (m # ms) k s =
     (let (e, k1, s1) = ts_sink_it format_msg resolve m k s; (es, k2, s2) = ts_all format_msg resolve ms k1 s1
      in (e # es, k2, s2))"

section \<open>The UDP client and its sink\<close>

text \<open>The address is what \<^verbatim>\<open>inet_aton\<close> makes of the host: \<open>aton\<close> is that function.\<close>

record 'addr udp_client =
  uc_socket :: int
  uc_addr :: "'addr \<times> u16"

definition uc_cleanup :: "int \<Rightarrow> net \<Rightarrow> net" where
  "uc_cleanup fd s = (if fd \<noteq> -1 then net_close fd s else s)"

definition mk_udp_client :: "(string \<Rightarrow> 'addr option) \<Rightarrow> string \<Rightarrow> u16 \<Rightarrow> net \<Rightarrow> (net_error + 'addr udp_client) \<times> net" where
  "mk_udp_client aton host port s =
     (case net_socket s of
        (fd, e, s1) \<Rightarrow>
          if fd < 0 then (Inl CreateSocketFailed, s1)
          else (case net_setsockopt fd s1 of
                  (r, s2) \<Rightarrow>
                    if r < 0 then (Inl SetSndBufFailed, uc_cleanup fd s2)
                    else (case aton host of
                            None \<Rightarrow> (Inl InvalidAddress, uc_cleanup fd s2)
                          | Some addr \<Rightarrow> (Inr \<lparr>uc_socket = fd, uc_addr = (addr, port)\<rparr>, s2))))"

definition uc_destroy :: "'addr udp_client \<Rightarrow> net \<Rightarrow> net" where
  "uc_destroy c s = uc_cleanup (uc_socket c) s"

definition uc_send :: "string \<Rightarrow> 'addr udp_client \<Rightarrow> net \<Rightarrow> net_error option \<times> net" where
  "uc_send data c s =
     (case net_sendto (uc_socket c) data s of
        (toslen, e, s1) \<Rightarrow> (if toslen = -1 then Some (SendtoFailed e) else None, s1))"

record ('f, 'addr) udp_sink =
  us_formatter :: 'f
  us_client :: "'addr udp_client"

definition mk_udp_sink ::
  "(string \<Rightarrow> 'addr option) \<Rightarrow> 'f \<Rightarrow> string \<Rightarrow> u16 \<Rightarrow> net \<Rightarrow> (net_error + ('f, 'addr) udp_sink) \<times> net" where
  "mk_udp_sink aton formatter server_host server_port s =
     (case mk_udp_client aton server_host server_port s of
        (Inl e, s1) \<Rightarrow> (Inl e, s1)
      | (Inr c, s1) \<Rightarrow> (Inr \<lparr>us_formatter = formatter, us_client = c\<rparr>, s1))"

definition us_sink_it ::
  "('m \<Rightarrow> 'f \<Rightarrow> string \<times> 'f) \<Rightarrow> 'm \<Rightarrow> ('f, 'addr) udp_sink \<Rightarrow> net \<Rightarrow> net_error option \<times> ('f, 'addr) udp_sink \<times> net" where
  "us_sink_it format_msg m k0 s =
     (let (formatted, f) = format_msg m (us_formatter k0); k = k0\<lparr>us_formatter := f\<rparr>;
          (err, s1) = uc_send formatted (us_client k) s
      in (err, k, s1))"

section \<open>No socket is lost\<close>

text \<open>The sockets of the process that are not the client's, and what holds between the two.\<close>

definition others :: "int \<Rightarrow> net \<Rightarrow> int \<rightharpoonup> string option" where
  "others fd s = (net_fds s)(fd := None)"

definition sent_on :: "int \<Rightarrow> net \<Rightarrow> string" where
  "sent_on fd s = (case net_fds s fd of Some (Some sent) \<Rightarrow> sent | _ \<Rightarrow> [])"

definition client_ok :: "tcp_client \<Rightarrow> net \<Rightarrow> bool" where
  "client_ok c s \<longleftrightarrow> net_fds s (-1) = None \<and> (tc_socket c \<noteq> -1 \<longrightarrow> (\<exists>sent. net_fds s (tc_socket c) = Some (Some sent)))"

lemma tc_close_client: "tc_close c s = (c1, s1) \<Longrightarrow> tc_socket c1 = -1"
  by (auto simp: tc_close_def tc_is_connected_def split: if_splits)

lemma tc_close_frame:
  assumes "tc_close c s = (c1, s1)" and "client_ok c s"
  shows "net_fds s1 = others (tc_socket c) s" "net_fds s1 (-1) = None"
    and "net_closed s1 = net_closed s @ (if tc_is_connected c then [sent_on (tc_socket c) s] else [])"
    and "net_lists s1 = net_lists s" "net_outcome s1 = net_outcome s"
  using assms
  by (auto simp: tc_close_def tc_is_connected_def net_close_def others_def client_ok_def sent_on_def fun_upd_idem_iff split: if_splits option.splits)

text \<open>What an attempt to connect does: it makes one connection, on which nothing was sent, or none, and closes the sockets it made.\<close>

lemma tc_try_frame:
  assumes "tc_try addrs e c s = (e1, c1, s1)" and "tc_socket c = -1" and "net_fds s (-1) = None"
  shows "others (tc_socket c1) s1 = net_fds s \<and> net_closed s1 = net_closed s \<and> net_lists s1 = net_lists s
     \<and> net_outcome s1 = net_outcome s \<and> client_ok c1 s1 \<and> (tc_socket c1 \<noteq> -1 \<longrightarrow> net_fds s1 (tc_socket c1) = Some (Some []))"
  using assms
proof (induction addrs e c s rule: tc_try.induct)
  case (1 e c s)
  then show ?case by (auto simp: others_def client_ok_def fun_upd_idem_iff)
next
  case (2 rp rps last_errno c s)
  obtain fd e2 s2 where a: "net_socket s = (fd, e2, s2)" by (cases "net_socket s")
  show ?case
  proof (cases "fd = -1")
    case True
    then have "net_fds s2 = net_fds s" "net_closed s2 = net_closed s" "net_lists s2 = net_lists s" "net_outcome s2 = net_outcome s"
      using a by (auto simp: net_socket_def net_tick_def split: net_outcome.splits if_splits)
    then show ?thesis using 2(1) [OF a [symmetric] refl True] 2(3-5) a True by auto
  next
    case False
    then have s2: "net_fds s fd = None" "net_fds s2 = (net_fds s)(fd \<mapsto> None)" "net_closed s2 = net_closed s" "net_lists s2 = net_lists s"
      "net_outcome s2 = net_outcome s"
      using a by (auto simp: net_socket_def net_tick_def split: net_outcome.splits if_splits)
    obtain rv e3 s3 where b: "net_connect fd rp s2 = (rv, e3, s3)" by (cases "net_connect fd rp s2")
    show ?thesis
    proof (cases "rv = 0")
      case True
      then have s3: "net_fds s3 = (net_fds s)(fd \<mapsto> Some [])" "net_closed s3 = net_closed s" "net_lists s3 = net_lists s" "net_outcome s3 = net_outcome s"
        using b s2 by (auto simp: net_connect_def net_tick_def split: net_outcome.splits)
      have "c1 = c\<lparr>tc_socket := fd\<rparr>" "s1 = s3" using 2(3) a b True False by auto
      then show ?thesis using s3 s2(1) 2(5) False by (auto simp: others_def client_ok_def)
    next
      case rv: False
      then have s3: "net_fds s3 = (net_fds s)(fd \<mapsto> None)" "net_closed s3 = net_closed s" "net_lists s3 = net_lists s" "net_outcome s3 = net_outcome s"
        using b s2 by (auto simp: net_connect_def net_tick_def split: net_outcome.splits)
      have "net_fds (net_close fd s3) = net_fds s" "net_closed (net_close fd s3) = net_closed s" "net_lists (net_close fd s3) = net_lists s"
        "net_outcome (net_close fd s3) = net_outcome s"
        using s3 s2(1) by (simp_all add: net_close_def fun_upd_idem_iff)
      then show ?thesis
        using 2(2) [OF a [symmetric] refl False b [symmetric] refl rv] 2(3-5) a b False rv by auto
    qed
  qed
qed

text \<open>What was sent on connections that are closed, and what is on the one that is open.\<close>

lemma tc_connect_frame:
  assumes "tc_connect resolve host num c s = (r, c1, s1)" and "client_ok c s"
  shows "others (tc_socket c1) s1 = others (tc_socket c) s" "client_ok c1 s1" "net_lists s1 = net_lists s" "net_outcome s1 = net_outcome s"
    and "net_closed s1 = net_closed s @ (if tc_is_connected c then [sent_on (tc_socket c) s] else [])"
    and "r = None \<longleftrightarrow> tc_is_connected c1" "r = None \<Longrightarrow> sent_on (tc_socket c1) s1 = []"
proof -
  obtain c2 s2 where a: "tc_close c s = (c2, s2)" by (cases "tc_close c s")
  note f = tc_close_frame [OF a assms(2)] tc_close_client [OF a]
  have ok2: "client_ok c2 s2" "others (tc_socket c2) s2 = net_fds s2" "\<not> tc_is_connected c2"
    using f by (auto simp: client_ok_def others_def tc_is_connected_def fun_upd_idem_iff)
  have "others (tc_socket c1) s1 = others (tc_socket c) s \<and> client_ok c1 s1 \<and> net_lists s1 = net_lists s \<and> net_outcome s1 = net_outcome s \<and>
    net_closed s1 = net_closed s @ (if tc_is_connected c then [sent_on (tc_socket c) s] else []) \<and>
    (r = None \<longleftrightarrow> tc_is_connected c1) \<and> (r = None \<longrightarrow> sent_on (tc_socket c1) s1 = [])"
  proof (cases "resolve host num")
    case (Inl rv)
    then have "r = Some (ResolveFailed rv)" "c1 = c2" "s1 = s2" using assms(1) a by (simp_all add: tc_connect_def)
    then show ?thesis using f ok2 by (simp only: option.simps simp_thms)
  next
    case (Inr addrs)
    obtain e c3 s3 where b: "tc_try addrs 0 c2 (s2\<lparr>net_lists := Suc (net_lists s2)\<rparr>) = (e, c3, s3)"
      by (cases "tc_try addrs 0 c2 (s2\<lparr>net_lists := Suc (net_lists s2)\<rparr>)")
    note t = tc_try_frame [OF b f(6)] f(2)
    have s3: "others (tc_socket c3) s3 = net_fds s2" "net_closed s3 = net_closed s2" "net_lists s3 = Suc (net_lists s2)"
      "net_outcome s3 = net_outcome s2" "client_ok c3 s3" "tc_socket c3 \<noteq> -1 \<Longrightarrow> net_fds s3 (tc_socket c3) = Some (Some [])"
      using t by simp_all
    obtain s4 where s1: "s1 = s4" "net_fds s4 = net_fds s3" "net_closed s4 = net_closed s3" "net_lists s4 = net_lists s3 - 1"
      "net_outcome s4 = net_outcome s3" "c1 = c3" "r = None \<longleftrightarrow> tc_socket c3 \<noteq> -1"
      using assms(1) a b Inr
      by (auto simp: tc_connect_def Let_def net_setsockopt_def net_tick_def split: if_splits net_outcome.splits)
    show ?thesis
      using s1 s3 f by (auto simp: others_def client_ok_def sent_on_def tc_is_connected_def)
  qed
  then show "others (tc_socket c1) s1 = others (tc_socket c) s" "client_ok c1 s1" "net_lists s1 = net_lists s" "net_outcome s1 = net_outcome s"
    "net_closed s1 = net_closed s @ (if tc_is_connected c then [sent_on (tc_socket c) s] else [])"
    "r = None \<longleftrightarrow> tc_is_connected c1" "r = None \<Longrightarrow> sent_on (tc_socket c1) s1 = []" by auto
qed

text \<open>A call of the system that takes nothing is left out in what follows.\<close>

definition never_zero :: "net \<Rightarrow> bool" where
  "never_zero s \<longleftrightarrow> (\<forall>n. net_outcome s n \<noteq> Takes 0)"

lemma net_send_frame:
  assumes "net_send fd data s = (r, e, s1)" and "net_fds s fd = Some (Some sent)"
  shows "others fd s1 = others fd s" "net_closed s1 = net_closed s" "net_lists s1 = net_lists s" "net_outcome s1 = net_outcome s"
    and "net_fds s1 fd = Some (Some (sent @ take (nat r) data))" "0 \<le> r \<Longrightarrow> nat r \<le> length data"
    and "never_zero s \<Longrightarrow> data \<noteq> [] \<Longrightarrow> r \<noteq> 0" "net_fds s (-1) = None \<Longrightarrow> net_fds s1 (-1) = None"
  using assms
  by (auto simp: net_send_def net_tick_def others_def never_zero_def Let_def min_def split: net_outcome.splits if_splits)

lemma tc_send_frame:
  assumes "tc_send_loop data c s = (r, c1, s1)" and "client_ok c s" and "tc_is_connected c"
  shows "others (tc_socket c1) s1 = others (tc_socket c) s \<and> client_ok c1 s1 \<and> net_lists s1 = net_lists s \<and> net_outcome s1 = net_outcome s \<and>
    (r = None \<longleftrightarrow> tc_is_connected c1) \<and>
    (\<exists>p. prefix p data \<and> (r = None \<longrightarrow> net_closed s1 = net_closed s \<and> sent_on (tc_socket c1) s1 = sent_on (tc_socket c) s @ p
         \<and> (never_zero s \<longrightarrow> p = data)) \<and>
       (r \<noteq> None \<longrightarrow> net_closed s1 = net_closed s @ [sent_on (tc_socket c) s @ p]))"
  using assms
proof (induction data c s rule: tc_send_loop.induct)
  case (1 data c s)
  obtain w e s2 where a: "net_send (tc_socket c) data s = (w, e, s2)" by (cases "net_send (tc_socket c) data s")
  obtain sent where sent: "net_fds s (tc_socket c) = Some (Some sent)" "sent_on (tc_socket c) s = sent" "net_fds s (-1) = None"
    using 1(3,4) by (auto simp: client_ok_def tc_is_connected_def sent_on_def)
  note f = net_send_frame [OF a sent(1)]
  have s2: "client_ok c s2" "sent_on (tc_socket c) s2 = sent @ take (nat w) data"
    using f(5) f(8) sent(3) by (auto simp: client_ok_def sent_on_def)
  consider "data = []" | "data \<noteq> []" "w < 0" | "data \<noteq> []" "w = 0" | "data \<noteq> []" "0 < w" by linarith
  then show ?case
  proof cases
    case 1
    then show ?thesis using \<open>tc_send_loop data c s = (r, c1, s1)\<close> \<open>client_ok c s\<close> \<open>tc_is_connected c\<close>
      by (subst (asm) tc_send_loop.simps) auto
  next
    case 2
    obtain c3 s3 where b: "tc_close c s2 = (c3, s3)" by (cases "tc_close c s2")
    have r: "r = Some (SendFailed e)" "c1 = c3" "s1 = s3"
      using 1(2) a b 2 by (subst (asm) tc_send_loop.simps, simp)+
    note g = tc_close_frame [OF b s2(1)] tc_close_client [OF b]
    have "sent_on (tc_socket c) s2 = sent" using s2(2) 2 by simp
    then show ?thesis
      using f(1-4) g r 1(4) sent(2) by (auto simp: others_def client_ok_def tc_is_connected_def fun_upd_idem_iff intro: exI [of _ "[]"])
  next
    case 3
    then have "r = None" "c1 = c" "s1 = s2" using 1(2) a by (subst (asm) tc_send_loop.simps, simp)+
    then show ?thesis using f 3 s2 sent(2) 1(4) by (auto intro: exI [of _ "[]"])
  next
    case 4
    have step: "tc_send_loop (drop (nat w) data) c s2 = (r, c1, s1)"
      using 1(2) a 4 by (subst (asm) tc_send_loop.simps) simp
    have nz: "never_zero s2 = never_zero s" using f(4) by (simp add: never_zero_def)
    have "\<not> w < 0" "w \<noteq> 0" using 4 by simp_all
    from 1(1) [OF 4(1) a [symmetric] refl this step s2(1) 1(4)]
    obtain p where p: "prefix p (drop (nat w) data)" "others (tc_socket c1) s1 = others (tc_socket c) s2" "client_ok c1 s1"
      "net_lists s1 = net_lists s2" "net_outcome s1 = net_outcome s2" "r = None \<longleftrightarrow> tc_is_connected c1"
      "r = None \<Longrightarrow> net_closed s1 = net_closed s2 \<and> sent_on (tc_socket c1) s1 = sent_on (tc_socket c) s2 @ p \<and> (never_zero s2 \<longrightarrow> p = drop (nat w) data)"
      "r \<noteq> None \<Longrightarrow> net_closed s1 = net_closed s2 @ [sent_on (tc_socket c) s2 @ p]" by auto
    have "prefix (take (nat w) data @ p) data" using p(1) by (metis append_take_drop_id same_prefix_prefix)
    then show ?thesis
      using p(2-) f(1-4) s2(2) sent(2) nz by (intro conjI exI [of _ "take (nat w) data @ p"]) auto
  qed
qed

section \<open>What the peers of the TCP sink get\<close>

lemma ts_sink_it_frame:
  assumes "ts_sink_it format_msg resolve m k s = (e, k1, s1)" and "client_ok (ts_client k) s" and "format_msg m (ts_formatter k) = (t, f)"
  shows "others (tc_socket (ts_client k1)) s1 = others (tc_socket (ts_client k)) s" "client_ok (ts_client k1) s1"
    and "net_lists s1 = net_lists s" "net_outcome s1 = net_outcome s" "ts_formatter k1 = f" "e = None \<longleftrightarrow> tc_is_connected (ts_client k1)"
    and "\<exists>p. prefix p t \<and> (e = None \<longrightarrow> net_closed s1 = net_closed s
           \<and> sent_on (tc_socket (ts_client k1)) s1 = sent_on (tc_socket (ts_client k)) s @ p \<and> (never_zero s \<longrightarrow> p = t)) \<and>
         (e \<noteq> None \<longrightarrow> net_closed s1 = net_closed s @ [sent_on (tc_socket (ts_client k)) s @ p]
           \<or> net_closed s1 = net_closed s \<and> \<not> tc_is_connected (ts_client k))"
proof -
  let ?c = "ts_client k" and ?host = "tcf_server_host (ts_config k)" and ?num = "tcf_server_port (ts_config k)"
  obtain r c2 s2 where a: "(if \<not> tc_is_connected ?c then tc_connect resolve ?host ?num ?c s else (None, ?c, s)) = (r, c2, s2)"
    by (metis prod_cases3)
  have pre: "others (tc_socket c2) s2 = others (tc_socket ?c) s" "client_ok c2 s2" "net_lists s2 = net_lists s" "net_outcome s2 = net_outcome s"
    "net_closed s2 = net_closed s" "r = None \<longleftrightarrow> tc_is_connected c2" "r = None \<Longrightarrow> sent_on (tc_socket c2) s2 = sent_on (tc_socket ?c) s"
    "r \<noteq> None \<Longrightarrow> \<not> tc_is_connected ?c"
  proof -
    have none: "\<not> tc_is_connected ?c \<Longrightarrow> sent_on (tc_socket ?c) s = []"
      using assms(2) by (simp add: tc_is_connected_def sent_on_def client_ok_def)
    show "others (tc_socket c2) s2 = others (tc_socket ?c) s" "client_ok c2 s2" "net_lists s2 = net_lists s" "net_outcome s2 = net_outcome s"
      "net_closed s2 = net_closed s" "r = None \<longleftrightarrow> tc_is_connected c2" "r = None \<Longrightarrow> sent_on (tc_socket c2) s2 = sent_on (tc_socket ?c) s"
      "r \<noteq> None \<Longrightarrow> \<not> tc_is_connected ?c"
      using a tc_connect_frame [of resolve ?host ?num ?c s r c2 s2] assms(2) none by (auto split: if_splits)
  qed
  have "others (tc_socket (ts_client k1)) s1 = others (tc_socket ?c) s \<and> client_ok (ts_client k1) s1 \<and> net_lists s1 = net_lists s \<and>
    net_outcome s1 = net_outcome s \<and> ts_formatter k1 = f \<and> (e = None \<longleftrightarrow> tc_is_connected (ts_client k1)) \<and>
    (\<exists>p. prefix p t \<and> (e = None \<longrightarrow> net_closed s1 = net_closed s
           \<and> sent_on (tc_socket (ts_client k1)) s1 = sent_on (tc_socket ?c) s @ p \<and> (never_zero s \<longrightarrow> p = t)) \<and>
         (e \<noteq> None \<longrightarrow> net_closed s1 = net_closed s @ [sent_on (tc_socket ?c) s @ p]
           \<or> net_closed s1 = net_closed s \<and> \<not> tc_is_connected ?c))"
  proof (cases r)
    case (Some er)
    then have "e = Some er" "k1 = k\<lparr>ts_formatter := f, ts_client := c2\<rparr>" "s1 = s2"
      using assms(1,3) a by (simp_all add: ts_sink_it_def Let_def split: if_splits)
    then show ?thesis using pre Some by auto
  next
    case None
    obtain e3 c3 s3 where b: "tc_send_loop t c2 s2 = (e3, c3, s3)" by (cases "tc_send_loop t c2 s2")
    have r: "e = e3" "k1 = k\<lparr>ts_formatter := f, ts_client := c3\<rparr>" "s1 = s3"
      using assms(1,3) a b None by (simp_all add: ts_sink_it_def tc_send_def Let_def split: if_splits)
    have nz: "never_zero s2 = never_zero s" using pre(4) by (simp add: never_zero_def)
    have conn: "tc_is_connected c2" using pre(6) None by simp
    show ?thesis using tc_send_frame [OF b pre(2) conn] pre None r nz by auto
  qed
  then show "others (tc_socket (ts_client k1)) s1 = others (tc_socket ?c) s" "client_ok (ts_client k1) s1"
    "net_lists s1 = net_lists s" "net_outcome s1 = net_outcome s" "ts_formatter k1 = f" "e = None \<longleftrightarrow> tc_is_connected (ts_client k1)"
    "\<exists>p. prefix p t \<and> (e = None \<longrightarrow> net_closed s1 = net_closed s
           \<and> sent_on (tc_socket (ts_client k1)) s1 = sent_on (tc_socket ?c) s @ p \<and> (never_zero s \<longrightarrow> p = t)) \<and>
         (e \<noteq> None \<longrightarrow> net_closed s1 = net_closed s @ [sent_on (tc_socket ?c) s @ p]
           \<or> net_closed s1 = net_closed s \<and> \<not> tc_is_connected ?c)" by blast+
qed

text \<open>The lines whose calls reported no error.\<close>

definition delivered :: "net_error option list \<Rightarrow> string list \<Rightarrow> string list" where
  "delivered es ts = map snd (filter (\<lambda>p. fst p = None) (zip es ts))"

lemma delivered_simps [simp]:
  "delivered [] ts = []" "delivered (e # es) (t # ts) = (if e = None then [t] else []) @ delivered es ts"
  by (simp_all add: delivered_def)

lemma ts_all_frame:
  assumes "ts_all format_msg resolve ms k s = (es, k1, s1)" and "client_ok (ts_client k) s"
  shows "others (tc_socket (ts_client k1)) s1 = others (tc_socket (ts_client k)) s \<and> client_ok (ts_client k1) s1 \<and> net_lists s1 = net_lists s"
  using assms
proof (induction ms arbitrary: k s es)
  case (Cons m ms)
  obtain t f where t: "format_msg m (ts_formatter k) = (t, f)" by (cases "format_msg m (ts_formatter k)")
  obtain e k2 s2 where a: "ts_sink_it format_msg resolve m k s = (e, k2, s2)" by (cases "ts_sink_it format_msg resolve m k s")
  obtain es2 where b: "ts_all format_msg resolve ms k2 s2 = (es2, k1, s1)"
    using Cons.prems(1) a by (auto split: prod.splits)
  show ?case using Cons.IH [OF b] ts_sink_it_frame(1-3) [OF a Cons.prems(2) t] by simp
qed simp

text \<open>
  A connection carries whole lines and at its end a part of one that was not reported as written; the lines reported as
  written are on the connections, in order.
\<close>

definition streams :: "(string list \<times> string) list \<Rightarrow> string list" where
  "streams gs = map (\<lambda>(g, p). concat g @ p) gs"

lemma ts_all_streams:
  assumes "ts_all format_msg resolve ms k s = (es, k1, s1)" and "client_ok (ts_client k) s" and "never_zero s"
    and "sent_on (tc_socket (ts_client k)) s = concat g0" and "tc_is_connected (ts_client k) \<or> g0 = []"
  shows "\<exists>gs g1. net_closed s1 = net_closed s @ streams gs \<and> sent_on (tc_socket (ts_client k1)) s1 = concat g1
     \<and> concat (map fst gs) @ g1 = g0 @ delivered es (line_texts format_msg ms (ts_formatter k))
     \<and> (\<forall>p \<in> snd ` set gs. \<exists>t \<in> set (line_texts format_msg ms (ts_formatter k)). prefix p t)"
  using assms
proof (induction ms arbitrary: k s es g0)
  case Nil
  then show ?case by (intro exI [of _ "[]"] exI [of _ g0]) (simp add: streams_def)
next
  case (Cons m ms)
  obtain t f where t: "format_msg m (ts_formatter k) = (t, f)" by (cases "format_msg m (ts_formatter k)")
  obtain e k2 s2 where a: "ts_sink_it format_msg resolve m k s = (e, k2, s2)" by (cases "ts_sink_it format_msg resolve m k s")
  obtain es2 where b: "ts_all format_msg resolve ms k2 s2 = (es2, k1, s1)" "es = e # es2"
    using Cons.prems(1) a by (auto split: prod.splits)
  note step = ts_sink_it_frame [OF a Cons.prems(2) t]
  have nz: "never_zero s2" using step(4) Cons.prems(3) by (simp add: never_zero_def)
  have texts: "line_texts format_msg (m # ms) (ts_formatter k) = t # line_texts format_msg ms (ts_formatter k2)"
    using t step(5) by simp
  obtain p where p: "prefix p t" and none: "e = None \<Longrightarrow> net_closed s2 = net_closed s \<and> sent_on (tc_socket (ts_client k2)) s2 = concat g0 @ t"
    and some: "e \<noteq> None \<Longrightarrow> net_closed s2 = net_closed s @ [concat g0 @ p] \<or> net_closed s2 = net_closed s \<and> g0 = []"
    using step(7) Cons.prems(3-5) by auto
  show ?case
  proof (cases "e = None")
    case True
    have "sent_on (tc_socket (ts_client k2)) s2 = concat (g0 @ [t])" using none [OF True] by simp
    from Cons.IH [OF b(1) step(2) nz this] step(6) none [OF True] True show ?thesis unfolding texts b(2) by auto
  next
    case False
    then have "sent_on (tc_socket (ts_client k2)) s2 = concat []"
      using step(2,6) by (simp add: tc_is_connected_def client_ok_def sent_on_def)
    from Cons.IH [OF b(1) step(2) nz this disjI2 [OF refl]]
    obtain gs g1 where g: "net_closed s1 = net_closed s2 @ streams gs" "sent_on (tc_socket (ts_client k1)) s1 = concat g1"
      "concat (map fst gs) @ g1 = delivered es2 (line_texts format_msg ms (ts_formatter k2))"
      "\<forall>p \<in> snd ` set gs. \<exists>t \<in> set (line_texts format_msg ms (ts_formatter k2)). prefix p t" by auto
    show ?thesis
    proof (cases "net_closed s2 = net_closed s @ [concat g0 @ p]")
      case True
      then show ?thesis unfolding texts b(2) using g p False by (intro exI [of _ "(g0, p) # gs"] exI [of _ g1]) (auto simp: streams_def)
    next
      case none: False
      then show ?thesis unfolding texts b(2) using g some False by (intro exI [of _ gs] exI [of _ g1]) auto
    qed
  qed
qed

lemma mk_tcp_sink_frame:
  assumes "mk_tcp_sink resolve formatter cfg s = (r, s1)" and "net_fds s (-1) = None"
  shows "net_lists s1 = net_lists s" "net_outcome s1 = net_outcome s" "net_closed s1 = net_closed s"
    and "r = Inl e \<Longrightarrow> net_fds s1 = net_fds s"
    and "r = Inr k \<Longrightarrow> client_ok (ts_client k) s1 \<and> others (tc_socket (ts_client k)) s1 = net_fds s \<and> ts_formatter k = formatter
      \<and> sent_on (tc_socket (ts_client k)) s1 = []"
proof -
  have c: "client_ok mk_tcp_client s" "others (tc_socket mk_tcp_client) s = net_fds s" "\<not> tc_is_connected mk_tcp_client"
    using assms(2) by (simp_all add: client_ok_def mk_tcp_client_def others_def fun_upd_idem_iff tc_is_connected_def)
  obtain r1 c1 s2 where a: "tc_connect resolve (tcf_server_host cfg) (tcf_server_port cfg) mk_tcp_client s = (r1, c1, s2)"
    by (metis prod_cases3)
  note f = tc_connect_frame [OF a c(1)]
  have end_of: "snd (tc_close c1 s2) = s2" "net_fds s2 = net_fds s" if "r1 \<noteq> None"
  proof -
    have c1: "tc_socket c1 = -1" using f(6) that by (simp add: tc_is_connected_def)
    then show "snd (tc_close c1 s2) = s2" by (simp add: tc_close_def tc_is_connected_def)
    have "others (tc_socket c1) s2 = net_fds s2" using f(2) c1 by (simp add: others_def client_ok_def fun_upd_idem_iff)
    then show "net_fds s2 = net_fds s" using f(1) c(2) by simp
  qed
  show "net_lists s1 = net_lists s" "net_outcome s1 = net_outcome s" "net_closed s1 = net_closed s" "r = Inl e \<Longrightarrow> net_fds s1 = net_fds s"
    using assms a f(3-5) c end_of by (auto simp: mk_tcp_sink_def Let_def split: if_splits option.splits)
  assume r: "r = Inr k"
  show "client_ok (ts_client k) s1 \<and> others (tc_socket (ts_client k)) s1 = net_fds s \<and> ts_formatter k = formatter
      \<and> sent_on (tc_socket (ts_client k)) s1 = []"
    using assms a f r c
    by (cases "tcf_lazy_connect cfg"; cases r1)
      (auto simp: mk_tcp_sink_def Let_def sent_on_def mk_tcp_client_def others_def client_ok_def fun_upd_idem_iff)
qed

theorem tcp_sink_no_leak:
  assumes "mk_tcp_sink resolve formatter cfg s0 = (r, s)" and "net_fds s0 (-1) = None"
  shows "case r of
      Inl e \<Rightarrow> net_fds s = net_fds s0 \<and> net_lists s = net_lists s0
    | Inr k \<Rightarrow>
        (case ts_all format_msg resolve ms k s of
           (es, k1, s1) \<Rightarrow> net_fds (ts_destroy k1 s1) = net_fds s0 \<and> net_lists (ts_destroy k1 s1) = net_lists s0)"
proof (cases r)
  case (Inl e)
  then show ?thesis using mk_tcp_sink_frame(1,4) [OF assms] by simp
next
  case (Inr k)
  obtain es k1 s1 where a: "ts_all format_msg resolve ms k s = (es, k1, s1)" by (metis prod_cases3)
  note k = mk_tcp_sink_frame(5) [OF assms Inr]
  have f: "others (tc_socket (ts_client k1)) s1 = net_fds s0" "client_ok (ts_client k1) s1" "net_lists s1 = net_lists s0"
    using ts_all_frame [OF a] k mk_tcp_sink_frame(1) [OF assms] by simp_all
  obtain c2 s2 where b: "tc_close (ts_client k1) s1 = (c2, s2)" by (cases "tc_close (ts_client k1) s1")
  show ?thesis using Inr a f b tc_close_frame(1,4) [OF b f(2)] by (simp add: ts_destroy_def)
qed

text \<open>A network for the examples: the outcomes of the first calls, then calls that take everything.\<close>

definition example_net :: "net_outcome list \<Rightarrow> net" where
  "example_net os =
     \<lparr>net_calls = 0, net_outcome = (\<lambda>n. if n < length os then os ! n else Takes 100), net_fds = Map.empty, net_closed = [],
      net_lists = 0, net_datagrams = []\<rparr>"

definition one_line :: "string \<Rightarrow> unit \<Rightarrow> string \<times> unit" where
  "one_line m f = (m @ [CHR 0x0A], f)"

definition local_host :: "string \<Rightarrow> int \<Rightarrow> int + nat list" where
  "local_host host num = Inr [1, 2]"

lemma tcp_sink_no_leak_witness:
  "case mk_tcp_sink local_host () (mk_tcp_sink_config ''::1'' 80) (example_net [Takes 3, Fails 111, Takes 3]) of
     (Inr k, s) \<Rightarrow>
       (case ts_all one_line local_host [''a'', ''b''] k s of (es, k1, s1) \<Rightarrow> net_fds (ts_destroy k1 s1) 3 = None)
   | _ \<Rightarrow> False"
proof -
  let ?s0 = "example_net [Takes 3, Fails 111, Takes 3]" and ?cfg = "mk_tcp_sink_config ''::1'' 80"
  obtain r s where a: "mk_tcp_sink local_host () ?cfg ?s0 = (r, s)" by (cases "mk_tcp_sink local_host () ?cfg ?s0")
  have "case fst (mk_tcp_sink local_host () ?cfg ?s0) of Inr k \<Rightarrow> True | _ \<Rightarrow> False" by code_simp
  then obtain k where k: "r = Inr k" unfolding a by (cases r) auto
  have "net_fds ?s0 (-1) = None" "net_fds ?s0 3 = None" by (simp_all add: example_net_def)
  then show ?thesis
    using tcp_sink_no_leak [OF a, of one_line "[''a'', ''b'']"] unfolding a k by (auto split: prod.splits)
qed


text \<open>
  The first line is sent in two calls; the connection breaks within the second one, and a new one carries the third.
\<close>

definition broken_net :: net where
  "broken_net = example_net [Takes 3, Takes 1, Takes 1, Takes 2, Takes 2, Takes 1, Fails 32, Takes 3, Takes 1, Takes 1]"


text \<open>A call that takes nothing loses the end of a line, and the next line follows on the same connection.\<close>

lemma torn_line_not_reported:
  "case mk_tcp_sink local_host () (mk_tcp_sink_config ''::1'' 80) (example_net [Takes 3, Takes 1, Takes 1, Takes 2, Takes 0]) of
     (Inr k, s) \<Rightarrow>
       (case ts_all one_line local_host [''abc'', ''def''] k s of
          (es, k1, s1) \<Rightarrow> es = [None, None] \<and> net_closed (ts_destroy k1 s1) = [''ab'' @ ''def'' @ [CHR 0x0A]])
   | _ \<Rightarrow> False"
  by code_simp

section \<open>The UDP sink\<close>

text \<open>A constructor that fails leaves no socket behind, and the destructor closes the one of a client.\<close>

theorem udp_client_no_leak:
  assumes "mk_udp_client aton host num s0 = (r, s)" and "net_fds s0 (-1) = None"
  shows "case r of
      Inl e \<Rightarrow> net_fds s = net_fds s0
    | Inr c \<Rightarrow> aton host \<noteq> None \<and> (\<forall>data err s1. uc_send data c s = (err, s1) \<longrightarrow> net_fds (uc_destroy c s1) = net_fds s0)"
proof -
  obtain fd e s1 where a: "net_socket s0 = (fd, e, s1)" by (metis prod_cases3)
  have fd: "fd \<noteq> -1 \<Longrightarrow> 0 \<le> fd \<and> net_fds s0 fd = None \<and> net_fds s1 = (net_fds s0)(fd \<mapsto> None)" "fd = -1 \<Longrightarrow> net_fds s1 = net_fds s0"
    using a by (auto simp: net_socket_def net_tick_def split: net_outcome.splits if_splits)
  show ?thesis
  proof (cases "fd = -1")
    case True
    then show ?thesis using assms(1) a fd(2) by (auto simp: mk_udp_client_def)
  next
    case False
    obtain r2 s2 where b: "net_setsockopt fd s1 = (r2, s2)" by (cases "net_setsockopt fd s1")
    have s2: "net_fds s2 = (net_fds s0)(fd \<mapsto> None)" using b fd(1) False by (auto simp: net_setsockopt_def net_tick_def split: net_outcome.splits)
    have gone: "net_fds (uc_cleanup fd s3) = net_fds s0" if "net_fds s3 = (net_fds s0)(fd \<mapsto> None)" for s3
      using that fd(1) False by (auto simp: uc_cleanup_def net_close_def fun_upd_idem_iff)
    have sent: "uc_send data c s3 = (err, s4) \<Longrightarrow> net_fds s4 = net_fds s3" for data c s3 err s4
      by (auto simp: uc_send_def net_sendto_def net_tick_def split: net_outcome.splits if_splits)
    show ?thesis
      using assms(1) a b fd(1) False gone [OF s2] s2
      by (auto simp: mk_udp_client_def uc_destroy_def dest!: sent intro!: gone split: if_splits option.splits)
  qed
qed

fun us_all ::
  "('m \<Rightarrow> 'f \<Rightarrow> string \<times> 'f) \<Rightarrow> 'm list \<Rightarrow> ('f, 'addr) udp_sink \<Rightarrow> net \<Rightarrow> net_error option list \<times> ('f, 'addr) udp_sink \<times> net" where
  "us_all format_msg [] k s = ([], k, s)"
| "us_all format_msg (m # ms) k s =
     (let (e, k1, s1) = us_sink_it format_msg m k s; (es, k2, s2) = us_all format_msg ms k1 s1 in (e # es, k2, s2))"

text \<open>Every line that was not reported as failed is a datagram, and a failure does not keep the next lines from being sent.\<close>

theorem udp_lines_are_datagrams:
  "us_all format_msg ms k s = (es, k1, s1) \<Longrightarrow>
     net_datagrams s1 = net_datagrams s @ delivered es (line_texts format_msg ms (us_formatter k))
     \<and> us_client k1 = us_client k \<and> net_fds s1 = net_fds s"
proof (induction ms arbitrary: k s es)
  case (Cons m ms)
  obtain t f where t: "format_msg m (us_formatter k) = (t, f)" by (cases "format_msg m (us_formatter k)")
  obtain e k2 s2 where a: "us_sink_it format_msg m k s = (e, k2, s2)" by (cases "us_sink_it format_msg m k s")
  obtain es2 where b: "us_all format_msg ms k2 s2 = (es2, k1, s1)" "es = e # es2"
    using Cons.prems(1) a by (auto split: prod.splits)
  have "net_datagrams s2 = net_datagrams s @ (if e = None then [t] else [])" "us_formatter k2 = f" "us_client k2 = us_client k"
    "net_fds s2 = net_fds s"
    using a t by (auto simp: us_sink_it_def uc_send_def net_sendto_def net_tick_def Let_def split: net_outcome.splits if_splits)
  then show ?case using Cons.IH [OF b(1)] b(2) t by simp
qed simp

text \<open>After an error of \<^verbatim>\<open>sendto\<close> the socket is still open.\<close>

lemma udp_error_keeps_socket:
  "case mk_udp_client (\<lambda>h. Some h) ''127.0.0.1'' 514 (example_net [Takes 5, Takes 1, Fails 101]) of
     (Inr c, s) \<Rightarrow> (case uc_send ''x'' c s of (e, s1) \<Rightarrow> e = Some (SendtoFailed 101) \<and> net_fds s1 5 \<noteq> None)
   | _ \<Rightarrow> False"
  by code_simp

end
