(* ===== verification/Spec2Isabelle.thy ===== *)
theory Spec2Isabelle
  imports App_Logging App_Messages Fmt_Chrono_Spec Log_Daily_Spec Log_Hex Log_Net
begin

text \<open>
  A verification library for \<^verbatim>\<open>zem\<close>, a TCP backend server in C++ (\<^verbatim>\<open>src/backend\<close>), and for the logging
  library spdlog it carries along (\<^verbatim>\<open>src/backend/Library/spdlog\<close>) as far as the server rests on it.

  The program. \<^verbatim>\<open>main\<close> builds an \<^verbatim>\<open>AppContext\<close> from the environment: a logger, a pool of database
  threads, a repository of accounts in PostgreSQL, the login use case, and a TCP server. The server accepts connections; each
  becomes a session that reads frames (a header of eight bytes and a body), gives the body to the handler of
  its service, and writes frames from a queue with back-pressure. A heartbeat closes silent sessions. The
  only service with a handler is the login, whose body is decoded, checked against the database on
  the database threads, and answered with a result code.

  How the code is modelled. Each class is a record with the members of the class, in the code's order
  where that matters; each member function is one definition, with the code's guards and early returns in
  their order. Machine integers are words of their width. Errors are values: options, sums, or an
  \<open>error option\<close> beside the state that an exception leaves behind. A coroutine is cut at its suspensions; the turn between
  two of them is a definition, and an \<open>inductive\<close> step relation interleaves the turns with other threads,
  the peer and the operating system. Loops are structural recursion, or carry a termination proof; the only
  fuel is in \<open>bt_foreach_pop_fuel\<close> (the slots of the ring, which \<open>foreach_pop_ends\<close> shows to be
  enough). Three loops of the formatting library are \<open>partial_function (option)\<close>: the count of leading zeros, which does not
  end for 0 (\<open>countl_zero_fallback_correct\<close>), and the two loops over the groups of digits, which end for every locale
  (\<open>grouping_ends\<close>). Code that is not in the repository (SOCI, Boost.Asio, Boost.Endian, the clock, the
  terminal, the file system's failures) is a parameter.

  The theories, in the order of their imports.

  \<^item> \<open>Zem_Prelude\<close>: types of the machine, big-endian numbers, words without wrap-around, lists.
  \<^item> \<open>Byte_Codec\<close>: \<^verbatim>\<open>Protocol/Common/ByteCodec.hpp\<close>, reader and writer with every overload. The locale
    \<open>wire_field\<close> is what a field promises (what was written is read back, nothing more is consumed);
    \<open>field_pair\<close> composes two. Round trips, bounds of every index.
  \<^item> \<open>Protocol\<close>: \<^verbatim>\<open>Protocol.hpp\<close>, \<^verbatim>\<open>WireTypes.hpp\<close>, \<^verbatim>\<open>ApiVersion.hpp\<close>, \<^verbatim>\<open>Limits.hpp\<close>: services, versions,
    limits, the frame header.
  \<^item> \<open>Login_Codec\<close>: \<^verbatim>\<open>LoginCodec.cpp\<close> of both layers; the decoder accepts exactly what a client can write.
  \<^item> \<open>Account_Repository\<close>: \<^verbatim>\<open>PostgresAccountRepository.cpp\<close>, \<^verbatim>\<open>PostgresRepositoryFactory.cpp\<close>. The calls made on
    the pool are a trace; leases are given back.
  \<^item> \<open>Login_Flow\<close>: \<^verbatim>\<open>LoginUseCase.cpp\<close>, \<^verbatim>\<open>LoginHandler.cpp\<close>, the handler table of \<^verbatim>\<open>TCPServer.cpp\<close>. The
    locale \<open>login_port\<close> is the use case as the handler sees it.
  \<^item> \<open>Session_State\<close>, \<open>Session_Loops\<close>: \<^verbatim>\<open>TCPSession.hpp\<close>, \<^verbatim>\<open>TCPSession.cpp\<close>: the write side, then the turns of the
    coroutines \<^verbatim>\<open>ReadLoop\<close> and \<^verbatim>\<open>Heartbeat\<close>. The locale \<open>connection\<close> is \<^verbatim>\<open>IConnection\<close>.
  \<^item> \<open>Session_System\<close>: the step relation of a session and the invariants of its reachable states;
    \<open>Session_Props\<close>: what is on the wire and what reaches a handler; \<open>Session_Liveness\<close>: closing,
    heartbeat, a login from end to end, and the reader that is left behind.
  \<^item> \<open>Tcp_Server\<close>: \<^verbatim>\<open>Base/Server.hpp\<close>, generic in the session as the template is; the locale \<open>managed_session\<close> is what
    it needs of one, interpreted on the session model.
  \<^item> \<open>Decimal_Text\<close>, \<open>App_Context\<close>: decimal numbers and \<^verbatim>\<open>strtoul\<close>; \<^verbatim>\<open>AppContext.cpp\<close> and \<^verbatim>\<open>Main.cpp\<close> with
    their settings and the order in which parts are made and destroyed.
  \<^item> \<open>Log_Queue\<close>, \<open>Log_Blocking_Queue\<close>: \<^verbatim>\<open>details/circular_q.h\<close>, shown to be a list that forgets (locale
    \<open>bounded_fifo\<close>), and \<^verbatim>\<open>details/mpmc_blocking_q.h\<close> with its waiting threads.
  \<^item> \<open>Log_Core\<close>, \<open>Log_Logger\<close>, \<open>Log_Pool\<close>, \<open>Log_Registry\<close>: levels, messages and back-trace; the logger
    (\<^verbatim>\<open>logger-inl.h\<close>); the thread pool of asynchronous loggers (\<^verbatim>\<open>thread_pool-inl.h\<close>); the registry with the default logger and the
    level settings (\<^verbatim>\<open>registry-inl.h\<close>, \<^verbatim>\<open>cfg/helpers-inl.h\<close>). Loggers are objects of a store.
  \<^item> \<open>Log_Fmt\<close>, \<open>Log_Flags\<close>, \<open>Log_Pattern\<close>: the helpers, the flags and the compiler of
    \<^verbatim>\<open>pattern_formatter-inl.h\<close>. \<open>Log_Pattern_Spec\<close> says what each flag prints, \<open>Log_Pattern_Compile\<close> that a
    written pattern is compiled back, \<open>Log_Pattern_History\<close> that the caches are invisible.
  \<^item> \<open>Fmt_Specs\<close>: the specification of a field in the bundled fmt library (\<^verbatim>\<open>fmt/bundled/base.h\<close>), packed into one word;
    the locale \<open>word_field\<close> is a bit field, and the word refines a record under any sequence of setters. \<open>Fmt_Parse\<close>: the parser
    of format strings over a handler (a record of functions, the template parameter of the code).
  \<^item> \<open>Fmt_Digits\<close>, \<open>Fmt_Utf8\<close>, \<open>Fmt_Escape\<close>, \<open>Fmt_Write\<close> (\<^verbatim>\<open>fmt/bundled/format.h\<close>, \<^verbatim>\<open>format-inl.h\<close>): counting and printing digits,
    the decoder of UTF-8 and the loop over code points, the tables of printable characters and escapes, and the writers of
    integers, texts, characters and pointers with their padding. Writing outside of a buffer and reading outside of a table are
    values of the model, and do not occur.
  \<^item> \<open>Fmt_Format\<close>, \<open>Fmt_Checked\<close>, \<open>Fmt_Plain\<close>: the handler that formats and the handler that checks a format string at compile time. The
    locale \<open>fmt_simulation\<close> says when one handler follows another; its interpretation on these two shows that
    an accepted call does not fail because of its format string. Plain fields are filled in order.
  \<^item> \<open>Fmt_Chrono\<close> (\<^verbatim>\<open>fmt/bundled/chrono.h\<close>): the parser of specifications of dates and times over a handler of items, the handlers
    that check one, the writer of broken-down times and their formatter. \<open>Fmt_Chrono_Spec\<close>: the writer of three numbers in one
    machine word prints their digits.
  \<^item> \<open>App_Messages\<close>: every call on the logger in the program's own files, with the text it logs.
  \<^item> \<open>Log_File\<close>, \<open>Log_Rotating\<close>: \<^verbatim>\<open>file_helper-inl.h\<close> and \<^verbatim>\<open>rotating_file_sink-inl.h\<close> on a disk whose calls may
    fail (\<open>os_outcome\<close>), with its directories; the locale \<open>file_names\<close> is what the rotation needs of \<open>calc_filename\<close>.
    \<open>Log_Rotating_Spec\<close>: the sink refines \<open>rot_put\<close> on lists of files when the calls succeed, what it keeps of the log
    (\<open>kept\<close>), and what a failed reopening leaves; the locale \<open>steady_formatter\<close> is what it
    needs of a formatter.
  \<^item> \<open>Log_Daily\<close>, \<open>Log_Daily_Spec\<close>: \<^verbatim>\<open>daily_file_sink.h\<close> and \<^verbatim>\<open>hourly_file_sink.h\<close> on the same disk, and the
    files they keep.
  \<^item> \<open>Log_Sinks\<close>: the colour console sink, the distribution sink and the filter of repeated messages.
  \<^item> \<open>Log_Line_Sinks\<close>: the base classes of the sinks and those that write each message as it is formatted to a file, a standard
    stream, a C++ stream or the system log. The locale \<open>line_sink\<close> is what the first three promise: the lines stand behind each
    other.
  \<^item> \<open>Log_Net\<close>: \<^verbatim>\<open>tcp_client.h\<close>, \<^verbatim>\<open>udp_client.h\<close> and their sinks on a network whose calls may fail: no socket is lost, and
    what the peers get.
  \<^item> \<open>Log_Hex\<close>: \<^verbatim>\<open>fmt/bin_to_hex.h\<close>; a dump is a text of lines, and the bytes can be read back from it.
  \<^item> \<open>App_Logging\<close>: the program on the logging library: \<^verbatim>\<open>InitLogger\<close> on the registry, the lines of the log, the
    log files, the console, and the report of errors in \<^verbatim>\<open>main\<close>.

  Bounds. Sizes and lengths are below \<open>2 ^ 64\<close> where the code computes with \<^verbatim>\<open>size_t\<close>, which the theorems state as a
  hypothesis; the limits of frames, batches and queues are the constants of the code. The properties on
  times suppose a broken-down time within its ranges (\<open>tm_ok\<close>) and messages later than ten
  seconds after the epoch, when the caches of the formatter are not taken for filled.

  Not modelled: the base class \<^verbatim>\<open>Base/Session.hpp\<close> (overridden and not called), the random generator (every
  jitter it can give is covered), the unused \<^verbatim>\<open>ReceivingCommand\<close>, socket options, the name of the
  log file, the tests and the build. Of spdlog: in the bundled fmt library floating-point numbers, integers of 128 bits, wide characters, durations and time points by a
  specification, ranges, colours and \<^verbatim>\<open>printf\<close>; the build formats with \<^verbatim>\<open>std::format\<close>, whose format strings that library implements and is the
  readable definition of. System calls on terminals and the branches for other systems, exceptions of the sinks behind a distribution sink,
  and the sinks for databases, journals, consoles of other systems and desktop libraries.
\<close>

end
